(* ===== verification/Prelude.thy ===== *)
theory Prelude
  imports Main "HOL-Library.AList" "HOL-Library.Multiset"
begin

text \<open>
  Shared vocabulary of the development.

  JavaScript's \<open>Map\<close> and \<open>Set\<close> iterate in insertion order, and the server relies on it
  (which card a validator reports, which queue entry is visited first). A \<open>Map\<close> is modelled
  as an association list with pairwise different keys: \<open>set\<close> overwrites in place or appends at
  the end (\<open>AList.update\<close>), \<open>delete\<close> drops the key (\<open>AList.delete\<close>), \<open>get\<close> is \<open>map_of\<close>. A
  \<open>Set\<close> is a list to which an absent element is appended.
\<close>

named_theorems js_simps "rewrite rules for the JavaScript containers"

type_synonym ('k, 'v) js_map = "('k \<times> 'v) list"

abbreviation map_get :: "('k, 'v) js_map \<Rightarrow> 'k \<Rightarrow> 'v option" where
  "map_get \<equiv> map_of"

abbreviation map_put :: "'k \<Rightarrow> 'v \<Rightarrow> ('k, 'v) js_map \<Rightarrow> ('k, 'v) js_map" where
  "map_put \<equiv> AList.update"

abbreviation map_del :: "'k \<Rightarrow> ('k, 'v) js_map \<Rightarrow> ('k, 'v) js_map" where
  "map_del \<equiv> AList.delete"

abbreviation map_keys :: "('k, 'v) js_map \<Rightarrow> 'k list" where
  "map_keys m \<equiv> map fst m"

definition map_ok :: "('k, 'v) js_map \<Rightarrow> bool" where
  "map_ok m = distinct (map_keys m)"

definition get_or :: "'v \<Rightarrow> ('k, 'v) js_map \<Rightarrow> 'k \<Rightarrow> 'v" where
  "get_or d m k = (case map_get m k of None \<Rightarrow> d | Some v \<Rightarrow> v)"

definition set_add :: "'a \<Rightarrow> 'a list \<Rightarrow> 'a list" where
  "set_add x xs = (if x \<in> set xs then xs else xs @ [x])"

subsection \<open>The laws of an insertion-ordered map\<close>

locale insertion_map =
  fixes look :: "'m \<Rightarrow> 'k \<Rightarrow> 'v option"
    and put :: "'k \<Rightarrow> 'v \<Rightarrow> 'm \<Rightarrow> 'm"
    and del :: "'k \<Rightarrow> 'm \<Rightarrow> 'm"
    and keys :: "'m \<Rightarrow> 'k list"
    and ok :: "'m \<Rightarrow> bool"
  assumes look_put: "look (put k v m) = (look m)(k \<mapsto> v)"
    and look_del: "look (del k m) = (look m)(k := None)"
    and keys_put: "keys (put k v m) = (if k \<in> set (keys m) then keys m else keys m @ [k])"
    and keys_del: "keys (del k m) = removeAll k (keys m)"
    and keys_look: "k \<in> set (keys m) \<longleftrightarrow> look m k \<noteq> None"
    and ok_keys: "ok m \<longleftrightarrow> distinct (keys m)"
begin

lemmas look_simps = look_put look_del

lemma ok_put: "ok m \<Longrightarrow> ok (put k v m)"
  by (simp add: ok_keys keys_put)

lemma ok_del: "ok m \<Longrightarrow> ok (del k m)"
  by (simp add: ok_keys keys_del distinct_removeAll)

lemma put_fresh_appends: "look m k = None \<Longrightarrow> keys (put k v m) = keys m @ [k]"
  using keys_look [of k m] by (simp add: keys_put)

lemma put_known_keeps_order: "look m k = Some w \<Longrightarrow> keys (put k v m) = keys m"
  using keys_look [of k m] by (simp add: keys_put)

lemma del_forgets: "look (del k m) k = None \<and> k \<notin> set (keys (del k m))"
  by (simp add: look_del keys_del)

lemma del_shorter: "look m k = Some v \<Longrightarrow> ok m \<Longrightarrow> length (keys (del k m)) < length (keys m)"
  using keys_look [of k m] by (simp add: keys_del length_removeAll_less)

end

interpretation jsm: insertion_map map_of AList.update AList.delete map_keys map_ok
  by unfold_locales
    (auto simp: AList.update_conv' AList.delete_conv' AList.update_keys AList.delete_keys
      map_ok_def map_of_eq_None_iff)

declare jsm.ok_put [simp, intro] jsm.ok_del [simp, intro]
lemmas [js_simps] = AList.update_conv' AList.delete_conv' get_or_def

lemma map_ok_Nil [simp]: "map_ok []"
  by (simp add: map_ok_def)

lemma map_of_mem: "map_get m k = Some v \<Longrightarrow> (k, v) \<in> set m"
  by (rule map_of_SomeD)

lemma map_ok_mem: "map_ok m \<Longrightarrow> (k, v) \<in> set m \<Longrightarrow> map_get m k = Some v"
  by (simp add: map_ok_def map_of_is_SomeI)

lemma get_or_put: "get_or d (map_put k v m) k' = (if k' = k then v else get_or d m k')"
  by (simp add: js_simps)

subsection \<open>Counting with a map\<close>

text \<open>The idiom \<open>m.set(k, (m.get(k) ?? 0) + 1)\<close>.\<close>

definition js_incr :: "'k \<Rightarrow> ('k, nat) js_map \<Rightarrow> ('k, nat) js_map" where
  "js_incr k m = map_put k (get_or 0 m k + 1) m"

definition js_tally :: "'k list \<Rightarrow> ('k, nat) js_map" where
  "js_tally ks = fold js_incr ks []"

lemma get_or_incr: "get_or 0 (js_incr k m) x = get_or 0 m x + (if x = k then 1 else 0)"
  by (simp add: js_incr_def js_simps)

lemma get_or_fold_incr: "get_or 0 (fold js_incr ks m) x = get_or 0 m x + count_list ks x"
  by (induction ks arbitrary: m) (auto simp: get_or_incr)

lemma get_or_tally: "get_or 0 (js_tally ks) x = count_list ks x"
  by (simp add: js_tally_def get_or_fold_incr) (simp add: js_simps)

lemma map_ok_fold_incr: "map_ok m \<Longrightarrow> map_ok (fold js_incr ks m)"
  by (induction ks arbitrary: m) (auto simp: js_incr_def)

lemma map_ok_tally [simp]: "map_ok (js_tally ks)"
  by (simp add: js_tally_def map_ok_fold_incr)

lemma keys_fold_incr: "set (map_keys (fold js_incr ks m)) = set (map_keys m) \<union> set ks"
  by (induction ks arbitrary: m) (auto simp: js_incr_def AList.dom_update)

lemma keys_tally: "set (map_keys (js_tally ks)) = set ks"
  using keys_fold_incr [of ks "[]"] by (simp add: js_tally_def)

lemma tally_look: "map_get (js_tally ks) x = (if x \<in> set ks then Some (count_list ks x) else None)"
proof (cases "map_get (js_tally ks) x")
  case None
  then have "x \<notin> fst ` set (js_tally ks)"
    by (simp add: map_of_eq_None_iff)
  then show ?thesis
    using None keys_tally [of ks] by simp
next
  case (Some n)
  then have "x \<in> set ks"
    using keys_tally [of ks] map_of_mem [OF Some] by force
  then show ?thesis
    using Some get_or_tally [of ks x] by (simp add: get_or_def)
qed

subsection \<open>Lists\<close>

lemma find_SomeD: "find P xs = Some x \<Longrightarrow> x \<in> set xs \<and> P x"
  by (induction xs) (auto split: if_splits)

lemma find_NoneD: "find P xs = None \<Longrightarrow> x \<in> set xs \<Longrightarrow> \<not> P x"
  by (auto simp: find_None_iff)

lemma find_distinct_key:
  "distinct (map f xs) \<Longrightarrow> x \<in> set xs \<Longrightarrow> find (\<lambda>y. f y = f x) xs = Some x"
  by (induction xs) (auto simp: image_iff)

lemma distinct_map_filter: "distinct (map f xs) \<Longrightarrow> distinct (map f (filter P xs))"
  by (induction xs) auto

lemma count_list_mset: "count_list xs x = count (mset xs) x"
  by (induction xs) auto

lemma filter_key_other: "k \<notin> f ` set xs \<Longrightarrow> filter (\<lambda>x. f x \<noteq> k) xs = xs"
  by (induction xs) auto

lemma find_key_None: "find (\<lambda>x. f x = k) xs = None \<longleftrightarrow> k \<notin> f ` set xs"
  by (induction xs) auto

lemma sub_mset_distinct:
  assumes "mset xs \<subseteq># mset ys" and "distinct ys"
  shows "distinct xs"
proof -
  have "count (mset xs) a \<le> (if a \<in> set ys then 1 else 0)" for a
    using mset_subset_eq_count [OF assms(1), of a] assms(2) by (simp add: distinct_count_atmost_1)
  then have "count (mset xs) a \<le> 1" for a
    by (rule order_trans) simp
  then show ?thesis
    by (auto simp: distinct_count_atmost_1 le_Suc_eq count_eq_zero_iff)
qed

subsection \<open>Steps that may throw\<close>

definition sum_bind :: "'e + 'a \<Rightarrow> ('a \<Rightarrow> 'e + 'b) \<Rightarrow> 'e + 'b" where
  "sum_bind r f = (case r of Inl e \<Rightarrow> Inl e | Inr a \<Rightarrow> f a)"

lemma sum_bind_simps [simp]: "sum_bind (Inl e) f = Inl e" "sum_bind (Inr a) f = f a"
  by (simp_all add: sum_bind_def)

lemma sum_bind_Inr: "sum_bind r f = Inr b \<longleftrightarrow> (\<exists>a. r = Inr a \<and> f a = Inr b)"
  by (cases r) auto

text \<open>A loop over a list whose body may throw.\<close>

fun fold_e :: "('x \<Rightarrow> 's \<Rightarrow> 'e + 's) \<Rightarrow> 'x list \<Rightarrow> 's \<Rightarrow> 'e + 's" where
  "fold_e f [] s = Inr s"
| "fold_e f (x # xs) s = sum_bind (f x s) (fold_e f xs)"

text \<open>A loop body that succeeds and keeps an invariant makes a loop that does.\<close>

lemma fold_e_inv:
  assumes "I s" and "\<And>x s. x \<in> set xs \<Longrightarrow> I s \<Longrightarrow> \<exists>s'. f x s = Inr s' \<and> I s'"
  shows "\<exists>s'. fold_e f xs s = Inr s' \<and> I s'"
  using assms
proof (induction xs arbitrary: s)
  case (Cons x xs)
  obtain s' where "f x s = Inr s'" "I s'"
    using Cons.prems by force
  then show ?case
    using Cons by simp
qed simp

lemma fold_inv: "I s \<Longrightarrow> (\<And>x s. x \<in> set xs \<Longrightarrow> I s \<Longrightarrow> I (f x s)) \<Longrightarrow> I (fold f xs s)"
  by (induction xs arbitrary: s) auto

end
