(* ===== verification/MatchScore.thy ===== *)
theory MatchScore
  imports Prelude
begin

text \<open>
  The score of a match (\<open>src/shared/room/domain/match/domain/Match.ts\<close>), the life points and
  turn counter of one duel (\<open>src/shared/room/Duel.ts\<close>) and the totals of a player
  (\<open>src/shared/player/domain/Player.ts\<close>). Teams are the numbers 0 and 1; a winner of 2 is a
  drawn duel. \<open>null\<close> and \<open>undefined\<close> connection data are both \<open>None\<close>.
\<close>

subsection \<open>Records of the match\<close>

datatype game_result = Winner | Loser | Deuce

record game =
  result :: game_result
  turns :: int
  ipAddress :: "string option"
  client :: "string option"

record player_connection =
  conn_name :: string
  conn_ip :: "string option"
  conn_client :: "string option"

record match_player =
  player_id :: "string option"
  player_name :: string
  player_team :: nat
  games :: "game list"

record match_state =
  playerScore :: nat
  opponentScore :: nat
  bestOf :: nat
  needWins :: nat
  match_players :: "match_player list"

record player_data =
  data_player :: match_player
  data_winner :: bool
  data_score :: nat

definition DRAW :: nat where "DRAW = 2"

text \<open>\<open>Math.ceil(bestOf / 2)\<close>.\<close>

definition new_match :: "nat \<Rightarrow> match_state" where
  "new_match n = \<lparr>playerScore = 0, opponentScore = 0, bestOf = n, needWins = (n + 1) div 2,
     match_players = []\<rparr>"

definition initializeHistoricalData :: "match_player list \<Rightarrow> match_state \<Rightarrow> match_state" where
  "initializeHistoricalData ps m = m\<lparr>match_players := map (\<lambda>p. p\<lparr>games := []\<rparr>) ps\<rparr>"

definition isFinished :: "match_state \<Rightarrow> bool" where
  "isFinished m \<longleftrightarrow> opponentScore m \<ge> needWins m \<or> playerScore m \<ge> needWins m"

definition record_game ::
  "nat \<Rightarrow> int \<Rightarrow> player_connection list \<Rightarrow> match_player \<Rightarrow> match_player" where
  "record_game winner t ips p =
     (let c = find (\<lambda>d. conn_name d = player_name p) ips;
          ip = (case c of None \<Rightarrow> None | Some d \<Rightarrow> conn_ip d);
          cl = (case c of None \<Rightarrow> None | Some d \<Rightarrow> conn_client d);
          r = (if winner = DRAW then Deuce else if player_team p = winner then Winner else Loser)
      in p\<lparr>games := games p @ [\<lparr>result = r, turns = t, ipAddress = ip, client = cl\<rparr>]\<rparr>)"

definition duelWinner ::
  "nat \<Rightarrow> int \<Rightarrow> player_connection list \<Rightarrow> match_state \<Rightarrow> match_state" where
  "duelWinner winner t ips m =
     (let m1 = m\<lparr>match_players := map (record_game winner t ips) (match_players m)\<rparr>
      in if isFinished m1 then m1
         else if winner = DRAW then m1
         else if winner = 0 then m1\<lparr>playerScore := playerScore m1 + 1\<rparr>
         else m1\<lparr>opponentScore := opponentScore m1 + 1\<rparr>)"

lemma duelWinner_bestOf [simp]: "bestOf (duelWinner w t ips m) = bestOf m"
  by (simp add: duelWinner_def Let_def)

lemma duelWinner_needWins [simp]: "needWins (duelWinner w t ips m) = needWins m"
  by (simp add: duelWinner_def Let_def)

function forfeit_loop ::
  "nat \<Rightarrow> player_connection list \<Rightarrow> nat \<Rightarrow> match_state \<Rightarrow> nat \<times> match_state" where
  "forfeit_loop w ips awarded m =
     (if \<not> isFinished m \<and> awarded < bestOf m
      then forfeit_loop w ips (Suc awarded) (duelWinner w 0 ips m)
      else (awarded, m))"
  by pat_completeness auto
termination
  by (relation "measure (\<lambda>(w, ips, awarded, m). bestOf m - awarded)") auto

declare forfeit_loop.simps [simp del]

definition forfeit :: "nat \<Rightarrow> player_connection list \<Rightarrow> match_state \<Rightarrow> nat \<times> match_state" where
  "forfeit w ips m = forfeit_loop w ips 0 m"

definition match_winner :: "match_state \<Rightarrow> nat" where
  "match_winner m = (if playerScore m > opponentScore m then 0 else 1)"

definition playersHistory :: "match_state \<Rightarrow> player_data list" where
  "playersHistory m =
     map (\<lambda>p. \<lparr>data_player = p, data_winner = (match_winner m = player_team p),
                data_score = (if player_team p = 0 then playerScore m else opponentScore m)\<rparr>)
       (match_players m)"

definition isFirstDuel :: "match_state \<Rightarrow> bool" where
  "isFirstDuel m \<longleftrightarrow> playerScore m = 0 \<and> opponentScore m = 0"

definition hasPlayedAnyDuel :: "match_state \<Rightarrow> bool" where
  "hasPlayedAnyDuel m \<longleftrightarrow> (\<exists>p \<in> set (match_players m). games p \<noteq> [])"

subsection \<open>Totals of a player\<close>

definition wins :: "match_player \<Rightarrow> nat" where
  "wins p = length (filter (\<lambda>g. result g = Winner) (games p))"

definition losses :: "match_player \<Rightarrow> nat" where
  "losses p = length (filter (\<lambda>g. result g = Loser) (games p))"

definition calculateMatchPoints :: "match_player \<Rightarrow> int" where
  "calculateMatchPoints p = int (wins p) - int (losses p)"

definition last_client :: "match_player \<Rightarrow> string option" where
  "last_client p = (if games p = [] then None else client (last (games p)))"

subsection \<open>One duel: life points and turns\<close>

record duel =
  duel_id :: string
  duel_turn :: int
  lps :: "int \<times> int"
  banListName :: string
  duel_finished :: bool

definition new_duel :: "string \<Rightarrow> int \<Rightarrow> int \<times> int \<Rightarrow> string option \<Rightarrow> duel" where
  "new_duel i t l b = \<lparr>duel_id = i, duel_turn = t, lps = l,
     banListName = (case b of None \<Rightarrow> ''N/A'' | Some n \<Rightarrow> n), duel_finished = False\<rparr>"

definition increaseTurn :: "duel \<Rightarrow> duel" where
  "increaseTurn d = d\<lparr>duel_turn := duel_turn d + 1\<rparr>"

definition floor_zero :: "int \<Rightarrow> int" where
  "floor_zero x = (if x \<le> 0 then 0 else x)"

definition decreaseLps :: "nat \<Rightarrow> int \<Rightarrow> duel \<Rightarrow> duel" where
  "decreaseLps team v d =
     (if team = 0 then d\<lparr>lps := (floor_zero (fst (lps d) - v), snd (lps d))\<rparr>
      else if team = 1 then d\<lparr>lps := (fst (lps d), floor_zero (snd (lps d) - v))\<rparr>
      else d)"

definition increaseLps :: "nat \<Rightarrow> int \<Rightarrow> duel \<Rightarrow> duel" where
  "increaseLps team v d =
     (if team = 0 then d\<lparr>lps := (fst (lps d) + v, snd (lps d))\<rparr>
      else if team = 1 then d\<lparr>lps := (fst (lps d), snd (lps d) + v)\<rparr>
      else d)"

definition finish_duel :: "duel \<Rightarrow> duel" where
  "finish_duel d = d\<lparr>duel_finished := True\<rparr>"

text \<open>The life-point events the engine reports during a duel, and their effect.\<close>

datatype lp_event = Damage nat int | Recover nat int

fun apply_lp :: "lp_event \<Rightarrow> duel \<Rightarrow> duel" where
  "apply_lp (Damage team v) d = decreaseLps team v d"
| "apply_lp (Recover team v) d = increaseLps team v d"

fun lp_amount :: "lp_event \<Rightarrow> int" where
  "lp_amount (Damage _ v) = v"
| "lp_amount (Recover _ v) = v"

definition lps_ok :: "duel \<Rightarrow> bool" where
  "lps_ok d \<longleftrightarrow> 0 \<le> fst (lps d) \<and> 0 \<le> snd (lps d)"

lemma apply_lp_ok: "lps_ok d \<Longrightarrow> 0 \<le> lp_amount e \<Longrightarrow> lps_ok (apply_lp e d)"
  by (cases e) (auto simp: lps_ok_def decreaseLps_def increaseLps_def floor_zero_def)

lemma fold_lp_ok:
  "lps_ok d \<Longrightarrow> \<forall>e \<in> set es. 0 \<le> lp_amount e \<Longrightarrow> lps_ok (fold apply_lp es d)"
  by (induction es arbitrary: d) (auto simp: apply_lp_ok)

subsection \<open>Matches reached by playing duels\<close>

inductive match_run :: "nat \<Rightarrow> match_player list \<Rightarrow> match_state \<Rightarrow> bool" for n ps where
  start: "match_run n ps (initializeHistoricalData ps (new_match n))"
| played: "match_run n ps m \<Longrightarrow> \<not> isFinished m \<Longrightarrow> w \<le> DRAW \<Longrightarrow> match_run n ps (duelWinner w t ips m)"

definition tally_ok :: "match_state \<Rightarrow> match_player \<Rightarrow> bool" where
  "tally_ok m p \<longleftrightarrow>
     (player_team p = 0 \<longrightarrow> wins p = playerScore m \<and> losses p = opponentScore m) \<and>
     (player_team p = 1 \<longrightarrow> wins p = opponentScore m \<and> losses p = playerScore m)"

definition score_ok :: "match_state \<Rightarrow> bool" where
  "score_ok m \<longleftrightarrow> needWins m = (bestOf m + 1) div 2 \<and>
     playerScore m \<le> needWins m \<and> opponentScore m \<le> needWins m \<and>
     (needWins m > 0 \<longrightarrow> playerScore m + opponentScore m < 2 * needWins m)"

lemma score_ok_new: "score_ok (new_match n)"
  by (simp add: score_ok_def new_match_def)

lemma score_ok_init [simp]: "score_ok (initializeHistoricalData ps m) = score_ok m"
  by (simp add: score_ok_def initializeHistoricalData_def)

lemma score_ok_duelWinner: "score_ok m \<Longrightarrow> score_ok (duelWinner w t ips m)"
  by (auto simp: score_ok_def duelWinner_def isFinished_def Let_def)

lemma tally_record:
  "tally_ok m p \<Longrightarrow> \<not> isFinished m \<Longrightarrow> w \<le> DRAW \<Longrightarrow>
   tally_ok (duelWinner w t ips m) (record_game w t ips p)"
  by (auto simp: tally_ok_def duelWinner_def record_game_def Let_def wins_def losses_def
      isFinished_def DRAW_def le_Suc_eq numeral_2_eq_2)

lemma duelWinner_players:
  "match_players (duelWinner w t ips m) = map (record_game w t ips) (match_players m)"
  by (simp add: duelWinner_def Let_def)

lemma match_run_invariant:
  "match_run n ps m \<Longrightarrow> bestOf m = n \<and> score_ok m \<and> (\<forall>p \<in> set (match_players m). tally_ok m p)"
proof (induction rule: match_run.induct)
  case start
  then show ?case
    by (simp add: score_ok_new)
      (auto simp: initializeHistoricalData_def new_match_def tally_ok_def wins_def losses_def)
next
  case (played m w t ips)
  then show ?case
    by (auto simp: duelWinner_players tally_record score_ok_duelWinner)
qed

subsection \<open>Awarding a match\<close>

definition side_score :: "nat \<Rightarrow> match_state \<Rightarrow> nat" where
  "side_score w m = (if w = 0 then playerScore m else opponentScore m)"

lemma duelWinner_side:
  "\<not> isFinished m \<Longrightarrow> w \<noteq> DRAW \<Longrightarrow> side_score w (duelWinner w t ips m) = Suc (side_score w m)"
  by (simp add: side_score_def duelWinner_def isFinished_def Let_def)

lemma duelWinner_other_side:
  "w \<noteq> DRAW \<Longrightarrow> (w = 0) \<noteq> (v = 0) \<Longrightarrow> side_score v (duelWinner w t ips m) = side_score v m"
  by (auto simp: side_score_def duelWinner_def Let_def)

lemma forfeit_loop_decides:
  assumes "score_ok m" and "w \<noteq> DRAW" and "needWins m \<le> awarded + bestOf m"
    and "bestOf m - awarded \<ge> needWins m - side_score w m"
  shows "isFinished (snd (forfeit_loop w ips awarded m)) \<and>
    (\<not> isFinished m \<longrightarrow>
       fst (forfeit_loop w ips awarded m) = awarded + (needWins m - side_score w m) \<and>
       side_score w (snd (forfeit_loop w ips awarded m)) = needWins m)"
  using assms
proof (induction w ips awarded m rule: forfeit_loop.induct)
  case (1 w ips awarded m)
  have le: "side_score w m \<le> needWins m"
    using "1.prems"(1) by (simp add: score_ok_def side_score_def)
  show ?case
  proof (cases "isFinished m")
    case True
    then show ?thesis by (simp add: forfeit_loop.simps [of w ips awarded m])
  next
    case False
    then have lt: "side_score w m < needWins m"
      by (simp add: isFinished_def side_score_def)
    let ?m = "duelWinner w 0 ips m"
    have side: "side_score w ?m = Suc (side_score w m)"
      using False "1.prems"(2) by (rule duelWinner_side)
    have guard: "\<not> isFinished m \<and> awarded < bestOf m"
      using False lt "1.prems"(4) by simp
    have other: "isFinished ?m \<longleftrightarrow> side_score w ?m \<ge> needWins m"
      using False "1.prems"(2) by (auto simp: isFinished_def duelWinner_def side_score_def Let_def)
    have IH: "isFinished (snd (forfeit_loop w ips (Suc awarded) ?m)) \<and>
      (\<not> isFinished ?m \<longrightarrow>
         fst (forfeit_loop w ips (Suc awarded) ?m) =
           Suc awarded + (needWins ?m - side_score w ?m) \<and>
         side_score w (snd (forfeit_loop w ips (Suc awarded) ?m)) = needWins ?m)"
      using "1.IH" [OF guard] "1.prems" side lt by (simp add: score_ok_duelWinner)
    show ?thesis
    proof (cases "isFinished ?m")
      case True
      then have "side_score w ?m = needWins m"
        using other side lt by simp
      then show ?thesis
        using True guard side lt
        by (simp add: forfeit_loop.simps [of w ips awarded m]
            forfeit_loop.simps [of w ips "Suc awarded" ?m])
    next
      case False
      then show ?thesis
        using IH guard side lt by (simp add: forfeit_loop.simps [of w ips awarded m])
    qed
  qed
qed

lemma forfeit_loop_run:
  "match_run n ps m \<Longrightarrow> w \<le> DRAW \<Longrightarrow> match_run n ps (snd (forfeit_loop w ips awarded m))"
proof (induction w ips awarded m rule: forfeit_loop.induct)
  case (1 w ips awarded m)
  then show ?case
    by (subst forfeit_loop.simps) (auto intro: match_run.played)
qed

subsection \<open>Properties\<close>

text \<open>C1. In every match reached by playing duels while it is undecided, the match points a
  player is paid (wins minus losses counted off the game records) equal the difference of the
  stored scores seen from that player's side.\<close>

theorem match_points_are_score_difference:
  assumes "match_run n ps m" and "p \<in> set (match_players m)" and "player_team p \<le> 1"
  shows "calculateMatchPoints p =
    (if player_team p = 0 then int (playerScore m) - int (opponentScore m)
     else int (opponentScore m) - int (playerScore m))"
proof -
  have "tally_ok m p"
    using match_run_invariant [OF assms(1)] assms(2) by blast
  then show ?thesis
    using assms(3) by (auto simp: tally_ok_def calculateMatchPoints_def)
qed

definition sample_players :: "match_player list" where
  "sample_players =
     [\<lparr>player_id = None, player_name = ''a'', player_team = 0, games = []\<rparr>,
      \<lparr>player_id = None, player_name = ''b'', player_team = 1, games = []\<rparr>]"

definition sample_match :: match_state where
  "sample_match = duelWinner 1 7 [] (initializeHistoricalData sample_players (new_match 3))"

lemma sample_match_run: "match_run 3 sample_players sample_match"
  unfolding sample_match_def
  by (rule match_run.played [OF match_run.start])
    (simp_all add: isFinished_def initializeHistoricalData_def new_match_def DRAW_def)

theorem match_points_are_score_difference_witness:
  "\<exists>p \<in> set (match_players sample_match). calculateMatchPoints p = -1"
proof -
  let ?p = "hd (match_players sample_match)"
  have mem: "?p \<in> set (match_players sample_match)" and team: "player_team ?p = 0"
    by (simp_all add: sample_match_def duelWinner_players initializeHistoricalData_def
        sample_players_def record_game_def Let_def)
  have score: "playerScore sample_match = 0" "opponentScore sample_match = 1"
    by (simp_all add: sample_match_def duelWinner_def isFinished_def initializeHistoricalData_def
        new_match_def DRAW_def Let_def)
  have "calculateMatchPoints ?p = -1"
    using match_points_are_score_difference [OF sample_match_run mem] team score by simp
  then show ?thesis using mem by blast
qed

text \<open>C2. Awarding the match to a side that has not already lost it always decides it: the loop
  ends, the side holds exactly the wins it needs, the reported number of awarded games is the
  number it was missing, and the result is again a match reached by playing duels (so C1 still
  holds of it).\<close>

theorem forfeit_decides_the_match:
  assumes "match_run n ps m" and "w \<le> 1" and "\<not> isFinished m"
  shows "isFinished (snd (forfeit w ips m)) \<and>
    side_score w (snd (forfeit w ips m)) = needWins m \<and>
    fst (forfeit w ips m) = needWins m - side_score w m \<and>
    match_run n ps (snd (forfeit w ips m))"
proof -
  have ok: "score_ok m" "bestOf m = n"
    using match_run_invariant [OF assms(1)] by auto
  have w: "w \<noteq> DRAW" "w \<le> DRAW"
    using assms(2) by (auto simp: DRAW_def)
  have bound: "needWins m \<le> bestOf m"
    using ok assms(3) by (auto simp: score_ok_def isFinished_def)
  then show ?thesis
    using forfeit_loop_decides [OF ok(1) w(1), of 0 ips] forfeit_loop_run [OF assms(1) w(2)] assms(3)
    by (simp add: forfeit_def)
qed

theorem forfeit_decides_the_match_witness:
  "isFinished (snd (forfeit 0 [] sample_match)) \<and> fst (forfeit 0 [] sample_match) = 2"
proof -
  have unfinished: "\<not> isFinished sample_match" and need: "needWins sample_match - side_score 0 sample_match = 2"
    by (simp_all add: sample_match_def duelWinner_def isFinished_def side_score_def
        initializeHistoricalData_def new_match_def DRAW_def Let_def)
  show ?thesis
    using forfeit_decides_the_match [OF sample_match_run _ unfinished, of 0 "[]"] need by simp
qed

text \<open>Damage and recovery of non-negative amounts never drive the life points of either side
  below zero, whatever their order and whichever team numbers they carry.\<close>

theorem life_points_stay_non_negative:
  assumes "0 \<le> a" and "0 \<le> b" and "\<forall>e \<in> set es. 0 \<le> lp_amount e"
  shows "lps_ok (fold apply_lp es (new_duel i t (a, b) bl))"
  using assms by (intro fold_lp_ok) (simp_all add: lps_ok_def new_duel_def)

theorem life_points_stay_non_negative_witness:
  "lps_ok (fold apply_lp [Damage 0 9000, Recover 1 500] (new_duel ''d'' 0 (8000, 8000) None))"
  by (rule life_points_stay_non_negative) simp_all

end
