(* ===== verification/JsStrings.thy ===== *)
theory JsStrings
  imports Prelude "HOL-Library.Char_ord" "HOL-Library.List_Lexorder"
begin

text \<open>
  The string operations the server uses, on strings of ASCII characters: character classes of
  its regular expressions (\<open>\\d\<close>, \<open>\\s\<close>), \<open>trim\<close>, \<open>toLowerCase\<close>, \<open>split\<close>, \<open>startsWith\<close>,
  \<open>includes\<close>, \<open>padStart\<close>, \<open>Number\<close> and number printing. \<open>Number\<close> is modelled on decimal
  numerals (the only text the server feeds it): \<open>None\<close> stands for \<open>NaN\<close>, and the empty string
  is 0, as in JavaScript. The order on strings is the code-unit order of JavaScript's \<open><\<close>.
\<close>

definition is_digit :: "char \<Rightarrow> bool" where
  "is_digit c \<longleftrightarrow> 48 \<le> (of_char c :: nat) \<and> (of_char c :: nat) \<le> 57"

definition digit_val :: "char \<Rightarrow> nat" where
  "digit_val c = of_char c - 48"

definition is_space :: "char \<Rightarrow> bool" where
  "is_space c \<longleftrightarrow> (of_char c :: nat) \<in> {9, 10, 11, 12, 13, 32}"

definition digits_value :: "string \<Rightarrow> nat" where
  "digits_value s = foldl (\<lambda>n c. 10 * n + digit_val c) 0 s"

definition js_trim :: "string \<Rightarrow> string" where
  "js_trim s = rev (dropWhile is_space (rev (dropWhile is_space s)))"

definition js_Number :: "string \<Rightarrow> nat option" where
  "js_Number s = (let t = js_trim s in
     if t = [] then Some 0 else if list_all is_digit t then Some (digits_value t) else None)"

text \<open>\<open>s.replace(/\\s+/g, r)\<close>: every run of white space becomes \<open>r\<close>.\<close>

fun squeeze :: "string \<Rightarrow> bool \<Rightarrow> string \<Rightarrow> string" where
  "squeeze r inrun [] = []"
| "squeeze r inrun (c # cs) =
     (if is_space c then (if inrun then squeeze r True cs else r @ squeeze r True cs)
      else c # squeeze r False cs)"

definition replace_spaces :: "string \<Rightarrow> string \<Rightarrow> string" where
  "replace_spaces r s = squeeze r False s"

definition lower_char :: "char \<Rightarrow> char" where
  "lower_char c = (let n = (of_char c :: nat) in if 65 \<le> n \<and> n \<le> 90 then char_of (n + 32) else c)"

definition to_lower :: "string \<Rightarrow> string" where
  "to_lower s = map lower_char s"

definition starts_with :: "string \<Rightarrow> string \<Rightarrow> bool" where
  "starts_with p s \<longleftrightarrow> take (length p) s = p"

fun js_includes :: "string \<Rightarrow> string \<Rightarrow> bool" where
  "js_includes p [] = (p = [])"
| "js_includes p (c # cs) = (starts_with p (c # cs) \<or> js_includes p cs)"

fun js_split :: "char \<Rightarrow> string \<Rightarrow> string list" where
  "js_split d [] = [[]]"
| "js_split d (c # cs) =
     (if c = d then [] # js_split d cs
      else (case js_split d cs of [] \<Rightarrow> [[c]] | w # ws \<Rightarrow> (c # w) # ws))"

fun show_nat :: "nat \<Rightarrow> string" where
  "show_nat n = (if n < 10 then [char_of (48 + n)] else show_nat (n div 10) @ [char_of (48 + n mod 10)])"

declare show_nat.simps [simp del]

definition pad2 :: "string \<Rightarrow> string" where
  "pad2 s = replicate (2 - length s) (CHR ''0'') @ s"

lemma is_digit_char_of [simp]: "(n::nat) < 10 \<Longrightarrow> is_digit (char_of (48 + n))"
  by (simp add: is_digit_def)

lemma digit_val_char_of [simp]: "(n::nat) < 10 \<Longrightarrow> digit_val (char_of (48 + n)) = n"
  by (simp add: digit_val_def)

lemma digits_value_snoc: "digits_value (s @ [c]) = 10 * digits_value s + digit_val c"
  by (simp add: digits_value_def)

lemma show_nat_digits: "list_all is_digit (show_nat n)"
proof (induction n rule: show_nat.induct)
  case (1 n)
  then show ?case by (subst show_nat.simps) auto
qed

lemma show_nat_value: "digits_value (show_nat n) = n"
proof (induction n rule: show_nat.induct)
  case (1 n)
  then show ?case
    by (subst show_nat.simps) (auto simp: digits_value_snoc, simp add: digits_value_def)
qed

lemma show_nat_nonempty [simp]: "show_nat n \<noteq> []"
  by (subst show_nat.simps) simp

lemma digit_not_space: "is_digit c \<Longrightarrow> \<not> is_space c"
  by (auto simp: is_digit_def is_space_def)

lemma trim_digits: "list_all is_digit s \<Longrightarrow> js_trim s = s"
proof -
  have drop: "dropWhile is_space xs = xs" if "list_all is_digit xs" for xs
    using that by (cases xs) (auto simp: digit_not_space)
  show "list_all is_digit s \<Longrightarrow> js_trim s = s"
    by (simp add: js_trim_def drop list_all_iff)
qed

lemma Number_show_nat: "js_Number (show_nat n) = Some n"
  by (simp add: js_Number_def trim_digits show_nat_digits show_nat_value)

lemma split_nonempty [simp]: "js_split d s \<noteq> []"
  by (induction s) (auto split: list.splits)

end
