(* ===== verification/BanLists.thy ===== *)
theory BanLists
  imports JsStrings "HOL-Library.Word" "HOL-Library.Product_Lexorder"
begin

unbundle bit_operations_syntax

text \<open>
  Ban lists of both engines: the shared class (\<open>src/shared/ban-list/BanList.ts\<close>), its two
  subclasses with their 32-bit list hashes (\<open>src/edopro/ban-list/domain/BanList.ts\<close>,
  \<open>src/ygopro/ban-list/domain/YGOProBanList.ts\<close>), the \<open>lflist.conf\<close> line parser, the EDOPro
  loader and the in-memory catalog of the YGOPro engine. Card numbers are naturals (they are
  parsed from \<open>\\d+\<close>); a hash is the \<open>int\<close> the JavaScript number holds, signed on the EDOPro
  side (result of \<open>^\<close>) and unsigned after \<open>>>> 0\<close>.
\<close>

subsection \<open>The list and its credit limits\<close>

record credit_limit =
  cap :: nat
  credit_cards :: "(nat, nat) js_map"

record ban_list =
  forbidden :: "nat list"
  limited :: "nat list"
  semiLimited :: "nat list"
  all_listed :: "nat list"
  points :: "(nat, nat) js_map"
  creditLimits :: "(string, credit_limit) js_map"
  list_name :: "string option"
  list_hash :: int
  whitelisted :: bool

record ygopro_ban_list = ban_list +
  list_alias :: "string option"

definition INITIAL_HASH :: int where "INITIAL_HASH = 0x7dfcee6a"

definition empty_ban_list :: ban_list where
  "empty_ban_list = \<lparr>forbidden = [], limited = [], semiLimited = [], all_listed = [], points = [],
     creditLimits = [], list_name = None, list_hash = INITIAL_HASH, whitelisted = False\<rparr>"

definition empty_ygopro_ban_list :: ygopro_ban_list where
  "empty_ygopro_ban_list = \<lparr>forbidden = [], limited = [], semiLimited = [], all_listed = [],
     points = [], creditLimits = [], list_name = None, list_hash = INITIAL_HASH,
     whitelisted = False, list_alias = None\<rparr>"

definition addCreditLimit :: "string \<Rightarrow> nat \<Rightarrow> 'a ban_list_scheme \<Rightarrow> 'a ban_list_scheme" where
  "addCreditLimit i c b =
     b\<lparr>creditLimits := map_put i
        (case map_get (creditLimits b) i of
           Some l \<Rightarrow> \<lparr>cap = c, credit_cards = credit_cards l\<rparr>
         | None \<Rightarrow> \<lparr>cap = c, credit_cards = []\<rparr>) (creditLimits b)\<rparr>"

definition addCreditMember :: "string \<Rightarrow> nat \<Rightarrow> nat \<Rightarrow> 'a ban_list_scheme \<Rightarrow> 'a ban_list_scheme" where
  "addCreditMember i cid credit b =
     (let l = (case map_get (creditLimits b) i of Some l \<Rightarrow> l
               | None \<Rightarrow> \<lparr>cap = 1, credit_cards = []\<rparr>)
      in b\<lparr>creditLimits := map_put i (l\<lparr>credit_cards := map_put cid credit (credit_cards l)\<rparr>)
             (creditLimits b)\<rparr>)"

definition whileListed :: "'a ban_list_scheme \<Rightarrow> 'a ban_list_scheme" where
  "whileListed b = b\<lparr>whitelisted := True\<rparr>"

definition isGenesys :: "'a ban_list_scheme \<Rightarrow> bool" where
  "isGenesys b \<longleftrightarrow> list_name b = Some ''Genesys''"

subsection \<open>Normalised names\<close>

definition is_date_sep :: "char \<Rightarrow> bool" where
  "is_date_sep c \<longleftrightarrow> c = CHR ''.'' \<or> c = CHR ''-'' \<or> c = CHR ''/''"

text \<open>\<open>(?:\\s+(.+))?$\<close> on a string whose white space is already squeezed.\<close>

definition opt_suffix :: "string \<Rightarrow> string option option" where
  "opt_suffix s = (case s of [] \<Rightarrow> Some None
     | c # cs \<Rightarrow> if is_space c \<and> cs \<noteq> [] then Some (Some cs) else None)"

definition match_year :: "string \<Rightarrow> (nat \<times> string) option" where
  "match_year s = (let y = takeWhile is_digit s in
     case dropWhile is_digit s of [] \<Rightarrow> None
     | c # r \<Rightarrow> if length y = 4 \<and> is_date_sep c then Some (digits_value y, r) else None)"

definition match_ym :: "string \<Rightarrow> (nat \<times> nat \<times> string option) option" where
  "match_ym s = (case match_year s of None \<Rightarrow> None
     | Some (y, r) \<Rightarrow>
         (let m = takeWhile is_digit r in
          if 1 \<le> length m \<and> length m \<le> 2 then
            (case opt_suffix (dropWhile is_digit r) of None \<Rightarrow> None
             | Some sfx \<Rightarrow> Some (y, digits_value m, sfx))
          else None))"

definition match_ymd :: "string \<Rightarrow> (nat \<times> nat \<times> nat \<times> string option) option" where
  "match_ymd s = (case match_year s of None \<Rightarrow> None
     | Some (y, r) \<Rightarrow>
         (let m = takeWhile is_digit r in
          if 1 \<le> length m \<and> length m \<le> 2 then
            (case dropWhile is_digit r of [] \<Rightarrow> None
             | c # r2 \<Rightarrow>
                 (let d = takeWhile is_digit r2 in
                  if is_date_sep c \<and> 1 \<le> length d \<and> length d \<le> 2 then
                    (case opt_suffix (dropWhile is_digit r2) of None \<Rightarrow> None
                     | Some sfx \<Rightarrow> Some (y, digits_value m, digits_value d, sfx))
                  else None))
          else None))"

definition clean_suffix :: "string option \<Rightarrow> string" where
  "clean_suffix sfx = (case sfx of None \<Rightarrow> [] | Some n \<Rightarrow> replace_spaces '' '' (js_trim n))"

definition normalizeName :: "string \<Rightarrow> string option" where
  "normalizeName raw =
     (if raw = [] then None else
      let s = js_trim (dropWhile (\<lambda>c. c = CHR ''!'') raw) in
      if s = [] then None else
      let compact = replace_spaces '' '' s in
      case match_ymd compact of
        Some (y, m, d, sfx) \<Rightarrow>
          (if y < 1900 \<or> y > 3000 then None
           else if m < 1 \<or> m > 12 then None
           else let name = clean_suffix sfx;
                    base = show_nat y @ ''.'' @ pad2 (show_nat m) @ ''.'' @ pad2 (show_nat d)
                in Some (if name = [] then base else base @ '' '' @ name))
      | None \<Rightarrow>
          (case match_ym compact of
             Some (y, m, sfx) \<Rightarrow>
               (if y < 1900 \<or> y > 3000 then None
                else if m < 1 \<or> m > 12 then None
                else let name = clean_suffix sfx;
                         base = show_nat y @ ''.'' @ pad2 (show_nat m)
                     in Some (if name = [] then base else base @ '' '' @ name))
           | None \<Rightarrow> Some compact))"

definition setName :: "string \<Rightarrow> 'a ban_list_scheme \<Rightarrow> 'a ban_list_scheme" where
  "setName n b = b\<lparr>list_name := normalizeName n\<rparr>"

subsection \<open>Adding entries and the list hash\<close>

definition hash_term :: "nat \<Rightarrow> nat \<Rightarrow> 32 word" where
  "hash_term cid q =
     (let w = word_of_nat cid in
      (push_bit 18 w OR signed_drop_bit 14 w) XOR
      (push_bit ((27 + q) mod 32) w OR drop_bit (nat ((5 - int q) mod 32)) w))"

definition put_points :: "nat \<Rightarrow> nat option \<Rightarrow> (nat, nat) js_map \<Rightarrow> (nat, nat) js_map" where
  "put_points cid pts m = (case pts of None \<Rightarrow> m | Some p \<Rightarrow> map_put cid p m)"

definition edopro_add :: "nat \<Rightarrow> nat \<Rightarrow> nat option \<Rightarrow> 'a ban_list_scheme \<Rightarrow> 'a ban_list_scheme" where
  "edopro_add cid q pts b =
     b\<lparr>forbidden := (if q = 0 then forbidden b @ [cid] else forbidden b),
       limited := (if q = 1 then limited b @ [cid] else limited b),
       semiLimited := (if q = 2 then semiLimited b @ [cid] else semiLimited b),
       all_listed := (if q = 3 then all_listed b @ [cid] else all_listed b),
       points := put_points cid pts (points b),
       list_hash := sint (word_of_int (list_hash b) XOR hash_term cid q :: 32 word)\<rparr>"

definition ygopro_add :: "nat \<Rightarrow> nat \<Rightarrow> nat option \<Rightarrow> 'a ban_list_scheme \<Rightarrow> 'a ban_list_scheme" where
  "ygopro_add cid q pts b =
     (let b1 = (if q = 0 then b\<lparr>forbidden := forbidden b @ [cid]\<rparr>
                else if q = 1 then b\<lparr>limited := limited b @ [cid]\<rparr>
                else if q = 2 then b\<lparr>semiLimited := semiLimited b @ [cid]\<rparr>
                else b\<lparr>all_listed := all_listed b @ [cid]\<rparr>)
      in b1\<lparr>points := put_points cid pts (points b)\<rparr>)"

definition setHash :: "int \<Rightarrow> 'a ban_list_scheme \<Rightarrow> 'a ban_list_scheme" where
  "setHash h b = b\<lparr>list_hash := h\<rparr>"

definition setAlias :: "string \<Rightarrow> ygopro_ban_list \<Rightarrow> ygopro_ban_list" where
  "setAlias a b = b\<lparr>list_alias := Some (to_lower a)\<rparr>"

definition hash_bucket :: "nat \<Rightarrow> nat list \<Rightarrow> 32 word \<Rightarrow> 32 word" where
  "hash_bucket q cards h = fold (\<lambda>cid h. h XOR hash_term cid q) cards h"

definition recomputeWhitelistHash :: "'a ban_list_scheme \<Rightarrow> 'a ban_list_scheme" where
  "recomputeWhitelistHash b =
     (let h = hash_bucket 3 (all_listed b) (hash_bucket 2 (semiLimited b)
                (hash_bucket 1 (limited b) (hash_bucket 0 (forbidden b) (word_of_int INITIAL_HASH))))
      in b\<lparr>list_hash := uint (h XOR 0x0f0f0f0f)\<rparr>)"

subsection \<open>Lines of a list file\<close>

record ban_list_entry =
  entry_code :: nat
  entry_limit :: nat
  entry_points :: "nat option"

definition parseBanListEntry :: "string \<Rightarrow> ban_list_entry option" where
  "parseBanListEntry line =
     (let t = js_trim line in
      if t = [] \<or> starts_with ''#'' t \<or> starts_with ''!'' t \<or> starts_with ''$'' t \<or> starts_with ''-'' t
      then None else
      let d1 = takeWhile is_digit t; r1 = dropWhile is_digit t;
          s1 = dropWhile is_space r1;
          d2 = takeWhile is_digit s1; r2 = dropWhile is_digit s1;
          d3 = takeWhile is_digit (dropWhile is_space r2)
      in if d1 = [] \<or> s1 = r1 \<or> d2 = [] then None
         else Some \<lparr>entry_code = digits_value d1, entry_limit = digits_value d2,
                entry_points = (if dropWhile is_space r2 = r2 \<or> d3 = [] then None
                                else Some (digits_value d3))\<rparr>)"

definition load_line :: "string \<Rightarrow> ban_list \<Rightarrow> ban_list" where
  "load_line line b =
     (if line = [] then b else
      let b1 = (if starts_with ''$whitelist'' line then whileListed b else b) in
      if starts_with ''#'' line then b1 else
      let b2 = (if starts_with ''!'' line then setName (drop 1 line) b1 else b1) in
      if list_name b2 = None then b2 else
      (case parseBanListEntry line of None \<Rightarrow> b2
       | Some e \<Rightarrow> edopro_add (entry_code e) (entry_limit e) (entry_points e) b2))"

definition edopro_load :: "string \<Rightarrow> ban_list" where
  "edopro_load text = fold load_line (js_split (CHR 0x0A) text) empty_ban_list"

definition parseUnrestrictedEntries :: "string \<Rightarrow> ygopro_ban_list \<Rightarrow> ygopro_ban_list" where
  "parseUnrestrictedEntries text b =
     fold (\<lambda>line b. case parseBanListEntry line of None \<Rightarrow> b
        | Some e \<Rightarrow> if entry_limit e < 3 then b
                    else ygopro_add (entry_code e) (entry_limit e) (entry_points e) b)
       (js_split (CHR 0x0A) text) b"

subsection \<open>The catalog of loaded lists\<close>

fun find_index :: "('a \<Rightarrow> bool) \<Rightarrow> 'a list \<Rightarrow> nat option" where
  "find_index P [] = None"
| "find_index P (x # xs) = (if P x then Some 0 else map_option Suc (find_index P xs))"

definition normalizeAliasKey :: "string \<Rightarrow> string" where
  "normalizeAliasKey v = replace_spaces [] (to_lower v)"

definition has_name :: "'a ban_list_scheme \<Rightarrow> bool" where
  "has_name l \<longleftrightarrow> list_name l \<noteq> None \<and> list_name l \<noteq> Some []"

definition name_key :: "'a ban_list_scheme \<Rightarrow> string" where
  "name_key l = normalizeAliasKey (case list_name l of None \<Rightarrow> [] | Some n \<Rightarrow> n)"

definition alias_candidates :: "string \<Rightarrow> ygopro_ban_list list \<Rightarrow> (nat \<times> ygopro_ban_list) list" where
  "alias_candidates a ls = filter (\<lambda>(i, l). has_name l \<and> js_includes a (name_key l)) (enumerate 0 ls)"

definition findIndexByAlias :: "ygopro_ban_list list \<Rightarrow> string \<Rightarrow> int" where
  "findIndexByAlias ls alias =
     (let a = normalizeAliasKey alias in
      case find_index (\<lambda>l. list_alias l = Some a) ls of Some i \<Rightarrow> int i
      | None \<Rightarrow>
        (case find_index (\<lambda>l. has_name l \<and> name_key l = a) ls of Some i \<Rightarrow> int i
         | None \<Rightarrow>
           (case sort_key (\<lambda>(i, l). (length (name_key l), name_key l)) (alias_candidates a ls) of
              [] \<Rightarrow> -1
            | (i, l) # _ \<Rightarrow> int i)))"

definition findByAlias :: "ygopro_ban_list list \<Rightarrow> string \<Rightarrow> ygopro_ban_list option" where
  "findByAlias ls alias =
     (let i = findIndexByAlias ls alias in if i \<noteq> -1 then Some (ls ! nat i) else None)"

definition findLFListByIndex :: "'b list \<Rightarrow> int \<Rightarrow> 'b option" where
  "findLFListByIndex ls i = (if 0 \<le> i \<and> i < int (length ls) then Some (ls ! nat i) else None)"

definition findByHash :: "'a ban_list_scheme list \<Rightarrow> int \<Rightarrow> 'a ban_list_scheme option" where
  "findByHash ls h = find (\<lambda>l. list_hash l = h) ls"

definition findByName :: "'a ban_list_scheme list \<Rightarrow> string \<Rightarrow> 'a ban_list_scheme option" where
  "findByName ls n = find (\<lambda>l. list_name l = Some n) ls"

text \<open>\<open>/^(\\d{4})\\.(\\d{2})(?:\\.(\\d{2}))? TCG$/\<close> and the date string built from its groups.\<close>

definition two_digits :: "string \<Rightarrow> bool" where
  "two_digits s \<longleftrightarrow> length s = 2 \<and> list_all is_digit s"

definition tcg_date :: "string \<Rightarrow> string option" where
  "tcg_date n =
     (let y = take 4 n; r = drop 4 n; m = take 2 (drop 1 r); r2 = drop 3 r; d = take 2 (drop 1 r2)
      in if length y = 4 \<and> list_all is_digit y \<and> starts_with ''.'' r \<and> two_digits m then
           (if starts_with ''.'' r2 \<and> two_digits d \<and> drop 3 r2 = '' TCG''
            then Some (y @ ''.'' @ m @ ''.'' @ d)
            else if r2 = '' TCG'' then Some (y @ ''.'' @ m @ ''.00'')
            else None)
         else None)"

definition list_tcg_date :: "'a ban_list_scheme \<Rightarrow> string option" where
  "list_tcg_date l = (case list_name l of None \<Rightarrow> None | Some n \<Rightarrow> tcg_date n)"

definition newest_step ::
  "nat \<times> 'a ban_list_scheme \<Rightarrow> int \<times> string \<Rightarrow> int \<times> string" where
  "newest_step e acc = (case list_tcg_date (snd e) of None \<Rightarrow> acc
     | Some d \<Rightarrow> if snd acc < d then (int (fst e), d) else acc)"

definition name_contains :: "string \<Rightarrow> 'a ban_list_scheme \<Rightarrow> bool" where
  "name_contains p l \<longleftrightarrow> (case list_name l of None \<Rightarrow> False | Some n \<Rightarrow> n \<noteq> [] \<and> js_includes p n)"

definition index_or_zero :: "nat option \<Rightarrow> int" where
  "index_or_zero i = (case i of None \<Rightarrow> 0 | Some n \<Rightarrow> int n)"

definition getNewestTCGIndex :: "'a ban_list_scheme list \<Rightarrow> int" where
  "getNewestTCGIndex ls =
     (let newest = fst (fold newest_step (enumerate 0 ls) (-1, [])) in
      if newest \<ge> 0 then newest else index_or_zero (find_index (name_contains '' TCG'') ls))"

definition getFirstOCGIndex :: "'a ban_list_scheme list \<Rightarrow> int" where
  "getFirstOCGIndex ls = index_or_zero (find_index (name_contains '' OCG'') ls)"

subsection \<open>Hashes do not depend on the order of the entries\<close>

definition xor_entry :: "nat \<times> nat \<Rightarrow> 32 word \<Rightarrow> 32 word" where
  "xor_entry e h = h XOR hash_term (fst e) (snd e)"

definition ygopro_fill :: "(nat \<times> nat) list \<Rightarrow> 'a ban_list_scheme \<Rightarrow> 'a ban_list_scheme" where
  "ygopro_fill es b = fold (\<lambda>(c, q). ygopro_add c q None) es b"

definition edopro_fill :: "(nat \<times> nat) list \<Rightarrow> 'a ban_list_scheme \<Rightarrow> 'a ban_list_scheme" where
  "edopro_fill es b = fold (\<lambda>(c, q). edopro_add c q None) es b"

lemma xor_entry_commute: "xor_entry a \<circ> xor_entry b = xor_entry b \<circ> xor_entry a"
  by (auto simp: xor_entry_def fun_eq_iff xor.assoc xor.commute xor.left_commute)

lemma xor_entries_mset: "mset es = mset es' \<Longrightarrow> fold xor_entry es = fold xor_entry es'"
  by (rule fold_multiset_equiv) (simp_all add: xor_entry_commute)

lemma hash_bucket_entries: "hash_bucket q cs h = fold xor_entry (map (\<lambda>c. (c, q)) cs) h"
  by (induction cs arbitrary: h) (simp_all add: hash_bucket_def xor_entry_def)

lemma edopro_fill_hash:
  "word_of_int (list_hash (edopro_fill es b)) = fold xor_entry es (word_of_int (list_hash b) :: 32 word)"
  by (induction es arbitrary: b) (auto simp: edopro_fill_def edopro_add_def xor_entry_def)

lemma ygopro_fill_buckets:
  "forbidden (ygopro_fill es b) = forbidden b @ map fst (filter (\<lambda>e. snd e = 0) es)"
  "limited (ygopro_fill es b) = limited b @ map fst (filter (\<lambda>e. snd e = 1) es)"
  "semiLimited (ygopro_fill es b) = semiLimited b @ map fst (filter (\<lambda>e. snd e = 2) es)"
  "all_listed (ygopro_fill es b) = all_listed b @ map fst (filter (\<lambda>e. 2 < snd e) es)"
  by (induction es arbitrary: b) (auto simp: ygopro_fill_def ygopro_add_def put_points_def Let_def)

lemma bucket_entries:
  "map (\<lambda>c. (c, q)) (map fst (filter (\<lambda>e. snd e = q) es)) = filter (\<lambda>e. snd e = q) es"
  by (induction es) auto

lemma top_bucket_entries:
  "\<forall>e \<in> set es. snd e \<le> 3 \<Longrightarrow>
   map (\<lambda>c. (c, 3)) (map fst (filter (\<lambda>e. 2 < snd e) es)) = filter (\<lambda>e. snd e = (3::nat)) es"
  by (induction es) auto

lemma four_buckets:
  "\<forall>e \<in> set es. snd e \<le> (3::nat) \<Longrightarrow>
   mset (filter (\<lambda>e. snd e = 0) es @ filter (\<lambda>e. snd e = 1) es @ filter (\<lambda>e. snd e = 2) es
      @ filter (\<lambda>e. snd e = 3) es) = mset es"
proof (induction es)
  case (Cons e es)
  then have "snd e = 0 \<or> snd e = 1 \<or> snd e = 2 \<or> snd e = 3"
    by (simp add: le_Suc_eq numeral_3_eq_3 numeral_2_eq_2)
  then show ?case
    using Cons by (elim disjE) simp_all
qed simp

lemma recomputed_hash:
  assumes "\<forall>e \<in> set es. snd e \<le> 3"
  shows "list_hash (recomputeWhitelistHash (ygopro_fill es empty_ygopro_ban_list)) =
    uint (fold xor_entry es (word_of_int INITIAL_HASH) XOR 0x0f0f0f0f)"
proof -
  let ?b = "ygopro_fill es empty_ygopro_ban_list"
  have "hash_bucket 3 (all_listed ?b) (hash_bucket 2 (semiLimited ?b)
      (hash_bucket 1 (limited ?b) (hash_bucket 0 (forbidden ?b) (word_of_int INITIAL_HASH)))) =
    fold xor_entry (filter (\<lambda>e. snd e = 0) es @ filter (\<lambda>e. snd e = 1) es
      @ filter (\<lambda>e. snd e = 2) es @ filter (\<lambda>e. snd e = 3) es) (word_of_int INITIAL_HASH)"
    using top_bucket_entries [OF assms] bucket_entries [of _ es]
    by (simp add: hash_bucket_entries ygopro_fill_buckets empty_ygopro_ban_list_def
        del: map_map)
  also have "\<dots> = fold xor_entry es (word_of_int INITIAL_HASH)"
    using xor_entries_mset [OF four_buckets [OF assms]] by simp
  finally show ?thesis
    by (simp add: recomputeWhitelistHash_def Let_def)
qed

subsection \<open>Which list an alias names\<close>

lemma find_index_SomeD:
  "find_index P xs = Some i \<Longrightarrow> i < length xs \<and> P (xs ! i) \<and> (\<forall>j < i. \<not> P (xs ! j))"
proof (induction xs arbitrary: i)
  case (Cons x xs)
  show ?case
  proof (cases "P x")
    case False
    then obtain k where k: "find_index P xs = Some k" "i = Suc k"
      using Cons.prems by auto
    have "k < length xs \<and> P (xs ! k) \<and> (\<forall>j < k. \<not> P (xs ! j))"
      using Cons.IH [OF k(1)] .
    then show ?thesis
      using k(2) False by (auto simp: less_Suc_eq_0_disj)
  qed (use Cons.prems in auto)
qed simp

lemma find_index_None_iff: "find_index P xs = None \<longleftrightarrow> (\<forall>x \<in> set xs. \<not> P x)"
  by (induction xs) auto

lemma sort_key_head:
  "sort_key f xs = y # ys \<Longrightarrow> y \<in> set xs \<and> (\<forall>x \<in> set xs. f y \<le> f x)"
proof -
  assume eq: "sort_key f xs = y # ys"
  have "set xs = set (y # ys)"
    using arg_cong [OF eq, of set] by simp
  moreover have "sorted (map f (y # ys))"
    using sorted_sort_key [of f xs] by (simp add: eq)
  ultimately show ?thesis by auto
qed

definition by_alias :: "string \<Rightarrow> ygopro_ban_list set \<Rightarrow> ygopro_ban_list set" where
  "by_alias a S = {l \<in> S. list_alias l = Some a}"

definition by_exact_name :: "string \<Rightarrow> ygopro_ban_list set \<Rightarrow> ygopro_ban_list set" where
  "by_exact_name a S = {l \<in> S. has_name l \<and> name_key l = a}"

definition by_substring :: "string \<Rightarrow> ygopro_ban_list set \<Rightarrow> ygopro_ban_list set" where
  "by_substring a S = {l \<in> S. has_name l \<and> js_includes a (name_key l)}"

text \<open>The choice the catalog documents: alias field, then exact name, then the substring match
  with the shortest and then lexicographically least normalised name.\<close>

definition alias_choice :: "string \<Rightarrow> ygopro_ban_list set \<Rightarrow> ygopro_ban_list \<Rightarrow> bool" where
  "alias_choice a S l \<longleftrightarrow>
     (if by_alias a S \<noteq> {} then l \<in> by_alias a S
      else if by_exact_name a S \<noteq> {} then l \<in> by_exact_name a S
      else l \<in> by_substring a S \<and>
        (\<forall>l' \<in> by_substring a S. (length (name_key l), name_key l) \<le> (length (name_key l'), name_key l')))"

lemma alias_candidates_mem:
  "(i, l) \<in> set (alias_candidates a ls) \<longleftrightarrow>
     i < length ls \<and> l = ls ! i \<and> has_name l \<and> js_includes a (name_key l)"
  by (auto simp: alias_candidates_def in_set_enumerate_eq)

lemma alias_candidates_set: "snd ` set (alias_candidates a ls) = by_substring a (set ls)"
proof -
  have "l \<in> snd ` set (alias_candidates a ls)" if "l \<in> by_substring a (set ls)" for l
  proof -
    from that obtain i where "i < length ls" "l = ls ! i"
      by (auto simp: by_substring_def in_set_conv_nth)
    then have "(i, l) \<in> set (alias_candidates a ls)"
      using that by (simp add: alias_candidates_mem by_substring_def)
    then show ?thesis by force
  qed
  moreover have "l \<in> by_substring a (set ls)" if "l \<in> snd ` set (alias_candidates a ls)" for l
    using that by (auto simp: alias_candidates_mem by_substring_def)
  ultimately show ?thesis by blast
qed

lemma findByAlias_at:
  "findIndexByAlias ls al = int i \<Longrightarrow> findByAlias ls al = Some (ls ! i)"
  by (simp add: findByAlias_def)

lemma findByAlias_choice:
  fixes ls al
  defines "a \<equiv> normalizeAliasKey al"
  shows "case findByAlias ls al of Some l \<Rightarrow> alias_choice a (set ls) l
    | None \<Rightarrow> by_alias a (set ls) = {} \<and> by_exact_name a (set ls) = {} \<and> by_substring a (set ls) = {}"
proof (cases "find_index (\<lambda>l. list_alias l = Some a) ls")
  case (Some i)
  then have "findIndexByAlias ls al = int i"
    by (simp add: findIndexByAlias_def a_def)
  then show ?thesis
    using find_index_SomeD [OF Some]
    by (auto simp: findByAlias_at alias_choice_def by_alias_def)
next
  case no_alias: None
  then have empty: "by_alias a (set ls) = {}"
    by (auto simp: find_index_None_iff by_alias_def)
  have exact_mem: "ls ! i \<in> by_exact_name a (set ls)"
    if "i < length ls" "has_name (ls ! i)" "name_key (ls ! i) = a" for i
    using that by (simp add: by_exact_name_def)
  show ?thesis
  proof (cases "find_index (\<lambda>l. has_name l \<and> name_key l = a) ls")
    case (Some i)
    then have "findIndexByAlias ls al = int i"
      using no_alias by (simp add: findIndexByAlias_def a_def)
    then show ?thesis
      using find_index_SomeD [OF Some] empty exact_mem [of i]
      by (auto simp: findByAlias_at alias_choice_def)
  next
    case None
    then have empty2: "by_exact_name a (set ls) = {}"
      by (auto simp: find_index_None_iff by_exact_name_def)
    let ?s = "sort_key (\<lambda>(i, l). (length (name_key l), name_key l)) (alias_candidates a ls)"
    show ?thesis
    proof (cases ?s)
      case Nil
      then have "findByAlias ls al = None"
        using no_alias None by (simp add: findByAlias_def findIndexByAlias_def a_def)
      moreover have "alias_candidates a ls = []"
        using arg_cong [OF Nil, of length] by simp
      ultimately show ?thesis
        using empty empty2 alias_candidates_set [of a ls] by simp
    next
      case (Cons p ps)
      obtain i l where p: "p = (i, l)" by (cases p)
      have head: "(i, l) \<in> set (alias_candidates a ls) \<and>
          (\<forall>(j, l') \<in> set (alias_candidates a ls).
             (length (name_key l), name_key l) \<le> (length (name_key l'), name_key l'))"
        using sort_key_head [OF Cons] p by (auto split: prod.splits)
      have min: "\<forall>l' \<in> by_substring a (set ls).
          (length (name_key l), name_key l) \<le> (length (name_key l'), name_key l')"
        using head unfolding alias_candidates_set [symmetric] by force
      have "findIndexByAlias ls al = int i"
        using no_alias None Cons p by (simp add: findIndexByAlias_def a_def)
      moreover have "l = ls ! i" "ls ! i \<in> by_substring a (set ls)"
        using head by (auto simp: alias_candidates_mem by_substring_def)
      ultimately show ?thesis
        using min empty empty2 by (simp add: findByAlias_at alias_choice_def)
    qed
  qed
qed

text \<open>No two loaded lists share an alias field or a normalised name.\<close>

definition unambiguous :: "ygopro_ban_list list \<Rightarrow> bool" where
  "unambiguous ls \<longleftrightarrow>
     (\<forall>l \<in> set ls. \<forall>l' \<in> set ls.
        (list_alias l \<noteq> None \<and> list_alias l = list_alias l' \<longrightarrow> l = l') \<and>
        (has_name l \<and> has_name l' \<and> name_key l = name_key l' \<longrightarrow> l = l'))"

lemma unambiguous_alias:
  "unambiguous ls \<Longrightarrow> l \<in> set ls \<Longrightarrow> l' \<in> set ls \<Longrightarrow> list_alias l = Some a \<Longrightarrow>
   list_alias l' = Some a \<Longrightarrow> l = l'"
  by (simp add: unambiguous_def)

lemma unambiguous_name:
  "unambiguous ls \<Longrightarrow> l \<in> set ls \<Longrightarrow> l' \<in> set ls \<Longrightarrow> has_name l \<Longrightarrow> has_name l' \<Longrightarrow>
   name_key l = name_key l' \<Longrightarrow> l = l'"
  by (simp add: unambiguous_def)

lemma alias_choice_unique:
  assumes "unambiguous ls" and l: "alias_choice a (set ls) l" and l': "alias_choice a (set ls) l'"
  shows "l = l'"
proof -
  consider "by_alias a (set ls) \<noteq> {}"
    | "by_alias a (set ls) = {}" "by_exact_name a (set ls) \<noteq> {}"
    | "by_alias a (set ls) = {}" "by_exact_name a (set ls) = {}"
    by blast
  then show ?thesis
  proof cases
    case 1
    then show ?thesis
      using l l' unambiguous_alias [OF assms(1)] by (simp add: alias_choice_def by_alias_def)
  next
    case 2
    then show ?thesis
      using l l' unambiguous_name [OF assms(1)] by (simp add: alias_choice_def by_exact_name_def)
  next
    case 3
    then have mem: "l \<in> by_substring a (set ls)" "l' \<in> by_substring a (set ls)"
      and "(length (name_key l), name_key l) \<le> (length (name_key l'), name_key l')"
      and "(length (name_key l'), name_key l') \<le> (length (name_key l), name_key l)"
      using l l' by (simp_all only: alias_choice_def if_False simp_thms)
    then have "name_key l = name_key l'"
      using antisym by blast
    then show ?thesis
      using mem unambiguous_name [OF assms(1)] by (simp add: by_substring_def)
  qed
qed

subsection \<open>The newest dated list\<close>

definition newest_at :: "'a ban_list_scheme list \<Rightarrow> nat \<Rightarrow> string \<Rightarrow> bool" where
  "newest_at ls i d \<longleftrightarrow> i < length ls \<and> list_tcg_date (ls ! i) = Some d \<and>
     (\<forall>j < length ls. \<forall>e. list_tcg_date (ls ! j) = Some e \<longrightarrow> e \<le> d \<and> (j < i \<longrightarrow> e < d))"

definition newest_ok :: "'a ban_list_scheme list \<Rightarrow> int \<times> string \<Rightarrow> bool" where
  "newest_ok ls acc \<longleftrightarrow>
     acc = (-1, []) \<and> (\<forall>j < length ls. list_tcg_date (ls ! j) = None) \<or>
     (\<exists>i. fst acc = int i \<and> newest_at ls i (snd acc))"

lemma list_tcg_date_nonempty: "list_tcg_date l = Some d \<Longrightarrow> [] < d"
  by (cases d)
    (auto simp: list_tcg_date_def tcg_date_def Let_def split: option.splits if_splits)

lemma newest_at_old:
  "newest_at ls i e \<Longrightarrow> (\<And>d. list_tcg_date l = Some d \<Longrightarrow> d \<le> e) \<Longrightarrow> newest_at (ls @ [l]) i e"
  by (auto simp: newest_at_def nth_append less_Suc_eq)

lemma newest_at_new:
  "list_tcg_date l = Some d \<Longrightarrow>
   (\<And>j e. j < length ls \<Longrightarrow> list_tcg_date (ls ! j) = Some e \<Longrightarrow> e < d) \<Longrightarrow>
   newest_at (ls @ [l]) (length ls) d"
  by (auto simp: newest_at_def nth_append less_Suc_eq intro: less_imp_le)

lemma newest_ok_snoc:
  assumes "newest_ok ls acc"
  shows "newest_ok (ls @ [l]) (newest_step (length ls, l) acc)"
proof (cases "list_tcg_date l")
  case None
  then show ?thesis
    using assms newest_at_old [of ls _ "snd acc" l]
    by (auto simp: newest_ok_def newest_step_def nth_append less_Suc_eq)
next
  case (Some d)
  from assms [unfolded newest_ok_def] show ?thesis
  proof (elim disjE conjE exE)
    assume "acc = (-1, [])" and none: "\<forall>j < length ls. list_tcg_date (ls ! j) = None"
    then have "newest_step (length ls, l) acc = (int (length ls), d)"
      using Some list_tcg_date_nonempty [OF Some] by (simp add: newest_step_def)
    moreover have "newest_at (ls @ [l]) (length ls) d"
      using none by (intro newest_at_new [OF Some]) simp
    ultimately show ?thesis by (simp add: newest_ok_def)
  next
    fix i
    assume i: "fst acc = int i" "newest_at ls i (snd acc)"
    show ?thesis
    proof (cases "snd acc < d")
      case True
      then have "newest_at (ls @ [l]) (length ls) d"
        using i(2) by (intro newest_at_new [OF Some]) (auto simp: newest_at_def intro: le_less_trans)
      then show ?thesis
        using Some True by (simp add: newest_ok_def newest_step_def)
    next
      case False
      then have "newest_at (ls @ [l]) i (snd acc)"
        using i(2) Some by (intro newest_at_old) auto
      then show ?thesis
        using Some False i(1) by (auto simp: newest_ok_def newest_step_def)
    qed
  qed
qed

lemma newest_ok_fold: "newest_ok ls (fold newest_step (enumerate 0 ls) (-1, []))"
proof (induction ls rule: rev_induct)
  case Nil
  then show ?case by (simp add: newest_ok_def)
next
  case (snoc l ls)
  then show ?case
    using newest_ok_snoc [OF snoc] by (simp add: enumerate_append_eq)
qed

subsection \<open>Round trip of a list line\<close>

definition show_entry :: "ban_list_entry \<Rightarrow> string" where
  "show_entry e = show_nat (entry_code e) @ '' '' @ show_nat (entry_limit e) @
     (case entry_points e of None \<Rightarrow> [] | Some p \<Rightarrow> '' '' @ show_nat p)"

lemma takeWhile_digits:
  "list_all is_digit ds \<Longrightarrow> (case r of [] \<Rightarrow> True | c # _ \<Rightarrow> \<not> is_digit c) \<Longrightarrow>
   takeWhile is_digit (ds @ r) = ds \<and> dropWhile is_digit (ds @ r) = r"
  by (induction ds) (auto split: list.splits)

lemma digits_head:
  "list_all is_digit (c # cs) \<Longrightarrow> c \<noteq> CHR ''#'' \<and> c \<noteq> CHR ''!'' \<and> c \<noteq> CHR ''$'' \<and> c \<noteq> CHR ''-''"
  by (auto simp: is_digit_def)

lemma trim_outer:
  "s \<noteq> [] \<Longrightarrow> \<not> is_space (hd s) \<Longrightarrow> \<not> is_space (last s) \<Longrightarrow> js_trim s = s"
proof -
  assume "s \<noteq> []" "\<not> is_space (hd s)" "\<not> is_space (last s)"
  then have "dropWhile is_space s = s" "dropWhile is_space (rev s) = rev s"
    by (simp_all add: dropWhile_eq_self_iff hd_rev)
  then show ?thesis
    by (simp add: js_trim_def)
qed

lemma space_char [simp]: "is_space (CHR '' '')" "\<not> is_digit (CHR '' '')"
  by (simp_all add: is_space_def is_digit_def)

lemma show_nat_Cons: "\<exists>c cs. show_nat n = c # cs \<and> is_digit c \<and> list_all is_digit cs"
  using show_nat_digits [of n] show_nat_nonempty [of n] by (cases "show_nat n") auto

lemma last_show_nat: "is_digit (last (show_nat n))"
  using show_nat_digits [of n] show_nat_nonempty [of n]
  by (simp add: list_all_iff)

lemma show_nat_take:
  "case r of [] \<Rightarrow> True | c # _ \<Rightarrow> \<not> is_digit c \<Longrightarrow>
   takeWhile is_digit (show_nat n @ r) = show_nat n \<and> dropWhile is_digit (show_nat n @ r) = r"
  by (rule takeWhile_digits [OF show_nat_digits])

lemma drop_space_show_nat: "dropWhile is_space (CHR '' '' # show_nat n @ r) = show_nat n @ r"
  using show_nat_Cons [of n] by (auto simp: digit_not_space)

lemma show_entry_trim: "js_trim (show_entry e) = show_entry e"
proof (rule trim_outer)
  show "show_entry e \<noteq> []" "\<not> is_space (hd (show_entry e))"
    using show_nat_Cons [of "entry_code e"] by (auto simp: show_entry_def digit_not_space)
  show "\<not> is_space (last (show_entry e))"
    by (auto simp: show_entry_def digit_not_space last_show_nat last_append split: option.splits)
qed

lemma show_entry_head:
  "\<not> starts_with ''#'' (show_entry e) \<and> \<not> starts_with ''!'' (show_entry e) \<and>
   \<not> starts_with ''$'' (show_entry e) \<and> \<not> starts_with ''-'' (show_entry e) \<and> show_entry e \<noteq> []"
  using show_nat_Cons [of "entry_code e"]
  by (auto simp: show_entry_def starts_with_def is_digit_def)

lemma show_nat_lexed:
  "takeWhile is_digit (show_nat n @ CHR '' '' # r) = show_nat n"
  "dropWhile is_digit (show_nat n @ CHR '' '' # r) = CHR '' '' # r"
  "takeWhile is_digit (show_nat n) = show_nat n" "dropWhile is_digit (show_nat n) = []"
  using show_nat_take [of "CHR '' '' # r" n] show_nat_take [of "[]" n] by simp_all

lemma drop_space_number:
  "dropWhile is_space (show_nat n) = show_nat n"
  "dropWhile is_space (show_nat n @ r) = show_nat n @ r"
  using drop_space_show_nat [of n "[]"] drop_space_show_nat [of n r] by simp_all

lemma not_own_tail: "show_nat n \<noteq> CHR '' '' # show_nat n" "show_nat n @ r \<noteq> CHR '' '' # show_nat n @ r"
  using arg_cong [of "show_nat n" "CHR '' '' # show_nat n" length]
    arg_cong [of "show_nat n @ r" "CHR '' '' # show_nat n @ r" length] by auto

lemma parse_show_entry: "parseBanListEntry (show_entry e) = Some e"
  unfolding parseBanListEntry_def show_entry_trim Let_def
  using show_entry_head [of e] show_nat_nonempty
  by (cases "entry_points e")
    (simp_all add: show_entry_def show_nat_lexed drop_space_number show_nat_value not_own_tail)

subsection \<open>Properties\<close>

text \<open>C3. The whitelist hash the YGOPro engine recomputes from its four buckets is, for any list
  of entries with limits 0 to 3, the EDOPro hash of the same entries with the whitelist constant
  folded in; neither depends on the order in which the entries were added.\<close>

theorem whitelist_hash_agrees_with_edopro_hash:
  assumes "mset es = mset es'" and "\<forall>e \<in> set es. snd e \<le> 3"
  shows "list_hash (recomputeWhitelistHash (ygopro_fill es empty_ygopro_ban_list)) =
    uint (word_of_int (list_hash (edopro_fill es' empty_ban_list)) XOR (0x0f0f0f0f :: 32 word))"
  using recomputed_hash [OF assms(2)] xor_entries_mset [OF assms(1)]
  by (simp add: edopro_fill_hash empty_ban_list_def)

theorem whitelist_hash_agrees_with_edopro_hash_witness:
  "list_hash (recomputeWhitelistHash (ygopro_fill [(10, 0), (20, 3)] empty_ygopro_ban_list)) =
    uint (word_of_int (list_hash (edopro_fill [(20, 3), (10, 0)] empty_ban_list)) XOR (0x0f0f0f0f :: 32 word))"
  by (rule whitelist_hash_agrees_with_edopro_hash) auto

text \<open>A list line written as \<open>code limit [points]\<close> is parsed back to exactly that entry,
  whatever the numbers.\<close>

theorem ban_list_entry_round_trip: "parseBanListEntry (show_entry e) = Some e"
  by (rule parse_show_entry)

text \<open>When no two loaded lists share an alias or a normalised name, the list an alias resolves
  to does not depend on the order the lists were loaded in.\<close>

theorem alias_lookup_ignores_load_order:
  assumes "mset ls = mset ls'" and "unambiguous ls"
  shows "findByAlias ls al = findByAlias ls' al"
proof -
  have sets: "set ls' = set ls"
    using mset_eq_setD [OF assms(1)] by simp
  have choice: "case findByAlias ls al of
      Some l \<Rightarrow> alias_choice (normalizeAliasKey al) (set ls) l
    | None \<Rightarrow> by_alias (normalizeAliasKey al) (set ls) = {} \<and>
        by_exact_name (normalizeAliasKey al) (set ls) = {} \<and>
        by_substring (normalizeAliasKey al) (set ls) = {}"
    "case findByAlias ls' al of
      Some l \<Rightarrow> alias_choice (normalizeAliasKey al) (set ls) l
    | None \<Rightarrow> by_alias (normalizeAliasKey al) (set ls) = {} \<and>
        by_exact_name (normalizeAliasKey al) (set ls) = {} \<and>
        by_substring (normalizeAliasKey al) (set ls) = {}"
    using findByAlias_choice [where ls = ls and al = al] findByAlias_choice [where ls = ls' and al = al, unfolded sets] by blast+
  show ?thesis
    using choice alias_choice_unique [OF assms(2)]
    by (cases "findByAlias ls al"; cases "findByAlias ls' al")
      (auto simp: alias_choice_def split: if_splits)
qed

definition sample_list :: "string \<Rightarrow> string \<Rightarrow> ygopro_ban_list" where
  "sample_list a n = empty_ygopro_ban_list\<lparr>list_name := Some n, list_alias := Some a\<rparr>"

theorem alias_lookup_ignores_load_order_witness:
  "findByAlias [sample_list ''jtp'' ''x'', sample_list ''md'' ''y''] ''md'' =
   findByAlias [sample_list ''md'' ''y'', sample_list ''jtp'' ''x''] ''md''"
proof (rule alias_lookup_ignores_load_order)
  show "unambiguous [sample_list ''jtp'' ''x'', sample_list ''md'' ''y'']"
    by (simp add: unambiguous_def sample_list_def empty_ygopro_ban_list_def name_key_def has_name_def
        normalizeAliasKey_def replace_spaces_def to_lower_def lower_char_def is_space_def)
qed simp

text \<open>The hypothesis of the preceding property is needed: with the same alias on two loaded
  lists the answer is the one loaded first, so it does depend on the load order.\<close>

theorem alias_lookup_depends_on_order_for_shared_alias:
  "\<exists>ls ls'. mset ls = mset ls' \<and> findByAlias ls ''md'' \<noteq> findByAlias ls' ''md''"
proof -
  let ?x = "sample_list ''md'' ''x''" and ?y = "sample_list ''md'' ''y''"
  have key: "normalizeAliasKey ''md'' = ''md''"
    by (simp add: normalizeAliasKey_def replace_spaces_def to_lower_def lower_char_def is_space_def)
  have "findByAlias [?x, ?y] ''md'' = Some ?x" "findByAlias [?y, ?x] ''md'' = Some ?y"
    by (simp_all add: findByAlias_def findIndexByAlias_def key sample_list_def)
  moreover have "?x \<noteq> ?y"
    by (simp add: sample_list_def empty_ygopro_ban_list_def)
  moreover have "mset [?x, ?y] = mset [?y, ?x]"
    by simp
  ultimately show ?thesis
    by (metis option.inject)
qed

text \<open>With at least one dated TCG list loaded, the default ban list of a room is the first
  loaded one among those with the greatest date.\<close>

theorem newest_tcg_list_is_chosen:
  assumes "k < length ls" and "list_tcg_date (ls ! k) \<noteq> None"
  shows "\<exists>i d. getNewestTCGIndex ls = int i \<and> newest_at ls i d"
proof -
  let ?acc = "fold newest_step (enumerate 0 ls) (-1, [])"
  have "\<exists>i. fst ?acc = int i \<and> newest_at ls i (snd ?acc)"
    using newest_ok_fold [of ls] assms unfolding newest_ok_def by auto
  then show ?thesis
    by (auto simp: getNewestTCGIndex_def)
qed

definition dated_lists :: "ygopro_ban_list list" where
  "dated_lists = [sample_list ''a'' ''2025.12 TCG'', sample_list ''b'' ''2026.04 TCG'']"

lemma dated_lists_second: "list_tcg_date (dated_lists ! Suc 0) = Some ''2026.04.00''"
  by (simp add: dated_lists_def sample_list_def list_tcg_date_def tcg_date_def starts_with_def
      two_digits_def is_digit_def Let_def)

theorem newest_tcg_list_is_chosen_witness:
  "\<exists>i d. getNewestTCGIndex dated_lists = int i \<and> newest_at dated_lists i d"
  by (rule newest_tcg_list_is_chosen [of 1])
    (simp_all add: dated_lists_second, simp add: dated_lists_def)

end
