(* ===== verification/Buffers.thy ===== *)
theory Buffers
  imports Prelude "HOL-Library.Word"
begin

text \<open>
  Node's \<open>Buffer\<close> as a list of bytes, with the fixed-width reads and writes the messages use
  (\<open>src/utils/decimalToBytesBuffer.ts\<close>, \<open>BufferToUTF16.ts\<close>, \<open>UTF8ToUTF16.ts\<close>). A read past
  the end and a value that does not fit raise a \<open>RangeError\<close> in Node: \<open>None\<close> here. The hex
  text through which \<open>decimalToBytesBuffer\<close> reverses its bytes is a plain reversal.
\<close>

type_synonym byte = "8 word"
type_synonym buffer = "byte list"

fun be_bytes :: "nat \<Rightarrow> nat \<Rightarrow> buffer" where
  "be_bytes 0 n = []"
| "be_bytes (Suc k) n = be_bytes k (n div 256) @ [word_of_nat n]"

definition write_uint_be :: "nat \<Rightarrow> nat \<Rightarrow> buffer option" where
  "write_uint_be n k = (if n < 256 ^ k then Some (be_bytes k n) else None)"

definition decimalToBytesBuffer :: "nat \<Rightarrow> nat \<Rightarrow> buffer option" where
  "decimalToBytesBuffer n k = map_option rev (write_uint_be n k)"

text \<open>Two's complement in four bytes, little endian; both branches of the code write four bytes
  into a buffer of \<open>numBytes\<close> (callers pass 4).\<close>

definition decimalToBytesBufferSigned :: "int \<Rightarrow> nat \<Rightarrow> buffer option" where
  "decimalToBytesBufferSigned d k =
     (if k < 4 then None
      else if 0 \<le> d then
        (if d < 2 ^ 32 then Some (rev (be_bytes 4 (nat d) @ replicate (k - 4) 0)) else None)
      else if - (2 ^ 31) \<le> d then Some (rev (be_bytes 4 (nat (d mod 2 ^ 32)) @ replicate (k - 4) 0))
      else None)"

fun le_value :: "buffer \<Rightarrow> nat" where
  "le_value [] = 0"
| "le_value (b # bs) = unat b + 256 * le_value bs"

definition read_uint_le :: "nat \<Rightarrow> nat \<Rightarrow> buffer \<Rightarrow> nat option" where
  "read_uint_le k off b = (if off + k \<le> length b then Some (le_value (take k (drop off b))) else None)"

definition readUInt32LE :: "nat \<Rightarrow> buffer \<Rightarrow> nat option" where
  "readUInt32LE off b = read_uint_le 4 off b"

definition readUInt16LE :: "nat \<Rightarrow> buffer \<Rightarrow> nat option" where
  "readUInt16LE off b = read_uint_le 2 off b"

definition readUInt8 :: "nat \<Rightarrow> buffer \<Rightarrow> nat option" where
  "readUInt8 off b = read_uint_le 1 off b"

definition subarray :: "nat \<Rightarrow> nat \<Rightarrow> buffer \<Rightarrow> buffer" where
  "subarray s e b = take (e - s) (drop s b)"

subsection \<open>Text in UTF-16 code units\<close>

text \<open>The UTF-8 bytes become one 16-bit unit each; the \<open>Uint16Array\<close> has \<open>n\<close> cells but only its
  first \<open>n\<close> bytes are sent, and writes past the last cell are ignored.\<close>

definition UTF8ToUTF16 :: "buffer \<Rightarrow> nat \<Rightarrow> buffer" where
  "UTF8ToUTF16 utf8 n =
     take n (concat (map (\<lambda>b. [b, 0]) (take n utf8)) @ replicate (2 * (n - length utf8)) 0)"

text \<open>\<open>view[i]\<close> outside the view is \<open>undefined\<close>, which counts as 0 under \<open>|\<close>.\<close>

definition view_at :: "buffer \<Rightarrow> nat \<Rightarrow> nat" where
  "view_at b i = (if i < length b then unat (b ! i) else 0)"

fun read_units :: "nat \<Rightarrow> buffer \<Rightarrow> nat \<Rightarrow> nat list" where
  "read_units 0 b i = []"
| "read_units (Suc k) b i =
     (let u = view_at b i + 256 * view_at b (i + 1) in
      if u = 0 then [] else u # read_units k b (i + 2))"

definition BufferToUTF16 :: "buffer \<Rightarrow> nat \<Rightarrow> nat list" where
  "BufferToUTF16 b n = read_units ((n + 1) div 2) b 0"

subsection \<open>Lemmas\<close>

fun le_bytes :: "nat \<Rightarrow> nat \<Rightarrow> buffer" where
  "le_bytes 0 n = []"
| "le_bytes (Suc k) n = word_of_nat n # le_bytes k (n div 256)"

lemma rev_be_bytes: "rev (be_bytes k n) = le_bytes k n"
  by (induction k arbitrary: n) auto

lemma length_be_bytes [simp]: "length (be_bytes k n) = k"
  by (induction k arbitrary: n) auto

lemma length_le_bytes [simp]: "length (le_bytes k n) = k"
  by (induction k arbitrary: n) auto

lemma le_value_bytes: "le_value (le_bytes k n) = n mod 256 ^ k"
proof (induction k arbitrary: n)
  case (Suc k)
  have "unat (word_of_nat n :: byte) = n mod 256"
    by (simp add: unat_of_nat)
  then show ?case
    using Suc mod_mult2_eq [of n 256 "256 ^ k"] by simp
qed simp

lemma le_value_append: "le_value (a @ b) = le_value a + 256 ^ length a * le_value b"
  by (induction a) (auto simp: algebra_simps)

lemma le_value_less: "le_value b < 256 ^ length b"
proof (induction b)
  case (Cons x b)
  have "unat x < 256"
    using unsigned_less [of x] by simp
  moreover have "256 * (le_value b + 1) \<le> 256 * 256 ^ length b"
    using Cons by (intro mult_le_mono2) simp
  ultimately show ?case by simp
qed simp

lemma decimalToBytesBuffer_Some: "n < 256 ^ k \<Longrightarrow> decimalToBytesBuffer n k = Some (le_bytes k n)"
  by (simp add: decimalToBytesBuffer_def write_uint_be_def rev_be_bytes)

lemma decimalToBytesBuffer_length: "decimalToBytesBuffer n k = Some b \<Longrightarrow> length b = k"
  by (auto simp: decimalToBytesBuffer_def write_uint_be_def split: if_splits)

lemma decimalToBytesBuffer_value: "decimalToBytesBuffer n k = Some b \<Longrightarrow> le_value b = n"
  by (auto simp: decimalToBytesBuffer_def write_uint_be_def rev_be_bytes le_value_bytes split: if_splits)

lemma read_written: "length a = off \<Longrightarrow> n < 256 ^ k \<Longrightarrow>
   read_uint_le k off (a @ le_bytes k n @ r) = Some n"
  by (simp add: read_uint_le_def le_value_bytes)

lemma read_bound: "read_uint_le k off b = Some v \<Longrightarrow> v < 256 ^ k"
  using le_value_less [of "take k (drop off b)"] by (auto simp: read_uint_le_def split: if_splits)

lemma read_units_short:
  "read_units k (pre @ concat (map (\<lambda>b. [b, 0]) utf8) @ replicate m 0) (length pre) =
   map unat (takeWhile (\<lambda>b. b \<noteq> 0) (take k utf8))"
proof (induction k arbitrary: utf8 pre)
  case (Suc k)
  show ?case
  proof (cases utf8)
    case Nil
    then show ?thesis
      by (simp add: view_at_def nth_append)
  next
    case (Cons c cs)
    then show ?thesis
      using Suc.IH [of "pre @ [c, 0]" cs] by (simp add: view_at_def nth_append unat_eq_0)
  qed
qed simp

lemma take_pairs: "take (2 * k) (concat (map (\<lambda>b. [b, 0]) xs)) = concat (map (\<lambda>b. [b, 0]) (take k xs))"
proof (induction k arbitrary: xs)
  case (Suc k)
  then show ?case by (cases xs) auto
qed simp

lemma length_pairs: "length (concat (map (\<lambda>b. [b, 0::byte]) xs)) = 2 * length xs"
  by (induction xs) auto

text \<open>A name sent by \<open>UTF8ToUTF16\<close> and read back by \<open>BufferToUTF16\<close> is the first half of the
  field's bytes of it, up to a zero.\<close>

lemma utf16_field:
  "BufferToUTF16 (UTF8ToUTF16 utf8 (2 * k)) (2 * k) = map unat (takeWhile (\<lambda>b. b \<noteq> 0) (take k utf8))"
proof -
  have sent: "UTF8ToUTF16 utf8 (2 * k) = concat (map (\<lambda>b. [b, 0]) (take k utf8)) @ replicate (2 * (k - length utf8)) 0"
    by (cases "length utf8 \<le> k") (auto simp: UTF8ToUTF16_def take_pairs length_pairs min_def)
  show ?thesis
    using read_units_short [of k "[]" "take k utf8"] by (simp add: BufferToUTF16_def sent)
qed

end
