(* ===== verification/Decks.thy ===== *)
theory Decks
  imports BanLists Buffers "HOL-Library.Monad_Syntax"
begin

text \<open>
  Cards and decks (\<open>src/shared/card/domain\<close>, \<open>src/shared/deck/domain\<close>), the validation
  handlers and the two chains built from them (\<open>Deck.validate\<close> of the EDOPro engine and
  \<open>YGOProDeckValidator\<close>), the side-deck check, the deck creators of both engines and the message
  a deck arrives in. A handler takes the validation of the next one as an argument, as the linked
  objects of the code do; the last link validates with \<open>no_next\<close>. Card codes and aliases are
  strings that every handler converts with \<open>Number\<close>; \<open>None\<close> is \<open>NaN\<close>. Card types and scopes
  are 32-bit masks. The enum \<open>Rule\<close> stands for the numbers 0 to 4; any other number is treated
  by the code as \<open>ALL\<close> is.
\<close>

subsection \<open>Cards\<close>

record card =
  card_alias :: string
  card_code :: string
  card_type :: "32 word"
  card_category :: "32 word"
  card_variant :: "32 word"

definition TYPE_MONSTER :: "32 word" where "TYPE_MONSTER = 0x1"
definition TYPE_FUSION :: "32 word" where "TYPE_FUSION = 0x40"
definition TYPE_RITUAL :: "32 word" where "TYPE_RITUAL = 0x80"
definition TYPE_SYNCHRO :: "32 word" where "TYPE_SYNCHRO = 0x2000"
definition TYPE_XYZ :: "32 word" where "TYPE_XYZ = 0x800000"
definition TYPE_PENDULUM :: "32 word" where "TYPE_PENDULUM = 0x1000000"
definition TYPE_LINK :: "32 word" where "TYPE_LINK = 0x4000000"

definition SCOPE_OCG :: "32 word" where "SCOPE_OCG = 0x1"
definition SCOPE_TCG :: "32 word" where "SCOPE_TCG = 0x2"
definition SCOPE_PRERELEASE :: "32 word" where "SCOPE_PRERELEASE = 0x100"
definition SCOPE_OCG_TCG :: "32 word" where "SCOPE_OCG_TCG = SCOPE_OCG OR SCOPE_TCG"
definition SCOPE_OFFICIAL :: "32 word" where
  "SCOPE_OFFICIAL = SCOPE_OCG OR SCOPE_TCG OR SCOPE_PRERELEASE"

lemmas mask_defs = TYPE_MONSTER_def TYPE_FUSION_def TYPE_RITUAL_def TYPE_SYNCHRO_def TYPE_XYZ_def
  TYPE_PENDULUM_def TYPE_LINK_def SCOPE_OCG_def SCOPE_TCG_def SCOPE_PRERELEASE_def
  SCOPE_OCG_TCG_def SCOPE_OFFICIAL_def

definition isExtraCard :: "card \<Rightarrow> bool" where
  "isExtraCard c \<longleftrightarrow>
     card_type c AND (TYPE_FUSION OR TYPE_SYNCHRO OR TYPE_XYZ) \<noteq> 0 \<or>
     card_type c AND TYPE_LINK \<noteq> 0 \<and> card_type c AND TYPE_MONSTER \<noteq> 0"

definition isRitualMonster :: "card \<Rightarrow> bool" where
  "isRitualMonster c \<longleftrightarrow> card_type c AND TYPE_RITUAL \<noteq> 0 \<and> card_type c AND TYPE_MONSTER \<noteq> 0"

definition code_key :: "card \<Rightarrow> nat option" where
  "code_key c = js_Number (card_code c)"

definition alias_key :: "card \<Rightarrow> nat option" where
  "alias_key c = js_Number (card_alias c)"

text \<open>A number in a condition: neither 0 nor \<open>NaN\<close>.\<close>

definition truthy :: "nat option \<Rightarrow> bool" where
  "truthy k \<longleftrightarrow> k \<noteq> None \<and> k \<noteq> Some 0"

subsection \<open>Decks and errors\<close>

datatype rule = ONLY_OCG | ONLY_TCG | OCG_TCG | PRE_RELEASE | ALL_CARDS

record deck_rules =
  mainMin :: nat
  mainMax :: nat
  extraMin :: nat
  extraMax :: nat
  sideMin :: nat
  sideMax :: nat
  deck_rule :: rule
  maxDeckPoints :: nat

definition new_deck_rules :: "nat \<Rightarrow> nat \<Rightarrow> nat \<Rightarrow> nat \<Rightarrow> nat \<Rightarrow> nat \<Rightarrow> rule \<Rightarrow> nat option \<Rightarrow> deck_rules" where
  "new_deck_rules mn mx en ex sn sx r pts =
     \<lparr>mainMin = mn, mainMax = mx, extraMin = en, extraMax = ex, sideMin = sn, sideMax = sx,
      deck_rule = r, maxDeckPoints = (case pts of None \<Rightarrow> 100 | Some p \<Rightarrow> p)\<rparr>"

record deck =
  main_deck :: "card list"
  side_deck :: "card list"
  extra_deck :: "card list"
  deck_ban_list :: ban_list
  deck_rules_of :: deck_rules

definition allCards :: "deck \<Rightarrow> card list" where
  "allCards d = main_deck d @ side_deck d @ extra_deck d"

datatype deck_error =
    BanListDeckError "nat option"
  | CardMoreThan3Error "nat option"
  | CreditLimitDeckError "nat option" nat nat
  | MainDeckLimitError nat nat nat
  | ExtraDeckLimitError nat nat nat
  | SideDeckLimitError nat nat nat
  | NotOfficialCardError "nat option"
  | OCGCardError "nat option"
  | TCGCardError "nat option"
  | UnknownCardError "nat option"

fun error_type :: "deck_error \<Rightarrow> nat" where
  "error_type (BanListDeckError c) = 0x1"
| "error_type (CardMoreThan3Error c) = 0x5"
| "error_type (CreditLimitDeckError c s a) = 0x1"
| "error_type (MainDeckLimitError g mn mx) = 0x6"
| "error_type (ExtraDeckLimitError g mn mx) = 0x7"
| "error_type (SideDeckLimitError g mn mx) = 0x8"
| "error_type (NotOfficialCardError c) = 0xa"
| "error_type (OCGCardError c) = 0x2"
| "error_type (TCGCardError c) = 0x3"
| "error_type (UnknownCardError c) = 0x4"

text \<open>\<open>code\<close> defaults to 0, and \<open>NaN\<close> is written as 0.\<close>

fun error_code :: "deck_error \<Rightarrow> nat" where
  "error_code (MainDeckLimitError g mn mx) = 0"
| "error_code (ExtraDeckLimitError g mn mx) = 0"
| "error_code (SideDeckLimitError g mn mx) = 0"
| "error_code (BanListDeckError c) = (case c of None \<Rightarrow> 0 | Some n \<Rightarrow> n)"
| "error_code (CardMoreThan3Error c) = (case c of None \<Rightarrow> 0 | Some n \<Rightarrow> n)"
| "error_code (CreditLimitDeckError c s a) = (case c of None \<Rightarrow> 0 | Some n \<Rightarrow> n)"
| "error_code (NotOfficialCardError c) = (case c of None \<Rightarrow> 0 | Some n \<Rightarrow> n)"
| "error_code (OCGCardError c) = (case c of None \<Rightarrow> 0 | Some n \<Rightarrow> n)"
| "error_code (TCGCardError c) = (case c of None \<Rightarrow> 0 | Some n \<Rightarrow> n)"
| "error_code (UnknownCardError c) = (case c of None \<Rightarrow> 0 | Some n \<Rightarrow> n)"

fun error_counts :: "deck_error \<Rightarrow> nat \<times> nat \<times> nat" where
  "error_counts (MainDeckLimitError g mn mx) = (g, mn, mx)"
| "error_counts (ExtraDeckLimitError g mn mx) = (g, mn, mx)"
| "error_counts (SideDeckLimitError g mn mx) = (g, mn, mx)"
| "error_counts (CreditLimitDeckError c s a) = (s, 0, a)"
| "error_counts _ = (0, 0, 0)"

definition error_buffer :: "deck_error \<Rightarrow> buffer option" where
  "error_buffer e = (case error_counts e of (got, mn, mx) \<Rightarrow>
     do {
       t \<leftarrow> decimalToBytesBuffer (error_type e) 4;
       g \<leftarrow> decimalToBytesBuffer got 4;
       lo \<leftarrow> decimalToBytesBuffer mn 4;
       hi \<leftarrow> decimalToBytesBuffer mx 4;
       c \<leftarrow> decimalToBytesBuffer (error_code e) 4;
       let payload = [0x02] @ [0x02] @ [0xf5, 0x8b, 0x2e] @ t @ g @ lo @ hi @ c;
       size \<leftarrow> decimalToBytesBuffer (length payload) 2;
       Some (size @ payload)
     })"

subsection \<open>Counting copies\<close>

type_synonym check = "deck \<Rightarrow> deck_error option"

definition no_next :: check where
  "no_next d = None"

text \<open>The loop the three ban-list handlers and the three-copies handler share: the count of the
  code is read before the alias is counted.\<close>

definition tally_card :: "card \<Rightarrow> (nat option, nat) js_map \<Rightarrow> (nat option, nat) js_map" where
  "tally_card c m =
     (let n = get_or 0 m (code_key c);
          m1 = (if truthy (alias_key c) then js_incr (alias_key c) m else m)
      in map_put (code_key c) (n + 1) m1)"

definition tally_cards :: "deck \<Rightarrow> (nat option, nat) js_map" where
  "tally_cards d = fold tally_card (allCards d) []"

definition card_is :: "nat \<Rightarrow> card \<Rightarrow> bool" where
  "card_is x c \<longleftrightarrow> code_key c = Some x \<or> x \<noteq> 0 \<and> alias_key c = Some x"

definition copies :: "deck \<Rightarrow> nat \<Rightarrow> nat" where
  "copies d x = length (filter (card_is x) (allCards d))"

definition first_over :: "nat \<Rightarrow> nat list \<Rightarrow> deck \<Rightarrow> nat option" where
  "first_over k xs d = (let m = tally_cards d in find (\<lambda>x. get_or 0 m (Some x) > k) xs)"

lemma tally_card_counts:
  "get_or 0 (tally_card c m) (Some x) = get_or 0 m (Some x) + (if card_is x c then 1 else 0)"
  by (auto simp: tally_card_def Let_def get_or_put get_or_incr card_is_def truthy_def)

lemma fold_tally_counts:
  "get_or 0 (fold tally_card cs m) (Some x) = get_or 0 m (Some x) + length (filter (card_is x) cs)"
  by (induction cs arbitrary: m) (auto simp: tally_card_counts)

lemma tally_cards_copies: "get_or 0 (tally_cards d) (Some x) = copies d x"
  by (simp add: tally_cards_def copies_def fold_tally_counts) (simp add: js_simps)

lemma first_over_None: "first_over k xs d = None \<longleftrightarrow> (\<forall>x \<in> set xs. copies d x \<le> k)"
  by (auto simp: first_over_def Let_def tally_cards_copies find_None_iff not_less)

lemma first_over_Some: "first_over k xs d = Some x \<Longrightarrow> x \<in> set xs \<and> k < copies d x"
  by (simp add: first_over_def Let_def tally_cards_copies) (drule find_SomeD, simp)

subsection \<open>The handlers\<close>

definition DeckLimitsValidationHandler :: "deck_rules \<Rightarrow> check \<Rightarrow> check" where
  "DeckLimitsValidationHandler r nxt d =
     (if length (main_deck d) > mainMax r \<or> length (main_deck d) < mainMin r
      then Some (MainDeckLimitError (length (main_deck d)) (mainMin r) (mainMax r))
      else if length (side_deck d) > sideMax r \<or> length (side_deck d) < sideMin r
      then Some (SideDeckLimitError (length (side_deck d)) (sideMin r) (sideMax r))
      else if length (extra_deck d) > extraMax r \<or> length (extra_deck d) < extraMin r
      then Some (ExtraDeckLimitError (length (extra_deck d)) (extraMin r) (extraMax r))
      else nxt d)"

definition ForbiddenCardValidationHandler :: "'a ban_list_scheme \<Rightarrow> check \<Rightarrow> check" where
  "ForbiddenCardValidationHandler b nxt d =
     (case first_over 0 (forbidden b) d of Some x \<Rightarrow> Some (BanListDeckError (Some x)) | None \<Rightarrow> nxt d)"

definition SemiLimitedCardValidationHandler :: "'a ban_list_scheme \<Rightarrow> check \<Rightarrow> check" where
  "SemiLimitedCardValidationHandler b nxt d =
     (case first_over 2 (semiLimited b) d of Some x \<Rightarrow> Some (BanListDeckError (Some x)) | None \<Rightarrow> nxt d)"

definition LimitedCardValidationHandler :: "'a ban_list_scheme \<Rightarrow> check \<Rightarrow> check" where
  "LimitedCardValidationHandler b nxt d =
     (case first_over 1 (limited b) d of Some x \<Rightarrow> Some (BanListDeckError (Some x)) | None \<Rightarrow> nxt d)"

definition NoLimitedCardValidationHandler :: "'a ban_list_scheme \<Rightarrow> check \<Rightarrow> check" where
  "NoLimitedCardValidationHandler b nxt d =
     (case first_over 3 (all_listed b) d of Some x \<Rightarrow> Some (CardMoreThan3Error (Some x)) | None \<Rightarrow> nxt d)"

text \<open>The handlers that look at each card in turn.\<close>

fun first_error :: "('c \<Rightarrow> 'e option) \<Rightarrow> 'c list \<Rightarrow> 'e option" where
  "first_error f [] = None"
| "first_error f (c # cs) = (case f c of Some e \<Rightarrow> Some e | None \<Rightarrow> first_error f cs)"

definition rule_error :: "rule \<Rightarrow> card \<Rightarrow> deck_error option" where
  "rule_error r c =
     (if r = ONLY_OCG then (if card_variant c AND SCOPE_OCG = 0 then Some (TCGCardError (code_key c)) else None)
      else if r = ONLY_TCG then
        (if card_variant c AND SCOPE_TCG = 0 then Some (OCGCardError (code_key c)) else None)
      else None)"

definition DeckRuleValidationHandler :: "deck_rules \<Rightarrow> check \<Rightarrow> check" where
  "DeckRuleValidationHandler r nxt d =
     (case first_error (rule_error (deck_rule r)) (allCards d) of Some e \<Rightarrow> Some e | None \<Rightarrow> nxt d)"

definition official_allowed :: "rule \<Rightarrow> card \<Rightarrow> bool" where
  "official_allowed r c =
     (if r = OCG_TCG \<or> r = ONLY_OCG \<or> r = ONLY_TCG then \<not> SCOPE_OCG_TCG < card_variant c
      else if r = PRE_RELEASE then card_variant c AND NOT SCOPE_OFFICIAL = 0
      else True)"

definition OfficialCardValidationHandler :: "deck_rules \<Rightarrow> check \<Rightarrow> check" where
  "OfficialCardValidationHandler r nxt d =
     (case find (\<lambda>c. \<not> official_allowed (deck_rule r) c) (allCards d) of
        Some c \<Rightarrow> Some (NotOfficialCardError (code_key c)) | None \<Rightarrow> nxt d)"

definition prerelease_allowed :: "rule \<Rightarrow> card \<Rightarrow> bool" where
  "prerelease_allowed r c \<longleftrightarrow> \<not> (r = PRE_RELEASE \<and> card_variant c AND SCOPE_OFFICIAL = 0)"

definition PrereleaseValidationHandler :: "deck_rules \<Rightarrow> check \<Rightarrow> check" where
  "PrereleaseValidationHandler r nxt d =
     (case find (\<lambda>c. \<not> prerelease_allowed (deck_rule r) c) (allCards d) of
        Some c \<Rightarrow> Some (NotOfficialCardError (code_key c)) | None \<Rightarrow> nxt d)"

definition available_cards :: "'a ban_list_scheme \<Rightarrow> nat list" where
  "available_cards b = fold set_add (limited b @ semiLimited b @ forbidden b @ all_listed b) []"

definition listed :: "nat list \<Rightarrow> nat option \<Rightarrow> bool" where
  "listed xs k = (case k of None \<Rightarrow> False | Some n \<Rightarrow> n \<in> set xs)"

definition AvailableCardValidationHandler :: "'a ban_list_scheme \<Rightarrow> check \<Rightarrow> check" where
  "AvailableCardValidationHandler b nxt d =
     (if \<not> whitelisted b then None else
      let av = available_cards b;
          bad = (if length av > 0
                 then find (\<lambda>c. \<not> listed av (code_key c) \<and> (alias_key c = Some 0 \<or> \<not> listed av (alias_key c)))
                        (allCards d)
                 else None)
      in case bad of Some c \<Rightarrow> Some (UnknownCardError (code_key c)) | None \<Rightarrow> nxt d)"

definition canonical_id :: "card \<Rightarrow> nat option" where
  "canonical_id c = (if truthy (alias_key c) then alias_key c else code_key c)"

definition MaxCopiesValidationHandler :: "check \<Rightarrow> check" where
  "MaxCopiesValidationHandler nxt d =
     (case find (\<lambda>(k, n). n > 3) (js_tally (map canonical_id (allCards d))) of
        Some (k, n) \<Rightarrow> Some (CardMoreThan3Error k) | None \<Rightarrow> nxt d)"

definition num_get :: "(nat, nat) js_map \<Rightarrow> nat option \<Rightarrow> nat option" where
  "num_get m k = (case k of None \<Rightarrow> None | Some n \<Rightarrow> map_get m n)"

definition card_points :: "(nat, nat) js_map \<Rightarrow> card \<Rightarrow> nat" where
  "card_points pts c =
     (case num_get pts (code_key c) of Some p \<Rightarrow> p
      | None \<Rightarrow> (case (if card_alias c \<noteq> [] then num_get pts (alias_key c) else Some 0) of
                   Some p \<Rightarrow> p | None \<Rightarrow> 0))"

definition genesys_card_error :: "card \<Rightarrow> deck_error option" where
  "genesys_card_error c =
     (if card_type c AND (TYPE_PENDULUM OR TYPE_LINK) \<noteq> 0 then Some (BanListDeckError (code_key c))
      else if card_variant c = 8 then Some (BanListDeckError (code_key c))
      else None)"

definition deck_points :: "(nat, nat) js_map \<Rightarrow> deck \<Rightarrow> nat" where
  "deck_points pts d = foldl (\<lambda>n c. n + card_points pts c) 0 (allCards d)"

text \<open>This handler has no next one: its \<open>nextHandler\<close> is \<open>null\<close> and read-only.\<close>

definition GenesysRulesValidationHandler :: "nat \<Rightarrow> (nat, nat) js_map \<Rightarrow> check" where
  "GenesysRulesValidationHandler mx pts d =
     (case first_error genesys_card_error (allCards d) of Some e \<Rightarrow> Some e
      | None \<Rightarrow> if deck_points pts d > mx then Some (MainDeckLimitError (deck_points pts d) 0 mx)
                else no_next d)"

fun spend_credit :: "credit_limit \<Rightarrow> nat \<Rightarrow> card list \<Rightarrow> (nat option \<times> nat) option" where
  "spend_credit l spent [] = None"
| "spend_credit l spent (c # cs) =
     (case num_get (credit_cards l) (code_key c) of
        None \<Rightarrow> spend_credit l spent cs
      | Some credit \<Rightarrow>
          if spent + credit > cap l then Some (code_key c, spent + credit)
          else spend_credit l (spent + credit) cs)"

definition credit_error :: "deck \<Rightarrow> string \<times> credit_limit \<Rightarrow> deck_error option" where
  "credit_error d l = (case spend_credit (snd l) 0 (allCards d) of
     None \<Rightarrow> None | Some (offender, spent) \<Rightarrow> Some (CreditLimitDeckError offender spent (cap (snd l))))"

definition CreditLimitValidationHandler :: "'a ban_list_scheme \<Rightarrow> check \<Rightarrow> check" where
  "CreditLimitValidationHandler b nxt d =
     (case first_error (credit_error d) (creditLimits b) of Some e \<Rightarrow> Some e | None \<Rightarrow> nxt d)"

subsection \<open>Card pools of the YGOPro engine\<close>

datatype ygopro_rule = RULE_OCG | RULE_TCG | RULE_SC | RULE_CUSTOM | RULE_NO_UNIQUE | RULE_ALL

definition AVAIL_OCG :: "32 word" where "AVAIL_OCG = 0x1"
definition AVAIL_TCG :: "32 word" where "AVAIL_TCG = 0x2"
definition AVAIL_CUSTOM :: "32 word" where "AVAIL_CUSTOM = 0x4"
definition AVAIL_SC :: "32 word" where "AVAIL_SC = 0x8"

lemmas avail_defs = AVAIL_OCG_def AVAIL_TCG_def AVAIL_CUSTOM_def AVAIL_SC_def

fun availFlagFor :: "ygopro_rule \<Rightarrow> 32 word" where
  "availFlagFor RULE_OCG = AVAIL_OCG"
| "availFlagFor RULE_TCG = AVAIL_TCG"
| "availFlagFor RULE_SC = AVAIL_SC"
| "availFlagFor RULE_CUSTOM = AVAIL_CUSTOM"
| "availFlagFor RULE_NO_UNIQUE = AVAIL_OCG OR AVAIL_TCG"
| "availFlagFor RULE_ALL = 0"

definition toEdoproRule :: "ygopro_rule \<Rightarrow> rule" where
  "toEdoproRule r = (if r = RULE_OCG then ONLY_OCG else if r = RULE_TCG then ONLY_TCG else ALL_CARDS)"

definition checkAvail :: "32 word \<Rightarrow> card \<Rightarrow> deck_error option" where
  "checkAvail fl c =
     (let ot = card_variant c in
      if ot AND AVAIL_CUSTOM \<noteq> 0 then None
      else if ot AND fl = fl then None
      else if ot AND AVAIL_OCG \<noteq> 0 \<and> fl \<noteq> AVAIL_OCG then Some (OCGCardError (code_key c))
      else if ot AND AVAIL_TCG \<noteq> 0 \<and> fl \<noteq> AVAIL_TCG then Some (TCGCardError (code_key c))
      else Some (NotOfficialCardError (code_key c)))"

definition CardAvailabilityValidationHandler :: "ygopro_rule \<Rightarrow> check \<Rightarrow> check" where
  "CardAvailabilityValidationHandler r nxt d =
     (let fl = availFlagFor r in
      if fl = 0 then nxt d else
      case first_error (checkAvail fl) (allCards d) of Some e \<Rightarrow> Some e | None \<Rightarrow> nxt d)"

subsection \<open>The two chains\<close>

definition Deck_validate :: check where
  "Deck_validate d =
     (let r = deck_rules_of d; b = deck_ban_list d in
      if \<not> isGenesys b then
        DeckLimitsValidationHandler r
          (ForbiddenCardValidationHandler b
            (SemiLimitedCardValidationHandler b
              (LimitedCardValidationHandler b
                (DeckRuleValidationHandler r
                  (OfficialCardValidationHandler r
                    (PrereleaseValidationHandler r
                      (NoLimitedCardValidationHandler b
                        (AvailableCardValidationHandler b no_next)))))))) d
      else
        DeckLimitsValidationHandler r
          (DeckRuleValidationHandler r
            (OfficialCardValidationHandler r
              (PrereleaseValidationHandler r
                (MaxCopiesValidationHandler
                  (GenesysRulesValidationHandler (maxDeckPoints r) (points b)))))) d)"

definition YGOProDeckValidator_validate :: "deck_rules \<Rightarrow> 'a ban_list_scheme \<Rightarrow> ygopro_rule \<Rightarrow> check" where
  "YGOProDeckValidator_validate r b yr d =
     (if isGenesys b then
        DeckLimitsValidationHandler r
          (MaxCopiesValidationHandler
            (GenesysRulesValidationHandler (maxDeckPoints r) (points b))) d
      else
        DeckLimitsValidationHandler r
          (ForbiddenCardValidationHandler b
            (SemiLimitedCardValidationHandler b
              (LimitedCardValidationHandler b
                (CreditLimitValidationHandler b
                  (CardAvailabilityValidationHandler yr
                    (NoLimitedCardValidationHandler b
                      (AvailableCardValidationHandler b no_next))))))) d)"

subsection \<open>What a handler promises\<close>

text \<open>A handler reports \<open>own d\<close>, its own verdict, when it has one, and otherwise gives the deck to
  the next handler, unless it ends the chain for that deck. Its own verdict is \<open>None\<close> exactly on
  the decks that satisfy its rule, and an error it reports describes the deck.\<close>

locale deck_handler =
  fixes handle :: "check \<Rightarrow> check"
    and own :: check
    and rule_ok :: "deck \<Rightarrow> bool"
    and passes_on :: "deck \<Rightarrow> bool"
    and describes :: "deck \<Rightarrow> deck_error \<Rightarrow> bool"
  assumes handle_own: "handle nxt d =
      (case own d of Some e \<Rightarrow> Some e | None \<Rightarrow> if passes_on d then nxt d else None)"
    and own_None: "own d = None \<longleftrightarrow> rule_ok d"
    and own_Some: "own d = Some e \<Longrightarrow> describes d e"
begin

lemma accepts_iff: "handle nxt d = None \<longleftrightarrow> rule_ok d \<and> (passes_on d \<longrightarrow> nxt d = None)"
  using own_None [of d] by (auto simp: handle_own split: option.splits)

lemma rejects_first: "\<not> rule_ok d \<Longrightarrow> handle nxt d = own d"
  using own_None [of d] by (auto simp: handle_own split: option.splits)

lemma hands_over: "rule_ok d \<Longrightarrow> passes_on d \<Longrightarrow> handle nxt d = nxt d"
  using own_None [of d] by (simp add: handle_own)

lemma error_origin: "handle nxt d = Some e \<Longrightarrow> describes d e \<or> rule_ok d \<and> nxt d = Some e"
  using own_None [of d] own_Some [of d e]
  by (auto simp: handle_own split: option.splits if_splits)

end

text \<open>The rules, stated on the deck.\<close>

definition sizes_ok :: "deck_rules \<Rightarrow> deck \<Rightarrow> bool" where
  "sizes_ok r d \<longleftrightarrow>
     mainMin r \<le> length (main_deck d) \<and> length (main_deck d) \<le> mainMax r \<and>
     sideMin r \<le> length (side_deck d) \<and> length (side_deck d) \<le> sideMax r \<and>
     extraMin r \<le> length (extra_deck d) \<and> length (extra_deck d) \<le> extraMax r"

definition at_most :: "nat \<Rightarrow> nat list \<Rightarrow> deck \<Rightarrow> bool" where
  "at_most k xs d \<longleftrightarrow> (\<forall>x \<in> set xs. copies d x \<le> k)"

definition in_scope :: "rule \<Rightarrow> deck \<Rightarrow> bool" where
  "in_scope r d \<longleftrightarrow> (\<forall>c \<in> set (allCards d).
     (r = ONLY_OCG \<longrightarrow> card_variant c AND SCOPE_OCG \<noteq> 0) \<and>
     (r = ONLY_TCG \<longrightarrow> card_variant c AND SCOPE_TCG \<noteq> 0))"

definition pool_ok :: "'a ban_list_scheme \<Rightarrow> deck \<Rightarrow> bool" where
  "pool_ok b d \<longleftrightarrow>
     whitelisted b \<longrightarrow>
     (let av = set (limited b) \<union> set (semiLimited b) \<union> set (forbidden b) \<union> set (all_listed b)
      in av = {} \<or> (\<forall>c \<in> set (allCards d). \<exists>x \<in> av. card_is x c))"

definition copies_ok :: "deck \<Rightarrow> bool" where
  "copies_ok d \<longleftrightarrow> (\<forall>k. length (filter (\<lambda>c. canonical_id c = k) (allCards d)) \<le> 3)"

definition genesys_ok :: "nat \<Rightarrow> (nat, nat) js_map \<Rightarrow> deck \<Rightarrow> bool" where
  "genesys_ok mx pts d \<longleftrightarrow>
     (\<forall>c \<in> set (allCards d). card_type c AND (TYPE_PENDULUM OR TYPE_LINK) = 0 \<and> card_variant c \<noteq> 8) \<and>
     (\<Sum>c\<leftarrow>allCards d. card_points pts c) \<le> mx"

definition credit_of :: "credit_limit \<Rightarrow> card \<Rightarrow> nat" where
  "credit_of l c = (case num_get (credit_cards l) (code_key c) of None \<Rightarrow> 0 | Some n \<Rightarrow> n)"

definition credits_ok :: "'a ban_list_scheme \<Rightarrow> deck \<Rightarrow> bool" where
  "credits_ok b d \<longleftrightarrow> (\<forall>(i, l) \<in> set (creditLimits b). (\<Sum>c\<leftarrow>allCards d. credit_of l c) \<le> cap l)"

definition avail_ok :: "ygopro_rule \<Rightarrow> deck \<Rightarrow> bool" where
  "avail_ok r d \<longleftrightarrow> (\<forall>c \<in> set (allCards d).
     card_variant c AND AVAIL_CUSTOM \<noteq> 0 \<or> card_variant c AND availFlagFor r = availFlagFor r)"

lemma first_error_None: "first_error f cs = None \<longleftrightarrow> (\<forall>c \<in> set cs. f c = None)"
  by (induction cs) (auto split: option.splits)

lemma first_error_Some: "first_error f cs = Some e \<Longrightarrow> \<exists>c \<in> set cs. f c = Some e"
  by (induction cs) (auto split: option.splits)

lemma set_fold_set_add: "set (fold set_add xs ys) = set ys \<union> set xs"
  by (induction xs arbitrary: ys) (auto simp: set_add_def)

lemma set_available: "set (available_cards b) =
    set (limited b) \<union> set (semiLimited b) \<union> set (forbidden b) \<union> set (all_listed b)"
  by (auto simp: available_cards_def set_fold_set_add)

lemma foldl_sum: "foldl (\<lambda>n c. n + f c) k cs = k + (\<Sum>c\<leftarrow>cs. f c :: nat)"
  by (induction cs arbitrary: k) auto

lemma deck_points_sum: "deck_points pts d = (\<Sum>c\<leftarrow>allCards d. card_points pts c)"
  by (simp add: deck_points_def foldl_sum)

lemma spend_credit_None:
  "spent \<le> cap l \<Longrightarrow> spend_credit l spent cs = None \<longleftrightarrow> spent + (\<Sum>c\<leftarrow>cs. credit_of l c) \<le> cap l"
  by (induction cs arbitrary: spent) (auto simp: credit_of_def split: option.splits)

lemma spend_credit_Some:
  "spend_credit l spent cs = Some (k, n) \<Longrightarrow> cap l < n \<and> n \<le> spent + (\<Sum>c\<leftarrow>cs. credit_of l c)"
proof (induction cs arbitrary: spent)
  case (Cons c cs)
  show ?case
    using Cons.prems Cons.IH [of spent] Cons.IH [of "spent + credit_of l c"]
    by (cases "num_get (credit_cards l) (code_key c)") (auto simp: credit_of_def split: if_splits)
qed simp

lemma tally_mem: "(k, n) \<in> set (js_tally ks) \<longleftrightarrow> k \<in> set ks \<and> n = count_list ks k"
  using map_ok_mem [OF map_ok_tally, of k n ks] map_of_mem [of "js_tally ks" k n]
  by (auto simp: tally_look split: if_splits)

lemma tally_over_None:
  "find (\<lambda>(k, n). n > m) (js_tally ks) = None \<longleftrightarrow> (\<forall>k. count_list ks k \<le> m)"
proof -
  have "find (\<lambda>(k, n). n > m) (js_tally ks) = None \<longleftrightarrow> (\<forall>k \<in> set ks. count_list ks k \<le> m)"
    by (auto simp: find_None_iff tally_mem not_less)
  moreover have "k \<notin> set ks \<Longrightarrow> count_list ks k \<le> m" for k
    by simp
  ultimately show ?thesis
    by blast
qed

lemma count_list_map: "count_list (map f cs) k = length (filter (\<lambda>c. f c = k) cs)"
  by (induction cs) auto

definition own_of :: "(check \<Rightarrow> check) \<Rightarrow> check" where
  "own_of h d = h no_next d"

definition describes_sizes :: "deck_rules \<Rightarrow> deck \<Rightarrow> deck_error \<Rightarrow> bool" where
  "describes_sizes r d e \<longleftrightarrow>
     e = MainDeckLimitError (length (main_deck d)) (mainMin r) (mainMax r) \<and>
       \<not> (mainMin r \<le> length (main_deck d) \<and> length (main_deck d) \<le> mainMax r) \<or>
     e = SideDeckLimitError (length (side_deck d)) (sideMin r) (sideMax r) \<and>
       \<not> (sideMin r \<le> length (side_deck d) \<and> length (side_deck d) \<le> sideMax r) \<or>
     e = ExtraDeckLimitError (length (extra_deck d)) (extraMin r) (extraMax r) \<and>
       \<not> (extraMin r \<le> length (extra_deck d) \<and> length (extra_deck d) \<le> extraMax r)"

text \<open>An error of a per-list handler names a card of that list with too many copies; an error of a
  per-card handler names the code of a card of the deck.\<close>

definition describes_over :: "(nat option \<Rightarrow> deck_error) \<Rightarrow> nat \<Rightarrow> nat list \<Rightarrow> deck \<Rightarrow> deck_error \<Rightarrow> bool" where
  "describes_over E k xs d e \<longleftrightarrow> (\<exists>x \<in> set xs. e = E (Some x) \<and> k < copies d x)"

definition describes_card :: "(card \<Rightarrow> deck_error \<Rightarrow> bool) \<Rightarrow> deck \<Rightarrow> deck_error \<Rightarrow> bool" where
  "describes_card P d e \<longleftrightarrow> (\<exists>c \<in> set (allCards d). P c e)"

lemma at_most_iff: "at_most k xs d \<longleftrightarrow> first_over k xs d = None"
  by (simp add: at_most_def first_over_None)

lemma in_scope_iff: "in_scope r d \<longleftrightarrow> first_error (rule_error r) (allCards d) = None"
  by (auto simp: in_scope_def first_error_None rule_error_def)

interpretation limits: deck_handler "DeckLimitsValidationHandler r"
    "own_of (DeckLimitsValidationHandler r)" "sizes_ok r" "\<lambda>_. True" "describes_sizes r" for r
  by unfold_locales
    (auto simp: own_of_def no_next_def DeckLimitsValidationHandler_def sizes_ok_def describes_sizes_def
      split: if_splits)

interpretation forbidden: deck_handler "ForbiddenCardValidationHandler b"
    "own_of (ForbiddenCardValidationHandler b)" "at_most 0 (forbidden b)" "\<lambda>_. True"
    "describes_over BanListDeckError 0 (forbidden b)" for b :: "'a ban_list_scheme"
  by unfold_locales
    (auto simp: own_of_def no_next_def ForbiddenCardValidationHandler_def at_most_iff
      describes_over_def dest: first_over_Some split: option.splits)

interpretation semi: deck_handler "SemiLimitedCardValidationHandler b"
    "own_of (SemiLimitedCardValidationHandler b)" "at_most 2 (semiLimited b)" "\<lambda>_. True"
    "describes_over BanListDeckError 2 (semiLimited b)" for b :: "'a ban_list_scheme"
  by unfold_locales
    (auto simp: own_of_def no_next_def SemiLimitedCardValidationHandler_def at_most_iff
      describes_over_def dest: first_over_Some split: option.splits)

interpretation lim: deck_handler "LimitedCardValidationHandler b"
    "own_of (LimitedCardValidationHandler b)" "at_most 1 (limited b)" "\<lambda>_. True"
    "describes_over BanListDeckError 1 (limited b)" for b :: "'a ban_list_scheme"
  by unfold_locales
    (auto simp: own_of_def no_next_def LimitedCardValidationHandler_def at_most_iff
      describes_over_def dest: first_over_Some split: option.splits)

interpretation nolim: deck_handler "NoLimitedCardValidationHandler b"
    "own_of (NoLimitedCardValidationHandler b)" "at_most 3 (all_listed b)" "\<lambda>_. True"
    "describes_over CardMoreThan3Error 3 (all_listed b)" for b :: "'a ban_list_scheme"
  by unfold_locales
    (auto simp: own_of_def no_next_def NoLimitedCardValidationHandler_def at_most_iff
      describes_over_def dest: first_over_Some split: option.splits)

interpretation scope: deck_handler "DeckRuleValidationHandler r"
    "own_of (DeckRuleValidationHandler r)" "in_scope (deck_rule r)" "\<lambda>_. True"
    "describes_card (\<lambda>c e. rule_error (deck_rule r) c = Some e)" for r
  by unfold_locales
    (auto simp: own_of_def no_next_def DeckRuleValidationHandler_def in_scope_iff describes_card_def dest: first_error_Some split: option.splits if_splits)

interpretation official: deck_handler "OfficialCardValidationHandler r"
    "own_of (OfficialCardValidationHandler r)"
    "\<lambda>d. \<forall>c \<in> set (allCards d). official_allowed (deck_rule r) c" "\<lambda>_. True"
    "describes_card (\<lambda>c e. \<not> official_allowed (deck_rule r) c \<and> e = NotOfficialCardError (code_key c))" for r
  by unfold_locales
    (auto simp: own_of_def no_next_def OfficialCardValidationHandler_def find_None_iff
      describes_card_def dest: find_SomeD split: option.splits)

interpretation prerelease: deck_handler "PrereleaseValidationHandler r"
    "own_of (PrereleaseValidationHandler r)"
    "\<lambda>d. \<forall>c \<in> set (allCards d). prerelease_allowed (deck_rule r) c" "\<lambda>_. True"
    "describes_card (\<lambda>c e. \<not> prerelease_allowed (deck_rule r) c \<and> e = NotOfficialCardError (code_key c))" for r
  by unfold_locales
    (auto simp: own_of_def no_next_def PrereleaseValidationHandler_def find_None_iff
      describes_card_def dest: find_SomeD split: option.splits)

lemma pool_reject_iff:
  "find (\<lambda>c. \<not> listed av (code_key c) \<and> (alias_key c = Some 0 \<or> \<not> listed av (alias_key c))) cs = None
   \<longleftrightarrow> (\<forall>c \<in> set cs. \<exists>x \<in> set av. card_is x c)"
proof -
  have "\<not> (\<not> listed av (code_key c) \<and> (alias_key c = Some 0 \<or> \<not> listed av (alias_key c))) \<longleftrightarrow>
      (\<exists>x \<in> set av. card_is x c)" for c
    by (cases "code_key c"; cases "alias_key c") (auto simp: listed_def card_is_def)
  then show ?thesis
    by (auto simp: find_None_iff)
qed

lemma available_empty: "available_cards b = [] \<longleftrightarrow>
    set (limited b) \<union> set (semiLimited b) \<union> set (forbidden b) \<union> set (all_listed b) = {}"
  using set_available [of b] by (metis set_empty)

interpretation pool: deck_handler "AvailableCardValidationHandler b"
    "own_of (AvailableCardValidationHandler b)" "pool_ok b" "\<lambda>_. whitelisted b"
    "describes_card (\<lambda>c e. e = UnknownCardError (code_key c))" for b :: "'a ban_list_scheme"
proof unfold_locales
  fix d e
  show "(own_of (AvailableCardValidationHandler b) d = None) = pool_ok b d"
    using pool_reject_iff [of "available_cards b" "allCards d"] available_empty [of b]
    by (auto simp: own_of_def no_next_def AvailableCardValidationHandler_def pool_ok_def Let_def
        set_available split: option.splits)
  show "own_of (AvailableCardValidationHandler b) d = Some e \<Longrightarrow>
      describes_card (\<lambda>c e. e = UnknownCardError (code_key c)) d e"
    by (auto simp: own_of_def no_next_def AvailableCardValidationHandler_def Let_def describes_card_def
        dest: find_SomeD split: option.splits if_splits)
qed (auto simp: own_of_def no_next_def AvailableCardValidationHandler_def Let_def split: option.splits)

interpretation max_copies: deck_handler MaxCopiesValidationHandler
    "own_of MaxCopiesValidationHandler" copies_ok "\<lambda>_. True"
    "\<lambda>d e. \<exists>k. e = CardMoreThan3Error k \<and> 3 < length (filter (\<lambda>c. canonical_id c = k) (allCards d))"
proof unfold_locales
  fix d e
  show "(own_of MaxCopiesValidationHandler d = None) = copies_ok d"
    using tally_over_None [of 3 "map canonical_id (allCards d)"]
    by (auto simp: own_of_def no_next_def MaxCopiesValidationHandler_def copies_ok_def count_list_map
        split: option.splits)
  show "own_of MaxCopiesValidationHandler d = Some e \<Longrightarrow>
      \<exists>k. e = CardMoreThan3Error k \<and> 3 < length (filter (\<lambda>c. canonical_id c = k) (allCards d))"
    by (auto simp: own_of_def no_next_def MaxCopiesValidationHandler_def tally_mem count_list_map
        dest!: find_SomeD split: option.splits prod.splits)
qed (auto simp: own_of_def no_next_def MaxCopiesValidationHandler_def split: option.splits prod.splits)

lemma genesys_card_error_None: "genesys_card_error c = None \<longleftrightarrow>
    card_type c AND (TYPE_PENDULUM OR TYPE_LINK) = 0 \<and> card_variant c \<noteq> 8"
  by (simp add: genesys_card_error_def)

lemma genesys_iff: "genesys_ok mx pts d \<longleftrightarrow>
    first_error genesys_card_error (allCards d) = None \<and> deck_points pts d \<le> mx"
  by (auto simp: genesys_ok_def first_error_None genesys_card_error_None deck_points_sum)

interpretation genesys: deck_handler "\<lambda>_. GenesysRulesValidationHandler mx pts"
    "GenesysRulesValidationHandler mx pts" "genesys_ok mx pts" "\<lambda>_. False"
    "\<lambda>d e. describes_card (\<lambda>c e. genesys_card_error c = Some e) d e \<or>
       e = MainDeckLimitError (deck_points pts d) 0 mx \<and> mx < deck_points pts d" for mx pts
  by unfold_locales
    (auto simp: GenesysRulesValidationHandler_def genesys_iff no_next_def describes_card_def
      dest: first_error_Some split: option.splits if_splits)

lemma credit_error_None: "credit_error d (i, l) = None \<longleftrightarrow> (\<Sum>c\<leftarrow>allCards d. credit_of l c) \<le> cap l"
  using spend_credit_None [of 0 l "allCards d"] by (auto simp: credit_error_def split: option.splits)

lemma credits_iff: "credits_ok b d \<longleftrightarrow> first_error (credit_error d) (creditLimits b) = None"
  by (auto simp: credits_ok_def first_error_None credit_error_None)

lemma credit_error_Some: "credit_error d (i, l) = Some e \<Longrightarrow>
    \<exists>k n. e = CreditLimitDeckError k n (cap l) \<and> cap l < n \<and> n \<le> (\<Sum>c\<leftarrow>allCards d. credit_of l c)"
  using spend_credit_Some [of l 0 "allCards d"] by (auto simp: credit_error_def split: option.splits)

interpretation credits: deck_handler "CreditLimitValidationHandler b"
    "own_of (CreditLimitValidationHandler b)" "credits_ok b" "\<lambda>_. True"
    "\<lambda>d e. \<exists>(i, l) \<in> set (creditLimits b). \<exists>k n. e = CreditLimitDeckError k n (cap l) \<and> cap l < n \<and>
       n \<le> (\<Sum>c\<leftarrow>allCards d. credit_of l c)" for b :: "'a ban_list_scheme"
proof unfold_locales
  fix d e
  assume "own_of (CreditLimitValidationHandler b) d = Some e"
  then have "first_error (credit_error d) (creditLimits b) = Some e"
    by (auto simp: own_of_def no_next_def CreditLimitValidationHandler_def split: option.splits)
  then obtain i l where "(i, l) \<in> set (creditLimits b)" "credit_error d (i, l) = Some e"
    using first_error_Some by fastforce
  then show "\<exists>(i, l) \<in> set (creditLimits b). \<exists>k n. e = CreditLimitDeckError k n (cap l) \<and> cap l < n \<and>
       n \<le> (\<Sum>c\<leftarrow>allCards d. credit_of l c)"
    using credit_error_Some by blast
qed (auto simp: own_of_def no_next_def CreditLimitValidationHandler_def credits_iff split: option.splits)

lemma checkAvail_None: "checkAvail fl c = None \<longleftrightarrow>
    card_variant c AND AVAIL_CUSTOM \<noteq> 0 \<or> card_variant c AND fl = fl"
  by (simp add: checkAvail_def Let_def)

lemma avail_iff: "avail_ok r d \<longleftrightarrow>
    availFlagFor r = 0 \<or> first_error (checkAvail (availFlagFor r)) (allCards d) = None"
  by (auto simp: avail_ok_def first_error_None checkAvail_None)

interpretation avail: deck_handler "CardAvailabilityValidationHandler r"
    "own_of (CardAvailabilityValidationHandler r)" "avail_ok r" "\<lambda>_. True"
    "describes_card (\<lambda>c e. checkAvail (availFlagFor r) c = Some e)" for r
  by unfold_locales
    (auto simp: own_of_def no_next_def CardAvailabilityValidationHandler_def Let_def avail_iff
      describes_card_def dest: first_error_Some split: option.splits if_splits)

text \<open>Which decks each chain accepts, one handler after the other.\<close>

lemmas chain_accepts = limits.accepts_iff forbidden.accepts_iff semi.accepts_iff lim.accepts_iff
  nolim.accepts_iff scope.accepts_iff official.accepts_iff prerelease.accepts_iff pool.accepts_iff
  max_copies.accepts_iff credits.accepts_iff avail.accepts_iff

definition list_ok :: "'a ban_list_scheme \<Rightarrow> deck \<Rightarrow> bool" where
  "list_ok b d \<longleftrightarrow> at_most 0 (forbidden b) d \<and> at_most 1 (limited b) d \<and> at_most 2 (semiLimited b) d \<and>
     at_most 3 (all_listed b) d \<and> pool_ok b d"

definition scope_ok :: "rule \<Rightarrow> deck \<Rightarrow> bool" where
  "scope_ok r d \<longleftrightarrow> (\<forall>c \<in> set (allCards d). official_allowed r c \<and> prerelease_allowed r c) \<and> in_scope r d"

lemma Deck_validate_accepts:
  "Deck_validate d = None \<longleftrightarrow>
     sizes_ok (deck_rules_of d) d \<and> scope_ok (deck_rule (deck_rules_of d)) d \<and>
     (if isGenesys (deck_ban_list d)
      then copies_ok d \<and> genesys_ok (maxDeckPoints (deck_rules_of d)) (points (deck_ban_list d)) d
      else list_ok (deck_ban_list d) d)"
  by (auto simp: Deck_validate_def Let_def chain_accepts genesys.own_None no_next_def list_ok_def scope_ok_def)

lemma YGOPro_validate_accepts:
  "YGOProDeckValidator_validate r b yr d = None \<longleftrightarrow>
     sizes_ok r d \<and>
     (if isGenesys b then copies_ok d \<and> genesys_ok (maxDeckPoints r) (points b) d
      else list_ok b d \<and> credits_ok b d \<and> avail_ok yr d)"
  by (auto simp: YGOProDeckValidator_validate_def chain_accepts genesys.own_None no_next_def list_ok_def)

subsection \<open>Properties\<close>



text \<open>A ban-list rejection of the EDOPro chain is justified: the card it names is on the list
  and the deck holds more copies of it, aliases included, than its category allows.\<close>

theorem ban_list_rejection_is_justified:
  assumes "Deck_validate d = Some (BanListDeckError k)" and "\<not> isGenesys (deck_ban_list d)"
  shows "\<exists>x. k = Some x \<and>
    (x \<in> set (forbidden (deck_ban_list d)) \<and> 0 < copies d x \<or>
     x \<in> set (limited (deck_ban_list d)) \<and> 1 < copies d x \<or>
     x \<in> set (semiLimited (deck_ban_list d)) \<and> 2 < copies d x)"
  using assms unfolding Deck_validate_def Let_def
  by (auto dest!: limits.error_origin forbidden.error_origin semi.error_origin lim.error_origin
      scope.error_origin official.error_origin prerelease.error_origin nolim.error_origin pool.error_origin
      simp: describes_sizes_def describes_over_def describes_card_def no_next_def rule_error_def
      split: if_splits)

definition sample_card :: "string \<Rightarrow> string \<Rightarrow> card" where
  "sample_card c a = \<lparr>card_alias = a, card_code = c, card_type = 1, card_category = 0, card_variant = 3\<rparr>"

definition open_rules :: deck_rules where
  "open_rules = new_deck_rules 0 60 0 15 0 15 ALL_CARDS None"

definition alias_deck :: deck where
  "alias_deck = \<lparr>main_deck = [sample_card ''11'' ''0'', sample_card ''12'' ''11''], side_deck = [],
     extra_deck = [], deck_ban_list = empty_ban_list\<lparr>limited := [11]\<rparr>, deck_rules_of = open_rules\<rparr>"

lemma Number_samples [simp]:
  "js_Number ''11'' = Some 11" "js_Number ''12'' = Some 12" "js_Number ''0'' = Some 0"
  by (simp_all add: js_Number_def js_trim_def is_space_def is_digit_def digits_value_def digit_val_def)

lemma alias_deck_rejected: "Deck_validate alias_deck = Some (BanListDeckError (Some 11))"
  by (simp add: Deck_validate_def alias_deck_def isGenesys_def empty_ban_list_def
      DeckLimitsValidationHandler_def ForbiddenCardValidationHandler_def SemiLimitedCardValidationHandler_def
      LimitedCardValidationHandler_def first_over_def tally_cards_copies copies_def allCards_def card_is_def
      code_key_def alias_key_def sample_card_def open_rules_def new_deck_rules_def)

theorem ban_list_rejection_is_justified_witness:
  "\<exists>x. Some 11 = Some x \<and>
    (x \<in> set (forbidden (deck_ban_list alias_deck)) \<and> 0 < copies alias_deck x \<or>
     x \<in> set (limited (deck_ban_list alias_deck)) \<and> 1 < copies alias_deck x \<or>
     x \<in> set (semiLimited (deck_ban_list alias_deck)) \<and> 2 < copies alias_deck x)"
  by (rule ban_list_rejection_is_justified [OF alias_deck_rejected])
    (simp add: alias_deck_def isGenesys_def empty_ban_list_def)

end
