(* ===== verification/DeckBuild.thy ===== *)
theory DeckBuild
  imports Decks
begin

text \<open>
  From the bytes of an update-deck message to a deck and its side-deck swaps: the message parser
  (\<open>src/edopro/deck/domain/UpdateDeckMessageSizeCalculator.ts\<close>), the two deck creators
  (\<open>src/edopro/deck/application/DeckCreator.ts\<close>, \<open>src/ygopro/deck/application/YGOProDeckCreator.ts\<close>)
  and \<open>Deck.isSideDeckValid\<close>. The card database is a parameter \<open>repo\<close>, a function from the
  code's decimal text to the card; so is the list of loaded ban lists. The mask of extra-deck types
  of the YGOPro engine comes from a library and is a parameter too.
\<close>

subsection \<open>The message\<close>

primrec read_codes :: "nat \<Rightarrow> nat \<Rightarrow> buffer \<Rightarrow> nat list option" where
  "read_codes 0 i b = Some []"
| "read_codes (Suc k) i b = do {
     c \<leftarrow> readUInt32LE i b;
     cs \<leftarrow> read_codes k (i + 4) b;
     Some (c # cs) }"

definition deck_message_size :: "buffer \<Rightarrow> nat option" where
  "deck_message_size b = do {
     m \<leftarrow> readUInt32LE 0 b;
     s \<leftarrow> readUInt32LE 4 b;
     Some ((m + s) * 4 + 8) }"

definition getDeck :: "buffer \<Rightarrow> (nat list \<times> nat list) option" where
  "getDeck b = do {
     size \<leftarrow> deck_message_size b;
     let body = subarray 0 size b;
     m \<leftarrow> readUInt32LE 0 body;
     s \<leftarrow> readUInt32LE 4 body;
     main \<leftarrow> read_codes m 8 body;
     side \<leftarrow> read_codes s (m * 4 + 8) body;
     Some (main, side) }"

definition deck_message :: "nat list \<Rightarrow> nat list \<Rightarrow> buffer" where
  "deck_message main side = le_bytes 4 (length main) @ le_bytes 4 (length side) @
     concat (map (le_bytes 4) main) @ concat (map (le_bytes 4) side)"

subsection \<open>The creators\<close>

type_synonym repository = "string \<Rightarrow> card option"

definition placeRitualInExtraDeckEnabled :: "nat \<Rightarrow> bool" where
  "placeRitualInExtraDeckEnabled flags \<longleftrightarrow> flags AND 0x800000000 \<noteq> 0"

fun edopro_sort :: "repository \<Rightarrow> bool \<Rightarrow> nat list \<Rightarrow> card list \<times> card list \<Rightarrow> card list \<times> card list" where
  "edopro_sort repo ritual [] acc = acc"
| "edopro_sort repo ritual (c # cs) (main, extra) =
     (case repo (show_nat c) of
        None \<Rightarrow> edopro_sort repo ritual cs (main, extra)
      | Some k \<Rightarrow>
          if isExtraCard k \<or> isRitualMonster k \<and> ritual
          then edopro_sort repo ritual cs (main, extra @ [k])
          else edopro_sort repo ritual cs (main @ [k], extra))"

fun edopro_side :: "repository \<Rightarrow> nat list \<Rightarrow> card list \<Rightarrow> card list" where
  "edopro_side repo [] acc = acc"
| "edopro_side repo (c # cs) acc =
     (case repo (show_nat c) of None \<Rightarrow> edopro_side repo cs acc | Some k \<Rightarrow> edopro_side repo cs (acc @ [k]))"

definition DeckCreator_build ::
  "repository \<Rightarrow> ban_list list \<Rightarrow> deck_rules \<Rightarrow> nat \<Rightarrow> nat list \<Rightarrow> nat list \<Rightarrow> int \<Rightarrow> deck" where
  "DeckCreator_build repo loaded rules flags main side h =
     (case edopro_sort repo (placeRitualInExtraDeckEnabled flags) main ([], []) of (m, e) \<Rightarrow>
       \<lparr>main_deck = m, side_deck = edopro_side repo side [], extra_deck = e,
        deck_ban_list = (case findByHash loaded h of None \<Rightarrow> empty_ban_list | Some l \<Rightarrow> l),
        deck_rules_of = rules\<rparr>)"

fun ygopro_sort ::
  "repository \<Rightarrow> 32 word \<Rightarrow> nat list \<Rightarrow> card list \<times> card list \<Rightarrow> deck_error + (card list \<times> card list)" where
  "ygopro_sort repo extra_types [] acc = Inr acc"
| "ygopro_sort repo extra_types (c # cs) (main, extra) =
     (case repo (show_nat c) of
        None \<Rightarrow> Inl (UnknownCardError (Some c))
      | Some k \<Rightarrow>
          if card_type k \<noteq> 0 \<and> card_type k AND extra_types \<noteq> 0
          then ygopro_sort repo extra_types cs (main, extra @ [k])
          else ygopro_sort repo extra_types cs (main @ [k], extra))"

fun ygopro_side :: "repository \<Rightarrow> nat list \<Rightarrow> card list \<Rightarrow> deck_error + card list" where
  "ygopro_side repo [] acc = Inr acc"
| "ygopro_side repo (c # cs) acc =
     (case repo (show_nat c) of
        None \<Rightarrow> Inl (UnknownCardError (Some c))
      | Some k \<Rightarrow> ygopro_side repo cs (acc @ [k]))"

definition YGOProDeckCreator_build ::
  "repository \<Rightarrow> 32 word \<Rightarrow> ygopro_ban_list list \<Rightarrow> deck_rules \<Rightarrow> nat list \<Rightarrow> nat list \<Rightarrow> int
   \<Rightarrow> deck_error + deck" where
  "YGOProDeckCreator_build repo extra_types loaded rules main side h =
     (case ygopro_sort repo extra_types main ([], []) of
        Inl e \<Rightarrow> Inl e
      | Inr (m, e) \<Rightarrow>
          (case ygopro_side repo side [] of
             Inl e \<Rightarrow> Inl e
           | Inr s \<Rightarrow> Inr \<lparr>main_deck = m, side_deck = s, extra_deck = e,
               deck_ban_list = ban_list.truncate
                 (case findByHash loaded h of None \<Rightarrow> empty_ygopro_ban_list | Some l \<Rightarrow> l),
               deck_rules_of = rules\<rparr>))"

subsection \<open>Side decking\<close>

definition isSideDeckValid :: "deck \<Rightarrow> nat list \<Rightarrow> nat list \<Rightarrow> bool" where
  "isSideDeckValid d newMain newSide =
     (let oldCounts = js_tally (map code_key (allCards d));
          newCounts = js_tally (map Some (newMain @ newSide))
      in if length oldCounts \<noteq> length newCounts then False
         else list_all (\<lambda>(k, n). map_get newCounts k = Some n) oldCounts)"

subsection \<open>Lemmas\<close>

lemma length_codes [simp]: "length (concat (map (le_bytes 4) cs)) = 4 * length cs"
  by (induction cs) auto

lemma read_codes_written:
  "list_all (\<lambda>c. c < 2 ^ 32) cs \<Longrightarrow> length pre = i \<Longrightarrow>
   read_codes (length cs) i (pre @ concat (map (le_bytes 4) cs) @ r) = Some cs"
proof (induction cs arbitrary: pre i)
  case (Cons c cs)
  have "readUInt32LE i (pre @ le_bytes 4 c @ concat (map (le_bytes 4) cs) @ r) = Some c"
    unfolding readUInt32LE_def using Cons.prems by (intro read_written) auto
  moreover have "read_codes (length cs) (i + 4) ((pre @ le_bytes 4 c) @ concat (map (le_bytes 4) cs) @ r) = Some cs"
    using Cons.prems by (intro Cons.IH) auto
  ultimately show ?case by simp
qed simp

lemma read_codes_length: "read_codes k i b = Some cs \<Longrightarrow> length cs = k"
  by (induction k arbitrary: i cs) (auto split: Option.bind_splits)

definition found :: "repository \<Rightarrow> nat list \<Rightarrow> card list" where
  "found repo cs = List.map_filter (\<lambda>c. repo (show_nat c)) cs"

lemma found_simps [simp]:
  "found repo [] = []"
  "found repo (c # cs) = (case repo (show_nat c) of None \<Rightarrow> found repo cs | Some k \<Rightarrow> k # found repo cs)"
  by (simp_all add: found_def List.map_filter_simps split: option.splits)

lemma edopro_sort_zones:
  "edopro_sort repo ritual cs (m, e) =
    (m @ filter (\<lambda>k. \<not> (isExtraCard k \<or> isRitualMonster k \<and> ritual)) (found repo cs),
     e @ filter (\<lambda>k. isExtraCard k \<or> isRitualMonster k \<and> ritual) (found repo cs))"
  by (induction cs arbitrary: m e) (auto split: option.splits)

lemma edopro_side_found: "edopro_side repo cs acc = acc @ found repo cs"
  by (induction cs arbitrary: acc) (auto split: option.splits)

lemma ygopro_sort_zones:
  "ygopro_sort repo x cs (m, e) =
    (case find (\<lambda>c. repo (show_nat c) = None) cs of
       Some c \<Rightarrow> Inl (UnknownCardError (Some c))
     | None \<Rightarrow> Inr (m @ filter (\<lambda>k. card_type k AND x = 0) (found repo cs),
                   e @ filter (\<lambda>k. card_type k AND x \<noteq> 0) (found repo cs)))"
  by (induction cs arbitrary: m e) (auto split: option.splits)

lemma ygopro_side_found:
  "ygopro_side repo cs acc =
    (case find (\<lambda>c. repo (show_nat c) = None) cs of
       Some c \<Rightarrow> Inl (UnknownCardError (Some c)) | None \<Rightarrow> Inr (acc @ found repo cs))"
  by (induction cs arbitrary: acc) (auto split: option.splits)

lemma length_tally: "length (js_tally ks) = card (set ks)"
  using map_ok_tally [of ks] keys_tally [of ks]
  by (metis distinct_card length_map map_ok_def)

lemma tally_mem_all:
  "(\<forall>(k, n) \<in> set (js_tally ks). P k n) \<longleftrightarrow> (\<forall>k \<in> set ks. P k (count_list ks k))"
  using tally_mem by fastforce

lemma same_tally:
  "length (js_tally ks) = length (js_tally ks') \<and>
     (\<forall>(k, n) \<in> set (js_tally ks). map_get (js_tally ks') k = Some n) \<longleftrightarrow> mset ks = mset ks'"
    (is "?l \<longleftrightarrow> ?r")
proof
  assume ?l
  then have card: "card (set ks) = card (set ks')"
    and counts: "\<forall>k \<in> set ks. k \<in> set ks' \<and> count_list ks' k = count_list ks k"
    by (auto simp: length_tally tally_mem_all tally_look split: if_splits)
  then have "set ks = set ks'"
    by (intro card_subset_eq) auto
  then have "count_list ks' k = count_list ks k" for k
    using counts by (cases "k \<in> set ks") auto
  then show ?r
    by (simp add: multiset_eq_iff count_list_mset)
next
  assume r: ?r
  then have "count_list ks' = count_list ks"
    by (simp add: fun_eq_iff count_list_mset)
  moreover have "set ks' = set ks"
    using mset_eq_setD [OF r] by simp
  ultimately show ?l
    by (simp add: length_tally tally_mem_all tally_look)
qed

lemma side_deck_counts:
  "isSideDeckValid d nm ns \<longleftrightarrow> mset (map code_key (allCards d)) = mset (map Some (nm @ ns))"
  using same_tally [of "map code_key (allCards d)" "map Some (nm @ ns)"]
  by (auto simp: isSideDeckValid_def Let_def list_all_iff)

definition unknown_code :: "repository \<Rightarrow> nat list \<Rightarrow> nat option" where
  "unknown_code repo cs = find (\<lambda>c. repo (show_nat c) = None) cs"

definition repo_ok :: "repository \<Rightarrow> bool" where
  "repo_ok repo \<longleftrightarrow> (\<forall>c k. repo (show_nat c) = Some k \<longrightarrow> code_key k = Some c)"

lemma found_codes:
  "repo_ok repo \<Longrightarrow> unknown_code repo cs = None \<Longrightarrow> map code_key (found repo cs) = map Some cs"
  by (induction cs) (auto simp: unknown_code_def repo_ok_def split: if_splits)

lemma filter_split_mset: "mset (filter P xs) + mset (filter (\<lambda>x. \<not> P x) xs) = mset xs"
  by (induction xs) auto

lemma ygopro_build_cases:
  "YGOProDeckCreator_build repo x loaded rules main side h =
    (case unknown_code repo (main @ side) of
       Some c \<Rightarrow> Inl (UnknownCardError (Some c))
     | None \<Rightarrow> Inr \<lparr>main_deck = filter (\<lambda>k. card_type k AND x = 0) (found repo main),
         side_deck = found repo side,
         extra_deck = filter (\<lambda>k. card_type k AND x \<noteq> 0) (found repo main),
         deck_ban_list = ban_list.truncate
           (case findByHash loaded h of None \<Rightarrow> empty_ygopro_ban_list | Some l \<Rightarrow> l),
         deck_rules_of = rules\<rparr>)"
proof -
  have "find P (xs @ ys) = (case find P xs of None \<Rightarrow> find P ys | Some z \<Rightarrow> Some z)" for P and xs ys :: "nat list"
    by (induction xs) auto
  then show ?thesis
    by (simp add: YGOProDeckCreator_build_def ygopro_sort_zones ygopro_side_found unknown_code_def
        split: option.splits)
qed

lemma some_mset_inj: "image_mset Some a = image_mset Some b \<longleftrightarrow> a = b"
  by (auto dest!: arg_cong [of _ _ "image_mset the"] simp: multiset.map_comp comp_def)

lemma ygopro_build_codes:
  assumes "repo_ok repo" and "YGOProDeckCreator_build repo x loaded rules main side h = Inr d"
  shows "mset (map code_key (allCards d)) = mset (map Some (main @ side))"
proof -
  have known: "unknown_code repo (main @ side) = None"
    and d: "allCards d = filter (\<lambda>k. card_type k AND x = 0) (found repo main) @ found repo side @
        filter (\<lambda>k. card_type k AND x \<noteq> 0) (found repo main)"
    using assms(2) by (auto simp: ygopro_build_cases allCards_def split: option.splits)
  have "mset (allCards d) = mset (found repo (main @ side))"
    using filter_split_mset [of "\<lambda>k. card_type k AND x = 0" "found repo main"]
    by (simp add: d found_def List.map_filter_def)
  then have "mset (map code_key (allCards d)) = mset (map code_key (found repo (main @ side)))"
    by (simp only: mset_map)
  then show ?thesis
    using found_codes [OF assms(1) known] by simp
qed

subsection \<open>Properties\<close>

text \<open>A deck message is read back as the two lists of codes it was written from, whatever
  follows it in the buffer.\<close>

theorem deck_message_round_trip:
  assumes "list_all (\<lambda>c. c < 2 ^ 32) (main @ side)" and "length main < 2 ^ 32" and "length side < 2 ^ 32"
  shows "getDeck (deck_message main side @ rest) = Some (main, side)"
proof -
  let ?m = "le_bytes 4 (length main)" and ?s = "le_bytes 4 (length side)"
  let ?mb = "concat (map (le_bytes 4) main)" and ?sb = "concat (map (le_bytes 4) side)"
  have sizes: "readUInt32LE 0 (?m @ ?s @ r) = Some (length main)"
    "readUInt32LE 4 (?m @ ?s @ r) = Some (length side)" for r
    using read_written [of "[]" 0 "length main" 4] read_written [of ?m 4 "length side" 4 r] assms(2,3)
    by (simp_all add: readUInt32LE_def)
  have body: "subarray 0 ((length main + length side) * 4 + 8) (deck_message main side @ rest) =
      ?m @ ?s @ ?mb @ ?sb"
    by (simp add: subarray_def deck_message_def)
  have body': "subarray 0 (length main * 4 + length side * 4 + 8) (?m @ ?s @ ?mb @ ?sb @ rest) = ?m @ ?s @ ?mb @ ?sb"
    using body by (simp add: deck_message_def algebra_simps)
  have codes: "read_codes (length main) 8 (?m @ ?s @ ?mb @ ?sb) = Some main"
    "read_codes (length side) (length main * 4 + 8) (?m @ ?s @ ?mb @ ?sb) = Some side"
    using read_codes_written [of main "?m @ ?s" 8 ?sb] read_codes_written [of side "?m @ ?s @ ?mb" "length main * 4 + 8" "[]"]
      assms(1) by (simp_all add: ac_simps)
  show ?thesis
    using sizes [of "?mb @ ?sb @ rest"] sizes [of "?mb @ ?sb"]
    by (simp add: getDeck_def deck_message_size_def deck_message_def body' codes)
qed

theorem deck_message_round_trip_witness:
  "getDeck (deck_message [46986414, 89631139] [5] @ [1, 2]) = Some ([46986414, 89631139], [5])"
  by (rule deck_message_round_trip) simp_all

text \<open>C6. A side-deck swap is accepted exactly when the new main and side decks hold, together, the
  same codes with the same multiplicities as the three zones of the registered deck.\<close>

theorem side_deck_swap_is_rearrangement:
  "isSideDeckValid d newMain newSide \<longleftrightarrow>
     mset (map code_key (allCards d)) = mset (map Some (newMain @ newSide))"
  by (rule side_deck_counts)

text \<open>A deck the YGOPro creator builds from the codes a client sent accepts as a later swap
  exactly the rearrangements of those codes, wherever the creator placed the cards.\<close>

theorem built_deck_accepts_rearrangements:
  assumes "\<And>c k. repo (show_nat c) = Some k \<Longrightarrow> code_key k = Some c"
    and "YGOProDeckCreator_build repo x loaded rules main side h = Inr d"
  shows "isSideDeckValid d newMain newSide \<longleftrightarrow> mset (newMain @ newSide) = mset (main @ side)"
proof -
  have "repo_ok repo"
    using assms(1) by (simp add: repo_ok_def)
  then have "isSideDeckValid d newMain newSide \<longleftrightarrow>
      image_mset Some (mset (main @ side)) = image_mset Some (mset (newMain @ newSide))"
    using ygopro_build_codes [OF _ assms(2)] by (simp add: side_deck_counts)
  then show ?thesis
    using some_mset_inj [of "mset (main @ side)" "mset (newMain @ newSide)"] by auto
qed

definition two_cards :: repository where
  "two_cards t = (if js_Number t = Some 11 \<or> js_Number t = Some 12 then Some (sample_card t ''0'') else None)"

definition two_card_deck :: deck where
  "two_card_deck = \<lparr>main_deck = [sample_card (show_nat 11) ''0''], side_deck = [sample_card (show_nat 12) ''0''],
     extra_deck = [], deck_ban_list = ban_list.truncate empty_ygopro_ban_list, deck_rules_of = open_rules\<rparr>"

theorem built_deck_accepts_rearrangements_witness:
  "isSideDeckValid two_card_deck [12] [11] \<longleftrightarrow> mset ([12] @ [11]) = mset ([11] @ [12::nat])"
proof (rule built_deck_accepts_rearrangements [where repo = two_cards and x = 64 and loaded = "[]"
      and rules = open_rules and h = 0])
  show "two_cards (show_nat c) = Some k \<Longrightarrow> code_key k = Some c" for c k
    by (auto simp: two_cards_def code_key_def sample_card_def Number_show_nat split: if_splits)
  show "YGOProDeckCreator_build two_cards 64 [] open_rules [11] [12] 0 = Inr two_card_deck"
    by (simp add: YGOProDeckCreator_build_def two_cards_def Number_show_nat sample_card_def two_card_deck_def
        findByHash_def)
qed

end
