(* ===== verification/Pairing.thy ===== *)
theory Pairing
  imports Prelude
begin

text \<open>
  Participants, matches and pairing policies of the ranked queue
  (\<open>src/ygopro/matchmaking/domain\<close>: \<open>QueueEntry.ts\<close>, \<open>Participant.ts\<close>, \<open>Match.ts\<close>,
  \<open>FifoPairingPolicy.ts\<close>, \<open>BotFallbackPolicy.ts\<close>, \<open>CompositePairingPolicy.ts\<close>,
  \<open>MatchmakingBotRoster.ts\<close>). Times are milliseconds as integers. A channel and an admission are
  objects of the transport: a participant holds a reference (a number) to them. Match ids come from
  \<open>randomUUID\<close>, a parameter \<open>uuid\<close> giving the n-th id drawn; a policy takes the number of ids
  drawn so far and returns the new one.
\<close>

datatype mm_format = Tcg | Jtp | Edison
datatype mm_mode = Ranked
datatype opponent_type = Human | Bot
datatype presence_kind = Socket | Poll

definition MATCHMAKING_FORMATS :: "mm_format list" where
  "MATCHMAKING_FORMATS = [Tcg, Jtp, Edison]"

definition MATCHMAKING_MODES :: "mm_mode list" where
  "MATCHMAKING_MODES = [Ranked]"

definition QUEUE_TTL_MS :: int where "QUEUE_TTL_MS = 8000"
definition BOT_FALLBACK_MIN_MS :: int where "BOT_FALLBACK_MIN_MS = 30000"
definition BOT_FALLBACK_MAX_MS :: int where "BOT_FALLBACK_MAX_MS = 1200000"
definition MATCHED_GRACE_MS :: int where "MATCHED_GRACE_MS = 30000"
definition MATCH_ACCEPT_TIMEOUT_MS :: int where "MATCH_ACCEPT_TIMEOUT_MS = 20000"

definition clampBotFallbackDelay :: "int \<Rightarrow> int" where
  "clampBotFallbackDelay r = min BOT_FALLBACK_MAX_MS (max BOT_FALLBACK_MIN_MS r)"

record participant =
  part_id :: string
  user_id :: string
  part_format :: mm_format
  part_mode :: mm_mode
  displayName :: "string option"
  enqueuedAt :: int
  botFallbackAfterMs :: "int option"
  supportsAcceptStep :: bool
  presence :: presence_kind
  channel :: nat
  admission :: "nat option"

record match =
  match_id :: string
  match_format :: mm_format
  match_mode :: mm_mode
  rated :: bool
  opponentKind :: opponent_type
  participants :: "participant list"

type_synonym pairing = "participant list \<Rightarrow> int \<Rightarrow> nat \<Rightarrow> match list \<times> nat"

datatype rejection_reason =
    InvalidTicket | NotAuthenticated | AlreadyAuthenticated | UnknownFormat | UnsupportedMode
  | MalformedFrame | RateLimited | ReplacedByNewConnection | MissingPlayerInfo | Banned | InternalError
  | CancelTooLate | AlreadyQueued | VersionMismatch | UnknownMatch | DeclinedReason | AcceptTimeoutReason

datatype status_state = Searching | CancelledState | Rejected | ReplacedState | Authenticated

subsection \<open>The policies\<close>

definition human_match :: "(nat \<Rightarrow> string) \<Rightarrow> nat \<Rightarrow> participant \<Rightarrow> participant \<Rightarrow> match" where
  "human_match uuid n a b = \<lparr>match_id = uuid n, match_format = part_format a, match_mode = part_mode a,
     rated = True, opponentKind = Human, participants = [a, b]\<rparr>"

fun pair_up :: "(nat \<Rightarrow> string) \<Rightarrow> participant list \<Rightarrow> nat \<Rightarrow> match list \<times> nat" where
  "pair_up uuid (a # b # rest) n =
     (let (ms, n') = pair_up uuid rest (n + 1) in (human_match uuid n a b # ms, n'))"
| "pair_up uuid ps n = ([], n)"

definition fifo_pair :: "(nat \<Rightarrow> string) \<Rightarrow> pairing" where
  "fifo_pair uuid candidates now n = pair_up uuid (sort_key enqueuedAt candidates) n"

definition bot_match :: "(nat \<Rightarrow> string) \<Rightarrow> nat \<Rightarrow> participant \<Rightarrow> match" where
  "bot_match uuid n p = \<lparr>match_id = uuid n, match_format = part_format p, match_mode = part_mode p,
     rated = False, opponentKind = Bot, participants = [p]\<rparr>"

definition waits_for_bot :: "int \<Rightarrow> participant \<Rightarrow> bool" where
  "waits_for_bot now p = (case botFallbackAfterMs p of None \<Rightarrow> False
     | Some d \<Rightarrow> \<not> now - enqueuedAt p \<le> clampBotFallbackDelay d)"

fun bot_loop :: "(nat \<Rightarrow> string) \<Rightarrow> participant list \<Rightarrow> int \<Rightarrow> nat \<Rightarrow> match list \<times> nat" where
  "bot_loop uuid [] now n = ([], n)"
| "bot_loop uuid (p # ps) now n =
     (if waits_for_bot now p
      then let (ms, n') = bot_loop uuid ps now (n + 1) in (bot_match uuid n p # ms, n')
      else bot_loop uuid ps now n)"

definition bot_pair :: "(nat \<Rightarrow> string) \<Rightarrow> bool \<Rightarrow> pairing" where
  "bot_pair uuid botAvailable candidates now n =
     (if \<not> botAvailable then ([], n) else bot_loop uuid candidates now n)"

definition matched_ids :: "match list \<Rightarrow> string list" where
  "matched_ids ms = concat (map (\<lambda>m. map part_id (participants m)) ms)"

fun composite_pair :: "pairing list \<Rightarrow> pairing" where
  "composite_pair [] remaining now n = ([], n)"
| "composite_pair (policy # policies) remaining now n =
     (case policy remaining now n of (ms, n1) \<Rightarrow>
        if ms = [] then composite_pair policies remaining now n1
        else case composite_pair policies
                   (filter (\<lambda>p. part_id p \<notin> set (matched_ids ms)) remaining) now n1 of
               (ms', n2) \<Rightarrow> (ms @ ms', n2))"

text \<open>The composition the queue wires: humans first, then bots.\<close>

definition queue_pairing :: "(nat \<Rightarrow> string) \<Rightarrow> bool \<Rightarrow> pairing" where
  "queue_pairing uuid botAvailable = composite_pair [fifo_pair uuid, bot_pair uuid botAvailable]"

subsection \<open>What a policy promises\<close>

definition well_formed :: "match \<Rightarrow> bool" where
  "well_formed m \<longleftrightarrow>
     (opponentKind m = Human \<longrightarrow> length (participants m) = 2) \<and>
     (opponentKind m = Bot \<longrightarrow> length (participants m) = 1) \<and>
     (rated m \<longleftrightarrow> opponentKind m = Human)"

definition paired :: "match list \<Rightarrow> participant list" where
  "paired ms = concat (map participants ms)"

lemma paired_simps [simp]:
  "paired [] = []" "paired (m # ms) = participants m @ paired ms" "paired (ms @ ms') = paired ms @ paired ms'"
  by (simp_all add: paired_def)

lemma matched_ids_paired: "matched_ids ms = map part_id (paired ms)"
  by (induction ms) (auto simp: matched_ids_def)

locale pairing_policy =
  fixes uuid :: "nat \<Rightarrow> string" and pair :: pairing
  assumes pairs_candidates: "pair cs now n = (ms, n') \<Longrightarrow> mset (paired ms) \<subseteq># mset cs"
    and draws_ids: "pair cs now n = (ms, n') \<Longrightarrow> n \<le> n' \<and> map match_id ms = map uuid [n..<n']"
    and forms_matches: "pair cs now n = (ms, n') \<Longrightarrow> list_all well_formed ms"
begin

lemma only_candidates: "pair cs now n = (ms, n') \<Longrightarrow> set (paired ms) \<subseteq> set cs"
  using set_mset_mono [OF pairs_candidates] by simp

lemma nobody_twice:
  assumes "distinct (map part_id cs)" and "pair cs now n = (ms, n')"
  shows "distinct (map part_id (paired ms))"
proof -
  have "mset (map part_id (paired ms)) \<subseteq># mset (map part_id cs)"
    using image_mset_subseteq_mono [OF pairs_candidates [OF assms(2)], of part_id] by simp
  then show ?thesis
    using assms(1) by (rule sub_mset_distinct)
qed

lemma number_of_matches: "pair cs now n = (ms, n') \<Longrightarrow> length ms = n' - n"
  using draws_ids [of cs now n ms n'] by (metis length_map length_upt)

lemma fresh_ids:
  assumes "inj uuid" and "pair cs now n = (ms, n')"
  shows "distinct (map match_id ms) \<and> (\<forall>m \<in> set ms. \<exists>i. n \<le> i \<and> i < n' \<and> match_id m = uuid i)"
proof -
  have ids: "map match_id ms = map uuid [n..<n']"
    using draws_ids [OF assms(2)] by blast
  have "match_id m \<in> uuid ` {n..<n'}" if "m \<in> set ms" for m
    using arg_cong [OF ids, of set] that by (auto simp: image_iff set_eq_iff)
  moreover have "inj_on uuid {n..<n'}"
    using assms(1) by (rule inj_on_subset) simp
  then have "distinct (map match_id ms)"
    unfolding ids by (simp add: distinct_map)
  ultimately show ?thesis
    by fastforce
qed

end

lemma pair_up_laws:
  "pair_up uuid ps n = (ms, n') \<Longrightarrow>
     mset (paired ms) \<subseteq># mset ps \<and> n \<le> n' \<and> map match_id ms = map uuid [n..<n'] \<and> list_all well_formed ms"
proof (induction uuid ps n arbitrary: ms n' rule: pair_up.induct)
  case (1 uuid a b rest n)
  then show ?case
    by (auto simp: human_match_def well_formed_def upt_conv_Cons split: prod.splits)
qed auto

lemma bot_loop_laws:
  "bot_loop uuid ps now n = (ms, n') \<Longrightarrow>
     mset (paired ms) \<subseteq># mset ps \<and> n \<le> n' \<and> map match_id ms = map uuid [n..<n'] \<and> list_all well_formed ms"
proof (induction uuid ps now n arbitrary: ms n' rule: bot_loop.induct)
  case (2 uuid p ps now n)
  then show ?case
    by (auto simp: bot_match_def well_formed_def upt_conv_Cons add_mset_commute
        intro: subset_mset.order_trans split: prod.splits if_splits)
qed auto

interpretation fifo: pairing_policy uuid "fifo_pair uuid" for uuid
  using pair_up_laws by unfold_locales (force simp: fifo_pair_def)+

interpretation bots: pairing_policy uuid "bot_pair uuid available" for uuid available
  using bot_loop_laws by unfold_locales (force simp: bot_pair_def list_all_iff split: if_splits)+

text \<open>Composition: what the first policy left is what the next one sees.\<close>

lemma removed_after:
  assumes "mset ps \<subseteq># mset cs"
    and "mset qs \<subseteq># mset (filter (\<lambda>p. part_id p \<notin> set (map part_id ps)) cs)"
  shows "mset (ps @ qs) \<subseteq># mset cs"
proof -
  have "mset ps \<subseteq># filter_mset (\<lambda>p. part_id p \<in> part_id ` set ps) (mset cs)"
    using multiset_filter_mono [OF assms(1), of "\<lambda>p. part_id p \<in> part_id ` set ps"]
    by (simp add: filter_mset_eq_conv) (metis (no_types, lifting) filter_True image_eqI mset_filter)
  then have "mset ps + mset qs \<subseteq># filter_mset (\<lambda>p. part_id p \<in> part_id ` set ps) (mset cs) +
      filter_mset (\<lambda>p. part_id p \<notin> part_id ` set ps) (mset cs)"
    using assms(2) by (intro subset_mset.add_mono) simp_all
  then show ?thesis
    by (simp flip: multiset_partition)
qed

lemma composite_step:
  assumes "pairing_policy uuid policy" and "pairing_policy uuid (composite_pair policies)"
  shows "pairing_policy uuid (composite_pair (policy # policies))"
proof unfold_locales
  fix cs now n ms n'
  assume run: "composite_pair (policy # policies) cs now n = (ms, n')"
  obtain ms1 n1 where first: "policy cs now n = (ms1, n1)"
    by (cases "policy cs now n")
  let ?rest = "filter (\<lambda>p. part_id p \<notin> set (matched_ids ms1)) cs"
  obtain ms2 n2 where rest: "composite_pair policies ?rest now n1 = (ms2, n2)"
    by (cases "composite_pair policies ?rest now n1")
  have all_left: "ms1 = [] \<Longrightarrow> ?rest = cs"
    by (simp add: matched_ids_def)
  have result: "ms = ms1 @ ms2 \<and> n' = n2"
    using run first rest all_left by (cases "ms1 = []") auto
  note p1 = pairing_policy.pairs_candidates [OF assms(1) first] pairing_policy.draws_ids [OF assms(1) first]
    pairing_policy.forms_matches [OF assms(1) first]
  note p2 = pairing_policy.pairs_candidates [OF assms(2) rest] pairing_policy.draws_ids [OF assms(2) rest]
    pairing_policy.forms_matches [OF assms(2) rest]
  show "mset (paired ms) \<subseteq># mset cs"
    using removed_after [OF p1(1)] p2(1) result by (simp add: matched_ids_paired)
  show "n \<le> n' \<and> map match_id ms = map uuid [n..<n']"
    using p1(2) p2(2) result upt_add_eq_append [of n n1 "n2 - n1"] by auto
  show "list_all well_formed ms"
    using p1(3) p2(3) result by simp
qed

lemma composite_empty: "pairing_policy uuid (composite_pair [])"
  by unfold_locales auto

interpretation queue: pairing_policy uuid "queue_pairing uuid available" for uuid available
  unfolding queue_pairing_def
  by (intro composite_step composite_empty fifo.pairing_policy_axioms bots.pairing_policy_axioms)

subsection \<open>The bot roster\<close>

record bot_identity =
  bot_name :: string
  bot_deck :: string

definition bot_entry :: "string \<Rightarrow> string \<Rightarrow> bot_identity" where
  "bot_entry n d = \<lparr>bot_name = n, bot_deck = d\<rparr>"

fun MATCHMAKING_BOT_ROSTER :: "mm_format \<Rightarrow> bot_identity list" where
  "MATCHMAKING_BOT_ROSTER Tcg =
     [bot_entry ''Salamangreat'' ''Salamangreat'', bot_entry ''Sky Striker'' ''SkyStriker'',
      bot_entry ''Labrynth'' ''Labrynth'', bot_entry ''Yubel'' ''Yubel'',
      bot_entry ''Swordsoul'' ''Swordsoul'', bot_entry ''Ryzeal'' ''Ryzeal'', bot_entry ''Maliss'' ''Maliss'']"
| "MATCHMAKING_BOT_ROSTER Jtp = [bot_entry ''Joey'' ''JTP'', bot_entry ''Yugi'' ''Yugi'']"
| "MATCHMAKING_BOT_ROSTER Edison =
     [bot_entry ''Blackwing'' ''EdisonBlackwing'', bot_entry ''Lightsworn'' ''EdisonLightsworn'',
      bot_entry ''Machina'' ''EdisonMachina'']"

text \<open>The random number is the fraction \<open>num / den\<close>, at most 1.\<close>

definition pickBotFromRoster :: "mm_format \<Rightarrow> nat \<Rightarrow> nat \<Rightarrow> bot_identity" where
  "pickBotFromRoster f num den =
     (let roster = MATCHMAKING_BOT_ROSTER f; n = length roster
      in roster ! min (num * n div den) (n - 1))"

lemma roster_nonempty: "MATCHMAKING_BOT_ROSTER f \<noteq> []"
  by (cases f) auto

subsection \<open>Properties\<close>

lemma pair_up_sorted:
  assumes "pair_up uuid ps n = (ms, n')"
  shows "paired ms = take (length ps div 2 * 2) ps"
  using assms
  by (induction uuid ps n arbitrary: ms n' rule: pair_up.induct)
    (auto simp: human_match_def split: prod.splits)

text \<open>The first-come pairing leaves at most one candidate over, and nobody left over has
  waited longer than anybody who was paired.\<close>

theorem fifo_pairs_longest_waiting:
  assumes "fifo_pair uuid cs now n = (ms, n')"
  shows "length (paired ms) = length cs div 2 * 2 \<and>
    (\<forall>p \<in> set (paired ms). \<forall>q \<in># mset cs - mset (paired ms). enqueuedAt p \<le> enqueuedAt q)"
proof -
  let ?s = "sort_key enqueuedAt cs" and ?k = "length cs div 2 * 2"
  have paired: "paired ms = take ?k ?s"
    using pair_up_sorted [of uuid ?s n ms n'] assms by (simp add: fifo_pair_def)
  have left: "mset cs - mset (paired ms) = mset (drop ?k ?s)"
  proof -
    have "mset cs = mset (take ?k ?s) + mset (drop ?k ?s)"
      by (simp flip: mset_append)
    then show ?thesis
      by (simp add: paired)
  qed
  have "sorted (map enqueuedAt (take ?k ?s @ drop ?k ?s))"
    by simp
  then have "\<forall>p \<in> set (take ?k ?s). \<forall>q \<in> set (drop ?k ?s). enqueuedAt p \<le> enqueuedAt q"
    unfolding map_append sorted_append by auto
  moreover have "length (paired ms) = ?k"
    by (simp add: paired min_absorb2)
  ultimately show ?thesis
    unfolding left by (simp add: paired)
qed

definition sample_participant :: "string \<Rightarrow> int \<Rightarrow> participant" where
  "sample_participant i t = \<lparr>part_id = i, user_id = i, part_format = Tcg, part_mode = Ranked,
     displayName = None, enqueuedAt = t, botFallbackAfterMs = None, supportsAcceptStep = False,
     presence = Socket, channel = 0, admission = Some 0\<rparr>"

definition sample_uuid :: "nat \<Rightarrow> string" where
  "sample_uuid n = replicate n (CHR ''m'')"

lemma inj_sample_uuid: "inj sample_uuid"
  by (auto simp: inj_def sample_uuid_def)

theorem fifo_pairs_longest_waiting_witness:
  "length (paired [human_match sample_uuid 0 (sample_participant ''b'' 1) (sample_participant ''a'' 5)]) = 3 div 2 * 2"
  using fifo_pairs_longest_waiting [of sample_uuid
      "[sample_participant ''a'' 5, sample_participant ''b'' 1, sample_participant ''c'' 9]" 10 0
      "[human_match sample_uuid 0 (sample_participant ''b'' 1) (sample_participant ''a'' 5)]" 1]
  by (simp add: fifo_pair_def sample_participant_def)

text \<open>C7. The pairing of a pool never assigns a participant to two matches, takes human matches
  first, and gives an unrated bot match only to someone who asked for one and has waited longer than
  the clamped delay.\<close>

theorem queue_pairing_is_fair:
  assumes "distinct (map part_id cs)" and "queue_pairing uuid available cs now n = (ms, n')"
  shows "distinct (map part_id (paired ms)) \<and>
    (\<exists>hs bs. ms = hs @ bs \<and> hs = fst (fifo_pair uuid cs now n) \<and>
       (\<forall>m \<in> set bs. opponentKind m = Bot \<and> \<not> rated m \<and> available \<and>
          (\<exists>p d. participants m = [p] \<and> botFallbackAfterMs p = Some d \<and>
             clampBotFallbackDelay d < now - enqueuedAt p)))"
proof -
  have bot: "\<forall>m \<in> set bs. opponentKind m = Bot \<and> \<not> rated m \<and>
      (\<exists>p d. participants m = [p] \<and> botFallbackAfterMs p = Some d \<and> clampBotFallbackDelay d < now - enqueuedAt p)"
    if "bot_loop uuid ps now k = (bs, k')" for ps bs k k'
    using that
    by (induction uuid ps now k arbitrary: bs k' rule: bot_loop.induct)
      (auto simp: bot_match_def waits_for_bot_def split: prod.splits if_splits option.splits)
  have "\<exists>hs bs. ms = hs @ bs \<and> hs = fst (fifo_pair uuid cs now n) \<and>
      (\<exists>ps k k'. bot_pair uuid available ps now k = (bs, k'))"
    using assms(2) unfolding queue_pairing_def by (auto split: prod.splits if_splits)
  then show ?thesis
    using queue.nobody_twice [OF assms] bot by (fastforce simp: bot_pair_def split: if_splits)
qed

definition late_bot_seeker :: participant where
  "late_bot_seeker = (sample_participant ''c'' 9)\<lparr>botFallbackAfterMs := Some 60000\<rparr>"

theorem queue_pairing_is_fair_witness:
  "distinct (map part_id (paired
     [human_match sample_uuid 0 (sample_participant ''b'' 1) (sample_participant ''a'' 5),
      bot_match sample_uuid 1 late_bot_seeker]))"
  using queue_pairing_is_fair [of "[sample_participant ''a'' 5, sample_participant ''b'' 1, late_bot_seeker]"
      sample_uuid True 60010 0
      "[human_match sample_uuid 0 (sample_participant ''b'' 1) (sample_participant ''a'' 5),
        bot_match sample_uuid 1 late_bot_seeker]" 2]
  by (simp add: queue_pairing_def fifo_pair_def bot_pair_def late_bot_seeker_def sample_participant_def
      human_match_def bot_match_def matched_ids_def waits_for_bot_def clampBotFallbackDelay_def
      BOT_FALLBACK_MIN_MS_def BOT_FALLBACK_MAX_MS_def)

end
