(* ===== verification/PoolStore.thy ===== *)
theory PoolStore
  imports Pairing
begin

text \<open>
  The participant store of the pool (\<open>src/ygopro/matchmaking/infrastructure/InMemoryPoolStore.ts\<close>,
  port \<open>PoolStore.ts\<close>): an id index, a user index and one insertion-ordered id set per pool key,
  kept as three maps, and the abstract store they implement: the list of the waiting
  participants in the order they entered. The locale \<open>pool_store\<close> is the port; its laws hold for
  the three maps while their invariant does, as long as a new participant brings an id and a user
  the store does not hold.
\<close>

record pool_maps =
  byId :: "(string, participant) js_map"
  byUserId :: "(string, string) js_map"
  idsByPoolKey :: "(string, string list) js_map"

fun format_name :: "mm_format \<Rightarrow> string" where
  "format_name Tcg = ''tcg''" | "format_name Jtp = ''jtp''" | "format_name Edison = ''edison''"

fun mode_name :: "mm_mode \<Rightarrow> string" where
  "mode_name Ranked = ''ranked''"

definition poolKey :: "mm_format \<Rightarrow> mm_mode \<Rightarrow> string" where
  "poolKey f m = format_name f @ '':'' @ mode_name m"

definition empty_store :: pool_maps where
  "empty_store = \<lparr>byId = [], byUserId = [], idsByPoolKey = []\<rparr>"

definition store_add :: "participant \<Rightarrow> pool_maps \<Rightarrow> pool_maps" where
  "store_add p s =
     (let key = poolKey (part_format p) (part_mode p);
          ids = set_add (part_id p) (get_or [] (idsByPoolKey s) key)
      in \<lparr>byId = map_put (part_id p) p (byId s),
          byUserId = map_put (user_id p) (part_id p) (byUserId s),
          idsByPoolKey = map_put key ids (idsByPoolKey s)\<rparr>)"

definition store_get :: "string \<Rightarrow> pool_maps \<Rightarrow> participant option" where
  "store_get i s = map_get (byId s) i"

definition store_findByUserId :: "string \<Rightarrow> pool_maps \<Rightarrow> participant option" where
  "store_findByUserId u s = (case map_get (byUserId s) u of None \<Rightarrow> None | Some i \<Rightarrow> map_get (byId s) i)"

definition store_remove :: "string \<Rightarrow> pool_maps \<Rightarrow> bool \<times> pool_maps" where
  "store_remove i s =
     (case map_get (byId s) i of
        None \<Rightarrow> (False, s)
      | Some p \<Rightarrow>
          (True,
           \<lparr>byId = map_del i (byId s),
            byUserId = (if map_get (byUserId s) (user_id p) = Some i
                        then map_del (user_id p) (byUserId s) else byUserId s),
            idsByPoolKey =
              (let key = poolKey (part_format p) (part_mode p)
               in case map_get (idsByPoolKey s) key of
                    None \<Rightarrow> idsByPoolKey s
                  | Some ids \<Rightarrow> map_put key (removeAll i ids) (idsByPoolKey s))\<rparr>))"

definition store_all :: "mm_format \<Rightarrow> mm_mode \<Rightarrow> pool_maps \<Rightarrow> participant list" where
  "store_all f m s =
     (case map_get (idsByPoolKey s) (poolKey f m) of
        None \<Rightarrow> []
      | Some ids \<Rightarrow> List.map_filter (map_get (byId s)) ids)"

definition store_depth :: "mm_format \<Rightarrow> mm_mode \<Rightarrow> pool_maps \<Rightarrow> nat" where
  "store_depth f m s = length (get_or [] (idsByPoolKey s) (poolKey f m))"

subsection \<open>The abstract store\<close>

definition waiting :: "pool_maps \<Rightarrow> participant list" where
  "waiting s = map snd (byId s)"

definition in_pool :: "mm_format \<Rightarrow> mm_mode \<Rightarrow> participant \<Rightarrow> bool" where
  "in_pool f m p \<longleftrightarrow> part_format p = f \<and> part_mode p = m"

definition store_ok :: "pool_maps \<Rightarrow> bool" where
  "store_ok s \<longleftrightarrow>
     byId s = map (\<lambda>p. (part_id p, p)) (waiting s) \<and>
     distinct (map part_id (waiting s)) \<and> distinct (map user_id (waiting s)) \<and>
     (\<forall>u. map_get (byUserId s) u = map_option part_id (find (\<lambda>p. user_id p = u) (waiting s))) \<and>
     (\<forall>f m. get_or [] (idsByPoolKey s) (poolKey f m) = map part_id (filter (in_pool f m) (waiting s)))"

lemma store_okD:
  assumes "store_ok s"
  shows "byId s = map (\<lambda>p. (part_id p, p)) (waiting s)"
    and "distinct (map part_id (waiting s))" and "distinct (map user_id (waiting s))"
    and "map_get (byUserId s) u = map_option part_id (find (\<lambda>p. user_id p = u) (waiting s))"
    and "get_or [] (idsByPoolKey s) (poolKey f m) = map part_id (filter (in_pool f m) (waiting s))"
  using assms by (simp_all only: store_ok_def)

locale pool_store =
  fixes ok :: "'s \<Rightarrow> bool"
    and parts :: "'s \<Rightarrow> participant list"
    and add :: "participant \<Rightarrow> 's \<Rightarrow> 's"
    and get :: "string \<Rightarrow> 's \<Rightarrow> participant option"
    and by_user :: "string \<Rightarrow> 's \<Rightarrow> participant option"
    and remove :: "string \<Rightarrow> 's \<Rightarrow> bool \<times> 's"
    and all_of :: "mm_format \<Rightarrow> mm_mode \<Rightarrow> 's \<Rightarrow> participant list"
    and depth :: "mm_format \<Rightarrow> mm_mode \<Rightarrow> 's \<Rightarrow> nat"
  assumes distinct_ids: "ok s \<Longrightarrow> distinct (map part_id (parts s))"
    and distinct_users: "ok s \<Longrightarrow> distinct (map user_id (parts s))"
    and add_ok: "ok s \<Longrightarrow> part_id p \<notin> part_id ` set (parts s) \<Longrightarrow> user_id p \<notin> user_id ` set (parts s) \<Longrightarrow>
      ok (add p s) \<and> parts (add p s) = parts s @ [p]"
    and get_find: "ok s \<Longrightarrow> get i s = find (\<lambda>p. part_id p = i) (parts s)"
    and by_user_find: "ok s \<Longrightarrow> by_user u s = find (\<lambda>p. user_id p = u) (parts s)"
    and remove_ok: "ok s \<Longrightarrow> ok (snd (remove i s)) \<and>
      parts (snd (remove i s)) = filter (\<lambda>p. part_id p \<noteq> i) (parts s) \<and>
      fst (remove i s) = (i \<in> part_id ` set (parts s))"
    and all_filter: "ok s \<Longrightarrow> all_of f m s = filter (in_pool f m) (parts s)"
    and depth_length: "ok s \<Longrightarrow> depth f m s = length (all_of f m s)"
begin

lemma get_known: "ok s \<Longrightarrow> p \<in> set (parts s) \<Longrightarrow> get (part_id p) s = Some p"
  using find_distinct_key [OF distinct_ids] by (simp add: get_find)

lemma get_Some: "ok s \<Longrightarrow> get i s = Some p \<Longrightarrow> p \<in> set (parts s) \<and> part_id p = i"
  by (auto simp: get_find dest: find_SomeD)

lemma get_None: "ok s \<Longrightarrow> get i s = None \<longleftrightarrow> i \<notin> part_id ` set (parts s)"
  by (auto simp: get_find find_None_iff)

lemma by_user_Some: "ok s \<Longrightarrow> by_user u s = Some p \<Longrightarrow> p \<in> set (parts s) \<and> user_id p = u"
  by (auto simp: by_user_find dest: find_SomeD)

lemma by_user_None: "ok s \<Longrightarrow> by_user u s = None \<longleftrightarrow> u \<notin> user_id ` set (parts s)"
  by (auto simp: by_user_find find_None_iff)

lemma remove_mset: "ok s \<Longrightarrow> p \<in> set (parts s) \<Longrightarrow>
    mset (parts s) = add_mset p (mset (parts (snd (remove (part_id p) s))))"
proof -
  assume ok: "ok s" and p: "p \<in> set (parts s)"
  have "mset (filter (\<lambda>q. part_id q \<noteq> part_id p) xs) + {#p#} = mset xs"
    if "distinct (map part_id xs)" "p \<in> set xs" for xs
    using that
  proof (induction xs)
    case (Cons x xs)
    show ?case
      using Cons filter_key_other [of "part_id p" part_id xs]
      by (cases "x = p") (auto simp del: mset_filter)
  qed simp
  from this [OF distinct_ids [OF ok] p] show ?thesis
    using remove_ok [OF ok] by simp
qed

lemma remove_unknown: "ok s \<Longrightarrow> i \<notin> part_id ` set (parts s) \<Longrightarrow> parts (snd (remove i s)) = parts s"
  using remove_ok [of s i] by (simp add: filter_key_other)

end

subsection \<open>The three maps implement it\<close>

lemma poolKey_inj: "poolKey f m = poolKey f' m' \<longleftrightarrow> f = f' \<and> m = m'"
  by (cases f; cases f'; cases m; cases m') (simp_all add: poolKey_def)

lemma empty_store_ok: "store_ok empty_store \<and> waiting empty_store = []"
  by (simp add: store_ok_def waiting_def empty_store_def get_or_def)

lemma map_of_self: "map_of (map (\<lambda>p. (part_id p, p)) ps) i = find (\<lambda>p. part_id p = i) ps"
  by (induction ps) auto

lemma update_fresh: "k \<notin> fst ` set m \<Longrightarrow> map_put k v m = m @ [(k, v)]"
  by (induction m) auto

lemma find_append: "find P (xs @ ys) = (case find P xs of None \<Rightarrow> find P ys | Some z \<Rightarrow> Some z)"
  by (induction xs) auto

lemma store_add_ok:
  assumes ok: "store_ok s" and fresh: "part_id p \<notin> part_id ` set (waiting s)" "user_id p \<notin> user_id ` set (waiting s)"
  shows "store_ok (store_add p s) \<and> waiting (store_add p s) = waiting s @ [p]"
proof -
  have ids: "byId s = map (\<lambda>p. (part_id p, p)) (waiting s)"
    using ok by (simp add: store_ok_def)
  have put: "byId (store_add p s) = byId s @ [(part_id p, p)]"
    using fresh(1) unfolding store_add_def Let_def
    by (subst update_fresh) (auto simp: ids image_image)
  then have w: "waiting (store_add p s) = waiting s @ [p]"
    by (simp add: waiting_def)
  have old_users: "map_get (byUserId s) u = map_option part_id (find (\<lambda>q. user_id q = u) (waiting s))"
    and old_keys: "get_or [] (idsByPoolKey s) (poolKey f m) = map part_id (filter (in_pool f m) (waiting s))" for u f m
    using ok by (simp_all add: store_ok_def)
  have "find (\<lambda>q. user_id q = user_id p) (waiting s) = None"
    using fresh(2) by (simp add: find_key_None)
  then have users: "map_get (byUserId (store_add p s)) u =
      map_option part_id (find (\<lambda>q. user_id q = u) (waiting s @ [p]))" for u
    by (cases "u = user_id p")
      (simp_all add: store_add_def Let_def js_simps find_append old_users split: option.splits)
  have keys: "get_or [] (idsByPoolKey (store_add p s)) (poolKey f m) =
      map part_id (filter (in_pool f m) (waiting s @ [p]))" for f m
  proof (cases "in_pool f m p")
    case True
    then have "f = part_format p" "m = part_mode p"
      by (simp_all add: in_pool_def)
    moreover have "part_id p \<notin> set (map part_id (filter (in_pool f m) (waiting s)))"
      using fresh(1) by auto
    ultimately show ?thesis
      using True by (simp add: store_add_def Let_def get_or_put old_keys set_add_def)
  next
    case False
    then have "poolKey f m \<noteq> poolKey (part_format p) (part_mode p)"
      by (auto simp: in_pool_def poolKey_inj)
    then show ?thesis
      using False by (simp add: store_add_def Let_def get_or_put old_keys)
  qed
  have "distinct (map part_id (waiting s)) \<and> distinct (map user_id (waiting s))"
    using ok by (simp add: store_ok_def)
  then show ?thesis
    using users keys w put ids fresh by (simp add: store_ok_def)
qed

lemma delete_self: "map_del i (map (\<lambda>p. (part_id p, p)) ps) = map (\<lambda>p. (part_id p, p)) (filter (\<lambda>p. part_id p \<noteq> i) ps)"
  by (induction ps) (auto simp: AList.delete_eq)

lemma find_filter_other:
  "distinct (map user_id ps) \<Longrightarrow> p \<in> set ps \<Longrightarrow> distinct (map part_id ps) \<Longrightarrow>
   find (\<lambda>q. user_id q = u) (filter (\<lambda>q. part_id q \<noteq> part_id p) ps) =
     (if u = user_id p then None else find (\<lambda>q. user_id q = u) ps)"
proof (induction ps)
  case (Cons x ps)
  show ?case
    using Cons filter_key_other [of "part_id p" part_id ps] by (auto simp: find_key_None)
qed simp

lemma store_remove_ok:
  assumes ok: "store_ok s"
  shows "store_ok (snd (store_remove i s)) \<and>
    waiting (snd (store_remove i s)) = filter (\<lambda>p. part_id p \<noteq> i) (waiting s) \<and>
    fst (store_remove i s) = (i \<in> part_id ` set (waiting s))"
proof (cases "map_get (byId s) i")
  case None
  have "find (\<lambda>p. part_id p = i) (waiting s) = None"
    using ok None map_of_self [of "waiting s" i] by (simp add: store_ok_def)
  then have "i \<notin> part_id ` set (waiting s)"
    by (auto simp: find_None_iff)
  then show ?thesis
    using None ok by (simp add: store_remove_def filter_key_other)
next
  case (Some p)
  have ids: "byId s = map (\<lambda>p. (part_id p, p)) (waiting s)"
    and dist: "distinct (map part_id (waiting s))" "distinct (map user_id (waiting s))"
    and users: "\<And>u. map_get (byUserId s) u = map_option part_id (find (\<lambda>p. user_id p = u) (waiting s))"
    and keys: "\<And>f m. get_or [] (idsByPoolKey s) (poolKey f m) = map part_id (filter (in_pool f m) (waiting s))"
    using ok by (simp_all add: store_ok_def)
  have p: "p \<in> set (waiting s)" "part_id p = i"
    using Some map_of_self [of "waiting s" i] by (auto simp: ids dest: find_SomeD)
  let ?s = "snd (store_remove i s)"
  have by_id: "byId ?s = map (\<lambda>p. (part_id p, p)) (filter (\<lambda>p. part_id p \<noteq> i) (waiting s))"
    using Some by (simp add: store_remove_def ids delete_self)
  then have w: "waiting ?s = filter (\<lambda>p. part_id p \<noteq> i) (waiting s)"
    by (simp add: waiting_def comp_def)
  have removed: "fst (store_remove i s)"
    using Some by (simp add: store_remove_def)
  let ?key = "poolKey (part_format p) (part_mode p)"
  have "map_get (byUserId s) (user_id p) = Some i"
    using users [of "user_id p"] find_distinct_key [OF dist(2) p(1)] p(2) by simp
  then have user_map: "byUserId ?s = map_del (user_id p) (byUserId s)"
    using Some by (simp add: store_remove_def)
  have users': "map_get (byUserId ?s) u = map_option part_id (find (\<lambda>p. user_id p = u) (waiting ?s))" for u
    using find_filter_other [OF dist(2) p(1) dist(1), of u] p(2) users [of u]
    unfolding w user_map by (simp add: AList.delete_conv')
  have cut: "removeAll i (map part_id (filter P xs)) = map part_id (filter P (filter (\<lambda>p. part_id p \<noteq> i) xs))" for P xs
    by (induction xs) auto
  have key_map: "get_or [] (idsByPoolKey ?s) k =
      (if k = ?key then removeAll i (get_or [] (idsByPoolKey s) k) else get_or [] (idsByPoolKey s) k)" for k
    using Some by (cases "map_get (idsByPoolKey s) ?key") (auto simp: store_remove_def Let_def js_simps)
  have keys': "get_or [] (idsByPoolKey ?s) (poolKey f m) = map part_id (filter (in_pool f m) (waiting ?s))" for f m
  proof (cases "in_pool f m p")
    case True
    then have "poolKey f m = ?key"
      by (simp add: in_pool_def)
    then show ?thesis
      using keys [of f m] cut [of "in_pool f m" "waiting s"] unfolding w key_map by simp
  next
    case False
    then have other: "poolKey f m \<noteq> ?key"
      by (auto simp: in_pool_def poolKey_inj)
    have "q = p" if "q \<in> set (waiting s)" "part_id q = i" for q
      using that p dist(1) by (auto simp: distinct_map inj_on_def)
    then have "filter (in_pool f m) (filter (\<lambda>p. part_id p \<noteq> i) (waiting s)) = filter (in_pool f m) (waiting s)"
      using False by (auto intro!: filter_cong)
    then show ?thesis
      using keys [of f m] other unfolding w key_map by simp
  qed
  show ?thesis
    using by_id w users' keys' dist p removed by (auto simp: store_ok_def distinct_map_filter)
qed

lemma map_filter_find:
  "distinct (map part_id ps) \<Longrightarrow>
   List.map_filter (\<lambda>i. find (\<lambda>p. part_id p = i) ps) (map part_id (filter P ps)) = filter P ps"
proof -
  assume d: "distinct (map part_id ps)"
  have "List.map_filter (\<lambda>i. find (\<lambda>p. part_id p = i) ps) (map part_id qs) = qs" if "set qs \<subseteq> set ps" for qs
    using that
  proof (induction qs)
    case (Cons q qs)
    then show ?case
      using find_distinct_key [OF d, of q] by (simp add: List.map_filter_simps)
  qed (simp add: List.map_filter_simps)
  then show ?thesis
    by (meson filter_is_subset)
qed

lemma store_all_ok: "store_ok s \<Longrightarrow> store_all f m s = filter (in_pool f m) (waiting s)"
proof -
  assume ok: "store_ok s"
  have "store_all f m s = List.map_filter (map_get (byId s)) (get_or [] (idsByPoolKey s) (poolKey f m))"
    by (auto simp: store_all_def get_or_def List.map_filter_simps split: option.splits)
  also have "map_get (byId s) = (\<lambda>i. find (\<lambda>p. part_id p = i) (waiting s))"
  proof
    fix i
    have "byId s = map (\<lambda>p. (part_id p, p)) (waiting s)"
      using ok by (simp add: store_ok_def)
    then show "map_get (byId s) i = find (\<lambda>p. part_id p = i) (waiting s)"
      using map_of_self [of "waiting s" i] by simp
  qed
  finally show ?thesis
    using ok map_filter_find [of "waiting s" "in_pool f m"] by (simp add: store_ok_def)
qed

interpretation mem: pool_store store_ok waiting store_add store_get store_findByUserId store_remove
    store_all store_depth
proof unfold_locales
  fix s u i f m and p :: participant
  assume ok: "store_ok s"
  show "distinct (map part_id (waiting s))" "distinct (map user_id (waiting s))"
    using ok by (simp_all add: store_ok_def)
  show get: "store_get j s = find (\<lambda>p. part_id p = j) (waiting s)" for j
  proof -
    have "byId s = map (\<lambda>p. (part_id p, p)) (waiting s)"
      using ok by (simp add: store_ok_def)
    then show ?thesis
      using map_of_self [of "waiting s" j] by (simp add: store_get_def)
  qed
  show "store_findByUserId u s = find (\<lambda>p. user_id p = u) (waiting s)"
  proof (cases "find (\<lambda>p. user_id p = u) (waiting s)")
    case (Some q)
    have "q \<in> set (waiting s)"
      using find_SomeD [OF Some] by simp
    then have "store_get (part_id q) s = Some q"
      using find_distinct_key [OF store_okD(2) [OF ok], of q] by (simp only: get)
    moreover have "map_get (byUserId s) u = Some (part_id q)"
      using Some by (simp add: store_okD(4) [OF ok])
    ultimately show ?thesis
      using Some by (simp add: store_findByUserId_def store_get_def)
  qed (simp add: store_findByUserId_def store_okD(4) [OF ok])
  show "store_all f m s = filter (in_pool f m) (waiting s)"
    by (rule store_all_ok [OF ok])
  show "store_depth f m s = length (store_all f m s)"
    using ok store_all_ok [OF ok] by (simp add: store_depth_def store_ok_def)
  show "store_ok (snd (store_remove i s)) \<and>
      waiting (snd (store_remove i s)) = filter (\<lambda>p. part_id p \<noteq> i) (waiting s) \<and>
      fst (store_remove i s) = (i \<in> part_id ` set (waiting s))"
    by (rule store_remove_ok [OF ok])
  show "part_id p \<notin> part_id ` set (waiting s) \<Longrightarrow> user_id p \<notin> user_id ` set (waiting s) \<Longrightarrow>
      store_ok (store_add p s) \<and> waiting (store_add p s) = waiting s @ [p]"
    by (rule store_add_ok [OF ok])
qed

end
