(* ===== verification/Pool.thy ===== *)
theory Pool
  imports PoolStore
begin

text \<open>
  The matchmaking pool (\<open>src/ygopro/matchmaking/domain/MatchmakingPool.ts\<close>) and its book of
  matches waiting to be accepted (\<open>PendingMatches.ts\<close>). The state holds the store, the book, the
  record of re-queued participants, the number of match ids drawn, the trace of every effect (log
  line, channel call, hand-over to the match handler) in order, and the \<open>world\<close> the injected
  ports act on. Liveness (\<open>channel.isAlive\<close>), the pairing policy and the match handler are
  arguments. One operation runs synchronously to its end; the clock readings inside it are one
  number, \<open>now\<close>.

  \<open>add\<close> and \<open>abandon\<close> call each other, so \<open>pool_add_fuel\<close> is defined by recursion on a fuel;
  \<open>pool_add\<close> starts it with one more than the number of pending matches, which always suffices
  because each abandoned match leaves the book first (\<open>pool_add_fuel_enough\<close>).
\<close>

record pending_match =
  pm_match :: match
  deadline :: int
  accepted :: "string list"

datatype exit_outcome =
  MatchedHuman | MatchedBot | Cancelled | Dequeued | Expired | Replaced | Declined | AcceptTimeout

datatype response_outcome = AcceptedOutcome | DeclinedOutcome | RequeuedOutcome | UnknownMatchOutcome

record found_notice =
  fn_matchId :: string
  fn_roomId :: nat
  fn_roomPassword :: string
  fn_opponentType :: opponent_type
  fn_rated :: bool
  fn_opponentName :: "string option"

datatype pool_event =
    Exit participant exit_outcome int
  | LogAccepted string string
  | LogProposed string
  | LogAbandoned string string exit_outcome
  | SendStatus participant int
  | SendProposed participant string
  | SendFound participant found_notice
  | SendClose participant rejection_reason
  | Handled match
  | Admitted participant nat
  | LogFailure string

datatype pool_error = DuplicateQueueEntryError string | OutOfFuel

record 'w pool =
  pool_store :: pool_maps
  pending :: "(string, pending_match) js_map"
  requeuedByMatchId :: "(string, string list \<times> int) js_map"
  drawn :: nat
  pool_trace :: "pool_event list"
  world :: 'w

definition emit :: "pool_event \<Rightarrow> 'w pool \<Rightarrow> 'w pool" where
  "emit e s = s\<lparr>pool_trace := pool_trace s @ [e]\<rparr>"

definition requiresAcceptStep :: "match \<Rightarrow> bool" where
  "requiresAcceptStep m \<longleftrightarrow> opponentKind m = Human \<and> list_ex supportsAcceptStep (participants m)"

subsection \<open>The book of pending matches\<close>

definition pending_add :: "match \<Rightarrow> int \<Rightarrow> (string, pending_match) js_map \<Rightarrow> (string, pending_match) js_map" where
  "pending_add m dl book =
     map_put (match_id m)
       \<lparr>pm_match = m, deadline = dl,
        accepted = fold set_add (map part_id (filter (\<lambda>p. \<not> supportsAcceptStep p) (participants m))) []\<rparr> book"

fun pending_find ::
  "(participant \<Rightarrow> bool) \<Rightarrow> (string, pending_match) js_map \<Rightarrow> (pending_match \<times> participant) option" where
  "pending_find P [] = None"
| "pending_find P ((k, pm) # book) =
     (case find P (participants (pm_match pm)) of
        Some p \<Rightarrow> Some (pm, p)
      | None \<Rightarrow> pending_find P book)"

definition findByParticipantId :: "string \<Rightarrow> (string, pending_match) js_map \<Rightarrow> (pending_match \<times> participant) option" where
  "findByParticipantId i book = pending_find (\<lambda>p. part_id p = i) book"

definition findPendingByUserId :: "string \<Rightarrow> (string, pending_match) js_map \<Rightarrow> (pending_match \<times> participant) option" where
  "findPendingByUserId u book = pending_find (\<lambda>p. user_id p = u) book"

subsection \<open>Leaving the store\<close>

definition logExit :: "int \<Rightarrow> exit_outcome \<Rightarrow> participant \<Rightarrow> 'w pool \<Rightarrow> 'w pool" where
  "logExit now outcome p s = emit (Exit p outcome (now - enqueuedAt p)) s"

definition removeAndLog :: "int \<Rightarrow> exit_outcome \<Rightarrow> participant \<Rightarrow> 'w pool \<Rightarrow> bool \<times> 'w pool" where
  "removeAndLog now outcome p s =
     (case store_remove (part_id p) (pool_store s) of (removed, st) \<Rightarrow>
        (removed,
         if removed then logExit now outcome p (s\<lparr>pool_store := st\<rparr>) else s\<lparr>pool_store := st\<rparr>))"

definition removeByIdAndLog :: "int \<Rightarrow> exit_outcome \<Rightarrow> string \<Rightarrow> 'w pool \<Rightarrow> bool \<times> 'w pool" where
  "removeByIdAndLog now outcome i s =
     (case store_get i (pool_store s) of
        None \<Rightarrow> (False, s)
      | Some p \<Rightarrow> removeAndLog now outcome p s)"

subsection \<open>Entering, and abandoning a pending match\<close>

definition abandon_with ::
  "(participant \<Rightarrow> 'w pool \<Rightarrow> pool_error + (bool \<times> 'w pool)) \<Rightarrow> int \<Rightarrow> pending_match \<Rightarrow> participant list
   \<Rightarrow> exit_outcome \<Rightarrow> 'w pool \<Rightarrow> pool_error + 'w pool" where
  "abandon_with add_one now pm leaving outcome s =
     (let m = pm_match pm;
          s1 = s\<lparr>pending := map_del (match_id m) (pending s)\<rparr>;
          s2 = fold (\<lambda>p s. emit (LogAbandoned (match_id m) (part_id p) outcome) (logExit now outcome p s)) leaving s1;
          requeued = filter (\<lambda>p. p \<notin> set leaving) (participants m);
          s3 = (if requeued \<noteq> []
                then s2\<lparr>requeuedByMatchId := map_put (match_id m) (map part_id requeued, deadline pm)
                          (requeuedByMatchId s2)\<rparr>
                else s2)
      in fold_e (\<lambda>p s. sum_bind (add_one p s) (\<lambda>(_, s'). Inr (emit (SendStatus p (now - enqueuedAt p)) s')))
           requeued s3)"

primrec pool_add_fuel :: "nat \<Rightarrow> int \<Rightarrow> participant \<Rightarrow> 'w pool \<Rightarrow> pool_error + (bool \<times> 'w pool)" where
  "pool_add_fuel 0 now p s = Inl OutOfFuel"
| "pool_add_fuel (Suc k) now p s =
     (let queued = store_findByUserId (user_id p) (pool_store s);
          held = (if queued \<noteq> None then None else findPendingByUserId (user_id p) (pending s));
          existing = (case queued of Some q \<Rightarrow> Some q | None \<Rightarrow> map_option snd held);
          enter = (\<lambda>s. s\<lparr>pool_store := store_add p (pool_store s)\<rparr>)
      in case existing of
           None \<Rightarrow> Inr (False, enter s)
         | Some q \<Rightarrow>
             if presence p = Poll then Inl (DuplicateQueueEntryError (user_id p)) else
             sum_bind
               (case held of
                  Some (pm, _) \<Rightarrow> abandon_with (pool_add_fuel k now) now pm [q] Replaced s
                | None \<Rightarrow> Inr (snd (removeAndLog now Replaced q s)))
               (\<lambda>s'. Inr (True, enter (emit (SendClose q ReplacedByNewConnection) s'))))"

definition pool_add :: "int \<Rightarrow> participant \<Rightarrow> 'w pool \<Rightarrow> pool_error + (bool \<times> 'w pool)" where
  "pool_add now p s = pool_add_fuel (Suc (length (pending s))) now p s"

definition abandon ::
  "int \<Rightarrow> pending_match \<Rightarrow> participant list \<Rightarrow> exit_outcome \<Rightarrow> 'w pool \<Rightarrow> pool_error + 'w pool" where
  "abandon now = abandon_with (pool_add now) now"

definition leavePending :: "int \<Rightarrow> string \<Rightarrow> exit_outcome \<Rightarrow> 'w pool \<Rightarrow> pool_error + (bool \<times> 'w pool)" where
  "leavePending now i outcome s =
     (case findByParticipantId i (pending s) of
        None \<Rightarrow> Inr (False, s)
      | Some (pm, p) \<Rightarrow> sum_bind (abandon now pm [p] outcome s) (\<lambda>s'. Inr (True, s')))"

definition pool_remove :: "int \<Rightarrow> string \<Rightarrow> 'w pool \<Rightarrow> pool_error + 'w pool" where
  "pool_remove now i s =
     (case removeByIdAndLog now Cancelled i s of
        (True, s') \<Rightarrow> Inr s'
      | (False, s') \<Rightarrow> sum_bind (leavePending now i Cancelled s') (\<lambda>(_, s''). Inr s''))"

definition dequeueBySocketId :: "int \<Rightarrow> string \<Rightarrow> 'w pool \<Rightarrow> pool_error + (bool \<times> 'w pool)" where
  "dequeueBySocketId now i s =
     (case removeByIdAndLog now Dequeued i s of
        (True, s') \<Rightarrow> Inr (True, s')
      | (False, s') \<Rightarrow> leavePending now i Declined s')"

definition isQueued :: "string \<Rightarrow> 'w pool \<Rightarrow> bool" where
  "isQueued i s \<longleftrightarrow> store_get i (pool_store s) \<noteq> None \<or> findByParticipantId i (pending s) \<noteq> None"

subsection \<open>Answers to a proposal\<close>

definition findLivePending :: "int \<Rightarrow> string \<Rightarrow> string \<Rightarrow> 'w pool \<Rightarrow> pending_match option" where
  "findLivePending now mid pid s =
     (case map_get (pending s) mid of
        None \<Rightarrow> None
      | Some pm \<Rightarrow>
          if now \<ge> deadline pm then None
          else if list_ex (\<lambda>p. part_id p = pid) (participants (pm_match pm)) then Some pm else None)"

definition wasRequeuedFrom :: "int \<Rightarrow> string \<Rightarrow> string \<Rightarrow> 'w pool \<Rightarrow> bool" where
  "wasRequeuedFrom now mid pid s =
     (case map_get (requeuedByMatchId s) mid of
        None \<Rightarrow> False
      | Some (ids, until) \<Rightarrow> now < until \<and> pid \<in> set ids)"

type_synonym 'w match_handling = "int \<Rightarrow> match \<Rightarrow> 'w pool \<Rightarrow> pool_error + 'w pool"

definition call_handler :: "'w match_handling \<Rightarrow> int \<Rightarrow> match \<Rightarrow> 'w pool \<Rightarrow> pool_error + 'w pool" where
  "call_handler handle now m s = handle now m (emit (Handled m) s)"

definition dispatch :: "'w match_handling \<Rightarrow> int \<Rightarrow> match \<Rightarrow> 'w pool \<Rightarrow> pool_error + 'w pool" where
  "dispatch handle now m s =
     call_handler handle now m (fold (logExit now MatchedHuman) (participants m) s)"

definition pool_accept ::
  "'w match_handling \<Rightarrow> int \<Rightarrow> string \<Rightarrow> string \<Rightarrow> 'w pool \<Rightarrow> pool_error + (response_outcome \<times> 'w pool)" where
  "pool_accept handle now mid pid s =
     (case findLivePending now mid pid s of
        None \<Rightarrow> Inr (if wasRequeuedFrom now mid pid s then RequeuedOutcome else UnknownMatchOutcome, s)
      | Some pm \<Rightarrow>
          (let pm' = pm\<lparr>accepted := set_add pid (accepted pm)\<rparr>;
               s1 = emit (LogAccepted mid pid) (s\<lparr>pending := map_put mid pm' (pending s)\<rparr>)
           in if list_all (\<lambda>p. part_id p \<in> set (accepted pm')) (participants (pm_match pm'))
              then sum_bind (dispatch handle now (pm_match pm') (s1\<lparr>pending := map_del mid (pending s1)\<rparr>))
                     (\<lambda>s2. Inr (AcceptedOutcome, s2))
              else Inr (AcceptedOutcome, s1)))"

definition declineAfterRequeue ::
  "int \<Rightarrow> string \<Rightarrow> string \<Rightarrow> 'w pool \<Rightarrow> pool_error + (response_outcome \<times> 'w pool)" where
  "declineAfterRequeue now mid pid s =
     (if \<not> wasRequeuedFrom now mid pid s then Inr (UnknownMatchOutcome, s) else
      let s1 = (case map_get (requeuedByMatchId s) mid of
                  None \<Rightarrow> s
                | Some (ids, until) \<Rightarrow>
                    s\<lparr>requeuedByMatchId := map_put mid (removeAll pid ids, until) (requeuedByMatchId s)\<rparr>);
          who = (case store_get pid (pool_store s1) of
                   Some p \<Rightarrow> Some p
                 | None \<Rightarrow> map_option snd (findByParticipantId pid (pending s1)))
      in case who of
           None \<Rightarrow> Inr (UnknownMatchOutcome, s1)
         | Some p \<Rightarrow>
             sum_bind
               (case removeByIdAndLog now Declined pid s1 of
                  (True, s2) \<Rightarrow> Inr s2
                | (False, s2) \<Rightarrow> sum_bind (leavePending now pid Declined s2) (\<lambda>(_, s3). Inr s3))
               (\<lambda>s4. Inr (DeclinedOutcome, emit (SendClose p DeclinedReason) s4)))"

definition pool_decline ::
  "int \<Rightarrow> string \<Rightarrow> string \<Rightarrow> 'w pool \<Rightarrow> pool_error + (response_outcome \<times> 'w pool)" where
  "pool_decline now mid pid s =
     (case findLivePending now mid pid s of
        None \<Rightarrow> declineAfterRequeue now mid pid s
      | Some pm \<Rightarrow>
          (case find (\<lambda>p. part_id p = pid) (participants (pm_match pm)) of
             None \<Rightarrow> Inr (DeclinedOutcome, s)
           | Some decliner \<Rightarrow>
               sum_bind (abandon now pm [decliner] Declined s)
                 (\<lambda>s'. Inr (DeclinedOutcome, emit (SendClose decliner DeclinedReason) s'))))"

subsection \<open>The tick\<close>

definition poolKeys :: "(mm_format \<times> mm_mode) list" where
  "poolKeys = concat (map (\<lambda>f. map (\<lambda>m. (f, m)) MATCHMAKING_MODES) MATCHMAKING_FORMATS)"

definition for_every :: "(participant \<Rightarrow> 'w pool \<Rightarrow> 'w pool) \<Rightarrow> 'w pool \<Rightarrow> 'w pool" where
  "for_every body s = fold (\<lambda>(f, m) s. fold body (store_all f m (pool_store s)) s) poolKeys s"

type_synonym 'w liveness = "'w \<Rightarrow> participant \<Rightarrow> int \<Rightarrow> bool"

definition sweepDead :: "'w liveness \<Rightarrow> int \<Rightarrow> 'w pool \<Rightarrow> 'w pool" where
  "sweepDead alive now s =
     for_every (\<lambda>p s. if alive (world s) p now then s else snd (removeAndLog now Expired p s)) s"

definition resolve_one :: "'w liveness \<Rightarrow> int \<Rightarrow> pending_match \<Rightarrow> 'w pool \<Rightarrow> pool_error + 'w pool" where
  "resolve_one alive now pm s =
     (let dead = filter (\<lambda>p. \<not> alive (world s) p now) (participants (pm_match pm)) in
      if dead \<noteq> [] then abandon now pm dead Expired s
      else if now < deadline pm then Inr s
      else let late = filter (\<lambda>p. part_id p \<notin> set (accepted pm)) (participants (pm_match pm)) in
           sum_bind (abandon now pm late AcceptTimeout s)
             (\<lambda>s'. Inr (fold (\<lambda>p. emit (SendClose p AcceptTimeoutReason)) late s')))"

definition resolvePending :: "'w liveness \<Rightarrow> int \<Rightarrow> 'w pool \<Rightarrow> pool_error + 'w pool" where
  "resolvePending alive now s = fold_e (resolve_one alive now) (map snd (pending s)) s"

definition forgetClosedRequeues :: "int \<Rightarrow> 'w pool \<Rightarrow> 'w pool" where
  "forgetClosedRequeues now s =
     s\<lparr>requeuedByMatchId := filter (\<lambda>(_, (_, until)). \<not> now \<ge> until) (requeuedByMatchId s)\<rparr>"

definition propose :: "int \<Rightarrow> match \<Rightarrow> 'w pool \<Rightarrow> 'w pool" where
  "propose now m s =
     (let s1 = fold (\<lambda>p s. s\<lparr>pool_store := snd (store_remove (part_id p) (pool_store s))\<rparr>) (participants m) s;
          s2 = s1\<lparr>pending := pending_add m (now + MATCH_ACCEPT_TIMEOUT_MS) (pending s1)\<rparr>;
          s3 = emit (LogProposed (match_id m)) s2
      in fold (\<lambda>p. if supportsAcceptStep p then emit (SendProposed p (match_id m)) else id) (participants m) s3)"

definition settle_match :: "'w match_handling \<Rightarrow> int \<Rightarrow> match \<Rightarrow> 'w pool \<Rightarrow> pool_error + 'w pool" where
  "settle_match handle now m s =
     (if requiresAcceptStep m then Inr (propose now m s)
      else call_handler handle now m
             (fold (\<lambda>p s. snd (removeAndLog now (if opponentKind m = Bot then MatchedBot else MatchedHuman) p s))
                (participants m) s))"

definition pair_pool ::
  "pairing \<Rightarrow> 'w match_handling \<Rightarrow> int \<Rightarrow> mm_format \<times> mm_mode \<Rightarrow> 'w pool \<Rightarrow> pool_error + 'w pool" where
  "pair_pool pair handle now key s =
     (let candidates = store_all (fst key) (snd key) (pool_store s) in
      if candidates = [] then Inr s
      else case pair candidates now (drawn s) of
             (ms, n) \<Rightarrow> fold_e (settle_match handle now) ms (s\<lparr>drawn := n\<rparr>))"

definition pairAndDispatch :: "pairing \<Rightarrow> 'w match_handling \<Rightarrow> int \<Rightarrow> 'w pool \<Rightarrow> pool_error + 'w pool" where
  "pairAndDispatch pair handle now s = fold_e (pair_pool pair handle now) poolKeys s"

definition publishStatus :: "int \<Rightarrow> 'w pool \<Rightarrow> 'w pool" where
  "publishStatus now s = for_every (\<lambda>p. emit (SendStatus p (now - enqueuedAt p))) s"

definition pool_tick ::
  "'w liveness \<Rightarrow> pairing \<Rightarrow> 'w match_handling \<Rightarrow> int \<Rightarrow> 'w pool \<Rightarrow> pool_error + 'w pool" where
  "pool_tick alive pair handle now s =
     sum_bind (resolvePending alive now (sweepDead alive now s))
       (\<lambda>s1. sum_bind (pairAndDispatch pair handle now (forgetClosedRequeues now s1))
          (\<lambda>s2. Inr (publishStatus now s2)))"

definition depthByFormat :: "mm_format \<Rightarrow> 'w pool \<Rightarrow> nat" where
  "depthByFormat f s = sum_list (map (\<lambda>(f', m). if f' = f then store_depth f' m (pool_store s) else 0) poolKeys)"

end
