(* ===== verification/PoolLaws.thy ===== *)
theory PoolLaws
  imports Pool
begin

text \<open>
  The invariant of the pool and its bookkeeping law. \<open>everyone\<close> is every participant the pool
  holds, waiting in the store or inside a pending match; \<open>pool_inv\<close> says that the store's maps
  agree, that pending matches are filed under their own ids, and that nobody is held twice, by id
  or by user. \<open>moves A s s'\<close> is the conservation law: between two states, the participants held
  and those that logged an exit are the ones held before plus the arrivals \<open>A\<close>.
\<close>

definition held_in :: "(string, pending_match) js_map \<Rightarrow> participant list" where
  "held_in book = concat (map (\<lambda>(k, pm). participants (pm_match pm)) book)"

definition everyone :: "'w pool \<Rightarrow> participant list" where
  "everyone s = waiting (pool_store s) @ held_in (pending s)"

definition book_ok :: "(nat \<Rightarrow> string) \<Rightarrow> nat \<Rightarrow> (string, pending_match) js_map \<Rightarrow> bool" where
  "book_ok uuid n book \<longleftrightarrow> map_ok book \<and>
     (\<forall>(k, pm) \<in> set book. k = match_id (pm_match pm) \<and> k \<in> uuid ` {..<n})"

definition nobody_twice :: "participant list \<Rightarrow> bool" where
  "nobody_twice ps \<longleftrightarrow> distinct (map part_id ps) \<and> distinct (map user_id ps)"

definition pool_inv :: "(nat \<Rightarrow> string) \<Rightarrow> 'w pool \<Rightarrow> bool" where
  "pool_inv uuid s \<longleftrightarrow> store_ok (pool_store s) \<and> book_ok uuid (drawn s) (pending s) \<and> nobody_twice (everyone s)"

fun exit_of :: "pool_event \<Rightarrow> participant list" where
  "exit_of (Exit p oc w) = [p]"
| "exit_of _ = []"

definition exits :: "pool_event list \<Rightarrow> participant list" where
  "exits t = concat (map exit_of t)"

lemma exits_simps [simp]:
  "exits [] = []" "exits (e # t) = exit_of e @ exits t" "exits (t @ t') = exits t @ exits t'"
  by (simp_all add: exits_def)

definition moves :: "participant multiset \<Rightarrow> 'w pool \<Rightarrow> 'w pool \<Rightarrow> bool" where
  "moves A s s' \<longleftrightarrow>
     (\<exists>t. pool_trace s' = pool_trace s @ t \<and> mset (everyone s') + mset (exits t) = mset (everyone s) + A) \<and>
     drawn s \<le> drawn s'"

lemma moves_refl [simp]: "moves {#} s s"
  by (simp add: moves_def)

lemma moves_trans: "moves A s s' \<Longrightarrow> moves B s' s'' \<Longrightarrow> moves (A + B) s s''"
proof -
  assume "moves A s s'" "moves B s' s''"
  then obtain t t' where t: "pool_trace s' = pool_trace s @ t"
      "mset (everyone s') + mset (exits t) = mset (everyone s) + A" "drawn s \<le> drawn s'"
    and t': "pool_trace s'' = pool_trace s' @ t'"
      "mset (everyone s'') + mset (exits t') = mset (everyone s') + B" "drawn s' \<le> drawn s''"
    by (auto simp: moves_def)
  have "mset (everyone s'') + mset (exits (t @ t')) = mset (everyone s'') + mset (exits t') + mset (exits t)"
    by simp
  also have "\<dots> = mset (everyone s') + mset (exits t) + B"
    using t'(2) by simp
  also have "\<dots> = mset (everyone s) + (A + B)"
    using t(2) by simp
  finally show ?thesis
    using t(1,3) t'(1,3) unfolding moves_def by (intro conjI exI [of _ "t @ t'"]) auto
qed

lemma moves_trans0: "moves {#} s s' \<Longrightarrow> moves {#} s' s'' \<Longrightarrow> moves {#} s s''"
  using moves_trans [of "{#}" s s' "{#}" s''] by simp

lemma nobody_twice_sub: "mset ps \<subseteq># mset qs \<Longrightarrow> nobody_twice qs \<Longrightarrow> nobody_twice ps"
  unfolding nobody_twice_def
  by (metis image_mset_subseteq_mono mset_map sub_mset_distinct)

lemma moves_nobody_twice:
  assumes "moves {#} s s'" and "nobody_twice (everyone s)"
  shows "nobody_twice (everyone s')"
proof -
  have "mset (everyone s') \<subseteq># mset (everyone s)"
    using assms(1) unfolding moves_def by (metis add.right_neutral mset_subset_eq_add_left)
  then show ?thesis
    using assms(2) by (rule nobody_twice_sub)
qed

lemma nobody_twice_append:
  "nobody_twice (ps @ qs) \<longleftrightarrow> nobody_twice ps \<and> nobody_twice qs \<and>
     part_id ` set ps \<inter> part_id ` set qs = {} \<and> user_id ` set ps \<inter> user_id ` set qs = {}"
  by (auto simp: nobody_twice_def)

lemma pool_invD:
  assumes "pool_inv uuid s"
  shows "store_ok (pool_store s)" "book_ok uuid (drawn s) (pending s)" "nobody_twice (everyone s)"
  using assms by (simp_all add: pool_inv_def)

lemma pool_inv_moves:
  "pool_inv uuid s \<Longrightarrow> moves {#} s s' \<Longrightarrow> store_ok (pool_store s') \<Longrightarrow>
   book_ok uuid (drawn s') (pending s') \<Longrightarrow> pool_inv uuid s'"
  using moves_nobody_twice by (auto simp: pool_inv_def)

subsection \<open>The book\<close>

lemma held_in_simps [simp]:
  "held_in [] = []" "held_in ((k, pm) # book) = participants (pm_match pm) @ held_in book"
  "held_in (book @ book') = held_in book @ held_in book'"
  by (simp_all add: held_in_def)

lemma pending_find_None: "pending_find P book = None \<longleftrightarrow> (\<forall>p \<in> set (held_in book). \<not> P p)"
  by (induction P book rule: pending_find.induct) (auto simp: find_None_iff dest: find_SomeD split: option.splits)

lemma pending_find_Some:
  "pending_find P book = Some (pm, p) \<Longrightarrow>
     \<exists>k. (k, pm) \<in> set book \<and> p \<in> set (participants (pm_match pm)) \<and> P p"
  by (induction P book rule: pending_find.induct) (auto dest: find_SomeD split: option.splits)

lemma pending_find_held: "pending_find P book = Some (pm, p) \<Longrightarrow> p \<in> set (held_in book)"
  by (drule pending_find_Some) (auto simp: held_in_def)

lemma del_unknown: "k \<notin> fst ` set m \<Longrightarrow> map_del k m = m"
  by (simp add: AList.delete_eq filter_id_conv) force

lemma held_in_del:
  "map_ok book \<Longrightarrow> (k, pm) \<in> set book \<Longrightarrow>
   mset (held_in book) = mset (participants (pm_match pm)) + mset (held_in (map_del k book))"
proof (induction book)
  case (Cons e book)
  obtain k' pm' where e: "e = (k', pm')"
    by (cases e)
  show ?case
  proof (cases "k' = k")
    case True
    then have "k \<notin> fst ` set book" "pm' = pm"
      using Cons.prems by (force simp: map_ok_def e)+
    then show ?thesis
      using True by (simp add: e del_unknown)
  next
    case False
    then show ?thesis
      using Cons by (simp add: e map_ok_def)
  qed
qed simp

lemma book_ok_del: "book_ok uuid n book \<Longrightarrow> book_ok uuid n (map_del k book)"
  by (auto simp: book_ok_def AList.delete_eq map_ok_def distinct_map_filter)

lemma book_ok_mono: "book_ok uuid n book \<Longrightarrow> n \<le> n' \<Longrightarrow> book_ok uuid n' book"
  by (fastforce simp: book_ok_def)

lemma book_ok_look: "book_ok uuid n book \<Longrightarrow> (k, pm) \<in> set book \<Longrightarrow>
    map_get book k = Some pm \<and> k = match_id (pm_match pm)"
  using map_ok_mem [of book k pm] by (auto simp: book_ok_def)

lemma length_del: "(k, v) \<in> set m \<Longrightarrow> length (map_del k m) < length m"
  by (simp add: AList.delete_eq) (rule length_filter_less, auto)

subsection \<open>The fuel of \<open>add\<close> suffices\<close>

definition keyed :: "(string, pending_match) js_map \<Rightarrow> bool" where
  "keyed book \<longleftrightarrow> (\<forall>(k, pm) \<in> set book. k = match_id (pm_match pm))"

text \<open>An entering step that never runs out of fuel, whatever the state, as long as the book has at
  most \<open>n\<close> matches and is keyed; the book never grows.\<close>

definition enters :: "nat \<Rightarrow> (participant \<Rightarrow> 'w pool \<Rightarrow> pool_error + (bool \<times> 'w pool)) \<Rightarrow> bool" where
  "enters n f \<longleftrightarrow> (\<forall>p s. keyed (pending s) \<longrightarrow> length (pending s) \<le> n \<longrightarrow>
     (\<exists>u. f p s = Inl (DuplicateQueueEntryError u)) \<or>
     (\<exists>b s'. f p s = Inr (b, s') \<and> keyed (pending s') \<and> length (pending s') \<le> n))"

lemma keyed_del: "keyed book \<Longrightarrow> keyed (map_del k book)"
  by (auto simp: keyed_def AList.delete_eq)

lemma emit_fields [simp]:
  "pool_store (emit e s) = pool_store s" "pending (emit e s) = pending s" "drawn (emit e s) = drawn s"
  "world (emit e s) = world s" "pool_trace (emit e s) = pool_trace s @ [e]"
  "requeuedByMatchId (emit e s) = requeuedByMatchId s"
  by (simp_all add: emit_def)

lemma logExit_fields [simp]:
  "pool_store (logExit now oc p s) = pool_store s" "pending (logExit now oc p s) = pending s"
  "drawn (logExit now oc p s) = drawn s" "world (logExit now oc p s) = world s"
  "pool_trace (logExit now oc p s) = pool_trace s @ [Exit p oc (now - enqueuedAt p)]"
  "requeuedByMatchId (logExit now oc p s) = requeuedByMatchId s"
  by (simp_all add: logExit_def)

lemma fold_keeps: "(\<And>x s. g (f x s) = g s) \<Longrightarrow> g (fold f xs s) = g s"
  by (induction xs arbitrary: s) auto

lemma removeAndLog_fields [simp]:
  "pending (snd (removeAndLog now oc p s)) = pending s" "drawn (snd (removeAndLog now oc p s)) = drawn s"
  "world (snd (removeAndLog now oc p s)) = world s"
  "requeuedByMatchId (snd (removeAndLog now oc p s)) = requeuedByMatchId s"
  by (auto simp: removeAndLog_def split: prod.splits)

lemma requeue_enters:
  assumes "enters n f" and "keyed (pending s)" and "length (pending s) \<le> n"
  shows "(\<exists>u. fold_e (\<lambda>p s. sum_bind (f p s) (\<lambda>(_, s'). Inr (emit (SendStatus p (now - enqueuedAt p)) s'))) ps s
            = Inl (DuplicateQueueEntryError u)) \<or>
    (\<exists>s'. fold_e (\<lambda>p s. sum_bind (f p s) (\<lambda>(_, s'). Inr (emit (SendStatus p (now - enqueuedAt p)) s'))) ps s
            = Inr s' \<and> keyed (pending s') \<and> length (pending s') \<le> n)"
  using assms(2,3)
proof (induction ps arbitrary: s)
  case (Cons p ps)
  consider u where "f p s = Inl (DuplicateQueueEntryError u)"
    | b s' where "f p s = Inr (b, s')" "keyed (pending s')" "length (pending s') \<le> n"
    using assms(1) Cons.prems unfolding enters_def by blast
  then show ?case
  proof cases
    case (2 b s')
    then show ?thesis
      using Cons.IH [of "emit (SendStatus p (now - enqueuedAt p)) s'"] by simp
  qed simp
qed simp

lemma abandon_enters:
  assumes f: "enters n f" and s: "keyed (pending s)" "length (pending s) \<le> Suc n" and pm: "(k, pm) \<in> set (pending s)"
  shows "(\<exists>u. abandon_with f now pm leaving oc s = Inl (DuplicateQueueEntryError u)) \<or>
    (\<exists>s'. abandon_with f now pm leaving oc s = Inr s' \<and> keyed (pending s') \<and> length (pending s') \<le> n)"
proof -
  have k: "k = match_id (pm_match pm)"
    using s(1) pm by (auto simp: keyed_def)
  have book: "keyed (map_del k (pending s))" "length (map_del k (pending s)) \<le> n"
    using keyed_del [OF s(1)] length_del [OF pm] s(2) by auto
  show ?thesis
    unfolding abandon_with_def Let_def k [symmetric]
    by (rule requeue_enters [OF f]) (use book in \<open>simp_all add: fold_keeps [where g = pending]\<close>)
qed

lemma pool_add_fuel_enters: "enters n (pool_add_fuel (Suc n) now)"
proof (induction n)
  case 0
  show ?case
    unfolding enters_def by (auto simp: Let_def findPendingByUserId_def split: option.splits)
next
  case (Suc n)
  show ?case
    unfolding enters_def
  proof (intro allI impI)
    fix p and s :: "'a pool"
    assume s: "keyed (pending s)" "length (pending s) \<le> Suc n"
    show "(\<exists>u. pool_add_fuel (Suc (Suc n)) now p s = Inl (DuplicateQueueEntryError u)) \<or>
      (\<exists>b s'. pool_add_fuel (Suc (Suc n)) now p s = Inr (b, s') \<and> keyed (pending s') \<and> length (pending s') \<le> Suc n)"
    proof (cases "store_findByUserId (user_id p) (pool_store s) = None \<and> presence p \<noteq> Poll")
      case False
      then show ?thesis
        using s by (auto simp: Let_def split: option.splits)
    next
      case True
      show ?thesis
      proof (cases "findPendingByUserId (user_id p) (pending s)")
        case None
        then show ?thesis
          using True s by (simp add: ex_bool_eq)
      next
        case (Some found)
        obtain pm q where found: "found = (pm, q)"
          by (cases found)
        obtain k where "(k, pm) \<in> set (pending s)"
          using pending_find_Some Some found unfolding findPendingByUserId_def by blast
        from abandon_enters [OF Suc s this, of now "[q]" Replaced]
        show ?thesis
          using True Some found by (auto simp del: pool_add_fuel.simps(2) simp: pool_add_fuel.simps(2) [of "Suc n"])
      qed
    qed
  qed
qed

lemma pool_add_fuel_enough:
  assumes "keyed (pending s)"
  shows "pool_add now p s \<noteq> Inl OutOfFuel"
proof -
  have "(\<exists>u. pool_add now p s = Inl (DuplicateQueueEntryError u)) \<or> (\<exists>b s'. pool_add now p s = Inr (b, s'))"
    using pool_add_fuel_enters [of "length (pending s)" now] assms
    unfolding enters_def pool_add_def by blast
  then show ?thesis
    by auto
qed

subsection \<open>Leaving the store\<close>

lemma everyone_emit [simp]: "everyone (emit e s) = everyone s"
  by (simp add: everyone_def)

lemma moves_emit: "exit_of e = [] \<Longrightarrow> moves {#} s (emit e s)"
  by (simp add: moves_def)

lemma removeAndLog_known:
  assumes "pool_inv uuid s" and "p \<in> set (waiting (pool_store s))"
  shows "fst (removeAndLog now oc p s) \<and> pool_inv uuid (snd (removeAndLog now oc p s)) \<and>
    moves {#} s (snd (removeAndLog now oc p s)) \<and>
    waiting (pool_store (snd (removeAndLog now oc p s))) =
      filter (\<lambda>q. part_id q \<noteq> part_id p) (waiting (pool_store s)) \<and>
    mset (everyone s) = add_mset p (mset (everyone (snd (removeAndLog now oc p s))))"
proof -
  obtain b st where r: "store_remove (part_id p) (pool_store s) = (b, st)"
    by (cases "store_remove (part_id p) (pool_store s)")
  note inv = pool_invD [OF assms(1)]
  have st: "b" "store_ok st" "waiting st = filter (\<lambda>q. part_id q \<noteq> part_id p) (waiting (pool_store s))"
    "mset (waiting (pool_store s)) = add_mset p (mset (waiting st))"
    using mem.remove_ok [OF inv(1), of "part_id p"] mem.remove_mset [OF inv(1) assms(2)] assms(2) r by auto
  have s': "snd (removeAndLog now oc p s) = logExit now oc p (s\<lparr>pool_store := st\<rparr>)"
    using r st(1) by (simp add: removeAndLog_def)
  have "moves {#} s (snd (removeAndLog now oc p s))"
    unfolding s' moves_def using st(4) by (simp add: everyone_def)
  moreover from this have "pool_inv uuid (snd (removeAndLog now oc p s))"
    by (rule pool_inv_moves [OF assms(1)]) (use s' st(2) inv(2) in simp_all)
  moreover have "mset (everyone s) = add_mset p (mset (everyone (snd (removeAndLog now oc p s))))"
    using st(4) by (simp add: s' everyone_def)
  ultimately show ?thesis
    using st(1,3) r s' by (simp add: removeAndLog_def)
qed

lemma removeAndLog_unknown:
  assumes "store_ok (pool_store s)" and "part_id p \<notin> part_id ` set (waiting (pool_store s))"
  shows "\<not> fst (removeAndLog now oc p s) \<and> pool_trace (snd (removeAndLog now oc p s)) = pool_trace s \<and>
    waiting (pool_store (snd (removeAndLog now oc p s))) = waiting (pool_store s) \<and>
    store_ok (pool_store (snd (removeAndLog now oc p s)))"
  using mem.remove_ok [OF assms(1), of "part_id p"] mem.remove_unknown [OF assms]
  by (auto simp: removeAndLog_def assms(2) split: prod.splits)

text \<open>Whoever is in the store or not, removing with a log line keeps the invariant and the count.\<close>

lemma removeAndLog_inv:
  assumes "pool_inv uuid s" and "p \<in> set (waiting (pool_store s)) \<or> part_id p \<notin> part_id ` set (waiting (pool_store s))"
  shows "pool_inv uuid (snd (removeAndLog now oc p s)) \<and> moves {#} s (snd (removeAndLog now oc p s))"
proof (cases "p \<in> set (waiting (pool_store s))")
  case True
  then show ?thesis
    using removeAndLog_known [OF assms(1)] by blast
next
  case False
  note inv = pool_invD [OF assms(1)]
  have gone: "part_id p \<notin> part_id ` set (waiting (pool_store s))"
    using False assms(2) by blast
  have "moves {#} s (snd (removeAndLog now oc p s))"
    using removeAndLog_unknown [OF inv(1) gone, of now oc] by (simp add: moves_def everyone_def)
  moreover from this have "pool_inv uuid (snd (removeAndLog now oc p s))"
    by (rule pool_inv_moves [OF assms(1)]) (use removeAndLog_unknown [OF inv(1) gone, of now oc] inv in simp_all)
  ultimately show ?thesis
    by blast
qed

lemma removeByIdAndLog_cases:
  assumes "pool_inv uuid s"
  shows "(\<exists>p \<in> set (waiting (pool_store s)). part_id p = i \<and>
      removeByIdAndLog now oc i s = (True, snd (removeAndLog now oc p s))) \<or>
    i \<notin> part_id ` set (waiting (pool_store s)) \<and> removeByIdAndLog now oc i s = (False, s)"
proof (cases "store_get i (pool_store s)")
  case None
  then show ?thesis
    using mem.get_None [OF pool_invD(1) [OF assms], of i] by (simp add: removeByIdAndLog_def)
next
  case (Some p)
  then have "p \<in> set (waiting (pool_store s))" "part_id p = i"
    using mem.get_Some [OF pool_invD(1) [OF assms]] by auto
  then show ?thesis
    using removeAndLog_known [OF assms, of p now oc] Some
    by (auto simp: removeByIdAndLog_def intro!: bexI [of _ p] prod_eqI)
qed

subsection \<open>Entering\<close>

definition fresh_in :: "participant \<Rightarrow> 'w pool \<Rightarrow> bool" where
  "fresh_in p s \<longleftrightarrow> part_id p \<notin> part_id ` set (everyone s) \<and> user_id p \<notin> user_id ` set (everyone s)"

definition enter :: "participant \<Rightarrow> 'w pool \<Rightarrow> 'w pool" where
  "enter p s = s\<lparr>pool_store := store_add p (pool_store s)\<rparr>"

lemma enter_fields [simp]:
  "pending (enter p s) = pending s" "drawn (enter p s) = drawn s" "world (enter p s) = world s"
  "pool_trace (enter p s) = pool_trace s" "requeuedByMatchId (enter p s) = requeuedByMatchId s"
  by (simp_all add: enter_def)

lemma enter_fresh:
  assumes "pool_inv uuid s" and "fresh_in p s"
  shows "pool_inv uuid (enter p s) \<and> moves {#p#} s (enter p s) \<and>
    waiting (pool_store (enter p s)) = waiting (pool_store s) @ [p]"
proof -
  note inv = pool_invD [OF assms(1)]
  have st: "store_ok (store_add p (pool_store s))" "waiting (store_add p (pool_store s)) = waiting (pool_store s) @ [p]"
    using mem.add_ok [OF inv(1), of p] assms(2) by (auto simp: fresh_in_def everyone_def)
  have "nobody_twice (p # everyone s)"
    using inv(3) assms(2) by (auto simp: fresh_in_def nobody_twice_def)
  moreover have "mset (everyone (enter p s)) = mset (p # everyone s)"
    by (simp add: everyone_def enter_def st(2))
  ultimately have "nobody_twice (everyone (enter p s))"
    using nobody_twice_sub [of "everyone (enter p s)" "p # everyone s"] by simp
  then show ?thesis
    using st inv(2) by (simp add: pool_inv_def moves_def enter_def everyone_def)
qed

lemma nobody_by_user:
  assumes "pool_inv uuid s" and "user_id p \<notin> user_id ` set (everyone s)"
  shows "store_findByUserId (user_id p) (pool_store s) = None" "findPendingByUserId (user_id p) (pending s) = None"
proof -
  have "user_id p \<notin> user_id ` set (waiting (pool_store s))" and held: "user_id p \<notin> user_id ` set (held_in (pending s))"
    using assms(2) by (auto simp: everyone_def)
  then show "store_findByUserId (user_id p) (pool_store s) = None"
    using mem.by_user_None [OF pool_invD(1) [OF assms(1)], of "user_id p"] by simp
  show "findPendingByUserId (user_id p) (pending s) = None"
    unfolding findPendingByUserId_def pending_find_None using held by force
qed

definition enters_fresh ::
  "(nat \<Rightarrow> string) \<Rightarrow> (participant \<Rightarrow> 'w pool \<Rightarrow> pool_error + (bool \<times> 'w pool)) \<Rightarrow> bool" where
  "enters_fresh uuid f \<longleftrightarrow> (\<forall>p s. pool_inv uuid s \<longrightarrow> fresh_in p s \<longrightarrow> f p s = Inr (False, enter p s))"

lemma pool_add_fuel_fresh: "enters_fresh uuid (pool_add_fuel (Suc k) now)"
  by (simp add: enters_fresh_def fresh_in_def nobody_by_user [of uuid] Let_def enter_def)

lemma pool_add_enters_fresh: "enters_fresh uuid (pool_add now)"
  using pool_add_fuel_fresh unfolding enters_fresh_def pool_add_def by blast

lemma pool_add_fresh:
  "pool_inv uuid s \<Longrightarrow> fresh_in p s \<Longrightarrow> pool_add now p s = Inr (False, enter p s)"
  using pool_add_enters_fresh by (auto simp: enters_fresh_def)

definition requeue_one ::
  "(participant \<Rightarrow> 'w pool \<Rightarrow> pool_error + (bool \<times> 'w pool)) \<Rightarrow> int \<Rightarrow> participant \<Rightarrow> 'w pool \<Rightarrow> pool_error + 'w pool" where
  "requeue_one f now p s =
     sum_bind (f p s) (\<lambda>(_, s'). Inr (emit (SendStatus p (now - enqueuedAt p)) s'))"

lemma requeue_all:
  assumes "enters_fresh uuid f" and "pool_inv uuid s" and "nobody_twice (everyone s @ ps)"
  shows "\<exists>s'. fold_e (requeue_one f now) ps s = Inr s' \<and> pool_inv uuid s' \<and> moves (mset ps) s s' \<and>
    waiting (pool_store s') = waiting (pool_store s) @ ps \<and> pending s' = pending s \<and> drawn s' = drawn s \<and>
    world s' = world s \<and> requeuedByMatchId s' = requeuedByMatchId s"
  using assms(2,3)
proof (induction ps arbitrary: s)
  case (Cons p ps)
  have fresh: "fresh_in p s"
    using Cons.prems(2) by (auto simp: fresh_in_def nobody_twice_def)
  note entered = enter_fresh [OF Cons.prems(1) fresh]
  let ?s1 = "emit (SendStatus p (now - enqueuedAt p)) (enter p s)"
  have inv1: "pool_inv uuid ?s1"
    using entered by (simp add: pool_inv_def)
  have m1: "moves {#p#} s ?s1"
    using moves_trans [of "{#p#}" s "enter p s" "{#}" ?s1] entered moves_emit by force
  have "mset (everyone ?s1 @ ps) = mset (everyone s @ p # ps)"
    using entered by (simp add: everyone_def)
  then have "nobody_twice (everyone ?s1 @ ps)"
    using Cons.prems(2) nobody_twice_sub [of "everyone ?s1 @ ps" "everyone s @ p # ps"] by simp
  from Cons.IH [OF inv1 this] obtain s' where s':
    "fold_e (requeue_one f now) ps ?s1 = Inr s'" "pool_inv uuid s'" "moves (mset ps) ?s1 s'"
    "waiting (pool_store s') = waiting (pool_store s) @ p # ps" "pending s' = pending s" "drawn s' = drawn s"
    "world s' = world s" "requeuedByMatchId s' = requeuedByMatchId s"
    using entered by auto
  have "requeue_one f now p s = Inr ?s1"
    using assms(1) Cons.prems(1) fresh by (simp add: enters_fresh_def requeue_one_def)
  then show ?case
    using s' moves_trans [OF m1 s'(3)] by simp
qed simp

subsection \<open>Abandoning a pending match\<close>

lemma requeue_one_fun: "requeue_one f now =
    (\<lambda>p s. sum_bind (f p s) (\<lambda>(_, s'). Inr (emit (SendStatus p (now - enqueuedAt p)) s')))"
  by (simp add: fun_eq_iff requeue_one_def)

lemma abandon_unfold: "abandon_with f now pm leaving oc s =
    (let m = pm_match pm;
         s2 = fold (\<lambda>p s. emit (LogAbandoned (match_id m) (part_id p) oc) (logExit now oc p s)) leaving
                (s\<lparr>pending := map_del (match_id m) (pending s)\<rparr>);
         requeued = filter (\<lambda>p. p \<notin> set leaving) (participants m)
     in fold_e (requeue_one f now) requeued
          (if requeued \<noteq> []
           then s2\<lparr>requeuedByMatchId := map_put (match_id m) (map part_id requeued, deadline pm) (requeuedByMatchId s2)\<rparr>
           else s2))"
  by (simp add: abandon_with_def requeue_one_fun Let_def)

lemma log_leaving:
  "pool_trace (fold (\<lambda>p s. emit (LogAbandoned mid (part_id p) oc) (logExit now oc p s)) ps s) =
     pool_trace s @ concat (map (\<lambda>p. [Exit p oc (now - enqueuedAt p), LogAbandoned mid (part_id p) oc]) ps)"
  by (induction ps arbitrary: s) simp_all

lemma exits_leaving:
  "exits (concat (map (\<lambda>p. [Exit p oc (now - enqueuedAt p), LogAbandoned mid (part_id p) oc]) ps)) = ps"
  by (induction ps) simp_all

lemma mset_split_leaving:
  assumes "distinct leaving" and "set leaving \<subseteq> set ps" and "distinct ps"
  shows "mset (filter (\<lambda>p. p \<notin> set leaving) ps) + mset leaving = mset ps"
proof -
  have "mset leaving = mset (filter (\<lambda>p. p \<in> set leaving) ps)"
    using assms by (intro set_eq_iff_mset_eq_distinct [THEN iffD1]) auto
  then show ?thesis
    by (simp add: multiset_partition [of "mset ps" "\<lambda>p. p \<in> set leaving", symmetric] ac_simps)
qed

lemma mset_swap: "(a :: 'a multiset) + e = b + x \<Longrightarrow> x + l = m \<Longrightarrow> a + (l + e) = b + m"
  by (metis add.assoc add.commute)

lemma nobody_twice_distinct: "nobody_twice ps \<Longrightarrow> distinct ps"
  by (simp add: nobody_twice_def distinct_map)

lemma abandon_with_ok:
  assumes f: "enters_fresh uuid f" and inv: "pool_inv uuid s" and pm: "(k, pm) \<in> set (pending s)"
    and leaving: "distinct leaving" "set leaving \<subseteq> set (participants (pm_match pm))"
  shows "\<exists>s'. abandon_with f now pm leaving oc s = Inr s' \<and> pool_inv uuid s' \<and> moves {#} s s' \<and>
    waiting (pool_store s') = waiting (pool_store s) @ filter (\<lambda>p. p \<notin> set leaving) (participants (pm_match pm)) \<and>
    pending s' = map_del k (pending s) \<and> drawn s' = drawn s \<and> world s' = world s \<and>
    mset (everyone s) = mset leaving + mset (everyone s')"
proof -
  let ?m = "pm_match pm" and ?others = "filter (\<lambda>p. p \<notin> set leaving) (participants (pm_match pm))"
  note parts = pool_invD [OF inv]
  have k: "k = match_id ?m" and ok: "map_ok (pending s)"
    using parts(2) pm by (auto simp: book_ok_def)
  define s1 where "s1 = s\<lparr>pending := map_del k (pending s)\<rparr>"
  define s2 where "s2 = fold (\<lambda>p s. emit (LogAbandoned (match_id ?m) (part_id p) oc) (logExit now oc p s)) leaving s1"
  define s3 where "s3 = (if ?others \<noteq> []
      then s2\<lparr>requeuedByMatchId := map_put (match_id ?m) (map part_id ?others, deadline pm) (requeuedByMatchId s2)\<rparr>
      else s2)"
  have fields: "pool_store s3 = pool_store s" "pending s3 = map_del k (pending s)" "drawn s3 = drawn s" "world s3 = world s"
    by (simp_all add: s3_def s2_def s1_def fold_keeps [where g = pool_store] fold_keeps [where g = pending]
        fold_keeps [where g = drawn] fold_keeps [where g = world])
  have trace: "pool_trace s3 = pool_trace s @
      concat (map (\<lambda>p. [Exit p oc (now - enqueuedAt p), LogAbandoned (match_id ?m) (part_id p) oc]) leaving)"
    by (simp add: s3_def s2_def s1_def log_leaving)
  have all_parts: "mset (everyone s) = mset (everyone s3) + mset (participants ?m)"
    using held_in_del [OF ok pm] by (simp add: everyone_def fields)
  have twice: "nobody_twice (everyone s3 @ participants ?m)"
    using nobody_twice_sub [of "everyone s3 @ participants ?m" "everyone s"] parts(3) all_parts by simp
  then have split: "mset ?others + mset leaving = mset (participants ?m)"
    by (intro mset_split_leaving leaving) (simp add: nobody_twice_append nobody_twice_distinct)
  have inv3: "pool_inv uuid s3"
    using parts(1) book_ok_del [OF parts(2), of k] twice
    by (simp add: pool_inv_def fields nobody_twice_append)
  have "mset (everyone s3 @ ?others) \<subseteq># mset (everyone s3 @ participants ?m)"
    by (simp add: multiset_filter_subset)
  then have "nobody_twice (everyone s3 @ ?others)"
    using twice by (rule nobody_twice_sub)
  from requeue_all [OF f inv3 this, of now] obtain s' where s':
    "fold_e (requeue_one f now) ?others s3 = Inr s'" "pool_inv uuid s'" "moves (mset ?others) s3 s'"
    "waiting (pool_store s') = waiting (pool_store s) @ ?others" "pending s' = map_del k (pending s)"
    "drawn s' = drawn s" "world s' = world s"
    by (auto simp: fields)
  obtain t where t: "pool_trace s' = pool_trace s3 @ t" "mset (everyone s') + mset (exits t) = mset (everyone s3) + mset ?others"
    using s'(3) by (auto simp: moves_def)
  have count: "mset (everyone s') + (mset leaving + mset (exits t)) = mset (everyone s)"
    using mset_swap [OF t(2) split] all_parts by simp
  have "moves {#} s s'"
    unfolding moves_def
  proof (intro conjI exI)
    let ?logs = "concat (map (\<lambda>p. [Exit p oc (now - enqueuedAt p), LogAbandoned (match_id ?m) (part_id p) oc]) leaving)"
    show "pool_trace s' = pool_trace s @ ?logs @ t"
      using t(1) trace by simp
    show "mset (everyone s') + mset (exits (?logs @ t)) = mset (everyone s) + {#}"
      using count by (simp add: exits_leaving)
    show "drawn s \<le> drawn s'"
      using s'(6) by simp
  qed
  moreover have "abandon_with f now pm leaving oc s = Inr s'"
    using s'(1) unfolding abandon_unfold Let_def s3_def s2_def s1_def k by simp
  moreover have "mset (everyone s) = mset leaving + mset (everyone s')"
  proof -
    have "mset (everyone s') + {#} = mset (everyone s3) + mset ?others"
      by (simp add: everyone_def fields s'(4,5))
    from mset_swap [OF this split] show ?thesis
      using all_parts by (simp add: add.commute)
  qed
  ultimately show ?thesis
    using s' by blast
qed

lemma abandon_ok:
  assumes "pool_inv uuid s" and "(k, pm) \<in> set (pending s)"
    and "distinct leaving" and "set leaving \<subseteq> set (participants (pm_match pm))"
  shows "\<exists>s'. abandon now pm leaving oc s = Inr s' \<and> pool_inv uuid s' \<and> moves {#} s s' \<and>
    waiting (pool_store s') = waiting (pool_store s) @ filter (\<lambda>p. p \<notin> set leaving) (participants (pm_match pm)) \<and>
    pending s' = map_del k (pending s) \<and> drawn s' = drawn s \<and> world s' = world s \<and>
    mset (everyone s) = mset leaving + mset (everyone s')"
  unfolding abandon_def by (rule abandon_with_ok [OF pool_add_enters_fresh assms])

end
