(* ===== verification/PoolOps.thy ===== *)
theory PoolOps
  imports PoolLaws
begin

text \<open>
  Every operation of the pool keeps its invariant and accounts for its participants: entering and
  replacement, removal, answers to a proposal, and the tick's sweep and time-outs. \<open>good_step A s s'\<close>
  bundles both laws.
\<close>

definition good_step :: "(nat \<Rightarrow> string) \<Rightarrow> participant multiset \<Rightarrow> 'w pool \<Rightarrow> 'w pool \<Rightarrow> bool" where
  "good_step uuid A s s' \<longleftrightarrow> pool_inv uuid s' \<and> moves A s s'"

lemma good_step_refl [simp]: "good_step uuid {#} s s \<longleftrightarrow> pool_inv uuid s"
  by (simp add: good_step_def)

lemma good_step_trans: "good_step uuid A s s' \<Longrightarrow> good_step uuid B s' s'' \<Longrightarrow> good_step uuid (A + B) s s''"
  using moves_trans by (auto simp: good_step_def)

lemma good_step_trans0: "good_step uuid {#} s s' \<Longrightarrow> good_step uuid {#} s' s'' \<Longrightarrow> good_step uuid {#} s s''"
  using good_step_trans [of uuid "{#}" s s' "{#}" s''] by simp

lemma good_step_emit: "exit_of e = [] \<Longrightarrow> good_step uuid A s s' \<Longrightarrow> good_step uuid A s (emit e s')"
  using moves_trans [of A s s' "{#}" "emit e s'"] moves_emit [of e s']
  by (simp add: good_step_def pool_inv_def)

lemma good_step_emits: "(\<And>x. exit_of (f x) = []) \<Longrightarrow> good_step uuid A s s' \<Longrightarrow>
    good_step uuid A s (fold (\<lambda>x. emit (f x)) xs s')"
  by (induction xs arbitrary: s') (simp_all add: good_step_emit)

subsection \<open>Entering and replacement\<close>

definition id_not_shared :: "participant \<Rightarrow> 'w pool \<Rightarrow> bool" where
  "id_not_shared p s \<longleftrightarrow> (\<forall>q \<in> set (everyone s). part_id q = part_id p \<longrightarrow> user_id q = user_id p)"

lemma fresh_after_removal:
  assumes "nobody_twice (everyone s)" and "mset (everyone s) = add_mset q (mset (everyone s'))"
    and "user_id q = user_id p" and "id_not_shared p s"
  shows "fresh_in p s'"
proof -
  have "mset (everyone s) = mset (q # everyone s')"
    using assms(2) by simp
  then have twice: "nobody_twice (q # everyone s')" and sub: "set (everyone s') \<subseteq> set (everyone s)"
    using assms(1) nobody_twice_sub [of "q # everyone s'" "everyone s"] mset_eq_setD [of "everyone s" "q # everyone s'"]
    by auto
  have user: "user_id p \<notin> user_id ` set (everyone s')"
    using twice assms(3) by (simp add: nobody_twice_def)
  moreover have "part_id p \<notin> part_id ` set (everyone s')"
  proof
    assume "part_id p \<in> part_id ` set (everyone s')"
    then obtain r where r: "r \<in> set (everyone s')" "part_id r = part_id p"
      by auto
    then have "user_id r = user_id p"
      using assms(4) sub by (auto simp: id_not_shared_def)
    then show False
      using user r(1) by (metis imageI)
  qed
  ultimately show ?thesis
    by (simp add: fresh_in_def)
qed

lemma fresh_emit [simp]: "fresh_in p (emit e s) = fresh_in p s"
  by (simp add: fresh_in_def)

lemma replaced_enter:
  assumes "pool_inv uuid s" and "good_step uuid {#} s s'"
    and "mset (everyone s) = add_mset q (mset (everyone s'))" and "user_id q = user_id p" and "id_not_shared p s"
  shows "good_step uuid {#p#} s (enter p (emit (SendClose q ReplacedByNewConnection) s')) \<and>
    mset (everyone (enter p (emit (SendClose q ReplacedByNewConnection) s'))) + {#q#} = mset (everyone s) + {#p#}"
proof -
  let ?e = "emit (SendClose q ReplacedByNewConnection) s'"
  have fresh: "fresh_in p ?e"
    using fresh_after_removal [OF pool_invD(3) [OF assms(1)] assms(3-5)] by simp
  have step: "good_step uuid {#} s ?e"
    using assms(2) by (simp add: good_step_emit)
  then have inv: "pool_inv uuid ?e"
    by (simp add: good_step_def)
  have "good_step uuid {#p#} ?e (enter p ?e)" "mset (everyone (enter p ?e)) = add_mset p (mset (everyone ?e))"
    using enter_fresh [OF inv fresh] by (simp_all add: good_step_def everyone_def)
  then show ?thesis
    using good_step_trans [OF step] assms(3) by fastforce
qed

text \<open>The three outcomes of \<open>add\<close>.\<close>

lemma pool_add_new:
  "pool_inv uuid s \<Longrightarrow> fresh_in p s \<Longrightarrow> pool_add now p s = Inr (False, enter p s) \<and> good_step uuid {#p#} s (enter p s)"
  using pool_add_fresh [of uuid s p now] enter_fresh [of uuid s p] by (simp add: good_step_def)

definition queued_user :: "'w pool \<Rightarrow> string \<Rightarrow> bool" where
  "queued_user s u \<longleftrightarrow> u \<in> user_id ` set (everyone s)"

lemma existing_or:
  assumes "pool_inv uuid s" and "queued_user s (user_id p)"
  obtains (waits) q where "store_findByUserId (user_id p) (pool_store s) = Some q"
      "q \<in> set (waiting (pool_store s))" "user_id q = user_id p"
  | (holds) k pm q where "store_findByUserId (user_id p) (pool_store s) = None"
      "findPendingByUserId (user_id p) (pending s) = Some (pm, q)" "(k, pm) \<in> set (pending s)"
      "q \<in> set (participants (pm_match pm))" "user_id q = user_id p"
proof (cases "store_findByUserId (user_id p) (pool_store s)")
  case (Some q)
  then show thesis
    using mem.by_user_Some [OF pool_invD(1) [OF assms(1)]] waits by blast
next
  case None
  then have "user_id p \<notin> user_id ` set (waiting (pool_store s))"
    using mem.by_user_None [OF pool_invD(1) [OF assms(1)]] by blast
  then have "findPendingByUserId (user_id p) (pending s) \<noteq> None"
    using assms(2) unfolding findPendingByUserId_def pending_find_None
    by (auto simp: queued_user_def everyone_def)
  then obtain pm q where found: "findPendingByUserId (user_id p) (pending s) = Some (pm, q)"
    by auto
  then show thesis
    using pending_find_Some [of _ "pending s" pm q] None holds unfolding findPendingByUserId_def by blast
qed

lemma pool_add_poll:
  "pool_inv uuid s \<Longrightarrow> queued_user s (user_id p) \<Longrightarrow> presence p = Poll \<Longrightarrow>
   pool_add now p s = Inl (DuplicateQueueEntryError (user_id p))"
  by (erule (1) existing_or) (simp_all add: pool_add_def Let_def)

lemma pool_add_replaces:
  assumes inv: "pool_inv uuid s" and user: "queued_user s (user_id p)" and sock: "presence p = Socket"
    and shared: "id_not_shared p s"
  shows "\<exists>q s'. pool_add now p s = Inr (True, s') \<and> q \<in> set (everyone s) \<and> user_id q = user_id p \<and>
    good_step uuid {#p#} s s' \<and> mset (everyone s') + {#q#} = mset (everyone s) + {#p#}"
  using inv user
proof (cases rule: existing_or)
  case (waits q)
  note gone = removeAndLog_known [OF inv waits(2), of now Replaced]
  from replaced_enter [OF inv _ _ waits(3) shared, of "snd (removeAndLog now Replaced q s)"]
  have "good_step uuid {#p#} s (enter p (emit (SendClose q ReplacedByNewConnection) (snd (removeAndLog now Replaced q s))))
    \<and> mset (everyone (enter p (emit (SendClose q ReplacedByNewConnection) (snd (removeAndLog now Replaced q s))))) + {#q#}
      = mset (everyone s) + {#p#}"
    using gone by (simp add: good_step_def)
  moreover have "pool_add now p s =
      Inr (True, enter p (emit (SendClose q ReplacedByNewConnection) (snd (removeAndLog now Replaced q s))))"
    using waits sock by (simp add: pool_add_def Let_def enter_def)
  moreover have "q \<in> set (everyone s)"
    using waits by (simp add: everyone_def)
  ultimately show ?thesis
    using waits(3) by blast
next
  case (holds k pm q)
  obtain n where n: "length (pending s) = Suc n"
    using holds(3) by (cases "pending s") auto
  from abandon_with_ok [OF pool_add_fuel_fresh [of uuid n now] inv holds(3), of "[q]" now Replaced]
  obtain s1 where s1: "abandon_with (pool_add_fuel (Suc n) now) now pm [q] Replaced s = Inr s1"
      "good_step uuid {#} s s1" "mset (everyone s) = add_mset q (mset (everyone s1))"
    using holds(4) by (auto simp: good_step_def)
  note replaced_enter [OF inv s1(2,3) holds(5) shared]
  moreover have "pool_add now p s = Inr (True, enter p (emit (SendClose q ReplacedByNewConnection) s1))"
    using holds sock s1(1) unfolding pool_add_def n
    by (simp add: Let_def enter_def del: pool_add_fuel.simps(2)) (simp add: pool_add_fuel.simps(2) [of "Suc n"] Let_def)
  moreover have "q \<in> set (everyone s)"
    using holds by (auto simp: everyone_def held_in_def)
  ultimately show ?thesis
    using holds(5) by blast
qed

subsection \<open>Removal and refusal\<close>

lemma leavePending_ok:
  assumes "pool_inv uuid s"
  shows "\<exists>b s'. leavePending now i oc s = Inr (b, s') \<and> good_step uuid {#} s s' \<and>
    (b \<longleftrightarrow> i \<in> part_id ` set (held_in (pending s))) \<and>
    (b \<longrightarrow> (\<exists>p. part_id p = i \<and> mset (everyone s) = add_mset p (mset (everyone s')))) \<and> (\<not> b \<longrightarrow> s' = s)"
proof (cases "findByParticipantId i (pending s)")
  case None
  then have "i \<notin> part_id ` set (held_in (pending s))"
    unfolding findByParticipantId_def pending_find_None by auto
  then show ?thesis
    using None assms by (intro exI [of _ False] exI [of _ s]) (simp add: leavePending_def)
next
  case (Some found)
  obtain pm p where found: "found = (pm, p)"
    by (cases found)
  then obtain k where k: "(k, pm) \<in> set (pending s)" "p \<in> set (participants (pm_match pm))" "part_id p = i"
    using Some pending_find_Some unfolding findByParticipantId_def by blast
  from abandon_ok [OF assms k(1), where leaving = "[p]" and now = now and oc = oc] obtain s' where
    "abandon now pm [p] oc s = Inr s'" "good_step uuid {#} s s'" "mset (everyone s) = add_mset p (mset (everyone s'))"
    using k(2) by (auto simp: good_step_def)
  moreover have "i \<in> part_id ` set (held_in (pending s))"
    using k by (auto simp: held_in_def)
  ultimately show ?thesis
    using Some found k(3) by (simp add: leavePending_def) blast
qed

text \<open>\<open>remove\<close> and \<open>dequeueBySocketId\<close>: exactly the named participant leaves.\<close>

definition left_only :: "(nat \<Rightarrow> string) \<Rightarrow> string \<Rightarrow> 'w pool \<Rightarrow> 'w pool \<Rightarrow> bool" where
  "left_only uuid i s s' \<longleftrightarrow> good_step uuid {#} s s' \<and>
     mset (everyone s') = filter_mset (\<lambda>p. part_id p \<noteq> i) (mset (everyone s))"

lemma left_one:
  assumes "nobody_twice (everyone s)" and "mset (everyone s) = add_mset p (mset (everyone s'))" and "part_id p = i"
  shows "mset (everyone s') = filter_mset (\<lambda>p. part_id p \<noteq> i) (mset (everyone s))"
proof -
  have "nobody_twice (p # everyone s')"
    using assms(1,2) nobody_twice_sub [of "p # everyone s'" "everyone s"] by simp
  then have "filter (\<lambda>q. part_id q \<noteq> part_id p) (everyone s') = everyone s'"
    by (intro filter_key_other) (simp add: nobody_twice_def)
  from arg_cong [OF this, of mset]
  have "filter_mset (\<lambda>q. part_id q \<noteq> i) (mset (everyone s')) = mset (everyone s')"
    by (simp add: assms(3))
  then show ?thesis
    by (simp add: assms(2,3))
qed

lemma nobody_left:
  assumes "i \<notin> part_id ` set (everyone s)"
  shows "filter_mset (\<lambda>p. part_id p \<noteq> i) (mset (everyone s)) = mset (everyone s)"
  using filter_key_other [OF assms] by (metis mset_filter)

lemma leave_ok:
  assumes inv: "pool_inv uuid s"
  shows "\<exists>b s'. (case removeByIdAndLog now o1 i s of
        (True, s') \<Rightarrow> Inr (True, s') | (False, s') \<Rightarrow> leavePending now i o2 s') = Inr (b, s') \<and>
      left_only uuid i s s' \<and> (b \<longleftrightarrow> i \<in> part_id ` set (everyone s))"
proof -
  note twice = pool_invD(3) [OF inv]
  from removeByIdAndLog_cases [OF inv, of i now o1] show ?thesis
  proof
    assume "\<exists>p \<in> set (waiting (pool_store s)). part_id p = i \<and>
        removeByIdAndLog now o1 i s = (True, snd (removeAndLog now o1 p s))"
    then obtain p where p: "p \<in> set (waiting (pool_store s))" "part_id p = i"
        "removeByIdAndLog now o1 i s = (True, snd (removeAndLog now o1 p s))"
      by blast
    then have "i \<in> part_id ` set (everyone s)"
      by (auto simp: everyone_def)
    moreover have "left_only uuid i s (snd (removeAndLog now o1 p s))"
      using removeAndLog_known [OF inv p(1), of now o1]
        left_one [OF twice _ p(2), of "snd (removeAndLog now o1 p s)"]
      unfolding left_only_def good_step_def by blast
    ultimately show ?thesis
      using p(3) by (intro exI [of _ True] exI) simp
  next
    assume out: "i \<notin> part_id ` set (waiting (pool_store s)) \<and> removeByIdAndLog now o1 i s = (False, s)"
    obtain b s' where s': "leavePending now i o2 s = Inr (b, s')" "good_step uuid {#} s s'"
        "b \<longleftrightarrow> i \<in> part_id ` set (held_in (pending s))"
        "b \<longrightarrow> (\<exists>p. part_id p = i \<and> mset (everyone s) = add_mset p (mset (everyone s')))" "\<not> b \<longrightarrow> s' = s"
      using leavePending_ok [OF inv, of now i o2] by blast
    have b: "b \<longleftrightarrow> i \<in> part_id ` set (everyone s)"
      using s'(3) out by (auto simp: everyone_def)
    have "mset (everyone s') = filter_mset (\<lambda>p. part_id p \<noteq> i) (mset (everyone s))"
    proof (cases b)
      case True
      then show ?thesis
        using s'(4) left_one [OF twice] by blast
    next
      case False
      then show ?thesis
        using s'(5) b nobody_left [of i s] by simp
    qed
    then show ?thesis
      using out s'(1,2) b by (simp add: left_only_def)
  qed
qed

lemma dequeue_ok:
  "pool_inv uuid s \<Longrightarrow> \<exists>b s'. dequeueBySocketId now i s = Inr (b, s') \<and> left_only uuid i s s' \<and>
     (b \<longleftrightarrow> i \<in> part_id ` set (everyone s))"
  unfolding dequeueBySocketId_def by (rule leave_ok)

text \<open>The shape \<open>remove\<close> and a late decline share.\<close>

lemma leave_quietly_ok:
  assumes "pool_inv uuid s"
  shows "\<exists>s'. (case removeByIdAndLog now oc i s of
      (True, s2) \<Rightarrow> Inr s2
    | (False, s2) \<Rightarrow> sum_bind (leavePending now i oc s2) (\<lambda>(_, s3). Inr s3)) = Inr s' \<and> left_only uuid i s s'"
proof -
  from leave_ok [OF assms, where now = now and i = i and ?o1.0 = oc and ?o2.0 = oc]
  obtain b s' where s': "(case removeByIdAndLog now oc i s of
        (True, s') \<Rightarrow> Inr (True, s') | (False, s') \<Rightarrow> leavePending now i oc s') = Inr (b, s')"
      "left_only uuid i s s'"
    by blast
  then have "(case removeByIdAndLog now oc i s of
      (True, s2) \<Rightarrow> Inr s2
    | (False, s2) \<Rightarrow> sum_bind (leavePending now i oc s2) (\<lambda>(_, s3). Inr s3)) = Inr s'"
    by (cases "removeByIdAndLog now oc i s"; cases "fst (removeByIdAndLog now oc i s)") simp_all
  then show ?thesis
    using s'(2) by blast
qed

lemma remove_ok: "pool_inv uuid s \<Longrightarrow> \<exists>s'. pool_remove now i s = Inr s' \<and> left_only uuid i s s'"
  unfolding pool_remove_def by (rule leave_quietly_ok)

lemma left_only_emit: "exit_of e = [] \<Longrightarrow> left_only uuid i s s' \<Longrightarrow> left_only uuid i s (emit e s')"
  by (simp add: left_only_def good_step_emit)

lemma findLivePending_Some:
  assumes "pool_inv uuid s" and "findLivePending now mid pid s = Some pm"
  shows "(mid, pm) \<in> set (pending s) \<and> match_id (pm_match pm) = mid \<and> now < deadline pm \<and>
    (\<exists>p \<in> set (participants (pm_match pm)). part_id p = pid \<and>
       find (\<lambda>p. part_id p = pid) (participants (pm_match pm)) = Some p)"
proof -
  have look: "map_get (pending s) mid = Some pm" and live: "now < deadline pm"
    and member: "list_ex (\<lambda>p. part_id p = pid) (participants (pm_match pm))"
    using assms(2) by (auto simp: findLivePending_def split: option.splits if_splits)
  have "find (\<lambda>p. part_id p = pid) (participants (pm_match pm)) \<noteq> None"
    using member by (auto simp: find_None_iff list_ex_iff)
  then obtain p where p: "find (\<lambda>p. part_id p = pid) (participants (pm_match pm)) = Some p"
    by auto
  have "match_id (pm_match pm) = mid"
    using book_ok_look [OF pool_invD(2) [OF assms(1)] map_of_mem [OF look]] by simp
  then show ?thesis
    using map_of_mem [OF look] live p find_SomeD [OF p] by blast
qed

lemma same_pool_left:
  assumes "pool_store s1 = pool_store s" and "pending s1 = pending s" and "drawn s1 = drawn s"
    and "pool_trace s1 = pool_trace s"
  shows "pool_inv uuid s1 = pool_inv uuid s" "left_only uuid i s1 s' = left_only uuid i s s'"
    "mset (everyone s1) = mset (everyone s)"
  using assms by (simp_all add: pool_inv_def left_only_def good_step_def moves_def everyone_def)

lemma decline_ok:
  assumes inv: "pool_inv uuid s"
  shows "\<exists>oc s'. pool_decline now mid pid s = Inr (oc, s') \<and>
    (oc = DeclinedOutcome \<and> left_only uuid pid s s' \<or>
     oc = UnknownMatchOutcome \<and> good_step uuid {#} s s' \<and> everyone s' = everyone s)"
proof (cases "findLivePending now mid pid s")
  case (Some pm)
  note live = findLivePending_Some [OF inv Some]
  then obtain p where p: "p \<in> set (participants (pm_match pm))" "part_id p = pid"
      "find (\<lambda>p. part_id p = pid) (participants (pm_match pm)) = Some p"
    by blast
  from abandon_ok [OF inv, of mid pm "[p]" now Declined] live p(1) obtain s' where
    s': "abandon now pm [p] Declined s = Inr s'" "good_step uuid {#} s s'" "mset (everyone s) = add_mset p (mset (everyone s'))"
    by (auto simp: good_step_def)
  then have "left_only uuid pid s s'"
    using left_one [OF pool_invD(3) [OF inv] s'(3) p(2)] by (simp add: left_only_def)
  then show ?thesis
    using Some p(3) s'(1) left_only_emit by (fastforce simp: pool_decline_def)
next
  case None
  define s1 where "s1 = (case map_get (requeuedByMatchId s) mid of
      None \<Rightarrow> s
    | Some (ids, until) \<Rightarrow> s\<lparr>requeuedByMatchId := map_put mid (removeAll pid ids, until) (requeuedByMatchId s)\<rparr>)"
  have fields: "pool_store s1 = pool_store s" "pending s1 = pending s" "drawn s1 = drawn s" "pool_trace s1 = pool_trace s"
    by (auto simp: s1_def split: option.splits)
  have inv1: "pool_inv uuid s1"
    using inv same_pool_left(1) [OF fields] by blast
  have step1: "good_step uuid {#} s s1" "everyone s1 = everyone s"
    using inv1 fields by (simp_all add: good_step_def moves_def everyone_def)
  obtain s' where s': "(case removeByIdAndLog now Declined pid s1 of
      (True, s2) \<Rightarrow> Inr s2
    | (False, s2) \<Rightarrow> sum_bind (leavePending now pid Declined s2) (\<lambda>(_, s3). Inr s3)) = Inr s'" "left_only uuid pid s s'"
    using leave_quietly_ok [OF inv1, where now = now and i = pid and oc = Declined] same_pool_left(2) [OF fields]
    by blast
  have run: "pool_decline now mid pid s =
      (if \<not> wasRequeuedFrom now mid pid s then Inr (UnknownMatchOutcome, s)
       else case (case store_get pid (pool_store s1) of Some p \<Rightarrow> Some p
                  | None \<Rightarrow> map_option snd (findByParticipantId pid (pending s1))) of
              None \<Rightarrow> Inr (UnknownMatchOutcome, s1)
            | Some p \<Rightarrow> Inr (DeclinedOutcome, emit (SendClose p DeclinedReason) s'))"
    using None s'(1) by (simp add: pool_decline_def declineAfterRequeue_def Let_def flip: s1_def split: option.splits)
  show ?thesis
    unfolding run using inv step1 left_only_emit [OF _ s'(2)]
    by (auto split: option.splits)
qed

subsection \<open>The sweep of dead participants\<close>

lemma poolKeys_all: "(f, m) \<in> set poolKeys"
  by (cases f; cases m) (simp_all add: poolKeys_def MATCHMAKING_FORMATS_def MATCHMAKING_MODES_def)

lemma remove_waiting:
  assumes "nobody_twice ws" and "p \<in> set ws"
  shows "filter (\<lambda>q. part_id q \<noteq> part_id p) ws = filter (\<lambda>q. q \<noteq> p) ws"
proof (rule filter_cong)
  fix q
  assume "q \<in> set ws"
  then show "(part_id q \<noteq> part_id p) = (q \<noteq> p)"
    using assms by (auto simp: nobody_twice_def distinct_map inj_on_def)
qed simp

lemma sweep_list:
  assumes "pool_inv uuid s" and "distinct ps" and "set ps \<subseteq> set (waiting (pool_store s))"
  shows "let s' = fold (\<lambda>p s. if alive (world s) p now then s else snd (removeAndLog now Expired p s)) ps s in
    good_step uuid {#} s s' \<and> world s' = world s \<and> pending s' = pending s \<and>
    waiting (pool_store s') = filter (\<lambda>p. p \<notin> set ps \<or> alive (world s) p now) (waiting (pool_store s))"
  using assms
proof (induction ps arbitrary: s)
  case Nil
  then show ?case by simp
next
  case (Cons p ps)
  show ?case
  proof (cases "alive (world s) p now")
    case True
    then have "filter (\<lambda>q. q \<notin> set (p # ps) \<or> alive (world s) q now) (waiting (pool_store s)) =
        filter (\<lambda>q. q \<notin> set ps \<or> alive (world s) q now) (waiting (pool_store s))"
      by (intro filter_cong) auto
    then show ?thesis
      using True Cons.IH [of s] Cons.prems by simp
  next
    case False
    let ?s1 = "snd (removeAndLog now Expired p s)"
    have p: "p \<in> set (waiting (pool_store s))"
      using Cons.prems by simp
    note known = removeAndLog_known [OF Cons.prems(1) p, of now Expired]
    have twice: "nobody_twice (waiting (pool_store s))"
      using pool_invD(3) [OF Cons.prems(1)] by (simp add: everyone_def nobody_twice_append)
    have w1: "waiting (pool_store ?s1) = filter (\<lambda>q. q \<noteq> p) (waiting (pool_store s))"
      using known remove_waiting [OF twice p] by simp
    have sub: "set ps \<subseteq> set (waiting (pool_store ?s1))"
      using Cons.prems w1 by auto
    have step: "good_step uuid {#} s ?s1"
      using known by (simp add: good_step_def)
    have keep: "filter (\<lambda>q. q \<notin> set (p # ps) \<or> alive (world s) q now) (waiting (pool_store s)) =
        filter (\<lambda>q. q \<notin> set ps \<or> alive (world s) q now) (waiting (pool_store ?s1))"
      unfolding w1 using False by (auto intro!: filter_cong)
    have "pool_inv uuid ?s1" "distinct ps"
      using known Cons.prems by simp_all
    from Cons.IH [OF this sub] show ?thesis
      unfolding keep using False good_step_trans0 [OF step] by (simp add: Let_def)
  qed
qed

lemma sweep_keys:
  assumes "pool_inv uuid s"
  shows "let s' = fold (\<lambda>(f, m) s. fold (\<lambda>p s. if alive (world s) p now then s else snd (removeAndLog now Expired p s))
      (store_all f m (pool_store s)) s) keys s in
    good_step uuid {#} s s' \<and> world s' = world s \<and> pending s' = pending s \<and>
    waiting (pool_store s') =
      filter (\<lambda>p. (part_format p, part_mode p) \<notin> set keys \<or> alive (world s) p now) (waiting (pool_store s))"
  using assms
proof (induction keys arbitrary: s)
  case Nil
  then show ?case by simp
next
  case (Cons key keys)
  obtain f m where key: "key = (f, m)"
    by (cases key)
  define ps where "ps = store_all f m (pool_store s)"
  define s1 where "s1 = fold (\<lambda>p s. if alive (world s) p now then s else snd (removeAndLog now Expired p s)) ps s"
  have ps: "ps = filter (in_pool f m) (waiting (pool_store s))"
    unfolding ps_def by (rule mem.all_filter [OF pool_invD(1) [OF Cons.prems]])
  have d: "distinct ps"
    using pool_invD(3) [OF Cons.prems] unfolding ps
    by (simp add: everyone_def nobody_twice_append nobody_twice_distinct)
  have "set ps \<subseteq> set (waiting (pool_store s))"
    by (auto simp: ps)
  from sweep_list [OF Cons.prems d this, of alive now]
  have first: "good_step uuid {#} s s1" "world s1 = world s" "pending s1 = pending s"
    "waiting (pool_store s1) = filter (\<lambda>p. p \<notin> set ps \<or> alive (world s) p now) (waiting (pool_store s))"
    unfolding s1_def by (simp_all add: Let_def)
  have w1: "waiting (pool_store s1) =
      filter (\<lambda>p. (part_format p, part_mode p) \<noteq> key \<or> alive (world s) p now) (waiting (pool_store s))"
    unfolding first(4) by (rule filter_cong) (auto simp: ps in_pool_def key)
  have inv1: "pool_inv uuid s1"
    using first(1) by (simp add: good_step_def)
  have keep: "filter (\<lambda>p. (part_format p, part_mode p) \<notin> set (key # keys) \<or> alive (world s) p now) (waiting (pool_store s)) =
      filter (\<lambda>p. (part_format p, part_mode p) \<notin> set keys \<or> alive (world s) p now) (waiting (pool_store s1))"
    unfolding w1 by (auto intro!: filter_cong)
  show ?case
    unfolding keep using Cons.IH [OF inv1] first(2,3) good_step_trans0 [OF first(1)]
    by (simp add: key Let_def flip: ps_def s1_def)
qed

lemma sweepDead_ok:
  assumes "pool_inv uuid s"
  shows "good_step uuid {#} s (sweepDead alive now s) \<and> world (sweepDead alive now s) = world s \<and>
    pending (sweepDead alive now s) = pending s \<and>
    waiting (pool_store (sweepDead alive now s)) = filter (\<lambda>p. alive (world s) p now) (waiting (pool_store s))"
  using sweep_keys [OF assms, of alive now poolKeys] poolKeys_all
  by (simp add: sweepDead_def for_every_def Let_def)

end
