(* ===== verification/PoolTick.thy ===== *)
theory PoolTick
  imports PoolOps
begin

text \<open>
  The rest of the tick: time-outs of pending matches, proposals, hand-over of formed matches to
  the match handler, and the whole tick. The locale \<open>match_handler\<close> states what the pool relies on
  when it calls \<open>matchHandler.handle\<close>: given the participants of a match the pool no longer holds,
  the handler succeeds and may put some of them back, and touches nothing else of the pool.
\<close>

subsection \<open>Time-outs\<close>

definition book_step :: "pending_match \<Rightarrow> 'w pool \<Rightarrow> 'w pool \<Rightarrow> bool" where
  "book_step pm s s' \<longleftrightarrow> pending s' = pending s \<or> pending s' = map_del (match_id (pm_match pm)) (pending s)"

lemma parts_distinct:
  assumes "pool_inv uuid s" and "(k, pm) \<in> set (pending s)"
  shows "nobody_twice (participants (pm_match pm)) \<and> distinct (participants (pm_match pm))"
proof -
  have "mset (participants (pm_match pm)) \<subseteq># mset (everyone s)"
    using held_in_del [OF _ assms(2)] pool_invD(2) [OF assms(1)] by (simp add: book_ok_def everyone_def)
  then have "nobody_twice (participants (pm_match pm))"
    using pool_invD(3) [OF assms(1)] by (rule nobody_twice_sub)
  then show ?thesis
    using nobody_twice_distinct by blast
qed

lemma fold_emit_fields:
  "pool_store (fold (\<lambda>x. emit (f x)) xs s) = pool_store s" "pending (fold (\<lambda>x. emit (f x)) xs s) = pending s"
  "drawn (fold (\<lambda>x. emit (f x)) xs s) = drawn s" "world (fold (\<lambda>x. emit (f x)) xs s) = world s"
  "requeuedByMatchId (fold (\<lambda>x. emit (f x)) xs s) = requeuedByMatchId s"
  by (induction xs arbitrary: s) simp_all

lemma resolve_one_ok:
  assumes inv: "pool_inv uuid s" and pm: "(k, pm) \<in> set (pending s)"
  shows "\<exists>s'. resolve_one alive now pm s = Inr s' \<and> good_step uuid {#} s s' \<and> world s' = world s \<and>
    drawn s' = drawn s \<and>
    (if (\<forall>p \<in> set (participants (pm_match pm)). alive (world s) p now) \<and> now < deadline pm
     then pending s' = pending s else pending s' = map_del k (pending s))"
proof -
  let ?ps = "participants (pm_match pm)"
  let ?dead = "filter (\<lambda>p. \<not> alive (world s) p now) ?ps"
  let ?late = "filter (\<lambda>p. part_id p \<notin> set (accepted pm)) ?ps"
  have d: "distinct ?ps"
    using parts_distinct [OF inv pm] by blast
  show ?thesis
  proof (cases "?dead = []")
    case False
    then show ?thesis
      using abandon_ok [OF inv pm, of ?dead now Expired] d
      by (auto simp: resolve_one_def Let_def good_step_def filter_empty_conv)
  next
    case True
    then have alive: "\<forall>p \<in> set ?ps. alive (world s) p now"
      by (auto simp: filter_empty_conv)
    show ?thesis
    proof (cases "now < deadline pm")
      case True
      then show ?thesis
        using alive inv by (auto simp: resolve_one_def Let_def filter_empty_conv)
    next
      case False
      obtain s1 where s1: "abandon now pm ?late AcceptTimeout s = Inr s1" "pool_inv uuid s1" "moves {#} s s1"
        "pending s1 = map_del k (pending s)" "world s1 = world s" "drawn s1 = drawn s"
        using abandon_ok [OF inv pm, of ?late now AcceptTimeout] d by auto
      let ?s2 = "fold (\<lambda>p. emit (SendClose p AcceptTimeoutReason)) ?late s1"
      have "good_step uuid {#} s ?s2"
        by (rule good_step_emits) (use s1 in \<open>simp_all add: good_step_def\<close>)
      then show ?thesis
        using False \<open>?dead = []\<close> s1 by (simp add: resolve_one_def Let_def fold_emit_fields)
    qed
  qed
qed

text \<open>What is left of the book: the matches whose participants are all alive before their deadline.\<close>

definition unresolved :: "'w liveness \<Rightarrow> 'w \<Rightarrow> int \<Rightarrow> pending_match \<Rightarrow> bool" where
  "unresolved alive w now pm \<longleftrightarrow> (\<forall>p \<in> set (participants (pm_match pm)). alive w p now) \<and> now < deadline pm"

lemma resolve_list:
  assumes "pool_inv uuid s" and "set es \<subseteq> set (pending s)" and "distinct (map fst es)"
  shows "\<exists>s'. fold_e (resolve_one alive now) (map snd es) s = Inr s' \<and> good_step uuid {#} s s' \<and>
    world s' = world s \<and> drawn s' = drawn s \<and>
    pending s' = filter (\<lambda>(k, pm). k \<notin> fst ` set es \<or> unresolved alive (world s) now pm) (pending s)"
  using assms
proof (induction es arbitrary: s)
  case Nil
  then show ?case by simp
next
  case (Cons e es)
  obtain k pm where e: "e = (k, pm)"
    by (cases e)
  have mem: "(k, pm) \<in> set (pending s)"
    using Cons.prems(2) e by simp
  have map_ok: "map_ok (pending s)"
    using pool_invD(2) [OF Cons.prems(1)] by (simp add: book_ok_def)
  have same: "pm' = pm" if "(k, pm') \<in> set (pending s)" for pm'
    using map_ok_mem [OF map_ok that] map_ok_mem [OF map_ok mem] by simp
  obtain s1 where s1: "resolve_one alive now pm s = Inr s1" "good_step uuid {#} s s1" "world s1 = world s"
    "drawn s1 = drawn s"
    "if unresolved alive (world s) now pm then pending s1 = pending s else pending s1 = map_del k (pending s)"
    using resolve_one_ok [OF Cons.prems(1) mem, of alive now] unfolding unresolved_def by blast
  have p1: "pending s1 = filter (\<lambda>(k', pm'). k' \<noteq> k \<or> unresolved alive (world s) now pm') (pending s)"
  proof (cases "unresolved alive (world s) now pm")
    case True
    then have "filter (\<lambda>(k', pm'). k' \<noteq> k \<or> unresolved alive (world s) now pm') (pending s) = pending s"
      using same by (auto simp: filter_id_conv)
    then show ?thesis
      using s1(5) True by simp
  next
    case False
    then have "pending s1 = filter (\<lambda>e. k \<noteq> fst e) (pending s)"
      using s1(5) by (simp add: AList.delete_eq case_prod_beta')
    also have "\<dots> = filter (\<lambda>(k', pm'). k' \<noteq> k \<or> unresolved alive (world s) now pm') (pending s)"
      using same False by (intro filter_cong) auto
    finally show ?thesis .
  qed
  have inv1: "pool_inv uuid s1"
    using s1(2) by (simp add: good_step_def)
  have sub: "set es \<subseteq> set (pending s1)"
    using Cons.prems(2,3) unfolding p1 e by force
  have "distinct (map fst es)"
    using Cons.prems(3) by simp
  from Cons.IH [OF inv1 sub this] obtain s' where s':
    "fold_e (resolve_one alive now) (map snd es) s1 = Inr s'" "good_step uuid {#} s1 s'" "world s' = world s1"
    "drawn s' = drawn s1"
    "pending s' = filter (\<lambda>(k, pm). k \<notin> fst ` set es \<or> unresolved alive (world s1) now pm) (pending s1)"
    by blast
  have "pending s' = filter (\<lambda>(k, pm). k \<notin> fst ` set (e # es) \<or> unresolved alive (world s) now pm) (pending s)"
    unfolding s'(5) p1 s1(3) e by (auto intro!: filter_cong)
  then show ?case
    using s1 s' good_step_trans0 [OF s1(2) s'(2)] by (simp add: e)
qed

lemma resolvePending_ok:
  assumes "pool_inv uuid s"
  shows "\<exists>s'. resolvePending alive now s = Inr s' \<and> good_step uuid {#} s s' \<and> world s' = world s \<and>
    drawn s' = drawn s \<and> pending s' = filter (\<lambda>(k, pm). unresolved alive (world s) now pm) (pending s)"
proof -
  have "filter (\<lambda>(k, pm). k \<notin> fst ` set (pending s) \<or> unresolved alive (world s) now pm) (pending s) =
      filter (\<lambda>(k, pm). unresolved alive (world s) now pm) (pending s)"
    by (rule filter_cong) force+
  moreover have "distinct (map fst (pending s))"
    using pool_invD(2) [OF assms] by (simp add: book_ok_def map_ok_def)
  ultimately show ?thesis
    using resolve_list [OF assms subset_refl, of alive now] by (simp add: resolvePending_def)
qed

lemma forget_ok: "pool_inv uuid s \<Longrightarrow> good_step uuid {#} s (forgetClosedRequeues now s)"
  by (simp add: good_step_def pool_inv_def moves_def forgetClosedRequeues_def everyone_def)

lemma publish_ok: "pool_inv uuid s \<Longrightarrow> good_step uuid {#} s (publishStatus now s)"
proof -
  assume inv: "pool_inv uuid s"
  have "good_step uuid {#} s (fold (\<lambda>p. emit (SendStatus p (now - enqueuedAt p))) ps s')"
    if "good_step uuid {#} s s'" for ps s'
    using that by (intro good_step_emits) simp_all
  then have step: "good_step uuid {#} s ((\<lambda>(f, m) s. fold (\<lambda>p. emit (SendStatus p (now - enqueuedAt p)))
      (store_all f m (pool_store s)) s) key s')" if "good_step uuid {#} s s'" for key s'
    using that by (cases key) simp
  show ?thesis
    unfolding publishStatus_def for_every_def by (rule fold_inv) (use inv step in auto)
qed

subsection \<open>Handing a match over\<close>

locale match_handler =
  fixes uuid :: "nat \<Rightarrow> string" and handle :: "'w match_handling"
  assumes handle_ok: "pool_inv uuid s \<Longrightarrow> nobody_twice (everyone s @ participants m) \<Longrightarrow>
    \<exists>s' ret. handle now m s = Inr s' \<and> mset ret \<subseteq># mset (participants m) \<and>
      good_step uuid (mset ret) s s' \<and> pending s' = pending s \<and> drawn s' = drawn s \<and>
      waiting (pool_store s') = waiting (pool_store s) @ ret"

definition settles :: "(nat \<Rightarrow> string) \<Rightarrow> 'w pool \<Rightarrow> 'w pool \<Rightarrow> bool" where
  "settles uuid s s' \<longleftrightarrow> (\<exists>A. good_step uuid A s s' \<and> set_mset A \<subseteq> set (everyone s))"

lemma settles_step: "good_step uuid {#} s s' \<Longrightarrow> settles uuid s s'"
  unfolding settles_def by (rule exI [of _ "{#}"]) simp

lemma moves_everyone: "moves A s s' \<Longrightarrow> set (everyone s') \<subseteq> set (everyone s) \<union> set_mset A"
proof -
  assume "moves A s s'"
  then obtain t where "mset (everyone s') + mset (exits t) = mset (everyone s) + A"
    by (auto simp: moves_def)
  from arg_cong [OF this, of set_mset] show ?thesis
    by auto
qed

lemma settles_trans: "settles uuid s s' \<Longrightarrow> settles uuid s' s'' \<Longrightarrow> settles uuid s s''"
proof -
  assume "settles uuid s s'" "settles uuid s' s''"
  then obtain A B where A: "good_step uuid A s s'" "set_mset A \<subseteq> set (everyone s)"
    and B: "good_step uuid B s' s''" "set_mset B \<subseteq> set (everyone s')"
    by (auto simp: settles_def)
  have "set_mset B \<subseteq> set (everyone s)"
    using A B(2) moves_everyone [of A s s'] by (auto simp: good_step_def)
  then show ?thesis
    unfolding settles_def using good_step_trans [OF A(1) B(1)] A(2)
    by (intro exI [of _ "A + B"]) simp
qed

lemma settles_inv: "settles uuid s s' \<Longrightarrow> pool_inv uuid s'"
  by (auto simp: settles_def good_step_def)

text \<open>Participants leaving the store for a match, with a log line each or silently.\<close>

lemma take_out_logged:
  assumes "pool_inv uuid s" and "mset ps \<subseteq># mset (waiting (pool_store s))"
  shows "let s' = fold (\<lambda>p s. snd (removeAndLog now oc p s)) ps s in
    good_step uuid {#} s s' \<and> mset (waiting (pool_store s)) = mset (waiting (pool_store s')) + mset ps \<and>
    pending s' = pending s \<and> drawn s' = drawn s \<and> world s' = world s"
  using assms
proof (induction ps arbitrary: s)
  case (Cons p ps)
  let ?s1 = "snd (removeAndLog now oc p s)"
  have p: "p \<in> set (waiting (pool_store s))"
    using set_mset_mono [OF Cons.prems(2)] by simp
  note known = removeAndLog_known [OF Cons.prems(1) p, of now oc]
  have "mset (everyone s) = add_mset p (mset (everyone ?s1))"
    using known by blast
  then have w1: "mset (waiting (pool_store s)) = add_mset p (mset (waiting (pool_store ?s1)))"
    by (simp add: everyone_def)
  then have sub: "mset ps \<subseteq># mset (waiting (pool_store ?s1))"
    using Cons.prems(2) by simp
  have inv1: "pool_inv uuid ?s1" and step: "good_step uuid {#} s ?s1"
    using known by (simp_all add: good_step_def)
  show ?case
    using Cons.IH [OF inv1 sub, unfolded Let_def] w1 good_step_trans0 [OF step]
    by (simp add: Let_def)
qed simp

lemma take_out_silently:
  assumes "store_ok (pool_store s)" and "mset ps \<subseteq># mset (waiting (pool_store s))"
  shows "let s' = fold (\<lambda>p s. s\<lparr>pool_store := snd (store_remove (part_id p) (pool_store s))\<rparr>) ps s in
    store_ok (pool_store s') \<and> mset (waiting (pool_store s)) = mset (waiting (pool_store s')) + mset ps \<and>
    pending s' = pending s \<and> drawn s' = drawn s \<and> pool_trace s' = pool_trace s \<and> world s' = world s"
  using assms
proof (induction ps arbitrary: s)
  case (Cons p ps)
  let ?s1 = "s\<lparr>pool_store := snd (store_remove (part_id p) (pool_store s))\<rparr>"
  have p: "p \<in> set (waiting (pool_store s))"
    using set_mset_mono [OF Cons.prems(2)] by simp
  have w1: "mset (waiting (pool_store s)) = add_mset p (mset (waiting (pool_store ?s1)))"
    and ok1: "store_ok (pool_store ?s1)"
    using mem.remove_mset [OF Cons.prems(1) p] mem.remove_ok [OF Cons.prems(1), of "part_id p"] by simp_all
  then have "mset ps \<subseteq># mset (waiting (pool_store ?s1))"
    using Cons.prems(2) by simp
  from Cons.IH [OF ok1 this] w1 show ?case
    by (simp add: Let_def)
qed simp

definition fresh_match :: "(nat \<Rightarrow> string) \<Rightarrow> match \<Rightarrow> 'w pool \<Rightarrow> bool" where
  "fresh_match uuid m s \<longleftrightarrow> match_id m \<notin> fst ` set (pending s) \<and> match_id m \<in> uuid ` {..<drawn s}"

lemma fold_sends: "fold (\<lambda>p. if c p then emit (f p) else id) ps s = fold (\<lambda>p. emit (f p)) (filter c ps) s"
  by (induction ps arbitrary: s) auto

lemma propose_ok:
  assumes inv: "pool_inv uuid s" and ps: "mset (participants m) \<subseteq># mset (waiting (pool_store s))"
    and fresh: "fresh_match uuid m s"
  shows "good_step uuid {#} s (propose now m s) \<and>
    mset (waiting (pool_store s)) = mset (waiting (pool_store (propose now m s))) + mset (participants m) \<and>
    fst ` set (pending (propose now m s)) = insert (match_id m) (fst ` set (pending s)) \<and>
    drawn (propose now m s) = drawn s"
proof -
  let ?out = "fold (\<lambda>p s. s\<lparr>pool_store := snd (store_remove (part_id p) (pool_store s))\<rparr>) (participants m) s"
  note out = take_out_silently [OF pool_invD(1) [OF inv] ps, unfolded Let_def]
  let ?s2 = "?out\<lparr>pending := pending_add m (now + MATCH_ACCEPT_TIMEOUT_MS) (pending ?out)\<rparr>"
  obtain pm where pm: "pending ?s2 = pending s @ [(match_id m, pm)]" "pm_match pm = m"
    using fresh out by (simp add: pending_add_def fresh_match_def update_fresh)
  have all_same: "mset (everyone ?s2) = mset (everyone s)"
    using out pm by (simp add: everyone_def)
  have "book_ok uuid (drawn ?s2) (pending ?s2)"
    using pool_invD(2) [OF inv] fresh out pm by (auto simp: book_ok_def map_ok_def fresh_match_def)
  moreover have moved: "moves {#} s ?s2"
    using all_same out by (simp add: moves_def)
  ultimately have "good_step uuid {#} s ?s2"
    using pool_inv_moves [OF inv moved] out by (simp add: good_step_def)
  then have "good_step uuid {#} s (propose now m s)"
    unfolding propose_def Let_def fold_sends by (intro good_step_emits good_step_emit) simp_all
  then show ?thesis
    using out pm by (simp add: propose_def Let_def fold_sends fold_emit_fields)
qed

lemma refile:
  assumes "book_ok uuid n book" and "map_get book k = Some pm" and "pm_match pm' = pm_match pm"
  shows "book_ok uuid n (map_put k pm' book) \<and> held_in (map_put k pm' book) = held_in book"
proof -
  have held: "map_get es k = Some pm \<Longrightarrow> held_in (map_put k pm' es) = held_in es" for es
    using assms(3) by (induction es) auto
  have keyed: "map_get es k = Some pm \<Longrightarrow> (j, q) \<in> set (map_put k pm' es) \<Longrightarrow> (j, q) \<in> set es \<or> j = k \<and> q = pm'"
    for es :: "(string, pending_match) js_map" and j q
    by (induction es) (auto split: if_splits)
  have "k = match_id (pm_match pm)" "k \<in> uuid ` {..<n}"
    using assms(1) map_of_mem [OF assms(2)] by (auto simp: book_ok_def)
  then have "book_ok uuid n (map_put k pm' book)"
    using assms(1,3) keyed [OF assms(2)] by (fastforce simp: book_ok_def)
  then show ?thesis
    using held [OF assms(2)] by blast
qed

lemma fold_log: "pool_trace (fold (logExit now oc) ps s) = pool_trace s @ map (\<lambda>p. Exit p oc (now - enqueuedAt p)) ps"
  by (induction ps arbitrary: s) simp_all

lemma exits_map: "exits (map (\<lambda>p. Exit p oc (now - enqueuedAt p)) ps) = ps"
  by (induction ps) simp_all

context match_handler
begin

lemma call_ok:
  assumes inv: "pool_inv uuid s" and twice: "nobody_twice (everyone s @ participants m)"
  shows "\<exists>s' ret. call_handler handle now m s = Inr s' \<and> mset ret \<subseteq># mset (participants m) \<and>
    good_step uuid (mset ret) s s' \<and> pending s' = pending s \<and> drawn s' = drawn s \<and>
    waiting (pool_store s') = waiting (pool_store s) @ ret \<and>
    (\<exists>t. pool_trace s' = pool_trace s @ Handled m # t)"
proof -
  have step: "good_step uuid {#} s (emit (Handled m) s)"
    using inv by (intro good_step_emit) simp_all
  then have "pool_inv uuid (emit (Handled m) s)"
    by (simp add: good_step_def)
  from handle_ok [OF this, of m now] twice obtain s' ret where s':
    "handle now m (emit (Handled m) s) = Inr s'" "mset ret \<subseteq># mset (participants m)"
    "good_step uuid (mset ret) (emit (Handled m) s) s'" "pending s' = pending s" "drawn s' = drawn s"
    "waiting (pool_store s') = waiting (pool_store s) @ ret"
    by auto
  obtain t where "pool_trace s' = pool_trace s @ Handled m # t"
    using s'(3) by (auto simp: good_step_def moves_def)
  moreover have "good_step uuid (mset ret) s s'"
    using good_step_trans [OF step s'(3)] by simp
  ultimately show ?thesis
    unfolding call_handler_def using s'(1,2,4-6) by (intro exI [of _ s'] exI [of _ ret]) simp
qed

lemma hand_over:
  assumes "good_step uuid {#} s s1" and "mset (everyone s) = mset (everyone s1) + mset (participants m)"
    and "nobody_twice (everyone s)"
  shows "\<exists>s' ret. call_handler handle now m s1 = Inr s' \<and> mset ret \<subseteq># mset (participants m) \<and>
    settles uuid s s' \<and> pending s' = pending s1 \<and> drawn s' = drawn s1 \<and>
    waiting (pool_store s') = waiting (pool_store s1) @ ret \<and>
    (\<exists>t. pool_trace s' = pool_trace s1 @ Handled m # t)"
proof -
  have twice: "nobody_twice (everyone s1 @ participants m)"
    using assms(2,3) nobody_twice_sub [of "everyone s1 @ participants m" "everyone s"] by simp
  have inv1: "pool_inv uuid s1"
    using assms(1) by (simp add: good_step_def)
  from call_ok [OF inv1 twice, of now] obtain s' ret where s': "call_handler handle now m s1 = Inr s'"
    "mset ret \<subseteq># mset (participants m)" "good_step uuid (mset ret) s1 s'" "pending s' = pending s1"
    "drawn s' = drawn s1" "waiting (pool_store s') = waiting (pool_store s1) @ ret"
    "\<exists>t. pool_trace s' = pool_trace s1 @ Handled m # t"
    by (elim exE conjE) blast
  have "set_mset (mset ret) \<subseteq> set (everyone s)"
    using set_mset_mono [OF s'(2)] arg_cong [OF assms(2), of set_mset] by auto
  then have "settles uuid s s'"
    unfolding settles_def using good_step_trans [OF assms(1) s'(3)] by (intro exI [of _ "mset ret"]) simp
  then show ?thesis
    using s' by blast
qed

lemma settle_ok:
  assumes inv: "pool_inv uuid s" and ps: "mset (participants m) \<subseteq># mset (waiting (pool_store s))"
    and fresh: "fresh_match uuid m s"
  shows "\<exists>s'. settle_match handle now m s = Inr s' \<and> settles uuid s s' \<and>
    mset (waiting (pool_store s)) \<subseteq># mset (waiting (pool_store s')) + mset (participants m) \<and>
    fst ` set (pending s') \<subseteq> insert (match_id m) (fst ` set (pending s)) \<and> drawn s' = drawn s"
proof (cases "requiresAcceptStep m")
  case True
  then show ?thesis
    using propose_ok [OF inv ps fresh, of now] settles_step [of uuid s "propose now m s"] by (simp add: settle_match_def)
next
  case False
  define oc where "oc = (if opponentKind m = Bot then MatchedBot else MatchedHuman)"
  define s1 where "s1 = fold (\<lambda>p s. snd (removeAndLog now oc p s)) (participants m) s"
  have out: "good_step uuid {#} s s1" "mset (waiting (pool_store s)) = mset (waiting (pool_store s1)) + mset (participants m)"
    "pending s1 = pending s" "drawn s1 = drawn s"
    using take_out_logged [OF inv ps, of now oc] unfolding s1_def by (simp_all add: Let_def)
  have "mset (everyone s) = mset (everyone s1) + mset (participants m)"
    using out by (simp add: everyone_def)
  from hand_over [OF out(1) this pool_invD(3) [OF inv], of now] obtain s' ret where
    "call_handler handle now m s1 = Inr s'" "settles uuid s s'" "pending s' = pending s1" "drawn s' = drawn s1"
    "waiting (pool_store s') = waiting (pool_store s1) @ ret"
    by blast
  then show ?thesis
    using False out by (auto simp: settle_match_def s1_def oc_def)
qed

lemma settle_all:
  assumes "pool_inv uuid s" and "mset (paired ms) \<subseteq># mset (waiting (pool_store s))"
    and "distinct (map match_id ms)" and "\<forall>m \<in> set ms. fresh_match uuid m s"
  shows "\<exists>s'. fold_e (settle_match handle now) ms s = Inr s' \<and> settles uuid s s'"
  using assms
proof (induction ms arbitrary: s)
  case Nil
  then show ?case
    by (simp add: settles_step)
next
  case (Cons m ms)
  have "mset (participants m) \<subseteq># mset (paired (m # ms))"
    by simp
  then have ps: "mset (participants m) \<subseteq># mset (waiting (pool_store s))"
    using Cons.prems(2) by (rule subset_mset.order_trans)
  obtain s1 where s1: "settle_match handle now m s = Inr s1" "settles uuid s s1"
    "mset (waiting (pool_store s)) \<subseteq># mset (waiting (pool_store s1)) + mset (participants m)"
    "fst ` set (pending s1) \<subseteq> insert (match_id m) (fst ` set (pending s))" "drawn s1 = drawn s"
    using settle_ok [OF Cons.prems(1) ps, of now] Cons.prems(4) by auto
  have "mset (paired (m # ms)) \<subseteq># mset (waiting (pool_store s1)) + mset (participants m)"
    using Cons.prems(2) s1(3) by (rule subset_mset.order_trans)
  then have sub: "mset (paired ms) \<subseteq># mset (waiting (pool_store s1))"
    by (simp add: add.commute [of "mset (participants m)"])
  have fresh: "\<forall>m' \<in> set ms. fresh_match uuid m' s1"
  proof
    fix m'
    assume m': "m' \<in> set ms"
    then have "match_id m' \<noteq> match_id m" "fresh_match uuid m' s"
      using Cons.prems(3,4) by (simp_all add: image_iff) metis
    then have "match_id m' \<notin> insert (match_id m) (fst ` set (pending s))" "match_id m' \<in> uuid ` {..<drawn s}"
      by (simp_all add: fresh_match_def)
    then show "fresh_match uuid m' s1"
      unfolding fresh_match_def s1(5) using subsetD [OF s1(4)] by metis
  qed
  have "distinct (map match_id ms)"
    using Cons.prems(3) by simp
  from Cons.IH [OF settles_inv [OF s1(2)] sub this fresh] obtain s' where
    "fold_e (settle_match handle now) ms s1 = Inr s'" "settles uuid s1 s'"
    by blast
  then show ?case
    using s1(1) settles_trans [OF s1(2)] by auto
qed

lemma accept_live:
  assumes inv: "pool_inv uuid s" and Some: "findLivePending now mid pid s = Some pm"
  defines "all_in \<equiv> \<forall>p \<in> set (participants (pm_match pm)). part_id p = pid \<or> part_id p \<in> set (accepted pm)"
  shows "\<exists>s' t. pool_accept handle now mid pid s = Inr (AcceptedOutcome, s') \<and> settles uuid s s' \<and>
    pool_trace s' = pool_trace s @ t \<and> (Handled (pm_match pm) \<in> set t \<longleftrightarrow> all_in) \<and>
    (map_get (pending s') mid = None \<longleftrightarrow> all_in)"
proof -
  have look: "map_get (pending s) mid = Some pm"
    using Some by (auto simp: findLivePending_def split: option.splits if_splits)
  have key: "(mid, pm) \<in> set (pending s)" "match_id (pm_match pm) = mid"
    using findLivePending_Some [OF inv Some] by auto
  let ?pm = "pm\<lparr>accepted := set_add pid (accepted pm)\<rparr>"
  define s1 where "s1 = emit (LogAccepted mid pid) (s\<lparr>pending := map_put mid ?pm (pending s)\<rparr>)"
  have book: "book_ok uuid (drawn s) (map_put mid ?pm (pending s))" "held_in (map_put mid ?pm (pending s)) = held_in (pending s)"
    using refile [OF pool_invD(2) [OF inv] look, of ?pm] by simp_all
  have "moves {#} s s1" "pool_inv uuid s1"
    using book inv by (simp_all add: s1_def moves_def everyone_def pool_inv_def)
  then have step1: "good_step uuid {#} s s1"
    by (simp add: good_step_def)
  have all_in: "list_all (\<lambda>p. part_id p \<in> set (accepted ?pm)) (participants (pm_match ?pm)) = all_in"
    by (auto simp: all_in_def list_all_iff set_add_def)
  show ?thesis
  proof (cases "list_all (\<lambda>p. part_id p \<in> set (accepted ?pm)) (participants (pm_match ?pm))")
    case False
    have "pool_trace s1 = pool_trace s @ [LogAccepted mid pid]" "map_get (pending s1) mid \<noteq> None"
      by (simp_all add: s1_def AList.update_conv')
    then show ?thesis
      using False Some settles_step [OF step1] all_in by (simp add: pool_accept_def Let_def flip: s1_def)
  next
    case True
    let ?m = "pm_match pm"
    define s2 where "s2 = fold (logExit now MatchedHuman) (participants ?m) (s1\<lparr>pending := map_del mid (pending s1)\<rparr>)"
    have pend: "pending s1 = map_put mid ?pm (pending s)"
      by (simp add: s1_def)
    have mem: "(mid, ?pm) \<in> set (pending s1)"
      unfolding pend by (rule map_of_mem) (simp add: AList.update_conv')
    have ok1: "map_ok (pending s1)"
      using book(1) pend by (simp add: book_ok_def)
    have held: "mset (held_in (pending s1)) = mset (participants ?m) + mset (held_in (map_del mid (pending s1)))"
      using held_in_del [OF ok1 mem] by simp
    have fields: "pool_store s2 = pool_store s1" "pending s2 = map_del mid (pending s1)" "drawn s2 = drawn s1"
      by (simp_all add: s2_def fold_keeps [where g = pool_store] fold_keeps [where g = pending] fold_keeps [where g = drawn])
    have trace: "pool_trace s2 = pool_trace s1 @ map (\<lambda>p. Exit p MatchedHuman (now - enqueuedAt p)) (participants ?m)"
      unfolding s2_def by (simp add: fold_log)
    have count: "mset (everyone s1) = mset (everyone s2) + mset (participants ?m)"
      using held by (simp add: everyone_def fields)
    have out: "moves {#} s1 s2"
      unfolding moves_def using trace count fields(3) by (simp add: exits_map)
    have inv1: "pool_inv uuid s1"
      using step1 by (simp add: good_step_def)
    have "good_step uuid {#} s1 s2"
      using pool_inv_moves [OF inv1 out] out pool_invD [OF inv1] book_ok_del [of uuid "drawn s1" "pending s1" mid]
      by (simp add: good_step_def fields)
    then have "good_step uuid {#} s s2"
      using good_step_trans0 [OF step1] by blast
    from hand_over [OF this _ pool_invD(3) [OF inv], of ?m now] count obtain s' t where
      s': "call_handler handle now ?m s2 = Inr s'" "settles uuid s s'" "pending s' = map_del mid (pending s1)"
      "pool_trace s' = pool_trace s2 @ Handled ?m # t"
      using book(2) by (auto simp: s1_def everyone_def fields)
    have "pool_trace s' = pool_trace s @ LogAccepted mid pid #
        map (\<lambda>p. Exit p MatchedHuman (now - enqueuedAt p)) (participants ?m) @ Handled ?m # t"
      using s'(4) trace by (simp add: s1_def)
    moreover have "map_get (pending s') mid = None"
      by (simp add: s'(3) AList.delete_conv')
    moreover have "pool_accept handle now mid pid s = Inr (AcceptedOutcome, s')"
      using Some True s'(1) by (simp add: pool_accept_def Let_def dispatch_def flip: s1_def s2_def)
    ultimately show ?thesis
      using s'(2) True all_in by auto
  qed
qed

lemma accept_ok:
  assumes "pool_inv uuid s"
  shows "\<exists>oc s'. pool_accept handle now mid pid s = Inr (oc, s') \<and> settles uuid s s'"
proof (cases "findLivePending now mid pid s")
  case None
  then show ?thesis
    using assms settles_step [of uuid s s] by (auto simp: pool_accept_def)
next
  case (Some pm)
  then show ?thesis
    using accept_live [OF assms Some] by blast
qed

end

locale ticking = match_handler uuid handle + pairing_policy uuid pair
  for uuid :: "nat \<Rightarrow> string" and handle :: "'w match_handling" and pair :: pairing
begin

lemma pair_pool_ok:
  assumes inv: "pool_inv uuid s" and uuid: "inj uuid"
  shows "\<exists>s'. pair_pool pair handle now key s = Inr s' \<and> settles uuid s s'"
proof -
  let ?cs = "store_all (fst key) (snd key) (pool_store s)"
  obtain ms n where run: "pair ?cs now (drawn s) = (ms, n)"
    by (cases "pair ?cs now (drawn s)")
  let ?s1 = "s\<lparr>drawn := n\<rparr>"
  have n: "drawn s \<le> n"
    using draws_ids [OF run] by blast
  have step: "good_step uuid {#} s ?s1"
    using inv n book_ok_mono [OF pool_invD(2) [OF inv] n]
    by (simp add: good_step_def pool_inv_def moves_def everyone_def)
  have cs: "?cs = filter (in_pool (fst key) (snd key)) (waiting (pool_store s))"
    by (rule mem.all_filter [OF pool_invD(1) [OF inv]])
  have "mset ?cs \<subseteq># mset (waiting (pool_store s))"
    unfolding cs by (simp add: multiset_filter_subset)
  then have sub: "mset (paired ms) \<subseteq># mset (waiting (pool_store ?s1))"
    using subset_mset.order_trans [OF pairs_candidates [OF run]] by simp
  have ids: "distinct (map match_id ms)" "\<forall>m \<in> set ms. \<exists>i. drawn s \<le> i \<and> i < n \<and> match_id m = uuid i"
    using fresh_ids [OF uuid run] by blast+
  have "fresh_match uuid m ?s1" if "m \<in> set ms" for m
  proof -
    obtain i where i: "drawn s \<le> i" "i < n" "match_id m = uuid i"
      using ids(2) \<open>m \<in> set ms\<close> by blast
    have "fst ` set (pending s) \<subseteq> uuid ` {..<drawn s}"
      using pool_invD(2) [OF inv] by (auto simp: book_ok_def)
    moreover have "uuid i \<notin> uuid ` {..<drawn s}"
      using i(1) uuid by (auto dest: injD)
    ultimately show ?thesis
      using i by (auto simp: fresh_match_def)
  qed
  then obtain s' where "fold_e (settle_match handle now) ms ?s1 = Inr s'" "settles uuid ?s1 s'"
    using settle_all [OF _ sub ids(1), of now] step by (auto simp: good_step_def)
  then show ?thesis
    using run inv settles_trans [OF settles_step [OF step]] settles_step [of uuid s s]
    by (auto simp: pair_pool_def Let_def)
qed

lemma pairAndDispatch_ok:
  assumes "pool_inv uuid s" and "inj uuid"
  shows "\<exists>s'. pairAndDispatch pair handle now s = Inr s' \<and> settles uuid s s'"
  unfolding pairAndDispatch_def
proof (rule fold_e_inv)
  show "settles uuid s s"
    using assms(1) by (simp add: settles_step)
  show "\<exists>s2. pair_pool pair handle now key s1 = Inr s2 \<and> settles uuid s s2" if "settles uuid s s1" for key s1
    using pair_pool_ok [OF settles_inv [OF that] assms(2)] settles_trans [OF that] by blast
qed

lemma tick_ok:
  assumes inv: "pool_inv uuid s" and "inj uuid"
  shows "\<exists>s'. pool_tick alive pair handle now s = Inr s' \<and> settles uuid s s'"
proof -
  have swept: "good_step uuid {#} s (sweepDead alive now s)"
    using sweepDead_ok [OF inv] by blast
  then obtain s1 where s1: "resolvePending alive now (sweepDead alive now s) = Inr s1" "good_step uuid {#} (sweepDead alive now s) s1"
    using resolvePending_ok [of uuid "sweepDead alive now s"] by (auto simp: good_step_def)
  have step1: "good_step uuid {#} s (forgetClosedRequeues now s1)"
    using good_step_trans0 [OF swept good_step_trans0 [OF s1(2) forget_ok]] s1(2) by (simp add: good_step_def)
  then obtain s2 where s2: "pairAndDispatch pair handle now (forgetClosedRequeues now s1) = Inr s2"
    "settles uuid (forgetClosedRequeues now s1) s2"
    using pairAndDispatch_ok [OF _ assms(2)] by (auto simp: good_step_def)
  have "settles uuid s2 (publishStatus now s2)"
    using settles_step publish_ok settles_inv [OF s2(2)] by blast
  then have "settles uuid s (publishStatus now s2)"
    using settles_trans [OF settles_step [OF step1] s2(2)] settles_trans by blast
  then show ?thesis
    using s1(1) s2(1) by (simp add: pool_tick_def)
qed

end

end
