(* ===== verification/MatchHandlers.thy ===== *)
theory MatchHandlers
  imports PoolTick JsStrings "HOL-Library.Sublist"
begin

text \<open>
  The two match handlers the pool is wired with: \<open>ProvisionMatchRoom\<close>
  (\<open>src/ygopro/matchmaking/application/ProvisionMatchRoom.ts\<close>) and \<open>LegacyRoomMatchHandler\<close>
  (\<open>MatchmakingQueue.ts\<close>), the names and passwords of matchmaking rooms
  (\<open>MatchmakingRoomFactory.ts\<close>), and the interpretation of the pool's contracts on them. The
  ports they call are arguments: \<open>create\<close> gives the room's id and join string, or \<open>None\<close> when it
  throws; \<open>spawn\<close> says whether the windbot call returned; \<open>deliver\<close> is the effect of
  \<open>channel.found\<close> on the world (it fills the poll record of a poll participant).
\<close>

type_synonym 'w room_creator = "match \<Rightarrow> 'w \<Rightarrow> (nat \<times> string) option \<times> 'w"
type_synonym 'w bot_spawner = "nat \<Rightarrow> mm_format \<Rightarrow> 'w \<Rightarrow> bool \<times> 'w"
type_synonym 'w delivery = "participant \<Rightarrow> found_notice \<Rightarrow> 'w \<Rightarrow> 'w"

definition re_add :: "int \<Rightarrow> participant list \<Rightarrow> 'w pool \<Rightarrow> pool_error + 'w pool" where
  "re_add now ps s = fold_e (\<lambda>p s. sum_bind (pool_add now p s) (\<lambda>(_, s'). Inr s')) ps s"

definition send_found :: "'w delivery \<Rightarrow> participant \<Rightarrow> found_notice \<Rightarrow> 'w pool \<Rightarrow> 'w pool" where
  "send_found deliver p n s = emit (SendFound p n) (s\<lparr>world := deliver p n (world s)\<rparr>)"

definition notice :: "match \<Rightarrow> nat \<times> string \<Rightarrow> opponent_type \<Rightarrow> bool \<Rightarrow> string option \<Rightarrow> found_notice" where
  "notice m room kind rtd opponent = \<lparr>fn_matchId = match_id m, fn_roomId = fst room, fn_roomPassword = snd room,
     fn_opponentType = kind, fn_rated = rtd, fn_opponentName = opponent\<rparr>"

definition opponent_of :: "match \<Rightarrow> participant \<Rightarrow> participant option" where
  "opponent_of m p = find (\<lambda>c. part_id c \<noteq> part_id p) (participants m)"

subsection \<open>ProvisionMatchRoom\<close>

definition missing_info :: "match \<Rightarrow> participant list" where
  "missing_info m = filter (\<lambda>p. presence p = Socket \<and> admission p = None) (participants m)"

definition rejectMissingPlayerInfo :: "int \<Rightarrow> match \<Rightarrow> participant list \<Rightarrow> 'w pool \<Rightarrow> pool_error + 'w pool" where
  "rejectMissingPlayerInfo now m missing s =
     sum_bind
       (re_add now (filter (\<lambda>p. p \<notin> set missing) (participants m))
          (fold (\<lambda>p. emit (SendClose p MissingPlayerInfo)) missing s))
       (\<lambda>s'. Inr (emit (LogFailure (match_id m)) s'))"

text \<open>\<open>None\<close> when the room creation or the spawn throws; the effects until then stay.\<close>

definition provisionRoom ::
  "'w room_creator \<Rightarrow> 'w bot_spawner \<Rightarrow> 'w delivery \<Rightarrow> match \<Rightarrow> 'w pool \<Rightarrow> bool \<times> 'w pool" where
  "provisionRoom create spawn deliver m s =
     (case create m (world s) of
        (None, w) \<Rightarrow> (False, s\<lparr>world := w\<rparr>)
      | (Some room, w) \<Rightarrow>
          (let s1 = fold (\<lambda>p. send_found deliver p
                       (notice m room (opponentKind m) (rated m)
                          (case opponent_of m p of None \<Rightarrow> None | Some q \<Rightarrow> displayName q)))
                     (participants m) (s\<lparr>world := w\<rparr>);
               s2 = fold (\<lambda>p. case admission p of None \<Rightarrow> id | Some a \<Rightarrow> emit (Admitted p a)) (participants m) s1
           in if opponentKind m = Bot
              then (case spawn (fst room) (match_format m) (world s2) of (ok, w2) \<Rightarrow> (ok, s2\<lparr>world := w2\<rparr>))
              else (True, s2)))"

definition provision_handle ::
  "'w room_creator \<Rightarrow> 'w bot_spawner \<Rightarrow> 'w delivery \<Rightarrow> 'w match_handling" where
  "provision_handle create spawn deliver now m s =
     (let missing = missing_info m in
      if missing \<noteq> [] then rejectMissingPlayerInfo now m missing s
      else case provisionRoom create spawn deliver m s of
             (True, s') \<Rightarrow> Inr s'
           | (False, s') \<Rightarrow> re_add now (participants m) (emit (LogFailure (match_id m)) s'))"

subsection \<open>LegacyRoomMatchHandler\<close>

text \<open>Destructuring a participant list of another length makes the property access throw, inside
  the \<open>try\<close>.\<close>

definition handleHumanMatch :: "'w room_creator \<Rightarrow> 'w delivery \<Rightarrow> match \<Rightarrow> 'w pool \<Rightarrow> bool \<times> 'w pool" where
  "handleHumanMatch create deliver m s =
     (case participants m of
        a # b # _ \<Rightarrow>
          (case create m (world s) of
             (None, w) \<Rightarrow> (False, s\<lparr>world := w\<rparr>)
           | (Some room, w) \<Rightarrow>
               (True, send_found deliver b (notice m room Human True (displayName a))
                        (send_found deliver a (notice m room Human True (displayName b)) (s\<lparr>world := w\<rparr>))))
      | _ \<Rightarrow> (False, s))"

definition handleBotMatch ::
  "'w room_creator \<Rightarrow> 'w bot_spawner \<Rightarrow> 'w delivery \<Rightarrow> match \<Rightarrow> 'w pool \<Rightarrow> bool \<times> 'w pool" where
  "handleBotMatch create spawn deliver m s =
     (case participants m of
        p # _ \<Rightarrow>
          (case create m (world s) of
             (None, w) \<Rightarrow> (False, s\<lparr>world := w\<rparr>)
           | (Some room, w) \<Rightarrow>
               (let s1 = send_found deliver p (notice m room Bot False None) (s\<lparr>world := w\<rparr>)
                in case spawn (fst room) (match_format m) (world s1) of (ok, w2) \<Rightarrow> (ok, s1\<lparr>world := w2\<rparr>)))
      | [] \<Rightarrow> (False, s))"

definition legacy_handle ::
  "'w room_creator \<Rightarrow> 'w bot_spawner \<Rightarrow> 'w delivery \<Rightarrow> 'w match_handling" where
  "legacy_handle create spawn deliver now m s =
     (case (if opponentKind m = Bot then handleBotMatch create spawn deliver m s
            else handleHumanMatch create deliver m s) of
        (True, s') \<Rightarrow> Inr s'
      | (False, s') \<Rightarrow> re_add now (participants m) s')"

subsection \<open>They keep the pool's contract\<close>

text \<open>Steps that leave the pool's own data alone and log nobody out.\<close>

definition quiet :: "'w pool \<Rightarrow> 'w pool \<Rightarrow> bool" where
  "quiet s s' \<longleftrightarrow> pool_store s' = pool_store s \<and> pending s' = pending s \<and> drawn s' = drawn s \<and>
     (\<exists>t. pool_trace s' = pool_trace s @ t \<and> exits t = [])"

lemma quiet_refl [simp]: "quiet s s"
  by (simp add: quiet_def)

lemma quiet_trans: "quiet s s' \<Longrightarrow> quiet s' s'' \<Longrightarrow> quiet s s''"
  by (auto simp: quiet_def)

lemma quiet_emit: "exit_of e = [] \<Longrightarrow> quiet s (emit e s)"
  by (simp add: quiet_def)

lemma quiet_world: "quiet s (s\<lparr>world := w\<rparr>)"
  by (simp add: quiet_def)

lemma quiet_fold: "(\<And>x s. quiet s (f x s)) \<Longrightarrow> quiet s (fold f xs s)"
  by (induction xs arbitrary: s) (simp, metis fold_simps(2) quiet_trans)

lemma quiet_found: "quiet s (send_found deliver p n s)"
  unfolding send_found_def by (rule quiet_trans [OF quiet_world quiet_emit]) simp

lemma quiet_good: "quiet s s' \<Longrightarrow> pool_inv uuid s \<Longrightarrow> good_step uuid {#} s s' \<and> everyone s' = everyone s"
  by (auto simp: quiet_def good_step_def pool_inv_def moves_def everyone_def)

lemma re_add_ok:
  assumes "pool_inv uuid s" and "nobody_twice (everyone s @ ps)"
  shows "\<exists>s'. re_add now ps s = Inr s' \<and> good_step uuid (mset ps) s s' \<and> pending s' = pending s \<and>
    drawn s' = drawn s \<and> waiting (pool_store s') = waiting (pool_store s) @ ps"
  using assms unfolding re_add_def
proof (induction ps arbitrary: s)
  case (Cons p ps)
  have fresh: "fresh_in p s"
    using Cons.prems(2) by (auto simp: fresh_in_def nobody_twice_def)
  note entered = pool_add_new [OF Cons.prems(1) fresh, of now] enter_fresh [OF Cons.prems(1) fresh]
  have "mset (everyone (enter p s) @ ps) = mset (everyone s @ p # ps)"
    using entered by (simp add: everyone_def)
  then have "nobody_twice (everyone (enter p s) @ ps)"
    using Cons.prems(2) nobody_twice_sub [of "everyone (enter p s) @ ps" "everyone s @ p # ps"] by simp
  from Cons.IH [OF _ this] entered obtain s' where
    "fold_e (\<lambda>p s. sum_bind (pool_add now p s) (\<lambda>(_, s'). Inr s')) ps (enter p s) = Inr s'"
    "good_step uuid (mset ps) (enter p s) s'" "pending s' = pending s" "drawn s' = drawn s"
    "waiting (pool_store s') = waiting (pool_store s) @ p # ps"
    by auto
  then show ?case
    using entered good_step_trans [of uuid "{#p#}" s "enter p s" "mset ps" s'] by simp
qed simp

lemma quiet_then_re_add:
  assumes inv: "pool_inv uuid s" and q: "quiet s s1" and twice: "nobody_twice (everyone s @ ps)"
  shows "\<exists>s'. re_add now ps s1 = Inr s' \<and> good_step uuid (mset ps) s s' \<and> pending s' = pending s \<and>
    drawn s' = drawn s \<and> waiting (pool_store s') = waiting (pool_store s) @ ps"
proof -
  have step: "good_step uuid {#} s s1" "everyone s1 = everyone s"
    using quiet_good [OF q inv] by auto
  then have "pool_inv uuid s1"
    by (simp add: good_step_def)
  from re_add_ok [OF this, of ps now] twice step(2) obtain s' where
    "re_add now ps s1 = Inr s'" "good_step uuid (mset ps) s1 s'" "pending s' = pending s1"
    "drawn s' = drawn s1" "waiting (pool_store s') = waiting (pool_store s1) @ ps"
    by auto
  then show ?thesis
    using good_step_trans [OF step(1)] q by (fastforce simp: quiet_def)
qed

text \<open>A handler that is quiet and then puts back some of the participants.\<close>

lemma handler_from_parts:
  assumes "\<And>now m s. \<exists>s1 ps. quiet s s1 \<and> mset ps \<subseteq># mset (participants m) \<and>
      (\<forall>s'. re_add now ps s1 = Inr s' \<longrightarrow> (\<exists>s''. handle now m s = Inr s'' \<and> quiet s' s''))"
  shows "match_handler uuid handle"
proof unfold_locales
  fix s :: "'a pool" and m :: match and now
  assume inv: "pool_inv uuid s" and twice: "nobody_twice (everyone s @ participants m)"
  obtain s1 ps where q: "quiet s s1" and ps: "mset ps \<subseteq># mset (participants m)"
    and run: "\<forall>s'. re_add now ps s1 = Inr s' \<longrightarrow> (\<exists>s''. handle now m s = Inr s'' \<and> quiet s' s'')"
    using assms by blast
  note sub = ps
  then have "nobody_twice (everyone s @ ps)"
    using twice by (intro nobody_twice_sub [of "everyone s @ ps" "everyone s @ participants m"]) simp_all
  from quiet_then_re_add [OF inv q this, of now] obtain s' where s':
    "re_add now ps s1 = Inr s'" "good_step uuid (mset ps) s s'" "pending s' = pending s" "drawn s' = drawn s"
    "waiting (pool_store s') = waiting (pool_store s) @ ps"
    by blast
  then obtain s'' where s'': "handle now m s = Inr s''" "quiet s' s''"
    using run by blast
  have "good_step uuid {#} s' s''"
    using quiet_good [OF s''(2)] s'(2) by (auto simp: good_step_def)
  then have "good_step uuid (mset ps) s s''"
    using good_step_trans [OF s'(2)] by fastforce
  then show "\<exists>s' ret. handle now m s = Inr s' \<and> mset ret \<subseteq># mset (participants m) \<and>
      good_step uuid (mset ret) s s' \<and> pending s' = pending s \<and> drawn s' = drawn s \<and>
      waiting (pool_store s') = waiting (pool_store s) @ ret"
    using s'' s'(3-5) sub by (fastforce simp: quiet_def)
qed

lemma re_add_nothing: "re_add now [] s = Inr s"
  by (simp add: re_add_def)

lemma quiet_provisionRoom: "quiet s (snd (provisionRoom create spawn deliver m s))"
proof -
  have found: "quiet s (fold (\<lambda>p. send_found deliver p (f p)) ps s)" for f ps s
    by (rule quiet_fold) (rule quiet_found)
  have admit: "quiet s (fold (\<lambda>p. case admission p of None \<Rightarrow> id | Some a \<Rightarrow> emit (Admitted p a)) ps s)" for ps s
    by (rule quiet_fold) (simp add: quiet_emit split: option.splits)
  obtain ro w where c: "create m (world s) = (ro, w)"
    by (cases "create m (world s)")
  show ?thesis
  proof (cases ro)
    case None
    then show ?thesis
      by (simp add: provisionRoom_def c quiet_world)
  next
    case (Some room)
    define s2 where "s2 = fold (\<lambda>p. case admission p of None \<Rightarrow> id | Some a \<Rightarrow> emit (Admitted p a)) (participants m)
      (fold (\<lambda>p. send_found deliver p (notice m room (opponentKind m) (rated m)
          (case opponent_of m p of None \<Rightarrow> None | Some q \<Rightarrow> displayName q))) (participants m) (s\<lparr>world := w\<rparr>))"
    obtain ok w2 where sp: "spawn (fst room) (match_format m) (world s2) = (ok, w2)"
      by (cases "spawn (fst room) (match_format m) (world s2)")
    have q: "quiet s s2"
      unfolding s2_def by (rule quiet_trans [OF quiet_world quiet_trans [OF found admit]])
    have "snd (provisionRoom create spawn deliver m s) = (if opponentKind m = Bot then s2\<lparr>world := w2\<rparr> else s2)"
      unfolding provisionRoom_def c Some prod.case option.case Let_def s2_def [symmetric] sp by simp
    then show ?thesis
      using q quiet_trans [OF q quiet_world] by simp
  qed
qed

lemma provision_handler: "match_handler uuid (provision_handle create spawn deliver)"
proof (rule handler_from_parts)
  fix now m and s :: "'a pool"
  let ?h = "provision_handle create spawn deliver now m s"
  let ?missing = "missing_info m"
  show "\<exists>s1 ps. quiet s s1 \<and> mset ps \<subseteq># mset (participants m) \<and>
      (\<forall>s'. re_add now ps s1 = Inr s' \<longrightarrow> (\<exists>s''. ?h = Inr s'' \<and> quiet s' s''))"
  proof (cases "?missing = []")
    case False
    have "quiet s (fold (\<lambda>p. emit (SendClose p MissingPlayerInfo)) ?missing s)"
      by (rule quiet_fold) (simp add: quiet_emit)
    moreover have "mset (filter (\<lambda>p. p \<notin> set ?missing) (participants m)) \<subseteq># mset (participants m)"
      by simp
    moreover have "quiet s' (emit (LogFailure (match_id m)) s')" for s' :: "'a pool"
      by (simp add: quiet_emit)
    ultimately show ?thesis
      using False
      by (intro exI [of _ "fold (\<lambda>p. emit (SendClose p MissingPlayerInfo)) ?missing s"]
          exI [of _ "filter (\<lambda>p. p \<notin> set ?missing) (participants m)"])
        (auto simp: provision_handle_def Let_def rejectMissingPlayerInfo_def)
  next
    case True
    obtain ok s1 where room: "provisionRoom create spawn deliver m s = (ok, s1)"
      by (cases "provisionRoom create spawn deliver m s")
    have q: "quiet s s1"
      using quiet_provisionRoom [of s create spawn deliver m] room by simp
    show ?thesis
    proof (cases ok)
      case True
      then show ?thesis
        using \<open>?missing = []\<close> room q
        by (intro exI [of _ s1] exI [of _ "[]"]) (simp add: provision_handle_def re_add_nothing)
    next
      case False
      have "quiet s (emit (LogFailure (match_id m)) s1)"
        using quiet_trans [OF q quiet_emit] by simp
      then show ?thesis
        using False \<open>?missing = []\<close> room
        by (intro exI [of _ "emit (LogFailure (match_id m)) s1"] exI [of _ "participants m"])
          (simp add: provision_handle_def)
    qed
  qed
qed

lemma quiet_human: "quiet s (snd (handleHumanMatch create deliver m s))"
proof -
  obtain ro w where c: "create m (world s) = (ro, w)"
    by (cases "create m (world s)")
  have "quiet s (send_found deliver b n (send_found deliver a n' (s\<lparr>world := w\<rparr>)))" for a b n n'
    by (rule quiet_trans [OF quiet_world quiet_trans [OF quiet_found quiet_found]])
  then show ?thesis
    by (simp add: handleHumanMatch_def c quiet_world split: list.splits option.splits)
qed

lemma quiet_bot: "quiet s (snd (handleBotMatch create spawn deliver m s))"
proof -
  obtain ro w where c: "create m (world s) = (ro, w)"
    by (cases "create m (world s)")
  have "quiet s (send_found deliver p n (s\<lparr>world := w\<rparr>)\<lparr>world := w2\<rparr>)" for p n w2
    by (rule quiet_trans [OF quiet_trans [OF quiet_world quiet_found] quiet_world])
  then show ?thesis
    by (simp add: handleBotMatch_def c quiet_world Let_def split: list.splits option.splits prod.splits)
qed

lemma legacy_handler: "match_handler uuid (legacy_handle create spawn deliver)"
proof (rule handler_from_parts)
  fix now m and s :: "'a pool"
  define r where "r = (if opponentKind m = Bot then handleBotMatch create spawn deliver m s
      else handleHumanMatch create deliver m s)"
  obtain ok s1 where r: "r = (ok, s1)"
    by (cases r)
  have q: "quiet s s1"
    using quiet_human [of s create deliver m] quiet_bot [of s create spawn deliver m] r
    unfolding r_def by (simp split: if_splits)
  have run: "legacy_handle create spawn deliver now m s = (if ok then Inr s1 else re_add now (participants m) s1)"
    using r by (simp add: legacy_handle_def flip: r_def)
  show "\<exists>s1 ps. quiet s s1 \<and> mset ps \<subseteq># mset (participants m) \<and>
      (\<forall>s'. re_add now ps s1 = Inr s' \<longrightarrow>
        (\<exists>s''. legacy_handle create spawn deliver now m s = Inr s'' \<and> quiet s' s''))"
    by (intro exI [of _ s1] exI [of _ "if ok then [] else participants m"])
      (use q run in \<open>simp add: re_add_nothing\<close>)
qed

interpretation provision: ticking uuid "provision_handle create spawn deliver" "queue_pairing uuid available"
  for uuid create spawn deliver available
  using provision_handler queue.pairing_policy_axioms by (simp add: ticking_def)

interpretation legacy: ticking uuid "legacy_handle create spawn deliver" "queue_pairing uuid available"
  for uuid create spawn deliver available
  using legacy_handler queue.pairing_policy_axioms by (simp add: ticking_def)

end
