(* ===== verification/PoolProps.thy ===== *)
theory PoolProps
  imports MatchHandlers
begin

text \<open>
  The pool as a state machine (\<open>pool_run\<close>): the states reachable from an empty pool by arrivals,
  departures, answers and ticks in any order at any times, while the world outside (sockets,
  polls, rooms) changes freely; and the properties of the pool over its reachable states.
\<close>

definition empty_pool :: "'w \<Rightarrow> 'w pool" where
  "empty_pool w = \<lparr>pool_store = empty_store, pending = [], requeuedByMatchId = [], drawn = 0,
     pool_trace = [], world = w\<rparr>"

inductive pool_run ::
  "(nat \<Rightarrow> string) \<Rightarrow> 'w liveness \<Rightarrow> bool \<Rightarrow> 'w match_handling \<Rightarrow> 'w pool \<Rightarrow> bool"
  for uuid alive available handle where
    run_start: "pool_run uuid alive available handle (empty_pool w)"
  | run_add: "pool_run uuid alive available handle s \<Longrightarrow> id_not_shared p s \<Longrightarrow>
      pool_add now p s = Inr (b, s') \<Longrightarrow> pool_run uuid alive available handle s'"
  | run_remove: "pool_run uuid alive available handle s \<Longrightarrow> pool_remove now i s = Inr s' \<Longrightarrow>
      pool_run uuid alive available handle s'"
  | run_dequeue: "pool_run uuid alive available handle s \<Longrightarrow> dequeueBySocketId now i s = Inr (b, s') \<Longrightarrow>
      pool_run uuid alive available handle s'"
  | run_accept: "pool_run uuid alive available handle s \<Longrightarrow> pool_accept handle now mid i s = Inr (oc, s') \<Longrightarrow>
      pool_run uuid alive available handle s'"
  | run_decline: "pool_run uuid alive available handle s \<Longrightarrow> pool_decline now mid i s = Inr (oc, s') \<Longrightarrow>
      pool_run uuid alive available handle s'"
  | run_tick: "pool_run uuid alive available handle s \<Longrightarrow>
      pool_tick alive (queue_pairing uuid available) handle now s = Inr s' \<Longrightarrow>
      pool_run uuid alive available handle s'"
  | run_world: "pool_run uuid alive available handle s \<Longrightarrow> pool_run uuid alive available handle (s\<lparr>world := w\<rparr>)"

lemma empty_pool_inv: "pool_inv uuid (empty_pool w)"
  using empty_store_ok by (simp add: pool_inv_def empty_pool_def everyone_def nobody_twice_def book_ok_def)

lemma add_keeps_inv:
  assumes "pool_inv uuid s" and "id_not_shared p s" and "pool_add now p s = Inr (b, s')"
  shows "pool_inv uuid s'"
proof (cases "queued_user s (user_id p)")
  case True
  then have sock: "presence p = Socket"
    using pool_add_poll [OF assms(1) True, of now] assms(3) by (cases "presence p") auto
  then show ?thesis
    using pool_add_replaces [OF assms(1) True sock assms(2), of now] assms(3) by (auto simp: good_step_def)
next
  case False
  then have "fresh_in p s"
    using assms(2) by (auto simp: queued_user_def fresh_in_def id_not_shared_def image_iff)
  then show ?thesis
    using pool_add_new [OF assms(1), of p now] assms(3) by (simp add: good_step_def)
qed

lemma run_inv:
  assumes "pool_run uuid alive available handle s" and "ticking uuid handle (queue_pairing uuid available)" and "inj uuid"
  shows "pool_inv uuid s"
  using assms(1)
proof (induction rule: pool_run.induct)
  case (run_start w)
  show ?case by (rule empty_pool_inv)
next
  case (run_add s p now b s')
  then show ?case using add_keeps_inv by blast
next
  case (run_remove s now i s')
  then show ?case
    using remove_ok [of uuid s now i] by (auto simp: left_only_def good_step_def)
next
  case (run_dequeue s now i b s')
  then show ?case
    using dequeue_ok [of uuid s now i] by (auto simp: left_only_def good_step_def)
next
  case (run_accept s now mid i oc s')
  then show ?case
    using match_handler.accept_ok [of uuid handle s now mid i] assms(2) settles_inv
    by (auto simp: ticking_def)
next
  case (run_decline s now mid i oc s')
  then show ?case
    using decline_ok [of uuid s now mid i] by (auto simp: left_only_def good_step_def)
next
  case (run_tick s now s')
  then show ?case
    using ticking.tick_ok [OF assms(2) _ assms(3), of s alive now] settles_inv by fastforce
next
  case (run_world s w)
  then show ?case
    by (simp add: pool_inv_def everyone_def)
qed

lemmas provision_run_inv = run_inv [OF _ provision.ticking_axioms]
lemmas legacy_run_inv = run_inv [OF _ legacy.ticking_axioms]

subsection \<open>Properties\<close>

text \<open>C8. In every reachable state of the pool, whatever happened and in whatever order, no user and
  no participant id is held twice, neither in the store nor across pending matches, and the three
  indexes of the store agree.\<close>

theorem nobody_is_queued_twice:
  assumes "pool_run uuid alive available (provision_handle create spawn deliver) s" and "inj uuid"
  shows "distinct (map user_id (everyone s)) \<and> distinct (map part_id (everyone s)) \<and> store_ok (pool_store s)"
  using provision_run_inv [OF assms] by (simp add: pool_inv_def nobody_twice_def)

definition no_room :: "unit room_creator" where
  "no_room m w = (None, w)"

definition no_bot :: "unit bot_spawner" where
  "no_bot i f w = (True, w)"

definition no_channel :: "unit delivery" where
  "no_channel p n w = w"

definition one_waiting :: "unit pool" where
  "one_waiting = enter (sample_participant ''a'' 5) (empty_pool ())"

lemma one_waiting_run: "pool_run uuid alive available handle one_waiting"
proof (rule run_add [OF run_start])
  show "id_not_shared (sample_participant ''a'' 5) (empty_pool ())"
    by (simp add: id_not_shared_def everyone_def empty_pool_def waiting_def empty_store_def)
  show "pool_add 5 (sample_participant ''a'' 5) (empty_pool ()) = Inr (False, one_waiting)"
    unfolding one_waiting_def
    by (rule pool_add_fresh [OF empty_pool_inv [of sample_uuid]])
      (simp add: fresh_in_def everyone_def empty_pool_def waiting_def empty_store_def)
qed

theorem nobody_is_queued_twice_witness:
  "distinct (map user_id (everyone one_waiting)) \<and> distinct (map part_id (everyone one_waiting)) \<and>
   store_ok (pool_store one_waiting)"
  by (rule nobody_is_queued_twice [OF one_waiting_run [where alive = "\<lambda>_ _ _. True" and available = True
        and handle = "provision_handle no_room no_bot no_channel"] inj_sample_uuid])

text \<open>On a reachable pool an arrival is refused only when it is a poll of a user already queued;
  otherwise the newcomer is in, and the user's previous participant, if any, is out.\<close>

theorem arrival_replaces_or_is_refused:
  assumes "pool_run uuid alive available (provision_handle create spawn deliver) s" and "inj uuid"
    and "id_not_shared p s"
  shows "case pool_add now p s of
      Inl e \<Rightarrow> e = DuplicateQueueEntryError (user_id p) \<and> presence p = Poll \<and> user_id p \<in> user_id ` set (everyone s)
    | Inr (replaced, s') \<Rightarrow>
        (if replaced then \<exists>q \<in> set (everyone s). user_id q = user_id p \<and> mset (everyone s') + {#q#} = mset (everyone s) + {#p#}
         else mset (everyone s') = mset (everyone s) + {#p#})"
proof -
  have inv: "pool_inv uuid s"
    using provision_run_inv [OF assms(1,2)] .
  show ?thesis
  proof (cases "queued_user s (user_id p)")
    case True
    show ?thesis
    proof (cases "presence p")
      case Poll
      then show ?thesis
        using pool_add_poll [OF inv True, of now] True by (simp add: queued_user_def)
    next
      case Socket
      from pool_add_replaces [OF inv True this assms(3), of now] show ?thesis
        by auto
    qed
  next
    case False
    then have "fresh_in p s"
      using assms(3) by (auto simp: queued_user_def fresh_in_def id_not_shared_def image_iff)
    then show ?thesis
      using pool_add_new [OF inv, of p now] enter_fresh [OF inv, of p] by (simp add: everyone_def)
  qed
qed

theorem arrival_replaces_or_is_refused_witness:
  "pool_add 9 (sample_participant ''b'' 9) one_waiting = Inr (False, enter (sample_participant ''b'' 9) one_waiting) \<and>
   mset (everyone (enter (sample_participant ''b'' 9) one_waiting)) =
     mset (everyone one_waiting) + {#sample_participant ''b'' 9#}"
proof -
  have all_now: "everyone one_waiting = [sample_participant ''a'' 5]"
    using enter_fresh [OF empty_pool_inv [of sample_uuid], of "sample_participant ''a'' 5" "()"]
    by (simp add: one_waiting_def everyone_def empty_pool_def fresh_in_def waiting_def empty_store_def)
  have add: "pool_add 9 (sample_participant ''b'' 9) one_waiting = Inr (False, enter (sample_participant ''b'' 9) one_waiting)"
  proof (rule pool_add_fresh)
    show "pool_inv sample_uuid one_waiting"
      by (rule provision_run_inv [OF one_waiting_run [where alive = "\<lambda>_ _ _. True" and available = True
          and handle = "provision_handle no_room no_bot no_channel"] inj_sample_uuid])
    show "fresh_in (sample_participant ''b'' 9) one_waiting"
      by (simp add: fresh_in_def all_now sample_participant_def)
  qed
  show ?thesis
    using arrival_replaces_or_is_refused [OF one_waiting_run [where alive = "\<lambda>_ _ _. True" and available = True
          and handle = "provision_handle no_room no_bot no_channel"] inj_sample_uuid,
        of "sample_participant ''b'' 9" 9] add
    by (simp add: id_not_shared_def all_now sample_participant_def)
qed



text \<open>Declining a live proposal takes the decliner out of the pool, drops the match, and puts the
  other participants back as they were, with their original enqueue time, ready to be paired.\<close>

theorem decline_returns_the_others:
  assumes "pool_run uuid alive available (provision_handle create spawn deliver) s" and "inj uuid"
    and "findLivePending now mid pid s = Some pm"
  shows "\<exists>s'. pool_decline now mid pid s = Inr (DeclinedOutcome, s') \<and>
    waiting (pool_store s') = waiting (pool_store s) @ filter (\<lambda>p. part_id p \<noteq> pid) (participants (pm_match pm)) \<and>
    pid \<notin> part_id ` set (everyone s') \<and> map_get (pending s') mid = None"
proof -
  have inv: "pool_inv uuid s"
    using provision_run_inv [OF assms(1,2)] .
  note live = findLivePending_Some [OF inv assms(3)]
  then obtain p where p: "p \<in> set (participants (pm_match pm))" "part_id p = pid"
      "find (\<lambda>p. part_id p = pid) (participants (pm_match pm)) = Some p"
    by blast
  have mem: "(mid, pm) \<in> set (pending s)"
    using live by blast
  have others: "filter (\<lambda>q. part_id q \<noteq> pid) (participants (pm_match pm)) =
      filter (\<lambda>q. q \<notin> set [p]) (participants (pm_match pm))"
    using remove_waiting [OF conjunct1 [OF parts_distinct [OF inv mem]] p(1)] p(2) by simp
  from abandon_ok [OF inv mem, of "[p]" now Declined] p(1) obtain s' where
    s': "abandon now pm [p] Declined s = Inr s'" "pool_inv uuid s'" "mset (everyone s) = add_mset p (mset (everyone s'))"
      "waiting (pool_store s') = waiting (pool_store s) @ filter (\<lambda>q. q \<notin> set [p]) (participants (pm_match pm))"
      "pending s' = map_del mid (pending s)"
    by auto
  have "mset (everyone s') = filter_mset (\<lambda>p. part_id p \<noteq> pid) (mset (everyone s))"
    by (rule left_one [OF pool_invD(3) [OF inv] s'(3) p(2)])
  from arg_cong [OF this, of set_mset] have "pid \<notin> part_id ` set (everyone s')"
    by auto
  then show ?thesis
    using assms(3) p(3) s'(1,4,5) others by (simp add: pool_decline_def AList.delete_conv')
qed

text \<open>Two participants, both opted into the accept step, whose match was proposed at 10.\<close>

definition opted :: "string \<Rightarrow> int \<Rightarrow> participant" where
  "opted i t = (sample_participant i t)\<lparr>supportsAcceptStep := True\<rparr>"

definition proposal :: match where
  "proposal = human_match sample_uuid 0 (opted ''a'' 1) (opted ''b'' 2)"

definition two_waiting :: "unit pool" where
  "two_waiting = enter (opted ''b'' 2) (enter (opted ''a'' 1) (empty_pool ()))"

lemma two_waiting_run: "pool_run sample_uuid alive available handle two_waiting"
proof -
  let ?s1 = "enter (opted ''a'' 1) (empty_pool ())"
  have f1: "fresh_in (opted ''a'' 1) (empty_pool ())"
    by (simp add: fresh_in_def everyone_def empty_pool_def waiting_def empty_store_def)
  note e1 = enter_fresh [OF empty_pool_inv [of sample_uuid] f1]
  have all1: "everyone ?s1 = [opted ''a'' 1]"
    using e1 by (simp add: everyone_def empty_pool_def waiting_def empty_store_def)
  have f2: "fresh_in (opted ''b'' 2) ?s1"
    unfolding fresh_in_def all1 by (simp add: opted_def sample_participant_def)
  have r1: "pool_run sample_uuid alive available handle ?s1"
  proof (rule run_add [OF run_start])
    show "id_not_shared (opted ''a'' 1) (empty_pool ())"
      using f1 by (auto simp: fresh_in_def id_not_shared_def image_iff)
    show "pool_add 1 (opted ''a'' 1) (empty_pool ()) = Inr (False, ?s1)"
      by (rule pool_add_fresh [OF empty_pool_inv [of sample_uuid] f1])
  qed
  show ?thesis
    unfolding two_waiting_def
  proof (rule run_add [OF r1])
    show "id_not_shared (opted ''b'' 2) ?s1"
      using f2 by (auto simp: fresh_in_def id_not_shared_def image_iff)
    show "pool_add 2 (opted ''b'' 2) ?s1 = Inr (False, enter (opted ''b'' 2) ?s1)"
      using e1 by (intro pool_add_fresh [OF _ f2]) blast
  qed
qed

definition always :: "unit liveness" where
  "always w p now = True"

definition proposed_at_ten :: "unit pool" where
  "proposed_at_ten = (case pool_tick always (queue_pairing sample_uuid True)
      (provision_handle no_room no_bot no_channel) 10 two_waiting of
      Inr s \<Rightarrow> s | Inl _ \<Rightarrow> two_waiting)"

lemma proposed_run: "pool_run sample_uuid always True (provision_handle no_room no_bot no_channel) proposed_at_ten"
  using run_tick [OF two_waiting_run] two_waiting_run unfolding proposed_at_ten_def
  by (auto split: sum.splits)

lemma proposed_live: "findLivePending 15 (sample_uuid 0) ''a'' proposed_at_ten =
    Some \<lparr>pm_match = proposal, deadline = 20010, accepted = []\<rparr>"
  by code_simp

theorem decline_returns_the_others_witness:
  "\<exists>s'. pool_decline 15 (sample_uuid 0) ''a'' proposed_at_ten = Inr (DeclinedOutcome, s') \<and>
    waiting (pool_store s') = waiting (pool_store proposed_at_ten) @ filter (\<lambda>p. part_id p \<noteq> ''a'') (participants proposal) \<and>
    ''a'' \<notin> part_id ` set (everyone s') \<and> map_get (pending s') (sample_uuid 0) = None"
  using decline_returns_the_others [OF proposed_run inj_sample_uuid proposed_live] by simp

text \<open>C10. Accepting a live proposal hands the match to the match handler exactly when every other
  participant had accepted before (those not opted in count as having accepted), and only then does
  the proposal leave the book.\<close>

theorem match_starts_once_everyone_accepted:
  assumes "pool_run uuid alive available (provision_handle create spawn deliver) s" and "inj uuid"
    and "findLivePending now mid pid s = Some pm"
  shows "\<exists>s' t. pool_accept (provision_handle create spawn deliver) now mid pid s = Inr (AcceptedOutcome, s') \<and>
    pool_trace s' = pool_trace s @ t \<and>
    (Handled (pm_match pm) \<in> set t \<longleftrightarrow>
       (\<forall>p \<in> set (participants (pm_match pm)). part_id p = pid \<or> part_id p \<in> set (accepted pm))) \<and>
    (map_get (pending s') mid = None \<longleftrightarrow>
       (\<forall>p \<in> set (participants (pm_match pm)). part_id p = pid \<or> part_id p \<in> set (accepted pm)))"
proof -
  have "\<exists>s' t. pool_accept (provision_handle create spawn deliver) now mid pid s = Inr (AcceptedOutcome, s') \<and>
    settles uuid s s' \<and> pool_trace s' = pool_trace s @ t \<and>
    (Handled (pm_match pm) \<in> set t \<longleftrightarrow>
       (\<forall>p \<in> set (participants (pm_match pm)). part_id p = pid \<or> part_id p \<in> set (accepted pm))) \<and>
    (map_get (pending s') mid = None \<longleftrightarrow>
       (\<forall>p \<in> set (participants (pm_match pm)). part_id p = pid \<or> part_id p \<in> set (accepted pm)))"
    by (rule match_handler.accept_live [OF provision_handler provision_run_inv [OF assms(1,2)] assms(3)])
  then show ?thesis
    by (elim exE conjE) (intro exI conjI, assumption+)
qed

theorem match_starts_once_everyone_accepted_witness:
  "\<exists>s' t. pool_accept (provision_handle no_room no_bot no_channel) 15 (sample_uuid 0) ''a'' proposed_at_ten =
      Inr (AcceptedOutcome, s') \<and>
    pool_trace s' = pool_trace proposed_at_ten @ t \<and> Handled proposal \<notin> set t \<and>
    map_get (pending s') (sample_uuid 0) \<noteq> None"
  using match_starts_once_everyone_accepted [OF proposed_run inj_sample_uuid proposed_live]
  by (auto simp: proposal_def human_match_def opted_def sample_participant_def)

text \<open>The sweep keeps exactly the living among the waiting, in their order, and the time-out step
  keeps exactly the pending matches all of whose participants are alive before the deadline.\<close>

theorem tick_drops_the_dead_and_the_late:
  assumes "pool_run uuid alive available (provision_handle create spawn deliver) s" and "inj uuid"
  shows "waiting (pool_store (sweepDead alive now s)) = filter (\<lambda>p. alive (world s) p now) (waiting (pool_store s)) \<and>
    (\<exists>s'. resolvePending alive now (sweepDead alive now s) = Inr s' \<and>
       pending s' = filter (\<lambda>(k, pm). (\<forall>p \<in> set (participants (pm_match pm)). alive (world s) p now) \<and>
         now < deadline pm) (pending s))"
proof -
  note swept = sweepDead_ok [OF provision_run_inv [OF assms], of alive now]
  then have "pool_inv uuid (sweepDead alive now s)"
    by (simp add: good_step_def)
  from resolvePending_ok [OF this, of alive now] swept show ?thesis
    by (auto simp: unresolved_def)
qed

theorem tick_drops_the_dead_and_the_late_witness:
  "waiting (pool_store (sweepDead (\<lambda>_ p _. part_id p \<noteq> ''a'') 7 one_waiting)) =
     filter (\<lambda>p. part_id p \<noteq> ''a'') (waiting (pool_store one_waiting)) \<and>
   (\<exists>s'. resolvePending (\<lambda>_ p _. part_id p \<noteq> ''a'') 7 (sweepDead (\<lambda>_ p _. part_id p \<noteq> ''a'') 7 one_waiting) = Inr s' \<and>
     pending s' = filter (\<lambda>(k, pm). (\<forall>p \<in> set (participants (pm_match pm)). part_id p \<noteq> ''a'') \<and>
         7 < deadline pm) (pending one_waiting))"
  using tick_drops_the_dead_and_the_late [OF one_waiting_run [where alive = "\<lambda>_ p _. part_id p \<noteq> ''a''"
        and available = True and handle = "provision_handle no_room no_bot no_channel"] inj_sample_uuid, of 7]
  by simp



lemma send_found_trace:
  "pool_trace (fold (\<lambda>p. send_found deliver p (f p)) ps s) = pool_trace s @ map (\<lambda>p. SendFound p (f p)) ps"
  by (induction ps arbitrary: s) (simp_all add: send_found_def)

lemma admit_trace:
  "\<exists>as. pool_trace (fold (\<lambda>p. case admission p of None \<Rightarrow> id | Some a \<Rightarrow> emit (Admitted p a)) ps s) =
     pool_trace s @ as \<and> (\<forall>e \<in> set as. \<exists>p a. e = Admitted p a)"
proof (induction ps arbitrary: s)
  case (Cons p ps)
  obtain as where "pool_trace (fold (\<lambda>p. case admission p of None \<Rightarrow> id | Some a \<Rightarrow> emit (Admitted p a)) ps
      ((case admission p of None \<Rightarrow> id | Some a \<Rightarrow> emit (Admitted p a)) s)) =
    pool_trace ((case admission p of None \<Rightarrow> id | Some a \<Rightarrow> emit (Admitted p a)) s) @ as"
    "\<forall>e \<in> set as. \<exists>p a. e = Admitted p a"
    using Cons.IH by blast
  then show ?case
    by (cases "admission p") auto
qed simp

text \<open>Once a room exists, provisioning tells every participant, in order, that the match is
  found, naming that room, before it admits any of them into the room.\<close>

theorem found_precedes_admission:
  assumes "create m (world s) = (Some room, w)"
  shows "\<exists>fs as. pool_trace (snd (provisionRoom create spawn deliver m s)) = pool_trace s @ fs @ as \<and>
    (\<exists>n. fs = map (\<lambda>p. SendFound p (n p)) (participants m) \<and>
       (\<forall>p. fn_roomId (n p) = fst room \<and> fn_matchId (n p) = match_id m)) \<and>
    (\<forall>e \<in> set as. \<exists>p a. e = Admitted p a)"
proof -
  let ?f = "\<lambda>p. notice m room (opponentKind m) (rated m) (case opponent_of m p of None \<Rightarrow> None | Some q \<Rightarrow> displayName q)"
  define s1 where "s1 = fold (\<lambda>p. send_found deliver p (?f p)) (participants m) (s\<lparr>world := w\<rparr>)"
  define s2 where "s2 = fold (\<lambda>p. case admission p of None \<Rightarrow> id | Some a \<Rightarrow> emit (Admitted p a)) (participants m) s1"
  have t1: "pool_trace s1 = pool_trace s @ map (\<lambda>p. SendFound p (?f p)) (participants m)"
    by (simp add: s1_def send_found_trace)
  obtain as where t2: "pool_trace s2 = pool_trace s1 @ as" "\<forall>e \<in> set as. \<exists>p a. e = Admitted p a"
    using admit_trace [of "participants m" s1] unfolding s2_def by blast
  have "pool_trace (snd (provisionRoom create spawn deliver m s)) = pool_trace s2"
    unfolding provisionRoom_def assms prod.case option.case Let_def s1_def [symmetric] s2_def [symmetric]
    by (simp split: prod.splits)
  then show ?thesis
    using t1 t2
    by (intro exI [of _ "map (\<lambda>p. SendFound p (?f p)) (participants m)"] exI [of _ as] conjI exI [of _ ?f])
      (auto simp: notice_def)
qed

definition room_seven :: "unit room_creator" where
  "room_seven m w = (Some (7, ''mm''), w)"

lemma found_precedes_admission_witness:
  "\<exists>fs as. pool_trace (snd (provisionRoom room_seven no_bot no_channel proposal two_waiting)) =
     pool_trace two_waiting @ fs @ as \<and>
    (\<exists>n. fs = map (\<lambda>p. SendFound p (n p)) (participants proposal) \<and>
       (\<forall>p. fn_roomId (n p) = 7 \<and> fn_matchId (n p) = match_id proposal)) \<and>
    (\<forall>e \<in> set as. \<exists>p a. e = Admitted p a)"
  using found_precedes_admission [of room_seven proposal two_waiting "(7, ''mm'')" "()" no_bot no_channel]
  by (simp add: room_seven_def)

end
