(* ===== verification/Seats.thy ===== *)
theory Seats
  imports Prelude
begin

text \<open>
  The seats of a duel room (\<open>src/shared/room/domain/YgoRoom.ts\<close>): which positions a team owns, the
  place offered to a newcomer, and the cell a seated player moves to. A seated player is here the
  pair of its position and team; the room has \<open>n0\<close> seats for team 0 and \<open>n1\<close> for team 1.
\<close>

type_synonym place = "nat \<times> nat"

definition t0Positions :: "nat \<Rightarrow> nat list" where
  "t0Positions n0 = map (\<lambda>i. i) [0..<n0]"

definition t1Positions :: "nat \<Rightarrow> nat \<Rightarrow> nat list" where
  "t1Positions n0 n1 = map (\<lambda>i. n0 + i) [0..<n1]"

definition getDifference :: "nat list \<Rightarrow> nat list \<Rightarrow> nat list" where
  "getDifference a b = filter (\<lambda>x. x \<notin> set b) a"

definition findNextPosition :: "nat list \<Rightarrow> nat option \<Rightarrow> nat option" where
  "findNextPosition free start =
     (let higher = (case start of None \<Rightarrow> None | Some s \<Rightarrow> find (\<lambda>p. p > s) free)
      in case higher of Some p \<Rightarrow> Some p
         | None \<Rightarrow> if length free > 0 then Some (free ! 0) else None)"

definition positions_of :: "nat \<Rightarrow> place list \<Rightarrow> nat list" where
  "positions_of team seated = map fst (filter (\<lambda>c. snd c = team) seated)"

definition place_in :: "nat list \<Rightarrow> nat \<Rightarrow> place list \<Rightarrow> nat option \<Rightarrow> place option" where
  "place_in owned team seated start =
     (let free = getDifference owned (positions_of team seated)
      in if length free > 0 then map_option (\<lambda>p. (p, team)) (findNextPosition free start) else None)"

definition calculatePlaceUnsafe :: "nat \<Rightarrow> nat \<Rightarrow> place list \<Rightarrow> nat option \<Rightarrow> place option" where
  "calculatePlaceUnsafe n0 n1 seated start =
     (case place_in (t0Positions n0) 0 seated start of
        Some p \<Rightarrow> Some p
      | None \<Rightarrow> place_in (t1Positions n0 n1) 1 seated start)"

definition nextAvailablePosition :: "nat \<Rightarrow> nat \<Rightarrow> place list \<Rightarrow> nat \<Rightarrow> place option" where
  "nextAvailablePosition n0 n1 seated position =
     (let positions = sort (t1Positions n0 n1 @ t0Positions n0);
          difference = getDifference positions (map fst seated);
          nextPositions = filter (\<lambda>p. p > position) difference
      in if length difference = 0 then None
         else if length nextPositions > 0
              then (if find (\<lambda>p. p = nextPositions ! 0) (t0Positions n0) \<noteq> None
                    then Some (nextPositions ! 0, 0) else Some (nextPositions ! 0, 1))
         else if find (\<lambda>p. p = positions ! 0) (t0Positions n0) \<noteq> None
              then Some (difference ! 0, 0) else Some (difference ! 0, 1))"

subsection \<open>What a seating must satisfy\<close>

definition seat_of_team :: "nat \<Rightarrow> nat \<Rightarrow> place \<Rightarrow> bool" where
  "seat_of_team n0 n1 c \<longleftrightarrow> (snd c = 0 \<and> fst c < n0) \<or> (snd c = 1 \<and> n0 \<le> fst c \<and> fst c < n0 + n1)"

definition seats_ok :: "nat \<Rightarrow> nat \<Rightarrow> place list \<Rightarrow> bool" where
  "seats_ok n0 n1 seated \<longleftrightarrow> distinct (map fst seated) \<and> (\<forall>c \<in> set seated. seat_of_team n0 n1 c)"

lemma t0_set [simp]: "set (t0Positions n0) = {..<n0}"
  by (auto simp: t0Positions_def)

lemma t1_set [simp]: "set (t1Positions n0 n1) = {n0..<n0 + n1}"
  unfolding t1Positions_def using image_add_atLeastLessThan [of n0 0 n1] by (simp add: add.commute)

lemma positions_set: "set (positions_of team seated) = {p. (p, team) \<in> set seated}"
  by (force simp: positions_of_def)

lemma difference_nth:
  assumes "getDifference a b \<noteq> []"
  shows "getDifference a b ! 0 \<in> set a" and "getDifference a b ! 0 \<notin> set b"
  using nth_mem [of 0 "getDifference a b"] assms by (auto simp: getDifference_def)

lemma findNextPosition_mem: "free \<noteq> [] \<Longrightarrow> \<exists>p. findNextPosition free start = Some p \<and> p \<in> set free"
  by (auto simp: findNextPosition_def Let_def split: option.splits dest: find_SomeD)

lemma place_in_Some:
  assumes "place_in owned team seated start = Some c"
  shows "snd c = team \<and> fst c \<in> set owned \<and> c \<notin> set seated"
proof -
  let ?free = "getDifference owned (positions_of team seated)"
  have ne: "?free \<noteq> []"
    using assms by (auto simp: place_in_def split: if_splits)
  obtain p where "findNextPosition ?free start = Some p" "p \<in> set ?free"
    using findNextPosition_mem [OF ne] by blast
  then show ?thesis
    using assms ne by (auto simp: place_in_def getDifference_def positions_set)
qed

lemma place_in_None: "place_in owned team seated start = None \<longleftrightarrow> (\<forall>p \<in> set owned. (p, team) \<in> set seated)"
proof -
  let ?free = "getDifference owned (positions_of team seated)"
  have "place_in owned team seated start = None \<longleftrightarrow> ?free = []"
    using findNextPosition_mem [of ?free start] by (cases "?free = []") (auto simp: place_in_def)
  also have "\<dots> \<longleftrightarrow> (\<forall>p \<in> set owned. (p, team) \<in> set seated)"
    by (auto simp: getDifference_def filter_empty_conv positions_set)
  finally show ?thesis .
qed

lemma seat_unique:
  assumes "seats_ok n0 n1 seated" and "seat_of_team n0 n1 (p, t)" and "(p, t) \<notin> set seated"
  shows "p \<notin> fst ` set seated"
proof
  assume "p \<in> fst ` set seated"
  then obtain t' where m: "(p, t') \<in> set seated"
    by force
  then have "seat_of_team n0 n1 (p, t')"
    using assms(1) by (auto simp: seats_ok_def)
  with assms(2) have "t' = t"
    by (auto simp: seat_of_team_def)
  with m assms(3) show False by simp
qed

lemma seats_ok_snoc:
  assumes "seats_ok n0 n1 seated" and "seat_of_team n0 n1 c" and "c \<notin> set seated"
  shows "seats_ok n0 n1 (seated @ [c])"
  using seat_unique [of n0 n1 seated "fst c" "snd c"] assms by (auto simp: seats_ok_def)

lemma calculatePlace_Some:
  assumes "calculatePlaceUnsafe n0 n1 seated start = Some c"
  shows "seat_of_team n0 n1 c" and "c \<notin> set seated"
  using assms place_in_Some [of "t0Positions n0" 0 seated start c]
    place_in_Some [of "t1Positions n0 n1" 1 seated start c]
  by (auto simp: calculatePlaceUnsafe_def seat_of_team_def split: option.splits)

lemma calculatePlace_keeps:
  assumes "seats_ok n0 n1 seated" and "calculatePlaceUnsafe n0 n1 seated start = Some c"
  shows "seats_ok n0 n1 (seated @ [c])"
  using seats_ok_snoc [OF assms(1)] calculatePlace_Some [OF assms(2)] by blast

lemma seats_bound:
  assumes "seats_ok n0 n1 seated"
  shows "set (map fst seated) \<subseteq> {..<n0 + n1}" and "length seated \<le> n0 + n1"
proof -
  show sub: "set (map fst seated) \<subseteq> {..<n0 + n1}"
    using assms by (auto simp: seats_ok_def seat_of_team_def)
  have "length seated = card (set (map fst seated))"
    using assms distinct_card [of "map fst seated"] by (simp add: seats_ok_def)
  with card_mono [OF _ sub] show "length seated \<le> n0 + n1" by simp
qed

lemma calculatePlace_full:
  assumes "seats_ok n0 n1 seated"
  shows "calculatePlaceUnsafe n0 n1 seated start = None \<longleftrightarrow> length seated = n0 + n1"
proof -
  have len: "length seated = card (set (map fst seated))"
    using assms distinct_card [of "map fst seated"] by (simp add: seats_ok_def)
  have "calculatePlaceUnsafe n0 n1 seated start = None \<longleftrightarrow>
      (\<forall>p < n0. (p, 0) \<in> set seated) \<and> (\<forall>p. n0 \<le> p \<and> p < n0 + n1 \<longrightarrow> (p, 1) \<in> set seated)"
    by (auto simp: calculatePlaceUnsafe_def place_in_None split: option.splits dest: place_in_Some)
      (metis place_in_None t0_set lessThan_iff option.distinct(1))+
  also have "\<dots> \<longleftrightarrow> {..<n0 + n1} \<subseteq> set (map fst seated)"
  proof
    assume "(\<forall>p < n0. (p, 0) \<in> set seated) \<and> (\<forall>p. n0 \<le> p \<and> p < n0 + n1 \<longrightarrow> (p, 1) \<in> set seated)"
    then show "{..<n0 + n1} \<subseteq> set (map fst seated)"
      by (auto simp: image_iff) (metis fst_conv not_less)
  next
    assume sub: "{..<n0 + n1} \<subseteq> set (map fst seated)"
    have "\<exists>t. (p, t) \<in> set seated \<and> seat_of_team n0 n1 (p, t)" if "p < n0 + n1" for p
      using subsetD [OF sub, of p] that assms by (force simp: seats_ok_def)
    then show "(\<forall>p < n0. (p, 0) \<in> set seated) \<and> (\<forall>p. n0 \<le> p \<and> p < n0 + n1 \<longrightarrow> (p, 1) \<in> set seated)"
      by (auto simp: seat_of_team_def) (metis not_less trans_less_add1)+
  qed
  also have "\<dots> \<longleftrightarrow> length seated = n0 + n1"
    using seats_bound [OF assms] len card_subset_eq [of "{..<n0 + n1}" "set (map fst seated)"]
    by (metis card_lessThan finite_lessThan subset_antisym subset_refl)
  finally show ?thesis .
qed

subsection \<open>Moving to another cell\<close>

lemma all_positions: "sort (t1Positions n0 n1 @ t0Positions n0) = [0..<n0 + n1]"
proof (rule properties_for_sort)
  have "mset (t1Positions n0 n1) = mset [n0..<n0 + n1]"
    by (simp add: t1Positions_def map_add_upt add.commute)
  then show "mset [0..<n0 + n1] = mset (t1Positions n0 n1 @ t0Positions n0)"
    using upt_add_eq_append [of 0 n0 n1] by (simp add: t0Positions_def)
qed simp

text \<open>The cell offered is free, and its team is right unless the search wrapped around to a seat of
  team 1: then the code still says team 0, because it tests the first of \<^emph>\<open>all\<close> positions.\<close>

lemma nextAvailable_Some:
  assumes "nextAvailablePosition n0 n1 seated position = Some c"
  shows "fst c < n0 + n1" and "fst c \<notin> fst ` set seated"
    and "seat_of_team n0 n1 c \<or> (snd c = 0 \<and> n0 \<le> fst c \<and> (\<forall>p < n0. p \<in> fst ` set seated))"
proof -
  let ?d = "getDifference [0..<n0 + n1] (map fst seated)"
  let ?n = "filter (\<lambda>p. p > position) ?d"
  have d: "?d \<noteq> []"
    using assms by (auto simp: nextAvailablePosition_def all_positions Let_def split: if_splits)
  have free: "?d ! 0 \<in> set ?d"
    using d by simp
  have srt: "sorted ?d"
    by (simp add: getDifference_def sorted_wrt_filter)
  have first: "?d ! 0 \<le> q" if "q \<in> set ?d" for q
    using that srt by (metis in_set_conv_nth le0 sorted_nth_mono)
  have c: "fst c \<in> set ?d \<and> (fst c < n0 \<and> snd c = 0 \<or> n0 \<le> fst c \<and> snd c = 1 \<or>
      fst c = ?d ! 0 \<and> snd c = 0 \<and> 0 < n0)"
  proof (cases "?n = []")
    case True
    then show ?thesis
      using assms d free
      by (auto simp: nextAvailablePosition_def all_positions Let_def find_None_iff split: if_splits)
  next
    case False
    then have "?n ! 0 \<in> set ?n" by (intro nth_mem) simp
    then show ?thesis
      using assms d False
      by (auto simp: nextAvailablePosition_def all_positions Let_def find_None_iff split: if_splits)
  qed
  then show "fst c < n0 + n1" and "fst c \<notin> fst ` set seated"
    by (auto simp: getDifference_def)
  show "seat_of_team n0 n1 c \<or> (snd c = 0 \<and> n0 \<le> fst c \<and> (\<forall>p < n0. p \<in> fst ` set seated))"
  proof (cases "fst c < n0 \<and> snd c = 0 \<or> n0 \<le> fst c \<and> snd c = 1")
    case True
    then show ?thesis
      using c by (auto simp: seat_of_team_def getDifference_def)
  next
    case False
    then have w: "fst c = ?d ! 0" "snd c = 0" "n0 \<le> fst c"
      using c by auto
    have "p \<in> fst ` set seated" if "p < n0" for p
      using first [of p] w(1,3) that by (auto simp: getDifference_def)
    then show ?thesis using w by blast
  qed
qed

end
