(* ===== verification/Admission.thy ===== *)
theory Admission
  imports Seats
begin

text \<open>
  Who may enter a room, and how: the league of a room and its admission rule
  (\<open>src/shared/room/admission/domain\<close>: \<open>RoomLeague.ts\<close>, \<open>PlayerCredential.ts\<close>,
  \<open>RoomAdmission.ts\<close>, \<open>Admission.ts\<close>, \<open>Seat.ts\<close>), the resolution of a credential
  (\<open>src/ygopro/room/admission/application/CredentialResolver.ts\<close>) and the legacy account check
  (\<open>src/shared/user-auth/application/UserAuth.ts\<close>). The user repository and the password
  check are arguments.
\<close>

datatype credential = Verified string | External string | Guest string

datatype room_league = VerifiedLeague | ExternalLeague | CasualLeague

text \<open>The override of the league is \<open>undefined\<close>, \<open>true\<close> or \<open>false\<close>.\<close>

definition league_determine :: "bool \<Rightarrow> bool option \<Rightarrow> bool \<Rightarrow> room_league" where
  "league_determine casual rankedOverride hasPin =
     (if casual then CasualLeague
      else if rankedOverride = Some True then VerifiedLeague
      else if rankedOverride = Some False then CasualLeague
      else if hasPin then ExternalLeague else CasualLeague)"

definition isRanked :: "room_league \<Rightarrow> bool" where
  "isRanked l \<longleftrightarrow> l \<noteq> CasualLeague"

fun is_verified :: "credential \<Rightarrow> bool" where
  "is_verified (Verified u) = True" | "is_verified c = False"

fun is_external :: "credential \<Rightarrow> bool" where
  "is_external (External u) = True" | "is_external c = False"

fun is_guest :: "credential \<Rightarrow> bool" where
  "is_guest (Guest n) = True" | "is_guest c = False"

fun admitsAsPlayer :: "room_league \<Rightarrow> credential \<Rightarrow> bool" where
  "admitsAsPlayer CasualLeague c = True"
| "admitsAsPlayer VerifiedLeague c = is_verified c"
| "admitsAsPlayer ExternalLeague c = (is_external c \<or> is_verified c)"

text \<open>The account behind a credential; a guest has none.\<close>

fun credential_user :: "credential \<Rightarrow> string option" where
  "credential_user (Verified u) = Some u"
| "credential_user (External u) = Some u"
| "credential_user (Guest n) = None"

datatype admission_result =
    AsPlayer credential place | AsSpectator | RankedRequiresAccount

definition admission_decide :: "credential \<Rightarrow> room_league \<Rightarrow> place option \<Rightarrow> admission_result" where
  "admission_decide c l freeSeat =
     (if isRanked l \<and> is_guest c then RankedRequiresAccount
      else if \<not> admitsAsPlayer l c then AsSpectator
      else case freeSeat of Some s \<Rightarrow> AsPlayer c s | None \<Rightarrow> AsSpectator)"

subsection \<open>Resolving a credential\<close>

record user_repository =
  repo_findById :: "string \<Rightarrow> string option"
  repo_findByUsername :: "string \<Rightarrow> string option"
  repo_isBanned :: "string \<Rightarrow> bool"
  repo_validPassword :: "string \<Rightarrow> string \<Rightarrow> bool"

record player_info =
  pi_name :: string
  pi_password :: "string option"

text \<open>The player info frame, from its decoded text: \<open>name:pin\<close>, the name cut at a dollar sign.\<close>

definition removeUnexpectedSuffix :: "string \<Rightarrow> string" where
  "removeUnexpectedSuffix v = takeWhile (\<lambda>c. c \<noteq> CHR ''$'') v"

definition hasMercurySignature :: "string \<Rightarrow> bool" where
  "hasMercurySignature text_data \<longleftrightarrow> CHR ''$'' \<in> set text_data"

definition parsePlayerInfo :: "string \<Rightarrow> player_info" where
  "parsePlayerInfo d =
     (if CHR '':'' \<notin> set d then \<lparr>pi_name = removeUnexpectedSuffix d, pi_password = None\<rparr>
      else let password = take 4 (drop 1 (dropWhile (\<lambda>c. c \<noteq> CHR '':'') d))
           in \<lparr>pi_name = removeUnexpectedSuffix (takeWhile (\<lambda>c. c \<noteq> CHR '':'') d),
               pi_password = (if password = [] then None else Some password)\<rparr>)"

datatype auth_error = USER_NOT_FOUND | USER_BANNED | INVALID_PASSWORD

definition given :: "string option \<Rightarrow> bool" where
  "given s \<longleftrightarrow> s \<noteq> None \<and> s \<noteq> Some []"

definition UserAuth_run :: "user_repository \<Rightarrow> player_info \<Rightarrow> auth_error + string" where
  "UserAuth_run repo info =
     (case repo_findByUsername repo (pi_name info) of
        None \<Rightarrow> Inl USER_NOT_FOUND
      | Some u \<Rightarrow>
          if repo_isBanned repo u then Inl USER_BANNED
          else if \<not> given (pi_password info) \<or> \<not> repo_validPassword repo u (the (pi_password info))
          then Inl INVALID_PASSWORD
          else Inr u)"

definition CredentialResolver_resolve :: "user_repository \<Rightarrow> string option \<Rightarrow> player_info \<Rightarrow> credential" where
  "CredentialResolver_resolve repo resolved info =
     (if given resolved then
        (case repo_findById repo (the resolved) of
           Some u \<Rightarrow> if \<not> repo_isBanned repo u then Verified u else Guest (pi_name info)
         | None \<Rightarrow> Guest (pi_name info))
      else if given (pi_password info) then
        (case UserAuth_run repo info of Inr u \<Rightarrow> External u | Inl e \<Rightarrow> Guest (pi_name info))
      else Guest (pi_name info))"

subsection \<open>Lemmas\<close>

lemma admission_decide_player:
  "admission_decide c l freeSeat = AsPlayer c' s \<longleftrightarrow>
     c' = c \<and> freeSeat = Some s \<and> admitsAsPlayer l c \<and> \<not> (isRanked l \<and> is_guest c)"
  by (auto simp: admission_decide_def split: option.splits)

lemma ranked_needs_account: "isRanked l \<Longrightarrow> admitsAsPlayer l c \<Longrightarrow> \<exists>u. credential_user c = Some u"
  by (cases l; cases c) (auto simp: isRanked_def)

lemma resolve_verified:
  "CredentialResolver_resolve repo resolved info = Verified u \<Longrightarrow>
     \<exists>r. resolved = Some r \<and> repo_findById repo r = Some u \<and> \<not> repo_isBanned repo u"
  by (auto simp: CredentialResolver_resolve_def given_def split: if_splits option.splits sum.splits)

lemma resolve_account_not_banned:
  "credential_user (CredentialResolver_resolve repo resolved info) = Some u \<Longrightarrow> \<not> repo_isBanned repo u"
  by (auto simp: CredentialResolver_resolve_def UserAuth_run_def split: if_splits option.splits sum.splits)

end
