(* ===== verification/Reserved.thy ===== *)
theory Reserved
  imports Complex_Main DeckBuild
begin

text \<open>
  Reserved duels (\<open>src/shared/reserved-duel/domain\<close>): reading a stored reservation
  (\<open>Reservation.ts\<close>), the deck lock (\<open>DeckLock.ts\<close>) and the session a room keeps against its
  reservation (\<open>ReservedDuelSession.ts\<close>). A JSON value is a datatype with JavaScript's cases; an
  object is a map from keys to values, numbers are rationals or infinite (\<open>1e999\<close> parses to
  \<open>Infinity\<close>). \<open>JSON.parse\<close> itself is an argument, \<open>None\<close> when it throws. A card code is
  \<open>Number(code)\<close>, with \<open>None\<close> for \<open>NaN\<close>.
\<close>

subsection \<open>Reservations\<close>

datatype json =
    JNull | JBool bool | JNum rat | JInfinite bool | JStr string | JArr "json list" | JObj "(string \<times> json) list"

datatype reservation_mode = SingleMode | MatchMode
datatype deck_lock = Exact | Registered

record card_codes =
  main_codes :: "nat option list"
  extra_codes :: "nat option list"
  side_codes :: "nat option list"

datatype res_participant =
    UserParticipant (seat: nat) (res_user: string) (required: "card_codes option")
  | WindbotParticipant (seat: nat) (bot_name: string)

fun is_user :: "res_participant \<Rightarrow> bool" where
  "is_user (UserParticipant s u d) = True"
| "is_user (WindbotParticipant s b) = False"

record reservation_options =
  opt_spectators :: bool
  opt_listed :: bool
  opt_reconnect :: bool
  opt_deckLock :: deck_lock
  opt_lobbyTimeoutSeconds :: rat

record reservation =
  res_id :: string
  res_format :: string
  res_mode :: reservation_mode
  res_participants :: "res_participant list"
  res_options :: reservation_options

definition RESERVATION_COMMAND :: string where "RESERVATION_COMMAND = ''rv''"
definition RESERVATION_VERSION :: rat where "RESERVATION_VERSION = 1"
definition DEFAULT_LOBBY_TIMEOUT_SECONDS :: rat where "DEFAULT_LOBBY_TIMEOUT_SECONDS = 120"

definition is_alnum :: "char \<Rightarrow> bool" where
  "is_alnum c \<longleftrightarrow> is_digit c \<or> (let n = (of_char c :: nat) in (65 \<le> n \<and> n \<le> 90) \<or> (97 \<le> n \<and> n \<le> 122))"

definition RESERVATION_ID_PATTERN :: "string \<Rightarrow> bool" where
  "RESERVATION_ID_PATTERN s \<longleftrightarrow> length s = 16 \<and> list_all is_alnum s"

definition reservationKey :: "string \<Rightarrow> string" where
  "reservationKey i = ''duel:reservation:'' @ i"

text \<open>A property that is absent and one that is \<open>null\<close> are told apart as \<open>None\<close> and \<open>Some JNull\<close>;
  \<open>??\<close> treats both alike.\<close>

definition coalesce :: "json option \<Rightarrow> json \<Rightarrow> json" where
  "coalesce v d = (case v of None \<Rightarrow> d | Some JNull \<Rightarrow> d | Some x \<Rightarrow> x)"

fun asList :: "json option \<Rightarrow> json list option" where
  "asList (Some (JArr xs)) = Some xs"
| "asList (Some (JObj [])) = Some []"
| "asList v = None"

text \<open>\<open>Number.isInteger(code) && code > 0\<close>.\<close>

fun positive_code :: "json \<Rightarrow> nat option" where
  "positive_code (JNum q) = (case quotient_of q of (n, d) \<Rightarrow> if d = 1 \<and> n > 0 then Some (nat n) else None)"
| "positive_code v = None"

definition asCardList :: "json option \<Rightarrow> nat option list option" where
  "asCardList v = (case asList (Some (coalesce v (JArr []))) of None \<Rightarrow> None
     | Some xs \<Rightarrow> if list_all (\<lambda>c. positive_code c \<noteq> None) xs then Some (map positive_code xs) else None)"

text \<open>\<open>None\<close> is the malformed deck (\<open>undefined\<close>), \<open>Some None\<close> no deck at all (\<open>null\<close>).\<close>

definition parseRequiredDeck :: "json option \<Rightarrow> card_codes option option" where
  "parseRequiredDeck v =
     (case v of None \<Rightarrow> Some None | Some JNull \<Rightarrow> Some None
      | Some (JObj ob) \<Rightarrow>
          (case (asCardList (map_get ob ''main''), asCardList (map_get ob ''extra''), asCardList (map_get ob ''side'')) of
             (Some m, Some e, Some s) \<Rightarrow> Some (Some \<lparr>main_codes = m, extra_codes = e, side_codes = s\<rparr>)
           | _ \<Rightarrow> None)
      | Some _ \<Rightarrow> None)"

fun seat_number :: "json option \<Rightarrow> nat option" where
  "seat_number (Some (JNum q)) = (if q = 0 then Some 0 else if q = 1 then Some 1 else None)"
| "seat_number v = None"

fun nonempty_string :: "json option \<Rightarrow> string option" where
  "nonempty_string (Some (JStr s)) = (if s = [] then None else Some s)"
| "nonempty_string v = None"

definition parseParticipant :: "json \<Rightarrow> res_participant option" where
  "parseParticipant v =
     (case v of JObj ob \<Rightarrow>
        (case seat_number (map_get ob ''seat'') of None \<Rightarrow> None
         | Some s \<Rightarrow>
             if map_get ob ''kind'' = Some (JStr ''user'') \<and> nonempty_string (map_get ob ''userId'') \<noteq> None
             then map_option (UserParticipant s (the (nonempty_string (map_get ob ''userId''))))
                    (parseRequiredDeck (map_get ob ''requiredDeck''))
             else if map_get ob ''kind'' = Some (JStr ''windbot'') \<and> nonempty_string (map_get ob ''botName'') \<noteq> None
             then Some (WindbotParticipant s (the (nonempty_string (map_get ob ''botName''))))
             else None)
      | _ \<Rightarrow> None)"

definition parseOptions :: "json option \<Rightarrow> reservation_options option" where
  "parseOptions v =
     (let ob = (case v of Some (JObj ob) \<Rightarrow> ob | _ \<Rightarrow> []);
          lock = coalesce (map_get ob ''deckLock'') (JStr ''exact'');
          timeout = coalesce (map_get ob ''lobbyTimeoutSeconds'') (JNum DEFAULT_LOBBY_TIMEOUT_SECONDS);
          flag = (\<lambda>k. map_get ob k = Some (JBool True))
      in if lock \<noteq> JStr ''exact'' \<and> lock \<noteq> JStr ''registered'' then None
         else case timeout of
           JNum t \<Rightarrow> if t \<le> 0 then None
             else Some \<lparr>opt_spectators = flag ''spectators'', opt_listed = flag ''listed'',
               opt_reconnect = flag ''reconnect'',
               opt_deckLock = (if lock = JStr ''exact'' then Exact else Registered),
               opt_lobbyTimeoutSeconds = t\<rparr>
         | _ \<Rightarrow> None)"

definition parse_mode :: "json option \<Rightarrow> reservation_mode option" where
  "parse_mode v = (if v = Some (JStr ''single'') then Some SingleMode
     else if v = Some (JStr ''match'') then Some MatchMode else None)"

definition parse_seated :: "json option \<Rightarrow> res_participant list option" where
  "parse_seated v =
     (let ps = map parseParticipant (case asList v of None \<Rightarrow> [] | Some xs \<Rightarrow> xs)
      in if length ps \<noteq> 2 \<or> list_ex (\<lambda>p. p = None) ps then None
         else let seated = map the ps
              in if seat (seated ! 0) = seat (seated ! 1) \<or> \<not> list_ex is_user seated then None
                 else Some seated)"

definition parseReservation :: "(string \<Rightarrow> json option) \<Rightarrow> string \<Rightarrow> reservation option" where
  "parseReservation json_parse raw =
     (case json_parse raw of
        Some (JObj ob) \<Rightarrow>
          if map_get ob ''v'' \<noteq> Some (JNum RESERVATION_VERSION) then None else
          (case (map_get ob ''reservationId'', nonempty_string (map_get ob ''format''),
                 parse_mode (map_get ob ''mode''), parse_seated (map_get ob ''participants''),
                 parseOptions (map_get ob ''options'')) of
             (Some (JStr i), Some f, Some m, Some ps, Some opts) \<Rightarrow>
               if RESERVATION_ID_PATTERN i
               then Some \<lparr>res_id = i, res_format = to_lower f, res_mode = m,
                      res_participants = sort_key seat ps, res_options = opts\<rparr>
               else None
           | _ \<Rightarrow> None)
      | _ \<Rightarrow> None)"

subsection \<open>The deck lock\<close>

definition sameMultiset :: "nat option list \<Rightarrow> nat option list \<Rightarrow> bool" where
  "sameMultiset a b =
     (if length a \<noteq> length b then False
      else list_all (\<lambda>(k, n). map_get (js_tally b) k = Some n) (js_tally a))"

definition all_codes :: "card_codes \<Rightarrow> nat option list" where
  "all_codes d = main_codes d @ extra_codes d @ side_codes d"

definition deckHonoursLock :: "deck_lock \<Rightarrow> card_codes \<Rightarrow> card_codes \<Rightarrow> bool" where
  "deckHonoursLock lock req d =
     (if lock = Registered then sameMultiset (all_codes req) (all_codes d)
      else sameMultiset (main_codes req) (main_codes d) \<and> sameMultiset (extra_codes req) (extra_codes d) \<and>
           sameMultiset (side_codes req) (side_codes d))"

definition toCardCodes :: "deck \<Rightarrow> card_codes" where
  "toCardCodes d = \<lparr>main_codes = map code_key (main_deck d), extra_codes = map code_key (extra_deck d),
     side_codes = map code_key (side_deck d)\<rparr>"

subsection \<open>The session of a reserved room\<close>

datatype abandon_reason = Disconnect | RoomClosed | NoShow | BotUnavailable | ServerRestart

record abandon =
  ab_seat :: "nat option"
  ab_reason :: abandon_reason
  ab_started :: bool

datatype recorder_call =
    RecordStarted string string | RecordAbandoned string abandon | RecordRelease string

record session =
  reservation_of :: reservation
  started :: bool
  gameOver :: bool
  closed_once :: bool
  recorder :: "recorder_call list"

definition new_session :: "reservation \<Rightarrow> session" where
  "new_session r = \<lparr>reservation_of = r, started = False, gameOver = False, closed_once = False, recorder = []\<rparr>"

definition users :: "session \<Rightarrow> res_participant list" where
  "users s = filter is_user (res_participants (reservation_of s))"

definition bots :: "session \<Rightarrow> res_participant list" where
  "bots s = filter (\<lambda>p. \<not> is_user p) (res_participants (reservation_of s))"

definition userIds :: "session \<Rightarrow> string list" where
  "userIds s = map res_user (users s)"

definition isSingle :: "session \<Rightarrow> bool" where
  "isSingle s \<longleftrightarrow> res_mode (reservation_of s) = SingleMode"

definition allowsSpectators :: "session \<Rightarrow> bool" where
  "allowsSpectators s = opt_spectators (res_options (reservation_of s))"

definition allowsReconnect :: "session \<Rightarrow> bool" where
  "allowsReconnect s = opt_reconnect (res_options (reservation_of s))"

definition isListed :: "session \<Rightarrow> bool" where
  "isListed s = opt_listed (res_options (reservation_of s))"

definition lobbyTimeoutMs :: "session \<Rightarrow> rat" where
  "lobbyTimeoutMs s = opt_lobbyTimeoutSeconds (res_options (reservation_of s)) * 1000"

definition seatOfUser :: "string option \<Rightarrow> session \<Rightarrow> nat option" where
  "seatOfUser u s = map_option seat (find (\<lambda>p. Some (res_user p) = u) (users s))"

definition botSeat :: "session \<Rightarrow> nat option" where
  "botSeat s = (case bots s of [] \<Rightarrow> None | b # _ \<Rightarrow> Some (seat b))"

definition acceptsDeck :: "nat \<Rightarrow> card_codes \<Rightarrow> session \<Rightarrow> bool" where
  "acceptsDeck k d s =
     (case find (\<lambda>p. seat p = k) (users s) of None \<Rightarrow> True
      | Some p \<Rightarrow> (case required p of None \<Rightarrow> True
          | Some req \<Rightarrow> deckHonoursLock (opt_deckLock (res_options (reservation_of s))) req d))"

definition locksReadyDeck :: "session \<Rightarrow> bool" where
  "locksReadyDeck s \<longleftrightarrow> opt_deckLock (res_options (reservation_of s)) = Exact"

definition noShowSeat :: "nat list \<Rightarrow> nat list \<Rightarrow> session \<Rightarrow> nat option" where
  "noShowSeat seated ready s =
     (case find (\<lambda>p. seat p \<notin> set seated) (users s) of Some p \<Rightarrow> Some (seat p)
      | None \<Rightarrow> map_option seat (find (\<lambda>p. seat p \<notin> set ready) (users s)))"

definition markStarted :: "string \<Rightarrow> session \<Rightarrow> session" where
  "markStarted mid s = (if started s then s
     else s\<lparr>started := True, recorder := recorder s @ [RecordStarted (res_id (reservation_of s)) mid]\<rparr>)"

definition markGameOver :: "session \<Rightarrow> session" where
  "markGameOver s = s\<lparr>gameOver := True\<rparr>"

definition close_session :: "abandon \<Rightarrow> session \<Rightarrow> session" where
  "close_session ab s =
     (if closed_once s then s
      else let i = res_id (reservation_of s);
               calls = (if gameOver s then []
                  else [RecordAbandoned i (if started s then ab\<lparr>ab_started := True\<rparr> else ab)]) @ [RecordRelease i]
           in s\<lparr>closed_once := True, recorder := recorder s @ calls\<rparr>)"

subsection \<open>Lemmas: reading a reservation\<close>

lemma sameMultiset_iff: "sameMultiset a b \<longleftrightarrow> mset a = mset b"
proof
  assume s: "sameMultiset a b"
  then have len: "length a = length b" and c: "\<forall>k \<in> set a. k \<in> set b \<and> count_list b k = count_list a k"
    using tally_mem_all [of a "\<lambda>k n. map_get (js_tally b) k = Some n"]
    by (auto simp: sameMultiset_def list_all_iff tally_look split: if_splits)
  have "mset a \<subseteq># mset b"
    using c by (auto simp: subseteq_mset_def count_list_mset [symmetric]) (metis count_list_0_iff le0 order_refl)
  then show "mset a = mset b"
    using len by (metis mset_subset_size size_mset less_irrefl subset_mset.le_less)
next
  assume m: "mset a = mset b"
  then show "sameMultiset a b"
    using same_tally [of a b] mset_eq_length [OF m] by (auto simp: sameMultiset_def list_all_iff)
qed

lemma deckHonoursLock_iff:
  "deckHonoursLock lock req d \<longleftrightarrow>
     (if lock = Registered then mset (all_codes req) = mset (all_codes d)
      else mset (main_codes req) = mset (main_codes d) \<and> mset (extra_codes req) = mset (extra_codes d) \<and>
           mset (side_codes req) = mset (side_codes d))"
  by (simp add: deckHonoursLock_def sameMultiset_iff)

definition codes_ok :: "card_codes \<Rightarrow> bool" where
  "codes_ok d \<longleftrightarrow> list_all (\<lambda>c. case c of None \<Rightarrow> False | Some n \<Rightarrow> 0 < n) (all_codes d)"

fun participant_ok :: "res_participant \<Rightarrow> bool" where
  "participant_ok (UserParticipant s u d) \<longleftrightarrow> s \<le> 1 \<and> u \<noteq> [] \<and> (case d of None \<Rightarrow> True | Some c \<Rightarrow> codes_ok c)"
| "participant_ok (WindbotParticipant s b) \<longleftrightarrow> s \<le> 1 \<and> b \<noteq> []"

definition reservation_ok :: "reservation \<Rightarrow> bool" where
  "reservation_ok r \<longleftrightarrow> RESERVATION_ID_PATTERN (res_id r) \<and> res_format r \<noteq> [] \<and>
     to_lower (res_format r) = res_format r \<and> map seat (res_participants r) = [0, 1] \<and>
     list_all participant_ok (res_participants r) \<and> list_ex is_user (res_participants r) \<and>
     0 < opt_lobbyTimeoutSeconds (res_options r)"

text \<open>The JSON an issuer writes for a reservation.\<close>

definition render_codes :: "nat option list \<Rightarrow> json" where
  "render_codes cs = JArr (map (\<lambda>c. case c of None \<Rightarrow> JNull | Some n \<Rightarrow> JNum (of_nat n)) cs)"

definition render_deck :: "card_codes option \<Rightarrow> json" where
  "render_deck d = (case d of None \<Rightarrow> JNull | Some c \<Rightarrow>
     JObj [(''main'', render_codes (main_codes c)), (''extra'', render_codes (extra_codes c)),
           (''side'', render_codes (side_codes c))])"

fun render_participant :: "res_participant \<Rightarrow> json" where
  "render_participant (UserParticipant s u d) =
     JObj [(''seat'', JNum (of_nat s)), (''kind'', JStr ''user''), (''userId'', JStr u), (''requiredDeck'', render_deck d)]"
| "render_participant (WindbotParticipant s b) =
     JObj [(''seat'', JNum (of_nat s)), (''kind'', JStr ''windbot''), (''botName'', JStr b)]"

definition render_options :: "reservation_options \<Rightarrow> json" where
  "render_options opts = JObj
     [(''spectators'', JBool (opt_spectators opts)), (''listed'', JBool (opt_listed opts)),
      (''reconnect'', JBool (opt_reconnect opts)),
      (''deckLock'', JStr (if opt_deckLock opts = Exact then ''exact'' else ''registered'')),
      (''lobbyTimeoutSeconds'', JNum (opt_lobbyTimeoutSeconds opts))]"

definition render_reservation :: "reservation \<Rightarrow> json" where
  "render_reservation r = JObj
     [(''v'', JNum RESERVATION_VERSION), (''reservationId'', JStr (res_id r)), (''format'', JStr (res_format r)),
      (''mode'', JStr (if res_mode r = SingleMode then ''single'' else ''match'')),
      (''participants'', JArr (map render_participant (res_participants r))),
      (''options'', render_options (res_options r))]"

lemma positive_code_of_nat: "0 < n \<Longrightarrow> positive_code (JNum (of_nat n)) = Some n"
  using quotient_of_int [of "int n"] by simp

lemma positive_code_pos: "positive_code v = Some n \<Longrightarrow> 0 < n"
  by (cases v) (auto split: if_splits prod.splits)

lemma asCardList_rendered:
  assumes "list_all (\<lambda>c. case c of None \<Rightarrow> False | Some n \<Rightarrow> 0 < n) cs"
  shows "asCardList (Some (render_codes cs)) = Some cs"
proof -
  have "positive_code (case c of None \<Rightarrow> JNull | Some n \<Rightarrow> JNum (of_nat n)) = c" if "c \<in> set cs" for c
    using assms that positive_code_of_nat by (fastforce simp: list_all_iff split: option.splits)
  moreover have "c \<noteq> None" if "c \<in> set cs" for c
    using assms that by (fastforce simp: list_all_iff split: option.splits)
  ultimately show ?thesis
    by (simp add: asCardList_def coalesce_def render_codes_def list_all_iff map_idI o_def)
qed

lemma asCardList_ok:
  "asCardList v = Some cs \<Longrightarrow> list_all (\<lambda>c. case c of None \<Rightarrow> False | Some n \<Rightarrow> 0 < n) cs"
  using positive_code_pos
  by (fastforce simp: asCardList_def list_all_iff split: option.splits if_splits)

lemma parseRequiredDeck_rendered:
  "case d of None \<Rightarrow> True | Some c \<Rightarrow> codes_ok c \<Longrightarrow> parseRequiredDeck (Some (render_deck d)) = Some d"
  by (cases d) (simp_all add: parseRequiredDeck_def render_deck_def codes_ok_def all_codes_def asCardList_rendered)

lemma parseRequiredDeck_ok:
  "parseRequiredDeck v = Some d \<Longrightarrow> case d of None \<Rightarrow> True | Some c \<Rightarrow> codes_ok c"
  by (auto simp: parseRequiredDeck_def codes_ok_def all_codes_def asCardList_ok split: option.splits json.splits)

lemma parseParticipant_rendered: "participant_ok p \<Longrightarrow> parseParticipant (render_participant p) = Some p"
  by (cases p) (auto simp: parseParticipant_def parseRequiredDeck_rendered le_Suc_eq)

lemma seat_number_le: "seat_number v = Some s \<Longrightarrow> s \<le> 1"
  by (cases v rule: seat_number.cases) (auto split: if_splits)

lemma parseParticipant_ok: "parseParticipant v = Some p \<Longrightarrow> participant_ok p"
  using parseRequiredDeck_ok seat_number_le
  by (auto simp: parseParticipant_def split: json.splits option.splits if_splits
      elim!: nonempty_string.elims)

lemma parseOptions_rendered:
  "0 < opt_lobbyTimeoutSeconds opts \<Longrightarrow> parseOptions (Some (render_options opts)) = Some opts"
  by (cases "opt_deckLock opts") (simp_all add: parseOptions_def render_options_def coalesce_def)

lemma parseOptions_ok: "parseOptions v = Some opts \<Longrightarrow> 0 < opt_lobbyTimeoutSeconds opts"
  by (auto simp: parseOptions_def Let_def split: if_splits json.splits)

lemma parse_seated_cases:
  assumes "parse_seated v = Some ps"
  shows "\<exists>a b. ps = [a, b] \<and> participant_ok a \<and> participant_ok b \<and> seat a \<noteq> seat b \<and> (is_user a \<or> is_user b)"
proof -
  define xs where "xs = (case asList v of None \<Rightarrow> [] | Some xs \<Rightarrow> xs)"
  have l: "length xs = 2" and n: "None \<notin> parseParticipant ` set xs"
    and ps: "ps = map the (map parseParticipant xs)"
    and d: "seat (ps ! 0) \<noteq> seat (ps ! 1)" "list_ex is_user ps"
    using assms unfolding parse_seated_def xs_def [symmetric] Let_def
    by (auto simp: list_ex_iff split: if_splits)
  obtain x y where xs: "xs = [x, y]"
    using l by (auto simp: numeral_2_eq_2 length_Suc_conv)
  obtain a b where "parseParticipant x = Some a" "parseParticipant y = Some b"
    using n xs by (cases "parseParticipant x"; cases "parseParticipant y") auto
  then show ?thesis
    using ps d xs by (auto simp: parseParticipant_ok)
qed

subsection \<open>What the reader promises\<close>

lemma to_lower_Nil [simp]: "to_lower s = [] \<longleftrightarrow> s = []"
  by (simp add: to_lower_def)

lemma to_lower_idem [simp]: "to_lower (to_lower s) = to_lower s"
proof -
  have "lower_char (lower_char c) = lower_char c" for c
    by (simp add: lower_char_def Let_def)
  then show ?thesis
    by (simp add: to_lower_def)
qed

lemma parseReservation_cases:
  assumes "parseReservation json_parse raw = Some r"
  obtains ob f ps opts where "parse_seated (map_get ob ''participants'') = Some ps"
    "parseOptions (map_get ob ''options'') = Some opts" "f \<noteq> []" "res_format r = to_lower f"
    "res_participants r = sort_key seat ps" "res_options r = opts" "RESERVATION_ID_PATTERN (res_id r)"
  using assms
  by (auto simp: parseReservation_def split: option.splits json.splits if_splits elim!: nonempty_string.elims)

text \<open>C12. A reservation the server accepts is complete: a well-formed id, a lower-case format, exactly
  one participant on seat 0 and one on seat 1 in that order, at least one of them human, positive
  card codes only, and a positive lobby timeout.\<close>

theorem accepted_reservation_is_complete:
  assumes "parseReservation json_parse raw = Some r"
  shows "reservation_ok r"
proof -
  obtain ob f ps opts where p: "parse_seated (map_get ob ''participants'') = Some ps"
    "parseOptions (map_get ob ''options'') = Some opts" "f \<noteq> []" "res_format r = to_lower f"
    "res_participants r = sort_key seat ps" "res_options r = opts" "RESERVATION_ID_PATTERN (res_id r)"
    by (rule parseReservation_cases [OF assms])
  obtain a b where ab: "ps = [a, b]" "participant_ok a" "participant_ok b" "seat a \<noteq> seat b" "is_user a \<or> is_user b"
    using parse_seated_cases [OF p(1)] by blast
  have "seat a \<le> 1 \<and> seat b \<le> 1"
    using ab(2,3) by (cases a; cases b) auto
  then have "res_participants r = [a, b] \<and> seat a = 0 \<and> seat b = 1 \<or>
      res_participants r = [b, a] \<and> seat a = 1 \<and> seat b = 0"
    using ab(1,4) p(5) by (cases "seat a = 0") auto
  then have "map seat (res_participants r) = [0, 1]" "set (res_participants r) = {a, b}"
    by auto
  then show ?thesis
    using p(3,4,6,7) ab(2,3,5) parseOptions_ok [OF p(2)]
    unfolding reservation_ok_def list_all_iff list_ex_iff by simp
qed

text \<open>C13. A complete reservation written as JSON is read back as itself.\<close>

theorem reservation_round_trip:
  assumes "reservation_ok r" and "json_parse raw = Some (render_reservation r)"
  shows "parseReservation json_parse raw = Some r"
proof -
  obtain a b where ab: "res_participants r = [a, b]" "seat a = 0" "seat b = 1"
    using assms(1) by (auto simp: reservation_ok_def length_Suc_conv map_eq_Cons_conv)
  have "parse_seated (Some (JArr (map render_participant [a, b]))) = Some [a, b]"
    using assms(1) ab by (auto simp: parse_seated_def Let_def reservation_ok_def parseParticipant_rendered)
  then show ?thesis
    using assms ab
    by (cases "res_mode r") (auto simp: parseReservation_def render_reservation_def reservation_ok_def parse_mode_def
        parseOptions_rendered)
qed

definition sample_reservation :: reservation where
  "sample_reservation = \<lparr>res_id = ''ABCDEFGHabcd0123'', res_format = ''tcg'', res_mode = SingleMode,
     res_participants = [UserParticipant 0 ''ana'' (Some \<lparr>main_codes = [Some 7, Some 9], extra_codes = [], side_codes = []\<rparr>),
       WindbotParticipant 1 ''Yubel''],
     res_options = \<lparr>opt_spectators = False, opt_listed = True, opt_reconnect = False, opt_deckLock = Exact,
       opt_lobbyTimeoutSeconds = 120\<rparr>\<rparr>"

lemma sample_reservation_ok: "reservation_ok sample_reservation"
  by (simp add: sample_reservation_def reservation_ok_def RESERVATION_ID_PATTERN_def is_alnum_def is_digit_def
      to_lower_def lower_char_def codes_ok_def all_codes_def)

lemma reservation_round_trip_witness:
  "parseReservation (\<lambda>_. Some (render_reservation sample_reservation)) ''{}'' = Some sample_reservation"
  by (rule reservation_round_trip [OF sample_reservation_ok refl])

lemma sample_reservation_parsed:
  "parseReservation (\<lambda>_. Some (render_reservation sample_reservation)) ''{}'' = Some sample_reservation"
  by (simp add: parseReservation_def render_reservation_def sample_reservation_def parse_mode_def parse_seated_def
      parseParticipant_def parseRequiredDeck_def render_deck_def render_codes_def asCardList_def coalesce_def
      parseOptions_def render_options_def RESERVATION_ID_PATTERN_def is_alnum_def is_digit_def to_lower_def
      lower_char_def)

lemma accepted_reservation_is_complete_witness:
  "parseReservation (\<lambda>_. Some (render_reservation sample_reservation)) ''{}'' = Some sample_reservation \<and>
   reservation_ok sample_reservation"
  using accepted_reservation_is_complete [OF sample_reservation_parsed] sample_reservation_parsed by simp

subsection \<open>One outcome per session\<close>

datatype session_event = Starting string | Ending | Closing abandon

fun session_step :: "session_event \<Rightarrow> session \<Rightarrow> session" where
  "session_step (Starting m) s = markStarted m s"
| "session_step Ending s = markGameOver s"
| "session_step (Closing ab) s = close_session ab s"

definition session_run :: "session_event list \<Rightarrow> session \<Rightarrow> session" where
  "session_run es s = fold session_step es s"

definition abandons :: "session \<Rightarrow> recorder_call list" where
  "abandons s = filter (\<lambda>c. \<exists>i ab. c = RecordAbandoned i ab) (recorder s)"

definition releases :: "session \<Rightarrow> recorder_call list" where
  "releases s = filter (\<lambda>c. \<exists>i. c = RecordRelease i) (recorder s)"

definition is_closing :: "session_event \<Rightarrow> bool" where
  "is_closing e \<longleftrightarrow> (\<exists>ab. e = Closing ab)"

definition before_close :: "session_event list \<Rightarrow> session_event list" where
  "before_close es = takeWhile (\<lambda>e. \<not> is_closing e) es"

lemma session_after_close:
  "closed_once s \<Longrightarrow> abandons (session_run es s) = abandons s \<and> releases (session_run es s) = releases s \<and>
     closed_once (session_run es s)"
proof (induction es arbitrary: s)
  case (Cons e es)
  have "closed_once (session_step e s) \<and> abandons (session_step e s) = abandons s \<and> releases (session_step e s) = releases s"
    using Cons.prems
    by (cases e) (auto simp: markStarted_def markGameOver_def close_session_def abandons_def releases_def)
  then show ?case
    using Cons.IH [of "session_step e s"] by (simp add: session_run_def)
qed (simp add: session_run_def)

lemma session_before_close:
  "\<not> closed_once s \<Longrightarrow> list_all (\<lambda>e. \<not> is_closing e) es \<Longrightarrow>
     \<not> closed_once (session_run es s) \<and> abandons (session_run es s) = abandons s \<and>
     releases (session_run es s) = releases s \<and> reservation_of (session_run es s) = reservation_of s \<and>
     (gameOver (session_run es s) \<longleftrightarrow> gameOver s \<or> Ending \<in> set es) \<and>
     (started (session_run es s) \<longleftrightarrow> started s \<or> (\<exists>m. Starting m \<in> set es))"
proof (induction es arbitrary: s)
  case (Cons e es)
  let ?s = "session_step e s"
  have step: "\<not> closed_once ?s \<and> abandons ?s = abandons s \<and> releases ?s = releases s \<and>
      reservation_of ?s = reservation_of s \<and> (gameOver ?s \<longleftrightarrow> gameOver s \<or> e = Ending) \<and>
      (started ?s \<longleftrightarrow> started s \<or> (\<exists>m. e = Starting m))"
    using Cons.prems
    by (cases e) (auto simp: markStarted_def markGameOver_def is_closing_def abandons_def releases_def)
  have "session_run (e # es) s = session_run es ?s"
    by (simp add: session_run_def)
  then show ?case
    using step Cons.IH [of ?s] Cons.prems by auto
qed (simp add: session_run_def)

text \<open>C14. Whatever happens to a reserved room, in whatever order and however often, its reservation is
  given back once, when the room first closes, and an abandon is written exactly when no game over
  came before that; it counts as started precisely when the duel had started by then.\<close>

theorem session_has_one_outcome:
  "releases (session_run es (new_session r)) =
     (case find is_closing es of None \<Rightarrow> [] | Some e \<Rightarrow> [RecordRelease (res_id r)]) \<and>
   abandons (session_run es (new_session r)) =
     (case find is_closing es of
        Some (Closing ab) \<Rightarrow>
          if Ending \<in> set (before_close es) then []
          else [RecordAbandoned (res_id r)
                  (if \<exists>m. Starting m \<in> set (before_close es) then ab\<lparr>ab_started := True\<rparr> else ab)]
      | _ \<Rightarrow> [])"
proof -
  let ?pre = "before_close es"
  have pre: "list_all (\<lambda>e. \<not> is_closing e) ?pre"
    by (auto simp: before_close_def list_all_iff dest: set_takeWhileD)
  note b = session_before_close [OF _ pre, of "new_session r"]
  have new: "\<not> closed_once (new_session r)" "abandons (new_session r) = []" "releases (new_session r) = []"
    "\<not> gameOver (new_session r)" "\<not> started (new_session r)" "reservation_of (new_session r) = r"
    by (simp_all add: new_session_def abandons_def releases_def)
  show ?thesis
  proof (cases "find is_closing es")
    case None
    then have "?pre = es"
      by (simp add: before_close_def find_None_iff)
    then show ?thesis
      using b new None by simp
  next
    case (Some e)
    obtain ab where e: "e = Closing ab"
      using find_SomeD [OF Some] by (auto simp: is_closing_def)
    obtain rest where es: "es = ?pre @ e # rest"
      using Some unfolding before_close_def
      by (induction es) (auto split: if_splits)
    let ?s = "session_run ?pre (new_session r)"
    let ?c = "close_session ab ?s"
    have run: "session_run es (new_session r) = session_run rest ?c"
      by (subst es) (simp add: session_run_def e)
    have "closed_once ?c"
      by (simp add: close_session_def Let_def)
    then show ?thesis
      using session_after_close [of ?c rest] b new Some e
      by (auto simp: run close_session_def Let_def abandons_def releases_def)
  qed
qed

text \<open>C15. Under an exact lock every section of the deck, under a registered lock the deck as a whole,
  must hold the required cards with their multiplicities; a seat without a requirement takes any
  deck.\<close>

theorem deck_lock_compares_multisets:
  "acceptsDeck k d s \<longleftrightarrow>
     (case find (\<lambda>p. seat p = k) (users s) of None \<Rightarrow> True
      | Some p \<Rightarrow> (case required p of None \<Rightarrow> True
          | Some req \<Rightarrow>
             if locksReadyDeck s
             then mset (main_codes req) = mset (main_codes d) \<and> mset (extra_codes req) = mset (extra_codes d) \<and>
                  mset (side_codes req) = mset (side_codes d)
             else mset (all_codes req) = mset (all_codes d)))"
  by (cases "opt_deckLock (res_options (reservation_of s))")
    (simp_all add: acceptsDeck_def locksReadyDeck_def deckHonoursLock_iff split: option.splits)

end
