(* ===== verification/CoreMessages.thy ===== *)
theory CoreMessages
  imports Prelude
begin

text \<open>
  The messages of the third-party duel engine, as far as the server looks into them
  (\<open>src/ygopro/ocgcore-worker/ocgcore.ts\<close> and the middleware of \<open>YGOProDuelingState.ts\<close>): a request
  carries its message number and the side that has to answer; every message the server only passes on is
  \<open>OtherMsg\<close>. Which positions a message goes to is known to the engine's encoder only, and a parameter
  where it is used. A view says which of the encoder's renderings a client is sent.
\<close>

datatype core_msg =
    Request nat nat | Retry | NewTurn nat | NewPhase nat | ReverseDeck
  | Damage nat int | Recover nat int | PayLpCost nat int | WinMsg nat nat | StartMsg nat | Hint nat | OtherMsg nat

datatype view = PlayerView nat | TeammateView nat | ObserverView

fun is_request :: "core_msg \<Rightarrow> bool" where
  "is_request (Request _ _) = True"
| "is_request _ = False"

fun msg_identifier :: "core_msg \<Rightarrow> nat" where
  "msg_identifier (Request i _) = i"
| "msg_identifier _ = 0"

end
