(* ===== verification/Lobby.thy ===== *)
theory Lobby
  imports Admission Reserved MatchScore CoreMessages
begin

text \<open>
  The waiting lobby of a YGOPro room: the room's client operations and reservation gates
  (\<open>src/ygopro/room/domain/YGOProRoom.ts\<close>, \<open>src/shared/room/domain/YgoRoom.ts\<close>), the handlers of
  its waiting state (\<open>src/ygopro/room/domain/states/YGOProWaitingState.ts\<close>) and what happens when
  a socket closes (\<open>YGOProDisconnectPolicy.ts\<close>, \<open>FinalizeYGOProRoom.ts\<close>).

  A client object is identified by the number it was created with; a socket by its id. Whether a
  socket is closed is state of the lobby, shared by all clients on it. Every frame handed to a socket is
  kept, in order, in \<open>sent\<close>. The room mutex serialises admissions: the gates a JOIN passes before
  it takes the mutex and the admission itself are two steps, with the admissions waiting for the
  mutex in \<open>queued\<close>. Resolving a credential is one instant inside the second step.
\<close>

subsection \<open>State\<close>

record socket =
  sock_id :: string
  resolvedUserId :: "string option"
  internalForRoomId :: "nat option"
  watchForRoomId :: "nat option"
  inviteForRoomId :: "nat option"
  supportsLobbyMetadata :: bool
  remoteAddress :: "string option"
  clientName :: "string option"

record client =
  c_id :: nat
  c_name :: string
  c_user :: "string option"
  c_position :: nat
  c_team :: nat
  c_host :: bool
  c_ready :: bool
  c_internal :: bool
  c_captain :: bool
  c_deck :: "deck option"
  c_credential :: "credential option"
  c_socket :: socket

datatype change = ChangeReady | ChangeNotReady | ChangeLeave | ChangeObserve | ChangeTo nat

datatype chat_color = RED | YELLOW | GREEN | WHITE

datatype frame =
    JoinGame | TypeChange nat bool | LobbyMetadata string | PlayerEnter string nat
  | PlayerChange nat change | WatchChange nat | Chat chat_color string | JoinError | VersionError
  | DeckErrorFrame nat nat | DuelStart
  | DeckCount "nat \<times> nat \<times> nat" "nat \<times> nat \<times> nat" | ReconnectionToken | SelectHand | DuelEnd
  | HandResult nat nat | SelectTp | ChangeSide | WaitingSide | SideError | Win nat nat
  | DuelReplay nat nat | TeammateSurrender | History | BoardState
  | MatchStart nat "nat \<times> nat" "nat \<times> nat" | Token nat | ReconnectAck bool
  | OpponentDisconnected nat | OpponentReconnected | MatchCancelled | MatchWon
  | SeatChat nat string | EmoteFrame nat "nat list"
  | TimeLimit nat int | GameMsg core_msg view | WaitingMsg

abbreviation RedChat :: "string \<Rightarrow> frame" where
  "RedChat \<equiv> Chat RED"

datatype duel_state = WAITING | DUELING | RPS | CHOOSING_ORDER | SIDE_DECKING

record lobby =
  room_id :: nat
  seats0 :: nat
  seats1 :: nat
  room_league :: room_league
  room_password :: string
  room_invite :: string
  room_mode :: nat
  room_bestOf :: nat
  no_check_deck :: bool
  ranking_enabled :: bool
  createdBySocketId :: string
  isMatchmaking :: bool
  reservedUserIds :: "string list option"
  reservedDuel :: "session option"
  noHost :: bool
  noReconnect :: bool
  finalizing :: bool
  duelState :: duel_state
  room_match :: "match_state option"
  match_serial :: nat
  duelIds :: "string list"
  players :: "client list"
  spectators :: "client list"
  created :: nat
  closed_sockets :: "string list"
  queued :: "(socket \<times> player_info) list"
  sent :: "(string \<times> frame) list"

definition OBSERVER :: nat where "OBSERVER = 7"
definition SPECTATOR_TEAM :: nat where "SPECTATOR_TEAM = 3"

definition clients :: "lobby \<Rightarrow> client list" where
  "clients L = players L @ spectators L"

definition is_closed :: "lobby \<Rightarrow> socket \<Rightarrow> bool" where
  "is_closed L sk \<longleftrightarrow> sock_id sk \<in> set (closed_sockets L)"

definition isSpectator :: "client \<Rightarrow> bool" where
  "isSpectator c \<longleftrightarrow> c_team c = SPECTATOR_TEAM"

definition send_socket :: "socket \<Rightarrow> frame \<Rightarrow> lobby \<Rightarrow> lobby" where
  "send_socket sk f L = L\<lparr>sent := sent L @ [(sock_id sk, f)]\<rparr>"

definition send_client :: "client \<Rightarrow> frame \<Rightarrow> lobby \<Rightarrow> lobby" where
  "send_client c = send_socket (c_socket c)"

definition close_socket :: "socket \<Rightarrow> lobby \<Rightarrow> lobby" where
  "close_socket sk L = L\<lparr>closed_sockets := set_add (sock_id sk) (closed_sockets L)\<rparr>"

definition broadcastToAll :: "frame \<Rightarrow> lobby \<Rightarrow> lobby" where
  "broadcastToAll f L = fold (\<lambda>c. send_client c f) (spectators L) (fold (\<lambda>c. send_client c f) (players L) L)"

definition sendSpectatorCount :: "lobby \<Rightarrow> lobby" where
  "sendSpectatorCount L = broadcastToAll (WatchChange (length (spectators L))) L"

text \<open>An assignment to fields of a client object, wherever the object is listed.\<close>

definition change_client :: "nat \<Rightarrow> (client \<Rightarrow> client) \<Rightarrow> lobby \<Rightarrow> lobby" where
  "change_client i f L =
     (let g = map (\<lambda>c. if c_id c = i then f c else c)
      in L\<lparr>players := g (players L), spectators := g (spectators L)\<rparr>)"

definition not_ready :: "client \<Rightarrow> client" where
  "not_ready c = c\<lparr>c_ready := False\<rparr>"

definition seating :: "lobby \<Rightarrow> place list" where
  "seating L = map (\<lambda>c. (c_position c, c_team c)) (players L)"

definition free_place :: "lobby \<Rightarrow> place option" where
  "free_place L = calculatePlaceUnsafe (seats0 L) (seats1 L) (seating L) None"

definition hasFreeSeat :: "lobby \<Rightarrow> bool" where
  "hasFreeSeat L \<longleftrightarrow> free_place L \<noteq> None"

definition hasNoConnectedPlayers :: "lobby \<Rightarrow> bool" where
  "hasNoConnectedPlayers L \<longleftrightarrow> list_all (\<lambda>c. is_closed L (c_socket c)) (players L)"

definition allPlayersReady :: "lobby \<Rightarrow> bool" where
  "allPlayersReady L \<longleftrightarrow> \<not> list_ex (\<lambda>c. \<not> c_ready c) (players L)"

definition isPlayersFull :: "lobby \<Rightarrow> bool" where
  "isPlayersFull L \<longleftrightarrow> (room_mode L = 0 \<or> room_mode L = 1) \<and> length (players L) = 2"

definition isNameTaken :: "string \<Rightarrow> lobby \<Rightarrow> bool" where
  "isNameTaken n L \<longleftrightarrow> list_ex (\<lambda>c. c_name c = n) (players L)"

definition getTeamPlayers :: "nat \<Rightarrow> lobby \<Rightarrow> client list" where
  "getTeamPlayers t L = sort_key c_position (filter (\<lambda>c. c_team c = t) (players L))"

definition removePlayerUnsafe :: "client \<Rightarrow> lobby \<Rightarrow> lobby" where
  "removePlayerUnsafe c L =
     L\<lparr>players := filter (\<lambda>x. sock_id (c_socket x) \<noteq> sock_id (c_socket c)) (players L)\<rparr>"

definition removeSpectatorUnsafe :: "client \<Rightarrow> lobby \<Rightarrow> lobby" where
  "removeSpectatorUnsafe c L =
     L\<lparr>spectators := filter (\<lambda>x. sock_id (c_socket x) \<noteq> sock_id (c_socket c)) (spectators L)\<rparr>"

subsection \<open>Reservation gates and invitations\<close>

definition reserved_users :: "lobby \<Rightarrow> string list" where
  "reserved_users L = (case reservedUserIds L of None \<Rightarrow> [] | Some us \<Rightarrow> us)"

definition canAcceptInvitation :: "lobby \<Rightarrow> bool" where
  "canAcceptInvitation L \<longleftrightarrow> room_password L = [] \<and> \<not> isMatchmaking L \<and> reserved_users L = [] \<and>
     \<not> finalizing L \<and> duelState L = WAITING \<and> hasFreeSeat L"

definition invited_here :: "lobby \<Rightarrow> socket \<Rightarrow> bool" where
  "invited_here L sk \<longleftrightarrow> inviteForRoomId sk = Some (room_id L)"

definition rejectInvitation :: "socket \<Rightarrow> lobby \<Rightarrow> lobby" where
  "rejectInvitation sk L = close_socket sk (send_socket sk JoinError
     (send_socket sk (RedChat ''This invitation is no longer available for a player seat.'') L))"

definition holdsLiveSeat :: "string \<Rightarrow> lobby \<Rightarrow> bool" where
  "holdsLiveSeat u L \<longleftrightarrow> list_ex (\<lambda>c. c_user c = Some u \<and> \<not> is_closed L (c_socket c)) (players L)"

text \<open>A resolved user id that is the empty string is falsy.\<close>

definition reserved_identity :: "socket \<Rightarrow> lobby \<Rightarrow> bool" where
  "reserved_identity sk L \<longleftrightarrow>
     (case resolvedUserId sk of None \<Rightarrow> False
      | Some u \<Rightarrow> u \<noteq> [] \<and> u \<in> set (reserved_users L) \<and> \<not> holdsLiveSeat u L)"

definition reservationAdmits :: "socket \<Rightarrow> lobby \<Rightarrow> bool" where
  "reservationAdmits sk L \<longleftrightarrow>
     (if reserved_users L = [] then True
      else if internalForRoomId sk = Some (room_id L) then True
      else if watchForRoomId sk = Some (room_id L)
      then (case reservedDuel L of None \<Rightarrow> True | Some s \<Rightarrow> allowsSpectators s)
      else reserved_identity sk L)"

definition reservationPermitsSeat :: "socket \<Rightarrow> lobby \<Rightarrow> bool" where
  "reservationPermitsSeat sk L \<longleftrightarrow> reserved_users L = [] \<or> reserved_identity sk L"

definition reservedSeatFor :: "session \<Rightarrow> socket \<Rightarrow> lobby \<Rightarrow> place option" where
  "reservedSeatFor s sk L =
     (case (if internalForRoomId sk = Some (room_id L) then botSeat s else seatOfUser (resolvedUserId sk) s) of
        None \<Rightarrow> None
      | Some team \<Rightarrow>
          if list_ex (\<lambda>c. c_team c = team) (players L) then None
          else Some (if team = 0 then t0Positions (seats0 L) ! 0 else t1Positions (seats0 L) (seats1 L) ! 0, team))"

definition rejectReservedJoin :: "socket \<Rightarrow> lobby \<Rightarrow> lobby" where
  "rejectReservedJoin sk L = close_socket sk (send_socket sk JoinError
     (send_socket sk (RedChat ''This room is reserved for its matched players.'') L))"

definition sendNameTakenError :: "string \<Rightarrow> socket \<Rightarrow> lobby \<Rightarrow> lobby" where
  "sendNameTakenError n sk L = close_socket sk (send_socket sk JoinError
     (send_socket sk (RedChat (''Nickname '' @ [CHR 0x27] @ n @ [CHR 0x27] @ '' is already in use - choose another.'')) L))"

definition sendLobbyMetadata :: "socket \<Rightarrow> lobby \<Rightarrow> lobby" where
  "sendLobbyMetadata sk L =
     (if supportsLobbyMetadata sk \<and> room_password L = [] \<and> \<not> isMatchmaking L \<and> reserved_users L = [] \<and>
         \<not> finalizing L \<and> duelState L = WAITING
      then send_socket sk (LobbyMetadata (room_invite L)) L else L)"

subsection \<open>Clients entering, leaving and changing places\<close>

definition buildPlayer :: "socket \<Rightarrow> string \<Rightarrow> string option \<Rightarrow> place \<Rightarrow> lobby \<Rightarrow> client" where
  "buildPlayer sk n u p L =
     \<lparr>c_id = created L, c_name = n, c_user = u, c_position = fst p, c_team = snd p,
      c_host = (\<not> list_ex c_host (players L)), c_ready = False, c_internal = False, c_captain = False, c_deck = None,
      c_credential = None, c_socket = sk\<rparr>"

definition createSpectatorUnsafe :: "socket \<Rightarrow> string \<Rightarrow> lobby \<Rightarrow> client" where
  "createSpectatorUnsafe sk n L =
     \<lparr>c_id = created L, c_name = n, c_user = None, c_position = OBSERVER, c_team = SPECTATOR_TEAM,
      c_host = False, c_ready = False, c_internal = False, c_captain = False, c_deck = None, c_credential = None, c_socket = sk\<rparr>"

text \<open>What a newcomer is told about everyone in the room.\<close>

definition introduce_all :: "client \<Rightarrow> lobby \<Rightarrow> lobby" where
  "introduce_all c L =
     fold (\<lambda>x M. (let M1 = send_client c (PlayerEnter (c_name x) (c_position x)) M
                  in if c_deck x \<noteq> None
                     then send_client c (PlayerChange (c_position x)
                            (if c_ready x then ChangeReady else ChangeNotReady)) M1
                     else M1)) (clients L) L"

definition addPlayerUnsafe :: "client \<Rightarrow> lobby \<Rightarrow> lobby" where
  "addPlayerUnsafe c L =
     (let L1 = send_client c JoinGame L;
          L2 = L1\<lparr>players := players L1 @ [c], created := Suc (created L1)\<rparr>;
          L3 = sendLobbyMetadata (c_socket c) (send_client c (TypeChange (c_position c) (c_host c)) L2);
          L4 = introduce_all c L3;
          L5 = fold (\<lambda>x. if c_id x \<noteq> c_id c then send_client x (PlayerEnter (c_name c) (c_position c)) else id)
                 (clients L4) L4
      in sendSpectatorCount L5)"

definition addSpectatorUnsafe :: "client \<Rightarrow> lobby \<Rightarrow> lobby" where
  "addSpectatorUnsafe c L =
     (let L1 = send_client c JoinGame L;
          L2 = L1\<lparr>spectators := spectators L1 @ [c], created := Suc (created L1)\<rparr>;
          L3 = send_client c (TypeChange (c_position c) (c_host c)) L2
      in sendSpectatorCount (introduce_all c L3))"

definition playerToSpectatorUnsafe :: "client \<Rightarrow> lobby \<Rightarrow> lobby" where
  "playerToSpectatorUnsafe c L =
     (let L1 = removePlayerUnsafe c L;
          L2 = L1\<lparr>spectators := spectators L1 @ [c]\<rparr>;
          L3 = broadcastToAll (PlayerChange (c_position c) ChangeObserve) L2;
          c' = not_ready (c\<lparr>c_position := OBSERVER, c_team := SPECTATOR_TEAM\<rparr>);
          L4 = change_client (c_id c) (\<lambda>_. c') L3
      in sendSpectatorCount (send_client c' (TypeChange OBSERVER (c_host c')) L4))"

definition spectatorToPlayerUnsafe :: "client \<Rightarrow> lobby \<Rightarrow> lobby" where
  "spectatorToPlayerUnsafe c L =
     (case free_place L of None \<Rightarrow> L
      | Some p \<Rightarrow>
          (let L1 = removeSpectatorUnsafe c L;
               c' = not_ready (c\<lparr>c_position := fst p, c_team := snd p\<rparr>);
               L2 = L1\<lparr>players := players L1 @ [c']\<rparr>;
               L3 = broadcastToAll (PlayerEnter (c_name c') (c_position c')) L2;
               L4 = send_client c' (TypeChange (c_position c') (c_host c')) L3
           in sendSpectatorCount (sendLobbyMetadata (c_socket c') L4)))"

definition movePlayerToAnotherCellUnsafe :: "client \<Rightarrow> lobby \<Rightarrow> lobby" where
  "movePlayerToAnotherCellUnsafe c L =
     (if reservedDuel L \<noteq> None then L
      else case nextAvailablePosition (seats0 L) (seats1 L) (seating L) (c_position c) of
        None \<Rightarrow> L
      | Some p \<Rightarrow>
          (let L1 = change_client (c_id c) not_ready L;
               L2 = broadcastToAll (PlayerChange (c_position c) (ChangeTo (fst p))) L1;
               L3 = change_client (c_id c) (\<lambda>x. x\<lparr>c_position := fst p, c_team := snd p\<rparr>) L2;
               L4 = broadcastToAll (PlayerChange (fst p) ChangeNotReady) L3
           in send_client c (TypeChange (fst p) (c_host c)) L4))"

definition setDecksToPlayerUnsafe :: "nat \<Rightarrow> deck \<Rightarrow> lobby \<Rightarrow> lobby" where
  "setDecksToPlayerUnsafe position d L =
     (case find (\<lambda>c. c_position c = position) (players L) of None \<Rightarrow> L
      | Some c \<Rightarrow>
          broadcastToAll (PlayerChange (c_position c) ChangeReady)
            (change_client (c_id c) (\<lambda>x. x\<lparr>c_ready := True, c_deck := Some d\<rparr>) L))"

definition notReadyUnsafe :: "client \<Rightarrow> lobby \<Rightarrow> lobby" where
  "notReadyUnsafe c L =
     (if c_position c = OBSERVER then L
      else send_client c (PlayerChange (c_position c) ChangeNotReady) (change_client (c_id c) not_ready L))"

subsection \<open>Admission\<close>

definition freeSeat :: "socket \<Rightarrow> lobby \<Rightarrow> place option" where
  "freeSeat sk L =
     (if invited_here L sk \<and> \<not> canAcceptInvitation L then None
      else if watchForRoomId sk = Some (room_id L) then None
      else case reservedDuel L of Some s \<Rightarrow> reservedSeatFor s sk L | None \<Rightarrow> free_place L)"

definition seatPlayer :: "socket \<Rightarrow> player_info \<Rightarrow> credential \<Rightarrow> place \<Rightarrow> lobby \<Rightarrow> lobby" where
  "seatPlayer sk info c p L =
     (if invited_here L sk \<and> (\<not> canAcceptInvitation L \<or> is_closed L sk) then rejectInvitation sk L
      else addPlayerUnsafe ((buildPlayer sk (pi_name info) (credential_user c) p L)\<lparr>c_credential := Some c\<rparr>) L)"

definition admitSpectator :: "socket \<Rightarrow> player_info \<Rightarrow> credential \<Rightarrow> lobby \<Rightarrow> lobby" where
  "admitSpectator sk info c L =
     (if invited_here L sk then rejectInvitation sk L
      else addSpectatorUnsafe ((createSpectatorUnsafe sk (pi_name info) L)\<lparr>c_credential := Some c\<rparr>) L)"

definition rejectAdmission :: "socket \<Rightarrow> player_info \<Rightarrow> lobby \<Rightarrow> lobby" where
  "rejectAdmission sk info L =
     close_socket sk (send_socket sk JoinError
       (if given (pi_password info) then send_socket sk (RedChat ''Invalid username or password.'') L else L))"

definition AdmitToRoom_run :: "user_repository \<Rightarrow> socket \<Rightarrow> player_info \<Rightarrow> lobby \<Rightarrow> admission_result \<times> lobby" where
  "AdmitToRoom_run repo sk info L =
     (let c = CredentialResolver_resolve repo (resolvedUserId sk) info;
          r = admission_decide c (room_league L) (freeSeat sk L)
      in (r, case r of AsPlayer c' p \<Rightarrow> seatPlayer sk info c' p L
             | AsSpectator \<Rightarrow> admitSpectator sk info c L
             | RankedRequiresAccount \<Rightarrow> rejectAdmission sk info L))"

definition roomCreationNotice :: "bool \<Rightarrow> bool \<Rightarrow> frame" where
  "roomCreationNotice ranked rankingEnabled =
     (if \<not> rankingEnabled
      then Chat YELLOW (''Ranking is temporarily unavailable - this match won'' @ [CHR 0x27] @ ''t be rated.'')
      else if ranked then Chat GREEN ''Ranked room - results count toward your rating.''
      else Chat WHITE (''Casual room - results won'' @ [CHR 0x27] @ ''t affect your rating.''))"

definition sendRoomCreationNoticeToCreator :: "socket \<Rightarrow> admission_result \<Rightarrow> lobby \<Rightarrow> lobby" where
  "sendRoomCreationNoticeToCreator sk r L =
     (if (case r of AsPlayer c p \<Rightarrow> True | _ \<Rightarrow> False) \<and> sock_id sk = createdBySocketId L \<and> length (players L) = 1
      then send_socket sk (roomCreationNotice (isRanked (room_league L)) (ranking_enabled L)) L else L)"

text \<open>The gates before the mutex, and the part that runs once the mutex is acquired.\<close>

definition admit :: "socket \<Rightarrow> player_info \<Rightarrow> lobby \<Rightarrow> lobby" where
  "admit sk info L =
     (if \<not> reservationAdmits sk L then rejectReservedJoin sk L
      else if isNameTaken (pi_name info) L then sendNameTakenError (pi_name info) sk L
      else L\<lparr>queued := queued L @ [(sk, info)]\<rparr>)"

definition admit_exclusive :: "user_repository \<Rightarrow> socket \<Rightarrow> player_info \<Rightarrow> lobby \<Rightarrow> lobby" where
  "admit_exclusive repo sk info L =
     (if invited_here L sk \<and> \<not> canAcceptInvitation L then rejectInvitation sk L
      else case AdmitToRoom_run repo sk info L of (r, L') \<Rightarrow> sendRoomCreationNoticeToCreator sk r L')"

definition run_queued :: "user_repository \<Rightarrow> lobby \<Rightarrow> lobby" where
  "run_queued repo L =
     (case queued L of [] \<Rightarrow> L | (sk, info) # rest \<Rightarrow> admit_exclusive repo sk info (L\<lparr>queued := rest\<rparr>))"

definition handleJoin :: "bool \<Rightarrow> socket \<Rightarrow> player_info \<Rightarrow> lobby \<Rightarrow> lobby" where
  "handleJoin version_ok sk info L =
     (if \<not> version_ok then close_socket sk (send_socket sk VersionError L) else admit sk info L)"

definition handleMatchAdmit :: "player_info \<Rightarrow> socket \<Rightarrow> lobby \<Rightarrow> lobby" where
  "handleMatchAdmit info sk L = admit sk info L"

subsection \<open>Starting the match\<close>

definition deck_count :: "deck option \<Rightarrow> nat \<times> nat \<times> nat" where
  "deck_count d = (case d of None \<Rightarrow> (0, 0, 0)
     | Some d \<Rightarrow> (length (main_deck d), length (extra_deck d), length (side_deck d)))"

text \<open>\<open>None\<close> when a team has no player: reading the deck of \<open>undefined\<close> throws. For a spectator,
  whose team is 3, both counts are those of a missing deck.\<close>

definition sendDeckCountMessage :: "client \<Rightarrow> lobby \<Rightarrow> lobby option" where
  "sendDeckCountMessage c L =
     (case (getTeamPlayers 0 L, getTeamPlayers 1 L) of
        (a # _, b # _) \<Rightarrow>
          (let own = (if c_team c = 0 then c_deck a else if c_team c = 1 then c_deck b else None);
               other = (if c_team c = 0 then c_deck b else if c_team c = 1 then c_deck a else None)
           in Some (send_client c (DeckCount (deck_count own) (deck_count other)) L))
      | _ \<Rightarrow> None)"

fun announce_start :: "client list \<Rightarrow> lobby \<Rightarrow> bool \<times> lobby" where
  "announce_start [] L = (True, L)"
| "announce_start (c # cs) L =
     (let L1 = send_client c DuelStart L
      in case sendDeckCountMessage c L1 of None \<Rightarrow> (False, L1) | Some L2 \<Rightarrow> announce_start cs L2)"

definition captain :: "client \<Rightarrow> client" where
  "captain c = c\<lparr>c_captain := True\<rparr>"

text \<open>The first player of each team chooses for its team.\<close>

definition name_captains :: "lobby \<Rightarrow> lobby" where
  "name_captains L = (case (getTeamPlayers 0 L, getTeamPlayers 1 L) of
     (a # _, b # _) \<Rightarrow> change_client (c_id b) captain (change_client (c_id a) captain L)
   | _ \<Rightarrow> L)"

definition toRPS :: "lobby \<Rightarrow> lobby" where
  "toRPS L = (case (getTeamPlayers 0 L, getTeamPlayers 1 L) of
     (a # _, b # _) \<Rightarrow> send_client b SelectHand (send_client a SelectHand (name_captains L))
   | _ \<Rightarrow> L)"

text \<open>The fresh match id is a serial number.\<close>

definition createMatchUnsafe :: "lobby \<Rightarrow> lobby" where
  "createMatchUnsafe L =
     L\<lparr>room_match := Some (initializeHistoricalData
         (map (\<lambda>c. \<lparr>player_id = c_user c, player_name = c_name c, player_team = c_team c, games = []\<rparr>) (players L))
         (new_match (room_bestOf L))), match_serial := Suc (match_serial L), duelIds := []\<rparr>"

text \<open>\<open>False\<close> when the handler throws; the frames sent until then stay sent.\<close>

definition startMatch :: "lobby \<Rightarrow> bool \<times> lobby" where
  "startMatch L =
     (case announce_start (clients L) L of
        (False, L1) \<Rightarrow> (False, L1)
      | (True, L1) \<Rightarrow>
          (let L2 = (if \<not> noReconnect L1 then fold (\<lambda>c. send_client c ReconnectionToken) (players L1) L1 else L1)
           in (True, (createMatchUnsafe (toRPS L2))\<lparr>duelState := RPS\<rparr>)))"

definition handleTryStart :: "client \<Rightarrow> lobby \<Rightarrow> bool \<times> lobby" where
  "handleTryStart c L =
     (if reservedDuel L \<noteq> None then (True, L)
      else if \<not> c_host c then (True, L)
      else if \<not> allPlayersReady L then (True, L)
      else startMatch L)"

definition startReservedDuelWhenReady :: "lobby \<Rightarrow> bool \<times> lobby" where
  "startReservedDuelWhenReady L =
     (if reservedDuel L = None \<or> \<not> isPlayersFull L \<or> \<not> allPlayersReady L then (True, L) else startMatch L)"

subsection \<open>Messages of the clients\<close>

definition handleToObserver :: "client \<Rightarrow> lobby \<Rightarrow> lobby" where
  "handleToObserver c L =
     (if isSpectator c \<or> reservedDuel L \<noteq> None then L
      else if \<not> c_host c then playerToSpectatorUnsafe c L else L)"

definition credential_of :: "client \<Rightarrow> credential" where
  "credential_of c = (case c_credential c of None \<Rightarrow> Guest (c_name c) | Some cr \<Rightarrow> cr)"

definition handleToDuel :: "client \<Rightarrow> lobby \<Rightarrow> lobby" where
  "handleToDuel c L =
     (if reservedDuel L \<noteq> None then L
      else if isSpectator c then
        (if \<not> admitsAsPlayer (room_league L) (credential_of c) then L
         else if \<not> reservationPermitsSeat (c_socket c) L then L
         else spectatorToPlayerUnsafe c L)
      else movePlayerToAnotherCellUnsafe c L)"

definition shouldValidateDeck :: "lobby \<Rightarrow> bool" where
  "shouldValidateDeck L \<longleftrightarrow> reservedDuel L \<noteq> None \<or> \<not> no_check_deck L"

definition deck_refused :: "deck_error \<Rightarrow> client \<Rightarrow> lobby \<Rightarrow> lobby" where
  "deck_refused e c L = send_client c (DeckErrorFrame (error_type e) (error_code e)) (notReadyUnsafe c L)"

definition honoursReservedDeck :: "session \<Rightarrow> client \<Rightarrow> deck \<Rightarrow> lobby \<Rightarrow> bool \<times> lobby" where
  "honoursReservedDeck s c d L =
     (if locksReadyDeck s \<and> c_ready c then (False, L)
      else if acceptsDeck (c_team c) (toCardCodes d) s then (True, L)
      else (False, send_client c (DeckErrorFrame 0 0)
             (send_client c (RedChat ''This duel requires the deck assigned to your seat.'') (notReadyUnsafe c L))))"

definition take_deck :: "client \<Rightarrow> deck \<Rightarrow> lobby \<Rightarrow> bool \<times> lobby" where
  "take_deck c d L = startReservedDuelWhenReady (setDecksToPlayerUnsafe (c_position c) d L)"

text \<open>The outcome of the deck builder and of the deck validator are arguments.\<close>

definition handleUpdateDeck ::
  "deck_error + deck \<Rightarrow> (deck \<Rightarrow> deck_error option) \<Rightarrow> client \<Rightarrow> lobby \<Rightarrow> bool \<times> lobby" where
  "handleUpdateDeck built validate c L =
     (if isSpectator c then (True, L)
      else case built of
        Inl e \<Rightarrow> (True, deck_refused e c L)
      | Inr d \<Rightarrow>
          if c_internal c then take_deck c d L
          else case (if shouldValidateDeck L then validate d else None) of
            Some e \<Rightarrow> (True, deck_refused e c L)
          | None \<Rightarrow>
              (case reservedDuel L of
                 None \<Rightarrow> take_deck c d L
               | Some s \<Rightarrow>
                   (case honoursReservedDeck s c d L of
                      (True, L1) \<Rightarrow> take_deck c d L1
                    | (False, L1) \<Rightarrow> (True, L1))))"

definition handleNotReady :: "client \<Rightarrow> lobby \<Rightarrow> lobby" where
  "handleNotReady c L = notReadyUnsafe c L"

subsection \<open>Closing sockets and rooms\<close>

text \<open>The removal takes the mutex, so the frame goes out while the leaver is still listed.\<close>

definition playerLeave :: "client \<Rightarrow> lobby \<Rightarrow> lobby" where
  "playerLeave c L = removePlayerUnsafe c (broadcastToAll (PlayerChange (c_position c) ChangeLeave) L)"

definition spectatorLeave :: "client \<Rightarrow> lobby \<Rightarrow> lobby" where
  "spectatorLeave c L = sendSpectatorCount (removeSpectatorUnsafe c L)"

definition finalize_room :: "abandon option \<Rightarrow> lobby \<Rightarrow> lobby" where
  "finalize_room ab L =
     (if finalizing L then L
      else let ab' = (case ab of None \<Rightarrow> \<lparr>ab_seat = None, ab_reason = RoomClosed, ab_started = False\<rparr> | Some a \<Rightarrow> a);
               L1 = L\<lparr>finalizing := True, reservedDuel := map_option (close_session ab') (reservedDuel L)\<rparr>
           in fold (\<lambda>c M. if is_closed M (c_socket c) then M
                          else close_socket (c_socket c)
                            (if duelState L \<noteq> WAITING then send_client c DuelEnd M else M)) (clients L1) L1)"

definition noHumanLeft :: "lobby \<Rightarrow> bool" where
  "noHumanLeft L \<longleftrightarrow> list_all (\<lambda>c. c_internal c \<or> is_closed L (c_socket c)) (players L)"

definition seat_abandon :: "nat option \<Rightarrow> abandon_reason \<Rightarrow> abandon" where
  "seat_abandon s r = \<lparr>ab_seat = s, ab_reason = r, ab_started = False\<rparr>"

definition player_on :: "string \<Rightarrow> lobby \<Rightarrow> client option" where
  "player_on i L = find (\<lambda>c. sock_id (c_socket c) = i) (players L)"

definition closeReservedDuel :: "string \<Rightarrow> lobby \<Rightarrow> bool \<times> lobby" where
  "closeReservedDuel i L =
     (case player_on i L of None \<Rightarrow> (False, L)
      | Some c \<Rightarrow>
          if c_internal c then (True, finalize_room (Some (seat_abandon None BotUnavailable)) L)
          else if hasNoConnectedPlayers L \<or> noHumanLeft L
          then (True, finalize_room (Some (seat_abandon (Some (c_team c)) Disconnect)) L)
          else if noReconnect L then (True, finalize_room (Some (seat_abandon (Some (c_team c)) Disconnect)) L)
          else (False, L))"

text \<open>The policy of a room still waiting; the grace window a leaver gets between duels and in a
  duel is in theory \<open>Phases\<close>. A matchmaking room is finalized after its queue entries are released.\<close>

definition onDisconnect :: "string \<Rightarrow> lobby \<Rightarrow> lobby" where
  "onDisconnect i L0 =
     (let L = L0\<lparr>closed_sockets := set_add i (closed_sockets L0)\<rparr> in
      if duelState L \<noteq> WAITING then L
      else if isMatchmaking L then finalize_room None L
      else case (if reservedDuel L \<noteq> None then closeReservedDuel i L else (False, L)) of
        (True, L') \<Rightarrow> L'
      | (False, L') \<Rightarrow>
          if hasNoConnectedPlayers L' then finalize_room None L'
          else (case player_on i L' of
                  None \<Rightarrow> (case find (\<lambda>c. sock_id (c_socket c) = i) (spectators L') of
                             None \<Rightarrow> L' | Some c \<Rightarrow> spectatorLeave c L')
                | Some c \<Rightarrow> if noHost L' then finalize_room None L' else playerLeave c L'))"

end
