(* ===== verification/LobbyLaws.thy ===== *)
theory LobbyLaws
  imports Lobby
begin

text \<open>
  What the operations of the lobby do to its state. Most of each operation sends frames; \<open>frames\<close>
  says that nothing else changed, and every operation gets a lemma with its exact effect up to the
  frames sent. On these rests the invariant \<open>lobby_inv\<close>, kept by every step.
\<close>

subsection \<open>Steps that only send\<close>

definition frames :: "lobby \<Rightarrow> lobby \<Rightarrow> bool" where
  "frames L L' \<longleftrightarrow> (\<exists>fs. L' = L\<lparr>sent := sent L @ fs\<rparr>)"

named_theorems frames_intro

lemma frames_refl [frames_intro]: "frames L L"
  unfolding frames_def by (rule exI [of _ "[]"]) simp

lemma frames_trans: "frames L L' \<Longrightarrow> frames L' L'' \<Longrightarrow> frames L L''"
  by (auto simp: frames_def)

lemma frames_socket [frames_intro]: "frames L (send_socket sk f L)"
  unfolding frames_def send_socket_def by (rule exI) (rule refl)

lemma frames_client [frames_intro]: "frames L (send_client c f L)"
  unfolding send_client_def by (rule frames_socket)

lemma frames_fold: "(\<And>x L. x \<in> set xs \<Longrightarrow> frames L (g x L)) \<Longrightarrow> frames L (fold g xs L)"
proof (induction xs arbitrary: L)
  case (Cons x xs)
  have "frames (g x L) (fold g xs (g x L))"
    by (rule Cons.IH) (simp add: Cons.prems)
  then show ?case
    using frames_trans Cons.prems [of x L] by simp
qed (simp add: frames_refl)

lemma frames_broadcast [frames_intro]: "frames L (broadcastToAll f L)"
  unfolding broadcastToAll_def
  by (rule frames_trans [OF frames_fold frames_fold]) (rule frames_client)+

lemma frames_count [frames_intro]: "frames L (sendSpectatorCount L)"
  unfolding sendSpectatorCount_def by (rule frames_broadcast)

lemma frames_metadata [frames_intro]: "frames L (sendLobbyMetadata sk L)"
  by (simp add: sendLobbyMetadata_def frames_intro)

lemma frames_introduce [frames_intro]: "frames L (introduce_all c L)"
  unfolding introduce_all_def
proof (rule frames_fold)
  fix x M
  show "frames M (let M1 = send_client c (PlayerEnter (c_name x) (c_position x)) M
     in if c_deck x \<noteq> None
        then send_client c (PlayerChange (c_position x) (if c_ready x then ChangeReady else ChangeNotReady)) M1 else M1)"
    using frames_trans [OF frames_client frames_client] by (simp add: Let_def frames_client)
qed

lemma frames_notice [frames_intro]: "frames L (sendRoomCreationNoticeToCreator sk r L)"
  by (simp add: sendRoomCreationNoticeToCreator_def frames_intro)

lemma frames_toRPS [frames_intro]: "frames (name_captains L) (toRPS L)"
  by (auto simp: toRPS_def name_captains_def frames_intro intro: frames_trans [OF frames_client frames_client]
      split: list.splits)

lemma frames_announce: "frames L (snd (announce_start cs L))"
proof (induction cs arbitrary: L)
  case (Cons c cs)
  have s: "sendDeckCountMessage c M = Some M' \<Longrightarrow> frames M M'" for M M'
    by (auto simp: sendDeckCountMessage_def Let_def frames_intro split: list.splits)
  show ?case
    using frames_trans [OF frames_client s [THEN frames_trans], OF _ Cons.IH] frames_client
    by (auto simp: Let_def split: option.splits)
qed (simp add: frames_refl)

subsection \<open>Effects of the operations, up to the frames sent\<close>

lemma addPlayer_effect: "frames (L\<lparr>players := players L @ [c], created := Suc (created L)\<rparr>) (addPlayerUnsafe c L)"
proof -
  let ?N = "L\<lparr>players := players L @ [c], created := Suc (created L)\<rparr>"
  define L2 where "L2 = (send_client c JoinGame L)
    \<lparr>players := players (send_client c JoinGame L) @ [c], created := Suc (created (send_client c JoinGame L))\<rparr>"
  define L4 where "L4 = introduce_all c (sendLobbyMetadata (c_socket c) (send_client c (TypeChange (c_position c) (c_host c)) L2))"
  have n: "frames ?N L2"
    by (cases L) (simp add: frames_def L2_def send_client_def send_socket_def)
  have a: "frames L2 L4"
    unfolding L4_def
    by (rule frames_trans [OF frames_client frames_trans [OF frames_metadata frames_introduce]])
  have "frames L4 (fold (\<lambda>x. if c_id x \<noteq> c_id c then send_client x (PlayerEnter (c_name c) (c_position c)) else id) (clients L4) L4)"
    by (rule frames_fold) (simp add: frames_intro)
  then have "frames L2 (addPlayerUnsafe c L)"
    using frames_trans [OF a frames_trans [OF _ frames_count]]
    by (simp add: addPlayerUnsafe_def Let_def L2_def L4_def)
  then show ?thesis
    by (rule frames_trans [OF n])
qed

lemma addSpectator_effect:
  "frames (L\<lparr>spectators := spectators L @ [c], created := Suc (created L)\<rparr>) (addSpectatorUnsafe c L)"
proof -
  let ?N = "L\<lparr>spectators := spectators L @ [c], created := Suc (created L)\<rparr>"
  define L2 where "L2 = (send_client c JoinGame L)
    \<lparr>spectators := spectators (send_client c JoinGame L) @ [c], created := Suc (created (send_client c JoinGame L))\<rparr>"
  have n: "frames ?N L2"
    by (cases L) (simp add: frames_def L2_def send_client_def send_socket_def)
  have "frames L2 (addSpectatorUnsafe c L)"
    using frames_trans [OF frames_client frames_trans [OF frames_introduce frames_count]]
    by (simp add: addSpectatorUnsafe_def Let_def L2_def)
  then show ?thesis
    by (rule frames_trans [OF n])
qed

lemma change_other: "i \<notin> c_id ` set cs \<Longrightarrow> map (\<lambda>c. if c_id c = i then f c else c) cs = cs"
  by (induction cs) auto

lemma frames_change: "frames L L' \<Longrightarrow> frames (change_client i f L) (change_client i f L')"
  by (cases L) (auto simp: frames_def change_client_def Let_def)

lemma playerToSpectator_effect:
  assumes "distinct (map c_id (clients L))" and "c \<in> set (players L)"
  shows "frames (L\<lparr>players := filter (\<lambda>x. sock_id (c_socket x) \<noteq> sock_id (c_socket c)) (players L),
      spectators := spectators L @ [not_ready (c\<lparr>c_position := OBSERVER, c_team := SPECTATOR_TEAM\<rparr>)]\<rparr>)
    (playerToSpectatorUnsafe c L)"
proof -
  let ?c = "not_ready (c\<lparr>c_position := OBSERVER, c_team := SPECTATOR_TEAM\<rparr>)"
  let ?P = "filter (\<lambda>x. sock_id (c_socket x) \<noteq> sock_id (c_socket c)) (players L)"
  let ?L2 = "L\<lparr>players := ?P, spectators := spectators L @ [c]\<rparr>"
  have "x = c" if "x \<in> set (players L)" "c_id x = c_id c" for x
    using assms that by (auto simp: clients_def inj_on_def distinct_map)
  then have p: "c_id c \<notin> c_id ` set ?P"
    by auto
  have s: "c_id c \<notin> c_id ` set (spectators L)"
    using assms by (auto simp: clients_def)
  have n: "change_client (c_id c) (\<lambda>_. ?c) ?L2 = L\<lparr>players := ?P, spectators := spectators L @ [?c]\<rparr>"
    using change_other [OF p, of "\<lambda>_. ?c"] change_other [OF s, of "\<lambda>_. ?c"]
    by (simp add: change_client_def Let_def)
  show ?thesis
    unfolding playerToSpectatorUnsafe_def removePlayerUnsafe_def Let_def
    using frames_trans [OF frames_change [OF frames_broadcast] frames_trans [OF frames_client frames_count]]
    by (simp add: n [symmetric])
qed

lemma spectatorToPlayer_effect:
  assumes "free_place L = Some p"
  shows "frames (L\<lparr>spectators := filter (\<lambda>x. sock_id (c_socket x) \<noteq> sock_id (c_socket c)) (spectators L),
      players := players L @ [not_ready (c\<lparr>c_position := fst p, c_team := snd p\<rparr>)]\<rparr>) (spectatorToPlayerUnsafe c L)"
  using frames_trans [OF frames_broadcast frames_trans [OF frames_client frames_trans [OF frames_metadata frames_count]]]
  by (simp add: spectatorToPlayerUnsafe_def assms removeSpectatorUnsafe_def Let_def)

lemma move_effect:
  assumes "reservedDuel L = None" and "nextAvailablePosition (seats0 L) (seats1 L) (seating L) (c_position c) = Some p"
  shows "frames (change_client (c_id c) (\<lambda>x. not_ready (x\<lparr>c_position := fst p, c_team := snd p\<rparr>)) L)
    (movePlayerToAnotherCellUnsafe c L)"
proof -
  let ?g = "\<lambda>x. x\<lparr>c_position := fst p, c_team := snd p\<rparr>"
  have n: "change_client (c_id c) ?g (change_client (c_id c) not_ready L) =
      change_client (c_id c) (\<lambda>x. not_ready (?g x)) L"
    by (auto simp: change_client_def Let_def not_ready_def)
  show ?thesis
    unfolding movePlayerToAnotherCellUnsafe_def assms Let_def
    using frames_trans [OF frames_change [OF frames_broadcast] frames_trans [OF frames_broadcast frames_client]]
    by (simp add: n [symmetric])
qed

lemma setDecks_effect:
  "frames (case find (\<lambda>c. c_position c = i) (players L) of None \<Rightarrow> L
     | Some c \<Rightarrow> change_client (c_id c) (\<lambda>x. x\<lparr>c_ready := True, c_deck := Some d\<rparr>) L) (setDecksToPlayerUnsafe i d L)"
  by (simp add: setDecksToPlayerUnsafe_def frames_intro split: option.split)

lemma notReady_effect:
  "frames (if c_position c = OBSERVER then L else change_client (c_id c) not_ready L) (notReadyUnsafe c L)"
  by (simp add: notReadyUnsafe_def frames_intro)

lemma frames_captains: "frames L L' \<Longrightarrow> frames (name_captains L) (name_captains L')"
proof -
  assume f: "frames L L'"
  then have "getTeamPlayers t L' = getTeamPlayers t L" for t
    by (auto simp: frames_def getTeamPlayers_def)
  then show ?thesis
    using f frames_change [OF frames_change [OF f]] by (simp add: name_captains_def split: list.split)
qed

lemma startMatch_effect:
  "frames (if fst (startMatch L) then (createMatchUnsafe (name_captains L))\<lparr>duelState := RPS\<rparr> else L)
     (snd (startMatch L))"
proof -
  obtain ok L1 where a: "announce_start (clients L) L = (ok, L1)"
    by (cases "announce_start (clients L) L")
  have f: "frames L L1"
    using frames_announce [of L "clients L"] a by simp
  define L2 where "L2 = (if \<not> noReconnect L1 then fold (\<lambda>c. send_client c ReconnectionToken) (players L1) L1 else L1)"
  have "frames L1 L2"
    unfolding L2_def by (simp add: frames_refl frames_fold frames_client)
  then have g: "frames (name_captains L) (toRPS L2)"
    using frames_trans [OF frames_captains [OF frames_trans [OF f]] frames_toRPS] by blast
  have m: "frames ((createMatchUnsafe N)\<lparr>duelState := RPS\<rparr>) ((createMatchUnsafe N')\<lparr>duelState := RPS\<rparr>)"
    if "frames N N'" for N N'
    using that by (cases N) (auto simp: frames_def createMatchUnsafe_def)
  show ?thesis
    using f m [OF g] by (cases ok) (simp_all add: startMatch_def a L2_def [symmetric])
qed

subsection \<open>The invariant of a lobby\<close>

definition given_seat :: "lobby \<Rightarrow> session \<Rightarrow> socket \<Rightarrow> nat option" where
  "given_seat L s sk = (if internalForRoomId sk = Some (room_id L) then botSeat s else seatOfUser (resolvedUserId sk) s)"

definition on_reserved_seat :: "lobby \<Rightarrow> client \<Rightarrow> bool" where
  "on_reserved_seat L c \<longleftrightarrow> (case reservedDuel L of None \<Rightarrow> True | Some s \<Rightarrow> given_seat L s (c_socket c) = Some (c_team c))"

definition reserved_room_ok :: "lobby \<Rightarrow> bool" where
  "reserved_room_ok L \<longleftrightarrow> (case reservedDuel L of None \<Rightarrow> True
     | Some s \<Rightarrow> seats0 L = 1 \<and> seats1 L = 1 \<and> reservation_ok (reservation_of s))"

definition lobby_inv :: "lobby \<Rightarrow> bool" where
  "lobby_inv L \<longleftrightarrow> distinct (map c_id (clients L)) \<and> (\<forall>c \<in> set (clients L). c_id c < created L) \<and>
     seats_ok (seats0 L) (seats1 L) (seating L) \<and>
     (\<forall>c \<in> set (players L). admitsAsPlayer (room_league L) (credential_of c) \<and> on_reserved_seat L c) \<and>
     (\<forall>c \<in> set (spectators L). isSpectator c) \<and> reserved_room_ok L"

text \<open>States that agree on all the invariant speaks of.\<close>

definition same_room :: "lobby \<Rightarrow> lobby \<Rightarrow> bool" where
  "same_room L L' \<longleftrightarrow> seats0 L' = seats0 L \<and> seats1 L' = seats1 L \<and> room_league L' = room_league L \<and>
     room_id L' = room_id L \<and> map_option reservation_of (reservedDuel L') = map_option reservation_of (reservedDuel L)"

definition same_lobby :: "lobby \<Rightarrow> lobby \<Rightarrow> bool" where
  "same_lobby L L' \<longleftrightarrow> same_room L L' \<and> players L' = players L \<and> spectators L' = spectators L \<and> created L' = created L"

lemma same_room_refl [simp]: "same_room L L"
  by (simp add: same_room_def)

lemma same_room_trans: "same_room L L' \<Longrightarrow> same_room L' L'' \<Longrightarrow> same_room L L''"
  by (simp add: same_room_def)

lemma same_lobby_refl [simp]: "same_lobby L L"
  by (simp add: same_lobby_def)

lemma same_lobby_trans: "same_lobby L L' \<Longrightarrow> same_lobby L' L'' \<Longrightarrow> same_lobby L L''"
  by (simp add: same_lobby_def same_room_def)

lemma frames_same: "frames L L' \<Longrightarrow> same_lobby L L'"
  by (auto simp: frames_def same_lobby_def same_room_def)

lemma same_reservation:
  "map_option reservation_of s' = map_option reservation_of s \<Longrightarrow>
     (case s' of None \<Rightarrow> True | Some x \<Rightarrow> P (reservation_of x)) = (case s of None \<Rightarrow> True | Some x \<Rightarrow> P (reservation_of x))"
  by (cases s; cases s') auto

lemma given_seat_reservation:
  "reservation_of s = reservation_of s' \<Longrightarrow> room_id L = room_id L' \<Longrightarrow> given_seat L s sk = given_seat L' s' sk"
  by (simp add: given_seat_def botSeat_def bots_def seatOfUser_def users_def)

lemma same_room_seat: "same_room L L' \<Longrightarrow> on_reserved_seat L' c = on_reserved_seat L c"
  using given_seat_reservation [of _ _ L' L "c_socket c"]
  by (cases "reservedDuel L"; cases "reservedDuel L'") (auto simp: same_room_def on_reserved_seat_def)

lemma same_room_ok: "same_room L L' \<Longrightarrow> reserved_room_ok L' = reserved_room_ok L"
  by (cases "reservedDuel L"; cases "reservedDuel L'") (auto simp: same_room_def reserved_room_ok_def)

lemma same_lobby_inv: "same_lobby L L' \<Longrightarrow> lobby_inv L' = lobby_inv L"
  using same_room_seat [of L L'] same_room_ok [of L L']
  by (simp add: same_lobby_def same_room_def lobby_inv_def clients_def seating_def)

lemma frames_inv: "frames L L' \<Longrightarrow> lobby_inv L \<Longrightarrow> lobby_inv L'"
  using same_lobby_inv [OF frames_same] by simp

lemma inv_add_player:
  assumes "lobby_inv L" and "c_id c = created L" and "seat_of_team (seats0 L) (seats1 L) (c_position c, c_team c)"
    and "(c_position c, c_team c) \<notin> set (seating L)" and "admitsAsPlayer (room_league L) (credential_of c)"
    and "on_reserved_seat L c"
  shows "lobby_inv (L\<lparr>players := players L @ [c], created := Suc (created L)\<rparr>)"
proof -
  let ?N = "L\<lparr>players := players L @ [c], created := Suc (created L)\<rparr>"
  have r: "same_room L ?N" by (simp add: same_room_def)
  have "seats_ok (seats0 L) (seats1 L) (seating ?N)"
    using seats_ok_snoc [of "seats0 L" "seats1 L" "seating L" "(c_position c, c_team c)"] assms
    by (simp add: seating_def lobby_inv_def)
  then show ?thesis
    using assms same_room_seat [OF r] same_room_ok [OF r]
    by (auto simp: lobby_inv_def clients_def less_Suc_eq)
qed

lemma inv_add_spectator:
  assumes "lobby_inv L" and "c_id c = created L" and "isSpectator c"
  shows "lobby_inv (L\<lparr>spectators := spectators L @ [c], created := Suc (created L)\<rparr>)"
proof -
  let ?N = "L\<lparr>spectators := spectators L @ [c], created := Suc (created L)\<rparr>"
  have r: "same_room L ?N" by (simp add: same_room_def)
  show ?thesis
    using assms same_room_seat [OF r] same_room_ok [OF r]
    by (auto simp: lobby_inv_def clients_def less_Suc_eq seating_def)
qed

lemma inv_remove:
  assumes "lobby_inv L"
  shows "lobby_inv (L\<lparr>players := filter P (players L), spectators := filter Q (spectators L)\<rparr>)"
proof -
  let ?N = "L\<lparr>players := filter P (players L), spectators := filter Q (spectators L)\<rparr>"
  have r: "same_room L ?N" by (simp add: same_room_def)
  have "seats_ok (seats0 L) (seats1 L) (seating ?N)"
    using assms by (auto simp: lobby_inv_def seating_def seats_ok_def o_def distinct_map_filter)
  then show ?thesis
    using assms same_room_seat [OF r] same_room_ok [OF r]
    by (auto simp: lobby_inv_def clients_def distinct_map_filter)
qed

text \<open>A player who becomes a spectator, a spectator who sits down, a player who changes cells.\<close>

lemma inv_to_spectator:
  assumes "lobby_inv L" and "c \<in> set (players L)" and "isSpectator c'" and "c_id c' = c_id c" and "\<not> P c"
  shows "lobby_inv (L\<lparr>players := filter P (players L), spectators := spectators L @ [c']\<rparr>)"
proof -
  let ?N = "L\<lparr>players := filter P (players L), spectators := spectators L @ [c']\<rparr>"
  have r: "same_room L ?N" by (simp add: same_room_def)
  have "seats_ok (seats0 L) (seats1 L) (seating ?N)"
    using assms(1) by (auto simp: lobby_inv_def seating_def seats_ok_def o_def distinct_map_filter)
  moreover have "c_id c \<notin> c_id ` set (filter P (players L))"
    using assms(1,2,5) by (auto simp: lobby_inv_def clients_def inj_on_def distinct_map)
  ultimately show ?thesis
    using assms same_room_seat [OF r] same_room_ok [OF r]
    by (auto simp: lobby_inv_def clients_def distinct_map_filter)
qed

lemma inv_to_player:
  assumes "lobby_inv L" and "c \<in> set (spectators L)" and "c_id c' = c_id c" and "\<not> P c"
    and "seat_of_team (seats0 L) (seats1 L) (c_position c', c_team c')"
    and "(c_position c', c_team c') \<notin> set (seating L)"
    and "admitsAsPlayer (room_league L) (credential_of c')" and "on_reserved_seat L c'"
  shows "lobby_inv (L\<lparr>spectators := filter P (spectators L), players := players L @ [c']\<rparr>)"
proof -
  let ?N = "L\<lparr>spectators := filter P (spectators L), players := players L @ [c']\<rparr>"
  have r: "same_room L ?N" by (simp add: same_room_def)
  have "seats_ok (seats0 L) (seats1 L) (seating ?N)"
    using seats_ok_snoc [of "seats0 L" "seats1 L" "seating L" "(c_position c', c_team c')"] assms
    by (simp add: seating_def lobby_inv_def)
  moreover have "c_id c \<notin> c_id ` set (filter P (spectators L))"
    using assms(1,2,4) by (auto simp: lobby_inv_def clients_def inj_on_def distinct_map)
  ultimately show ?thesis
    using assms same_room_seat [OF r] same_room_ok [OF r]
    by (auto simp: lobby_inv_def clients_def distinct_map_filter)
qed

text \<open>An update of one client object that leaves its place, credential and socket alone.\<close>

definition minor :: "(client \<Rightarrow> client) \<Rightarrow> bool" where
  "minor f \<longleftrightarrow> (\<forall>c. c_id (f c) = c_id c \<and> c_position (f c) = c_position c \<and> c_team (f c) = c_team c \<and>
     c_credential (f c) = c_credential c \<and> c_name (f c) = c_name c \<and> c_socket (f c) = c_socket c)"

lemma minor_not_ready: "minor not_ready"
  by (simp add: minor_def not_ready_def)

lemma inv_minor:
  assumes "lobby_inv L" and "minor f"
  shows "lobby_inv (change_client i f L)"
proof -
  let ?N = "change_client i f L" and ?g = "\<lambda>c. if c_id c = i then f c else c"
  have N: "players ?N = map ?g (players L)" "spectators ?N = map ?g (spectators L)" "created ?N = created L"
    by (simp_all add: change_client_def Let_def)
  have r: "same_room L ?N" by (simp add: same_room_def change_client_def Let_def)
  have g: "c_id (?g c) = c_id c" "c_position (?g c) = c_position c" "c_team (?g c) = c_team c"
    "c_socket (?g c) = c_socket c" "credential_of (?g c) = credential_of c" for c
    using assms(2) by (auto simp: minor_def credential_of_def split: option.split)
  have "map c_id (map ?g cs) = map c_id cs" for cs
    using g(1) by simp
  then have ids: "map c_id (clients ?N) = map c_id (clients L)"
    by (simp add: clients_def N del: map_map)
  have "seating ?N = seating L"
    using g(2,3) by (simp add: seating_def N)
  moreover have "\<forall>c \<in> set (clients ?N). c_id c < created L"
    using ids assms(1) by (metis (mono_tags, lifting) imageE image_eqI list.set_map lobby_inv_def)
  moreover have "admitsAsPlayer (room_league L) (credential_of x) \<and> on_reserved_seat ?N x" if "x \<in> set (players ?N)" for x
  proof -
    obtain y where "y \<in> set (players L)" "x = ?g y"
      using \<open>x \<in> set (players ?N)\<close> unfolding N(1) set_map by blast
    moreover have "on_reserved_seat ?N (?g y) = on_reserved_seat L y"
      unfolding same_room_seat [OF r] by (simp only: on_reserved_seat_def g(3,4))
    ultimately show ?thesis
      using assms(1) g(5) [of y] by (simp add: lobby_inv_def del: if_split)
  qed
  moreover have "isSpectator x" if "x \<in> set (spectators ?N)" for x
  proof -
    obtain y where "y \<in> set (spectators L)" "x = ?g y"
      using \<open>x \<in> set (spectators ?N)\<close> unfolding N(2) set_map by blast
    then show ?thesis
      using assms(1) g(3) [of y] by (simp add: lobby_inv_def isSpectator_def del: if_split)
  qed
  ultimately show ?thesis
    using assms(1) same_room_ok [OF r] r ids N(3) unfolding lobby_inv_def same_room_def by simp
qed

lemma inv_move:
  assumes "lobby_inv L" and "c \<in> set (players L)" and "reservedDuel L = None"
    and "seat_of_team (seats0 L) (seats1 L) p" and "fst p \<notin> fst ` set (seating L)"
  shows "lobby_inv (change_client (c_id c) (\<lambda>x. not_ready (x\<lparr>c_position := fst p, c_team := snd p\<rparr>)) L)"
proof -
  let ?f = "\<lambda>x. not_ready (x\<lparr>c_position := fst p, c_team := snd p\<rparr>)"
  let ?g = "\<lambda>x. if c_id x = c_id c then ?f x else x"
  let ?N = "change_client (c_id c) ?f L"
  have d: "distinct (map c_id (clients L))"
    using assms(1) by (simp add: lobby_inv_def)
  have sp: "c_id c \<notin> c_id ` set (spectators L)"
    using d assms(2) by (auto simp: clients_def)
  have N: "players ?N = map ?g (players L)" "spectators ?N = spectators L" "created ?N = created L"
    using change_other [OF sp] by (simp_all add: change_client_def Let_def)
  have r: "same_room L ?N" by (simp add: same_room_def change_client_def Let_def)
  have "map c_id (map ?g cs) = map c_id cs" for cs
    by (simp add: not_ready_def)
  then have ids: "map c_id (clients ?N) = map c_id (clients L)"
    by (simp add: clients_def N del: map_map)
  obtain as bs where split: "players L = as @ c # bs"
    using assms(2) by (auto dest: split_list)
  have other: "c_id c \<notin> c_id ` set as" "c_id c \<notin> c_id ` set bs"
    using d by (auto simp: clients_def split)
  have pl: "players ?N = as @ ?f c # bs"
    using N(1) change_other [OF other(1), of ?f] change_other [OF other(2), of ?f] by (simp add: split)
  have new: "seating ?N = map (\<lambda>c. (c_position c, c_team c)) as @ p # map (\<lambda>c. (c_position c, c_team c)) bs"
    unfolding seating_def pl by (simp add: not_ready_def)
  then have seats: "seats_ok (seats0 L) (seats1 L) (seating ?N)"
  proof -
    have "distinct (map fst (seating L))" "\<forall>q \<in> set (seating L). seat_of_team (seats0 L) (seats1 L) q"
      using assms(1) by (simp_all add: lobby_inv_def seats_ok_def)
    moreover have "seating L = map (\<lambda>c. (c_position c, c_team c)) as @ (c_position c, c_team c) # map (\<lambda>c. (c_position c, c_team c)) bs"
      by (simp add: seating_def split)
    ultimately show ?thesis
      using assms(4,5) new by (simp add: seats_ok_def image_Un image_image)
  qed
  have "\<forall>x \<in> set (clients ?N). c_id x < created L"
    using ids assms(1) by (metis (mono_tags, lifting) imageE image_eqI list.set_map lobby_inv_def)
  moreover have "on_reserved_seat ?N x" for x
    using assms(3) by (simp add: on_reserved_seat_def change_client_def Let_def)
  moreover have "admitsAsPlayer (room_league L) (credential_of x)" if "x \<in> set (players ?N)" for x
  proof -
    obtain y where "y \<in> set (players L)" "x = ?g y"
      using \<open>x \<in> set (players ?N)\<close> unfolding N(1) set_map by blast
    moreover have "credential_of (?g y) = credential_of y"
      by (auto simp: credential_of_def not_ready_def split: option.split)
    ultimately show ?thesis
      using assms(1) by (simp add: lobby_inv_def del: if_split)
  qed
  ultimately show ?thesis
    using assms(1) seats same_room_ok [OF r] r ids N(2,3) unfolding lobby_inv_def same_room_def by simp
qed

subsection \<open>Every step keeps the invariant\<close>

lemma free_place_ok:
  assumes "free_place L = Some p"
  shows "seat_of_team (seats0 L) (seats1 L) p" and "p \<notin> set (seating L)"
  using calculatePlace_Some [of "seats0 L" "seats1 L" "seating L" None p] assms by (simp_all add: free_place_def)

lemma given_seat_le:
  assumes "reservation_ok (reservation_of s)" and "given_seat L s sk = Some t"
  shows "t \<le> 1"
proof -
  have "seat ` set (res_participants (reservation_of s)) = {0, 1}"
    using assms(1) by (simp add: reservation_ok_def flip: list.set_map)
  then have "seat p \<le> 1" if "p \<in> set (res_participants (reservation_of s))" for p
    using that by (metis imageI insertE le_numeral_extra(4) singletonD zero_le_one)
  moreover have "\<exists>p \<in> set (res_participants (reservation_of s)). t = seat p"
    using assms(2) by (auto simp: given_seat_def botSeat_def bots_def seatOfUser_def users_def
        split: if_splits list.splits dest!: find_SomeD filter_eq_ConsD)
  ultimately show ?thesis by auto
qed

lemma freeSeat_ok:
  assumes "lobby_inv L" and "freeSeat sk L = Some p"
  shows "seat_of_team (seats0 L) (seats1 L) p" and "p \<notin> set (seating L)"
    and "reservedDuel L = Some s \<Longrightarrow> given_seat L s sk = Some (snd p)"
proof -
  have "seat_of_team (seats0 L) (seats1 L) p \<and> p \<notin> set (seating L) \<and>
    (\<forall>s. reservedDuel L = Some s \<longrightarrow> given_seat L s sk = Some (snd p))"
  proof (cases "reservedDuel L")
    case None
    then show ?thesis
      using assms(2) free_place_ok [of L p] by (auto simp: freeSeat_def split: if_splits)
  next
    case (Some s)
    then have rs: "reservedSeatFor s sk L = Some p"
      using assms(2) by (auto simp: freeSeat_def split: if_splits)
    obtain t where t: "given_seat L s sk = Some t" "\<not> list_ex (\<lambda>c. c_team c = t) (players L)"
      "p = (if t = 0 then t0Positions (seats0 L) ! 0 else t1Positions (seats0 L) (seats1 L) ! 0, t)"
      using rs by (auto simp: reservedSeatFor_def given_seat_def split: option.splits if_splits)
    have one: "seats0 L = 1" "seats1 L = 1" "reservation_ok (reservation_of s)"
      using assms(1) Some by (simp_all add: lobby_inv_def reserved_room_ok_def)
    have "t = 0 \<or> t = 1"
      using given_seat_le [OF one(3) t(1)] by auto
    then show ?thesis
      using t one Some by (auto simp: seat_of_team_def seating_def list_ex_iff t0Positions_def t1Positions_def)
  qed
  then show "seat_of_team (seats0 L) (seats1 L) p" and "p \<notin> set (seating L)"
    and "reservedDuel L = Some s \<Longrightarrow> given_seat L s sk = Some (snd p)"
    by auto
qed

end
