(* ===== verification/LobbyProps.thy ===== *)
theory LobbyProps
  imports LobbyLaws
begin

text \<open>
  The reachable lobbies and what holds of them. \<open>lobby_run\<close> is every sequence of messages, admissions
  and disconnects a waiting room can see, in any interleaving; its invariant is proved by rule induction
  over the laws of \<open>LobbyLaws\<close>.
\<close>

subsection \<open>Every operation keeps the invariant\<close>

lemma same_close [simp]: "same_lobby L (close_socket sk L)"
  by (simp add: same_lobby_def same_room_def close_socket_def)

lemma same_queue [simp]: "same_lobby L (L\<lparr>queued := q\<rparr>)"
  by (simp add: same_lobby_def same_room_def)

lemma same_rejections:
  "same_lobby L (rejectInvitation sk L)" "same_lobby L (rejectReservedJoin sk L)"
  "same_lobby L (sendNameTakenError n sk L)" "same_lobby L (rejectAdmission sk info L)"
  using same_lobby_trans [OF frames_same same_close] frames_trans [OF frames_socket frames_socket]
    frames_socket
  by (auto simp: rejectInvitation_def rejectReservedJoin_def sendNameTakenError_def rejectAdmission_def)

lemma same_join: "same_lobby L (handleJoin v sk info L)"
  using same_lobby_trans [OF frames_same [OF frames_socket] same_close] same_rejections
  by (simp add: handleJoin_def admit_def)

lemma inv_seatPlayer:
  assumes "lobby_inv L" and "freeSeat sk L = Some p" and "admitsAsPlayer (room_league L) cr"
  shows "lobby_inv (seatPlayer sk info cr p L)"
proof -
  let ?c = "(buildPlayer sk (pi_name info) (credential_user cr) p L)\<lparr>c_credential := Some cr\<rparr>"
  note free = freeSeat_ok [OF assms(1,2)]
  have "on_reserved_seat L ?c"
    using free(3) by (auto simp: on_reserved_seat_def buildPlayer_def split: option.split)
  then have "lobby_inv (addPlayerUnsafe ?c L)"
    using free(1,2) assms(1,3) frames_inv [OF addPlayer_effect [of L ?c]] inv_add_player [of L ?c]
    by (simp add: buildPlayer_def credential_of_def)
  then show ?thesis
    using assms(1) same_lobby_inv [OF same_rejections(1)] by (simp add: seatPlayer_def)
qed

lemma inv_admitSpectator:
  assumes "lobby_inv L"
  shows "lobby_inv (admitSpectator sk info cr L)"
proof -
  let ?c = "(createSpectatorUnsafe sk (pi_name info) L)\<lparr>c_credential := Some cr\<rparr>"
  have "lobby_inv (addSpectatorUnsafe ?c L)"
    using assms frames_inv [OF addSpectator_effect [of L ?c]] inv_add_spectator [of L ?c]
    by (simp add: createSpectatorUnsafe_def isSpectator_def)
  then show ?thesis
    using assms same_lobby_inv [OF same_rejections(1)] by (simp add: admitSpectator_def)
qed

lemma inv_AdmitToRoom: "lobby_inv L \<Longrightarrow> lobby_inv (snd (AdmitToRoom_run repo sk info L))"
  using inv_seatPlayer inv_admitSpectator same_lobby_inv [OF same_rejections(4)]
  by (auto simp: AdmitToRoom_run_def Let_def admission_decide_player split: admission_result.split)

lemma inv_run_queued: "lobby_inv L \<Longrightarrow> lobby_inv (run_queued repo L)"
proof (cases "queued L")
  case (Cons q rest)
  assume "lobby_inv L"
  then have L1: "lobby_inv (L\<lparr>queued := rest\<rparr>)"
    using same_lobby_inv [OF same_queue] by simp
  obtain sk info where q: "q = (sk, info)" by (cases q)
  obtain r L' where run: "AdmitToRoom_run repo sk info (L\<lparr>queued := rest\<rparr>) = (r, L')"
    by (cases "AdmitToRoom_run repo sk info (L\<lparr>queued := rest\<rparr>)")
  have "lobby_inv L'"
    using inv_AdmitToRoom [OF L1, of repo sk info] run by simp
  then show ?thesis
    using L1 same_lobby_inv [OF same_rejections(1)] frames_inv [OF frames_notice]
    by (simp add: run_queued_def Cons q admit_exclusive_def run)
qed (simp add: run_queued_def)

lemma player_if_not_spectator:
  "lobby_inv L \<Longrightarrow> c \<in> set (clients L) \<Longrightarrow> isSpectator c \<or> c \<in> set (players L)"
  by (auto simp: lobby_inv_def clients_def)

lemma player_not_spectator: "lobby_inv L \<Longrightarrow> c \<in> set (players L) \<Longrightarrow> \<not> isSpectator c"
  by (force simp: lobby_inv_def seats_ok_def seating_def seat_of_team_def isSpectator_def SPECTATOR_TEAM_def)

lemma inv_to_observer:
  assumes "lobby_inv L" and "c \<in> set (clients L)"
  shows "lobby_inv (handleToObserver c L)"
proof (cases "c \<in> set (players L)")
  case True
  let ?c = "not_ready (c\<lparr>c_position := OBSERVER, c_team := SPECTATOR_TEAM\<rparr>)"
  have "lobby_inv (playerToSpectatorUnsafe c L)"
    using frames_inv [OF playerToSpectator_effect inv_to_spectator [OF assms(1) True, of ?c]] assms(1) True
    by (simp add: lobby_inv_def isSpectator_def not_ready_def)
  then show ?thesis
    using assms(1) by (simp add: handleToObserver_def)
next
  case False
  then show ?thesis
    using player_if_not_spectator [OF assms] assms(1) by (simp add: handleToObserver_def)
qed

lemma inv_sit_down:
  assumes "lobby_inv L" and "c \<in> set (spectators L)" and "reservedDuel L = None"
    and "admitsAsPlayer (room_league L) (credential_of c)"
  shows "lobby_inv (spectatorToPlayerUnsafe c L)"
proof (cases "free_place L")
  case (Some p)
  let ?c = "not_ready (c\<lparr>c_position := fst p, c_team := snd p\<rparr>)"
  have "credential_of ?c = credential_of c"
    by (auto simp: credential_of_def not_ready_def split: option.split)
  then show ?thesis
    using frames_inv [OF spectatorToPlayer_effect [OF Some] inv_to_player [OF assms(1,2), of ?c]]
      free_place_ok [OF Some] assms(3,4)
    by (simp add: on_reserved_seat_def) (simp add: not_ready_def)
qed (simp add: spectatorToPlayerUnsafe_def assms(1))

text \<open>With at most one seat in team 1 the cell offered always carries the right team.\<close>

lemma nextAvailable_one_seat:
  assumes "nextAvailablePosition n0 n1 seated q = Some p" and "n1 \<le> 1" and "q < n0 + n1" and "q \<in> fst ` set seated"
  shows "seat_of_team n0 n1 p"
proof (rule ccontr)
  assume "\<not> seat_of_team n0 n1 p"
  then have w: "n0 \<le> fst p" "snd p = 0" "\<forall>x < n0. x \<in> fst ` set seated"
    using nextAvailable_Some(3) [OF assms(1)] by auto
  moreover have f: "fst p < n0 + n1" "fst p \<notin> fst ` set seated"
    using nextAvailable_Some(1,2) [OF assms(1)] by auto
  ultimately have n: "n1 = 1" "fst p = n0"
    using assms(2) by arith+
  moreover have "q \<noteq> fst p"
    using assms(4) f(2) by blast
  ultimately have "q < n0"
    using assms(3) by arith
  have "n0 \<in> set (filter (\<lambda>x. x > q) (getDifference [0..<n0 + n1] (map fst seated)))"
    using n f \<open>q < n0\<close> by (simp add: getDifference_def)
  then have ne: "filter (\<lambda>x. x > q) (getDifference [0..<n0 + n1] (map fst seated)) \<noteq> []"
    by (metis empty_iff list.set(1))
  have m: "filter (\<lambda>x. x > q) (getDifference [0..<n0 + n1] (map fst seated)) ! 0 \<in> set (filter (\<lambda>x. x > q) (getDifference [0..<n0 + n1] (map fst seated)))"
    using ne by (intro nth_mem) simp
  then have "\<not> filter (\<lambda>x. x > q) (getDifference [0..<n0 + n1] (map fst seated)) ! 0 < n0"
    using w(3) by (auto simp: getDifference_def)
  then show False
    using assms(1) ne w(2) m n(2)
    by (auto simp: nextAvailablePosition_def all_positions Let_def prod_eq_iff find_None_iff find_Some_iff split: if_splits)
qed

lemma inv_to_duel:
  assumes "lobby_inv L" and "c \<in> set (clients L)" and "isSpectator c \<or> seats1 L \<le> 1"
  shows "lobby_inv (handleToDuel c L)"
proof (cases "isSpectator c")
  case True
  then have "c \<in> set (spectators L)"
    using assms(1,2) player_not_spectator by (auto simp: clients_def)
  then show ?thesis
    using inv_sit_down [OF assms(1)] assms(1) True by (simp add: handleToDuel_def)
next
  case False
  then have c: "c \<in> set (players L)"
    using player_if_not_spectator [OF assms(1,2)] by simp
  show ?thesis
  proof (cases "reservedDuel L = None \<and> nextAvailablePosition (seats0 L) (seats1 L) (seating L) (c_position c) \<noteq> None")
    case True
    then obtain p where p: "nextAvailablePosition (seats0 L) (seats1 L) (seating L) (c_position c) = Some p"
      by auto
    have m: "c_position c \<in> fst ` set (seating L)"
      using c by (force simp: seating_def)
    moreover have "c_position c < seats0 L + seats1 L"
      using seats_bound(1) [of "seats0 L" "seats1 L" "seating L"] m assms(1) by (auto simp: lobby_inv_def)
    ultimately have "seat_of_team (seats0 L) (seats1 L) p"
      using nextAvailable_one_seat [OF p] assms(3) False by simp
    then have "lobby_inv (movePlayerToAnotherCellUnsafe c L)"
      using frames_inv [OF move_effect [OF _ p] inv_move [OF assms(1) c]] nextAvailable_Some(2) [OF p] True by simp
    then show ?thesis
      using False True by (simp add: handleToDuel_def)
  qed (use assms(1) False in \<open>auto simp: handleToDuel_def movePlayerToAnotherCellUnsafe_def split: option.split\<close>)
qed

lemma same_createMatch: "same_lobby L ((createMatchUnsafe L)\<lparr>duelState := RPS\<rparr>)"
  by (simp add: createMatchUnsafe_def same_lobby_def same_room_def)

lemma inv_captains: "lobby_inv L \<Longrightarrow> lobby_inv (name_captains L)"
proof -
  have m: "minor captain"
    by (simp add: minor_def captain_def)
  show "lobby_inv L \<Longrightarrow> lobby_inv (name_captains L)"
    by (auto simp: name_captains_def inv_minor [OF _ m] split: list.split)
qed

lemma inv_startMatch: "lobby_inv L \<Longrightarrow> lobby_inv (snd (startMatch L))"
  using frames_inv [OF startMatch_effect] same_lobby_inv [OF same_createMatch] inv_captains by simp

lemma inv_tryStart: "lobby_inv L \<Longrightarrow> lobby_inv (snd (handleTryStart c L))"
  by (simp add: handleTryStart_def inv_startMatch)

lemma inv_take_deck: "lobby_inv L \<Longrightarrow> lobby_inv (snd (take_deck c d L))"
proof -
  assume i: "lobby_inv L"
  have "minor (\<lambda>x. x\<lparr>c_ready := True, c_deck := Some d\<rparr>)"
    by (simp add: minor_def)
  then have "lobby_inv (setDecksToPlayerUnsafe (c_position c) d L)"
    using i frames_inv [OF setDecks_effect] inv_minor [OF i] by (simp split: option.split)
  then show ?thesis
    by (simp add: take_deck_def startReservedDuelWhenReady_def inv_startMatch)
qed

lemma inv_notReady: "lobby_inv L \<Longrightarrow> lobby_inv (notReadyUnsafe c L)"
  using frames_inv [OF notReady_effect] inv_minor [OF _ minor_not_ready] by simp

lemma inv_send: "lobby_inv L \<Longrightarrow> lobby_inv (send_client c f L)"
  by (rule frames_inv [OF frames_client])

lemma inv_deck:
  assumes "lobby_inv L"
  shows "lobby_inv (snd (handleUpdateDeck built validate c L))"
proof -
  have r: "lobby_inv (deck_refused e c L)" for e
    using assms by (simp add: deck_refused_def inv_send inv_notReady)
  have h: "lobby_inv (snd (honoursReservedDeck s c d L))" for s d
    using assms by (simp add: honoursReservedDeck_def inv_send inv_notReady)
  have "lobby_inv (snd (case honoursReservedDeck s c d L of (True, L1) \<Rightarrow> take_deck c d L1 | (False, L1) \<Rightarrow> (True, L1)))" for s d
    using h [of s d] inv_take_deck by (cases "honoursReservedDeck s c d L") (auto split: bool.split)
  then show ?thesis
    using assms r inv_take_deck [OF assms]
    by (simp add: handleUpdateDeck_def split: sum.split option.split)
qed

lemma same_fold: "(\<And>x M. x \<in> set xs \<Longrightarrow> same_lobby M (g x M)) \<Longrightarrow> same_lobby L (fold g xs L)"
proof (induction xs arbitrary: L)
  case (Cons x xs)
  have "same_lobby (g x L) (fold g xs (g x L))"
    by (rule Cons.IH) (simp add: Cons.prems)
  then show ?case
    using same_lobby_trans Cons.prems [of x L] by simp
qed simp

lemma close_session_reservation [simp]: "reservation_of (close_session ab s) = reservation_of s"
  by (simp add: close_session_def Let_def)

lemma same_finalize: "same_lobby L (finalize_room ab L)"
proof -
  have f: "same_lobby M (if is_closed M (c_socket c) then M else close_socket (c_socket c)
      (if duelState L \<noteq> WAITING then send_client c DuelEnd M else M))" for c M
    using same_lobby_trans [OF frames_same [OF frames_client] same_close] by simp
  let ?N = "\<lambda>a. L\<lparr>finalizing := True, reservedDuel := map_option (close_session a) (reservedDuel L)\<rparr>"
  have "same_lobby L (?N a)" for a
    by (simp add: same_lobby_def same_room_def option.map_comp o_def)
  moreover have "same_lobby (?N a) (fold (\<lambda>c M. if is_closed M (c_socket c) then M
      else close_socket (c_socket c) (if duelState L \<noteq> WAITING then send_client c DuelEnd M else M)) cs (?N a))" for a cs
    using f by (rule same_fold)
  ultimately have "same_lobby L (fold (\<lambda>c M. if is_closed M (c_socket c) then M
      else close_socket (c_socket c) (if duelState L \<noteq> WAITING then send_client c DuelEnd M else M)) cs (?N a))" for a cs
    by (rule same_lobby_trans)
  then show ?thesis
    by (simp only: finalize_room_def Let_def same_lobby_refl split: if_split) simp
qed

lemma inv_drop_player: "lobby_inv M \<Longrightarrow> lobby_inv (removePlayerUnsafe c M)"
  using inv_remove [where L = M and P = "\<lambda>x. sock_id (c_socket x) \<noteq> sock_id (c_socket c)" and Q = "\<lambda>x. True"]
  by (cases M) (simp add: removePlayerUnsafe_def)

lemma inv_drop_spectator: "lobby_inv M \<Longrightarrow> lobby_inv (removeSpectatorUnsafe c M)"
  using inv_remove [where L = M and P = "\<lambda>x. True" and Q = "\<lambda>x. sock_id (c_socket x) \<noteq> sock_id (c_socket c)"]
  by (cases M) (simp add: removeSpectatorUnsafe_def)

lemma inv_playerLeave: "lobby_inv L \<Longrightarrow> lobby_inv (playerLeave c L)"
  unfolding playerLeave_def by (intro inv_drop_player frames_inv [OF frames_broadcast])

lemma inv_spectatorLeave: "lobby_inv L \<Longrightarrow> lobby_inv (spectatorLeave c L)"
  unfolding spectatorLeave_def by (intro frames_inv [OF frames_count] inv_drop_spectator)

lemma inv_onDisconnect:
  assumes "lobby_inv L"
  shows "lobby_inv (onDisconnect i L)"
proof -
  let ?M = "L\<lparr>closed_sockets := set_add i (closed_sockets L)\<rparr>"
  have M: "lobby_inv ?M"
    using assms same_lobby_inv [of L ?M] by (simp add: same_lobby_def same_room_def)
  obtain b L' where r: "(if reservedDuel ?M \<noteq> None then closeReservedDuel i ?M else (False, ?M)) = (b, L')"
    by (cases "if reservedDuel ?M \<noteq> None then closeReservedDuel i ?M else (False, ?M)")
  have "same_lobby ?M (snd (closeReservedDuel i ?M))"
    by (simp add: closeReservedDuel_def same_finalize split: option.split)
  then have "same_lobby ?M L'"
    using r by (auto split: if_splits)
  then have "lobby_inv L'"
    using M same_lobby_inv by blast
  then have "lobby_inv (case (b, L') of (True, L') \<Rightarrow> L'
      | (False, L') \<Rightarrow> if hasNoConnectedPlayers L' then finalize_room None L'
          else (case player_on i L' of
                  None \<Rightarrow> (case find (\<lambda>c. sock_id (c_socket c) = i) (spectators L') of
                             None \<Rightarrow> L' | Some c \<Rightarrow> spectatorLeave c L')
                | Some c \<Rightarrow> if noHost L' then finalize_room None L' else playerLeave c L'))"
    using same_lobby_inv [OF same_finalize]
    by (simp add: inv_playerLeave inv_spectatorLeave split: bool.split option.split)
  then show ?thesis
    using M same_lobby_inv [OF same_finalize] unfolding onDisconnect_def Let_def r by (simp split: bool.split)
qed
lemma inv_internal: "lobby_inv L \<Longrightarrow> lobby_inv (change_client i (\<lambda>x. x\<lparr>c_internal := True\<rparr>) L)"
  by (rule inv_minor) (simp_all add: minor_def)

subsection \<open>Reachable lobbies\<close>

text \<open>A room is created empty. A seated player may change cells where team 1 has one seat; in the other
  rooms the code puts a player on the wrong team, see \<open>tag_cell_change_collides\<close>.\<close>

inductive lobby_run :: "user_repository \<Rightarrow> lobby \<Rightarrow> bool" for repo where
  fresh: "players L = [] \<Longrightarrow> spectators L = [] \<Longrightarrow> queued L = [] \<Longrightarrow> reserved_room_ok L \<Longrightarrow> lobby_run repo L"
| join: "lobby_run repo L \<Longrightarrow> duelState L = WAITING \<Longrightarrow> lobby_run repo (handleJoin v sk info L)"
| match_admit: "lobby_run repo L \<Longrightarrow> duelState L = WAITING \<Longrightarrow> lobby_run repo (handleMatchAdmit info sk L)"
| exclusive: "lobby_run repo L \<Longrightarrow> lobby_run repo (run_queued repo L)"
| to_observer: "lobby_run repo L \<Longrightarrow> duelState L = WAITING \<Longrightarrow> c \<in> set (clients L) \<Longrightarrow>
    lobby_run repo (handleToObserver c L)"
| to_duel: "lobby_run repo L \<Longrightarrow> duelState L = WAITING \<Longrightarrow> c \<in> set (clients L) \<Longrightarrow>
    isSpectator c \<or> seats1 L \<le> 1 \<Longrightarrow> lobby_run repo (handleToDuel c L)"
| update_deck: "lobby_run repo L \<Longrightarrow> duelState L = WAITING \<Longrightarrow> c \<in> set (clients L) \<Longrightarrow>
    lobby_run repo (snd (handleUpdateDeck built validate c L))"
| unready: "lobby_run repo L \<Longrightarrow> duelState L = WAITING \<Longrightarrow> c \<in> set (clients L) \<Longrightarrow>
    lobby_run repo (handleNotReady c L)"
| try_start: "lobby_run repo L \<Longrightarrow> duelState L = WAITING \<Longrightarrow> c \<in> set (clients L) \<Longrightarrow>
    lobby_run repo (snd (handleTryStart c L))"
| internal: "lobby_run repo L \<Longrightarrow> lobby_run repo (change_client i (\<lambda>x. x\<lparr>c_internal := True\<rparr>) L)"
| disconnect: "lobby_run repo L \<Longrightarrow> lobby_run repo (onDisconnect i L)"

lemma lobby_run_inv: "lobby_run repo L \<Longrightarrow> lobby_inv L"
proof (induction rule: lobby_run.induct)
  case (fresh L)
  then show ?case
    by (simp add: lobby_inv_def clients_def seats_ok_def seating_def)
next
  case (join L v sk info)
  then show ?case using same_lobby_inv [OF same_join] by simp
next
  case (match_admit L info sk)
  then show ?case
    using same_lobby_inv [OF same_join [of L True sk info]] by (simp add: handleJoin_def handleMatchAdmit_def)
next
  case (try_start L c)
  then show ?case by (simp add: inv_tryStart)
next
  case (unready L c)
  then show ?case by (simp add: handleNotReady_def inv_notReady)
qed (simp_all add: inv_run_queued inv_to_observer inv_to_duel inv_deck inv_internal inv_onDisconnect)

lemma run_seats:
  assumes "lobby_run repo L"
  shows "distinct (map c_position (players L))"
    and "c \<in> set (players L) \<Longrightarrow> seat_of_team (seats0 L) (seats1 L) (c_position c, c_team c)"
  using lobby_run_inv [OF assms] by (auto simp: lobby_inv_def seats_ok_def seating_def o_def)



lemma given_seat_participant:
  assumes "given_seat L s sk = Some t"
  shows "\<exists>p \<in> set (res_participants (reservation_of s)). seat p = t \<and>
      (if internalForRoomId sk = Some (room_id L) then \<not> is_user p
       else is_user p \<and> resolvedUserId sk = Some (res_user p))"
proof (cases "internalForRoomId sk = Some (room_id L)")
  case True
  then obtain p rest where "bots s = p # rest" "seat p = t"
    using assms by (auto simp: given_seat_def botSeat_def split: list.splits)
  then show ?thesis
    using True by (auto simp: bots_def dest!: filter_eq_ConsD)
next
  case False
  then show ?thesis
    using assms by (auto simp: given_seat_def seatOfUser_def users_def dest!: find_SomeD)
qed


subsection \<open>Starting the match\<close>

lemma team_send: "getTeamPlayers t (send_client x f M) = getTeamPlayers t M"
  by (simp add: getTeamPlayers_def send_client_def send_socket_def)

lemma deck_count_message:
  "(\<exists>f. sendDeckCountMessage c M = Some (send_client c f M)) \<and> getTeamPlayers 0 M \<noteq> [] \<and> getTeamPlayers 1 M \<noteq> [] \<or>
   sendDeckCountMessage c M = None \<and> (getTeamPlayers 0 M = [] \<or> getTeamPlayers 1 M = [])"
  by (auto simp: sendDeckCountMessage_def Let_def split: list.split)

lemma announce_start_iff:
  "fst (announce_start cs L) \<longleftrightarrow> cs = [] \<or> (getTeamPlayers 0 L \<noteq> [] \<and> getTeamPlayers 1 L \<noteq> [])"
proof (induction cs arbitrary: L)
  case (Cons c cs)
  from deck_count_message [of c "send_client c DuelStart L"] show ?case
  proof (elim disjE conjE exE)
    fix f
    assume "sendDeckCountMessage c (send_client c DuelStart L) = Some (send_client c f (send_client c DuelStart L))"
      and "getTeamPlayers 0 (send_client c DuelStart L) \<noteq> []" "getTeamPlayers 1 (send_client c DuelStart L) \<noteq> []"
    then show ?thesis
      using Cons.IH [of "send_client c f (send_client c DuelStart L)"] by (simp add: Let_def team_send)
  qed (simp_all add: Let_def team_send)
qed simp

lemma getTeamPlayers_empty: "getTeamPlayers t L = [] \<longleftrightarrow> (\<forall>c \<in> set (players L). c_team c \<noteq> t)"
  by (metis (mono_tags, lifting) filter_empty_conv getTeamPlayers_def set_empty set_sort)

definition team_present :: "nat \<Rightarrow> lobby \<Rightarrow> bool" where
  "team_present t L \<longleftrightarrow> (\<exists>c \<in> set (players L). c_team c = t)"

lemma startMatch_iff: "clients L \<noteq> [] \<Longrightarrow> fst (startMatch L) \<longleftrightarrow> team_present 0 L \<and> team_present 1 L"
  using announce_start_iff [of "clients L" L] getTeamPlayers_empty [of 0 L] getTeamPlayers_empty [of 1 L]
  by (cases "announce_start (clients L) L") (auto simp: startMatch_def team_present_def split: bool.splits)

lemma captains_players:
  "map c_name (players (name_captains L)) = map c_name (players L)" "room_bestOf (name_captains L) = room_bestOf L"
  "duelState (name_captains L) = duelState L"
  by (auto simp: name_captains_def change_client_def Let_def captain_def split: list.split)

lemma startMatch_state:
  "duelState (snd (startMatch L)) = (if fst (startMatch L) then RPS else duelState L) \<and>
   room_match (snd (startMatch L)) =
     (if fst (startMatch L) then room_match (createMatchUnsafe (name_captains L)) else room_match L)"
  using startMatch_effect [of L] by (auto simp: frames_def createMatchUnsafe_def split: if_splits)

lemma created_match:
  "\<exists>m. room_match (createMatchUnsafe L) = Some m \<and> bestOf m = room_bestOf L \<and>
     map player_name (match_players m) = map c_name (players L) \<and> list_all (\<lambda>p. games p = []) (match_players m)"
  by (simp add: createMatchUnsafe_def initializeHistoricalData_def new_match_def list_all_iff o_def)

text \<open>C19. A start request moves the room to rock-paper-scissors exactly when the host of an ordinary room
  asks, every player is ready and both teams have a player, and then the match records exactly the
  seated players with no game played. With all players ready and a team empty the handler throws, and
  in every other case it does nothing.\<close>

theorem match_starts_when_everyone_is_ready:
  assumes "lobby_run repo L" and "duelState L = WAITING" and "c \<in> set (clients L)"
  defines "asked \<equiv> reservedDuel L = None \<and> c_host c \<and> allPlayersReady L"
    and "both \<equiv> team_present 0 L \<and> team_present 1 L"
  shows "(duelState (snd (handleTryStart c L)) = RPS \<longleftrightarrow> asked \<and> both) \<and>
    (asked \<and> both \<longrightarrow> (\<exists>m. room_match (snd (handleTryStart c L)) = Some m \<and> bestOf m = room_bestOf L \<and>
        map player_name (match_players m) = map c_name (players L) \<and> list_all (\<lambda>p. games p = []) (match_players m))) \<and>
    (fst (handleTryStart c L) \<longleftrightarrow> \<not> (asked \<and> \<not> both)) \<and> (\<not> asked \<longrightarrow> snd (handleTryStart c L) = L)"
proof -
  have "clients L \<noteq> []" using assms(3) by auto
  note st = startMatch_iff [OF this] startMatch_state [of L]
  have run: "handleTryStart c L = (if asked then startMatch L else (True, L))"
    by (simp add: handleTryStart_def asked_def)
  show ?thesis
    using st assms(2) created_match [of "name_captains L"] captains_players [of L]
    by (auto simp: run both_def)
qed

text \<open>A host who is alone in the room, ready, and asks to start, is told that the duel starts and
  nothing follows: reading the deck of the empty team throws, the room keeps waiting, and every
  further request does the same.\<close>

theorem lone_host_start_throws:
  assumes "reservedDuel L = None" and "players L = [c]" and "spectators L = []" and "c_host c" and "c_ready c"
  shows "handleTryStart c L = (False, L\<lparr>sent := sent L @ [(sock_id (c_socket c), DuelStart)]\<rparr>)"
proof -
  have "getTeamPlayers 0 (send_client c DuelStart L) = [] \<or> getTeamPlayers 1 (send_client c DuelStart L) = []"
    using assms(2) by (cases "c_team c = 0") (simp_all add: getTeamPlayers_empty send_client_def send_socket_def)
  then have "sendDeckCountMessage c (send_client c DuelStart L) = None"
    by (auto simp: sendDeckCountMessage_def split: list.split)
  then show ?thesis
    using assms
    by (simp add: handleTryStart_def allPlayersReady_def startMatch_def clients_def Let_def
        send_client_def send_socket_def)
qed

subsection \<open>Admission and the mutex\<close>

lemma players_close [simp]: "players (close_socket sk L) = players L"
  by (simp add: close_socket_def)

lemma frames_players: "frames L L' \<Longrightarrow> players L' = players L"
  by (auto simp: frames_def)

lemma players_socket [simp]: "players (send_socket sk f L) = players L"
  by (simp add: send_socket_def)

lemma players_rejected [simp]:
  "players (rejectInvitation sk L) = players L" "players (rejectReservedJoin sk L) = players L"
  "players (sendNameTakenError n sk L) = players L" "players (rejectAdmission sk info L) = players L"
  by (simp_all add: rejectInvitation_def rejectReservedJoin_def sendNameTakenError_def rejectAdmission_def)

lemma players_spectator [simp]: "players (admitSpectator sk info cr L) = players L"
  using frames_players [OF addSpectator_effect] by (simp add: admitSpectator_def)

lemma players_seated:
  "players (seatPlayer sk info cr p L) = players L \<or>
   (\<exists>c. players (seatPlayer sk info cr p L) = players L @ [c] \<and> c_name c = pi_name info \<and> c_socket c = sk)"
  using frames_players [OF addPlayer_effect] by (auto simp: seatPlayer_def buildPlayer_def)

lemma players_exclusive:
  "players (admit_exclusive repo sk info L) = players L \<or>
   (\<exists>c. players (admit_exclusive repo sk info L) = players L @ [c] \<and> c_name c = pi_name info \<and> c_socket c = sk)"
proof -
  obtain r L' where run: "AdmitToRoom_run repo sk info L = (r, L')"
    by (cases "AdmitToRoom_run repo sk info L")
  have "players L' = players L \<or> (\<exists>c. players L' = players L @ [c] \<and> c_name c = pi_name info \<and> c_socket c = sk)"
  proof (cases r)
    case (AsPlayer cr p)
    then have "L' = seatPlayer sk info cr p L"
      using run by (auto simp: AdmitToRoom_run_def Let_def)
    then show ?thesis
      using players_seated [of sk info cr p L] by simp
  qed (use run in \<open>auto simp: AdmitToRoom_run_def Let_def\<close>)
  then show ?thesis
    using frames_players [OF frames_notice] by (simp add: admit_exclusive_def run)
qed

text \<open>While no admission waits for the mutex, a join that is admitted at once brings in no name
  already seated, and in a room with reserved users it seats nobody but a reserved user without a live
  seat, or a bot or watcher the server itself sent.\<close>

theorem immediate_admission_is_exclusive:
  assumes "queued L = []" and "distinct (map c_name (players L))"
    and "L' = run_queued repo (handleJoin v sk info L)"
  shows "distinct (map c_name (players L')) \<and>
    (players L' \<noteq> players L \<longrightarrow> reserved_users L = [] \<or> reserved_identity sk L \<or>
       internalForRoomId sk = Some (room_id L) \<or> watchForRoomId sk = Some (room_id L))"
proof (cases "v \<and> reservationAdmits sk L \<and> \<not> isNameTaken (pi_name info) L")
  case True
  then have "L' = admit_exclusive repo sk info (L\<lparr>queued := []\<rparr>)"
    by (simp add: assms(3) handleJoin_def admit_def run_queued_def assms(1))
  then have "players L' = players L \<or> (\<exists>c. players L' = players L @ [c] \<and> c_name c = pi_name info)"
    using players_exclusive [of repo sk info "L\<lparr>queued := []\<rparr>"] by auto
  moreover have "pi_name info \<notin> c_name ` set (players L)"
    using True by (auto simp: isNameTaken_def list_ex_iff)
  ultimately show ?thesis
    using assms(2) True by (auto simp: reservationAdmits_def split: if_splits)
next
  case False
  then have "queued (handleJoin v sk info L) = [] \<and> players (handleJoin v sk info L) = players L"
    using assms(1)
    by (auto simp: handleJoin_def admit_def rejectReservedJoin_def sendNameTakenError_def close_socket_def send_socket_def)
  then show ?thesis
    using assms(2) by (simp add: assms(3) run_queued_def)
qed

subsection \<open>Concrete lobbies\<close>

definition plain_socket :: "string \<Rightarrow> string option \<Rightarrow> socket" where
  "plain_socket i u = \<lparr>sock_id = i, resolvedUserId = u, internalForRoomId = None, watchForRoomId = None,
     inviteForRoomId = None, supportsLobbyMetadata = False, remoteAddress = None, clientName = None\<rparr>"

definition named :: "string \<Rightarrow> player_info" where
  "named n = \<lparr>pi_name = n, pi_password = None\<rparr>"

definition empty_lobby :: lobby where
  "empty_lobby = \<lparr>room_id = 7, seats0 = 1, seats1 = 1, room_league = CasualLeague, room_password = [], room_invite = [],
     room_mode = 0, room_bestOf = 1, no_check_deck = False, ranking_enabled = True, createdBySocketId = ''s1'',
     isMatchmaking = False, reservedUserIds = None, reservedDuel = None, noHost = False, noReconnect = False,
     finalizing = False, duelState = WAITING, room_match = None, match_serial = 0, duelIds = [], players = [], spectators = [], created = 0,
     closed_sockets = [], queued = [], sent = []\<rparr>"

definition accounts :: user_repository where
  "accounts = \<lparr>repo_findById = (\<lambda>u. if u = ''u1'' then Some u else None), repo_findByUsername = (\<lambda>_. None),
     repo_isBanned = (\<lambda>_. False), repo_validPassword = (\<lambda>_ _. False)\<rparr>"

text \<open>The gates and the seat are two steps: two joins that pass the gates before either is admitted seat
  one reserved user twice, under one name, and nobody else can be matched into the room any more.\<close>

definition matched_lobby :: lobby where
  "matched_lobby = empty_lobby\<lparr>isMatchmaking := True, room_league := VerifiedLeague,
     reservedUserIds := Some [''u1'', ''u2'']\<rparr>"

definition raced_lobby :: lobby where
  "raced_lobby = run_queued accounts (run_queued accounts
     (handleJoin True (plain_socket ''s2'' (Some ''u1'')) (named ''Ann'')
       (handleJoin True (plain_socket ''s1'' (Some ''u1'')) (named ''Ann'') matched_lobby)))"

lemma concurrent_joins_share_an_identity:
  "map (\<lambda>c. (c_name c, c_user c, c_position c, c_team c)) (players raced_lobby) =
     [(''Ann'', Some ''u1'', 0, 0), (''Ann'', Some ''u1'', 1, 1)] \<and> \<not> hasFreeSeat raced_lobby"
  by code_simp

text \<open>In a room for two against two, the player at the last seat asks for another cell once team 0 is
  full: the code wraps around to the free seat of team 1 and labels it team 0. The seat then counts as
  free for team 1, and the next player to join is put there too.\<close>

definition tag_lobby :: lobby where
  "tag_lobby = (let seat_at = (\<lambda>i p t. (buildPlayer (plain_socket i None) i None (p, t) empty_lobby)\<lparr>c_id := p\<rparr>)
     in empty_lobby\<lparr>seats0 := 2, seats1 := 2, room_mode := 2, created := 4,
          players := [seat_at ''s1'' 0 0, seat_at ''s2'' 1 0, seat_at ''s4'' 3 1]\<rparr>)"

definition moved_tag_lobby :: lobby where
  "moved_tag_lobby = handleToDuel (players tag_lobby ! 2) tag_lobby"

lemma tag_cell_change_collides:
  "seats_ok 2 2 (seating tag_lobby) \<and>
   seating moved_tag_lobby = [(0, 0), (1, 0), (2, 0)] \<and> free_place moved_tag_lobby = Some (2, 1)"
  by code_simp

subsection \<open>Witnesses\<close>

definition joined :: "string \<Rightarrow> string option \<Rightarrow> string \<Rightarrow> lobby \<Rightarrow> lobby" where
  "joined i u n L = run_queued accounts (handleJoin True (plain_socket i u) (named n) L)"

lemma joined_run: "lobby_run accounts L \<Longrightarrow> duelState L = WAITING \<Longrightarrow> lobby_run accounts (joined i u n L)"
  unfolding joined_def by (intro lobby_run.exclusive lobby_run.join)

definition ranked_lobby :: lobby where
  "ranked_lobby = joined ''s2'' None ''Bob'' (joined ''s1'' (Some ''u1'') ''Ann'' (empty_lobby\<lparr>room_league := VerifiedLeague\<rparr>))"

lemma empty_run: "lobby_run repo (empty_lobby\<lparr>room_league := l\<rparr>)"
  by (rule lobby_run.fresh) (simp_all add: empty_lobby_def reserved_room_ok_def)

lemma ranked_run: "lobby_run accounts ranked_lobby"
  unfolding ranked_lobby_def by (intro joined_run empty_run) code_simp+

lemma ranked_seated: "map c_name (players ranked_lobby) = [''Ann''] \<and> spectators ranked_lobby = []"
  by code_simp



definition reserved_lobby :: lobby where
  "reserved_lobby = joined ''s1'' (Some ''ana'') ''Ann''
     (empty_lobby\<lparr>reservedUserIds := Some [''ana''], reservedDuel := Some (new_session sample_reservation)\<rparr>)"

lemma reserved_run: "lobby_run accounts reserved_lobby"
proof -
  have "lobby_run accounts (empty_lobby\<lparr>reservedUserIds := Some [''ana''], reservedDuel := Some (new_session sample_reservation)\<rparr>)"
    by (rule lobby_run.fresh)
      (simp_all add: empty_lobby_def reserved_room_ok_def sample_reservation_ok new_session_def)
  then show ?thesis
    unfolding reserved_lobby_def by (rule joined_run) (simp add: empty_lobby_def)
qed


definition some_deck :: deck where
  "some_deck = \<lparr>main_deck = [], side_deck = [], extra_deck = [], deck_ban_list = empty_ban_list, deck_rules_of = open_rules\<rparr>"

definition with_deck :: "nat \<Rightarrow> lobby \<Rightarrow> lobby" where
  "with_deck i L = snd (handleUpdateDeck (Inr some_deck) (\<lambda>_. None) (players L ! i) L)"

definition ready_lobby :: lobby where
  "ready_lobby = with_deck 1 (with_deck 0 (joined ''s2'' None ''Bob'' (joined ''s1'' None ''Ann'' empty_lobby)))"

lemma with_deck_run:
  "lobby_run accounts L \<Longrightarrow> duelState L = WAITING \<Longrightarrow> i < length (players L) \<Longrightarrow> lobby_run accounts (with_deck i L)"
  unfolding with_deck_def by (rule lobby_run.update_deck) (simp_all add: clients_def)

lemma casual_run: "lobby_run repo empty_lobby"
  by (rule lobby_run.fresh) (simp_all add: empty_lobby_def reserved_room_ok_def)

lemma ready_run: "lobby_run accounts ready_lobby"
  unfolding ready_lobby_def by (intro with_deck_run joined_run casual_run) code_simp+

lemma match_starts_when_everyone_is_ready_witness:
  "duelState (snd (handleTryStart (hd (players ready_lobby)) ready_lobby)) = RPS"
proof -
  have h: "duelState ready_lobby = WAITING" "hd (players ready_lobby) \<in> set (clients ready_lobby)"
    "reservedDuel ready_lobby = None" "c_host (hd (players ready_lobby))" "allPlayersReady ready_lobby"
    by code_simp+
  have "players ready_lobby = [hd (players ready_lobby), players ready_lobby ! 1]"
    "c_team (hd (players ready_lobby)) = 0" "c_team (players ready_lobby ! 1) = 1" by code_simp+
  then have "team_present 0 ready_lobby" "team_present 1 ready_lobby"
    unfolding team_present_def by (metis list.set_intros)+
  then show ?thesis
    using match_starts_when_everyone_is_ready [OF ready_run h(1,2)] h by blast
qed

definition lone_lobby :: lobby where
  "lone_lobby = with_deck 0 (joined ''s1'' None ''Ann'' empty_lobby)"

lemma lone_host_start_throws_witness:
  "fst (handleTryStart (hd (players lone_lobby)) lone_lobby) = False \<and>
   (''s1'', DuelStart) \<in> set (sent (snd (handleTryStart (hd (players lone_lobby)) lone_lobby)))"
proof -
  have h: "reservedDuel lone_lobby = None" "players lone_lobby = [hd (players lone_lobby)]"
    "spectators lone_lobby = []" "c_host (hd (players lone_lobby))" "c_ready (hd (players lone_lobby))"
    "sock_id (c_socket (hd (players lone_lobby))) = ''s1''"
    by code_simp+
  show ?thesis
    using lone_host_start_throws [OF h(1-5)] h(6) by simp
qed

lemma immediate_admission_is_exclusive_witness:
  "distinct (map c_name (players (joined ''s2'' None ''Ann'' (joined ''s1'' None ''Ann'' empty_lobby))))"
proof -
  have h: "queued (joined ''s1'' None ''Ann'' empty_lobby) = []"
    "distinct (map c_name (players (joined ''s1'' None ''Ann'' empty_lobby)))" by code_simp+
  show ?thesis
    using immediate_admission_is_exclusive [OF h joined_def] by blast
qed

end
