(* ===== verification/Rules.thy ===== *)
theory Rules
  imports Admission BanLists "HOL-Library.Log_Nat"
begin

text \<open>
  The options of a room name: the three tiers of rule tokens
  (\<open>src/ygopro/room/domain/RuleMappings.ts\<close>) and the reading of a create command into the
  settings of a room (\<open>YGOProRoom.create\<close>). The loaded ban lists are an argument, looked up with the
  catalog operations of \<open>BanLists\<close>.

  A mapping is its test on a token and its effect: an update of the host info, the object spread of
  the source, or no value when it throws. Numbers are JavaScript doubles: \<open>to_double\<close> rounds an
  integer to 53 significant bits, ties to even; numerals of more than 308 digits, which become
  \<open>Infinity\<close>, are outside the model, a join field holding 20 characters.
\<close>

subsection \<open>Numbers in a token\<close>

definition to_double :: "nat \<Rightarrow> nat" where
  "to_double n =
     (if n < 2 ^ 53 then n
      else let e = floorlog 2 n - 53; q = n div 2 ^ e; r = n mod 2 ^ e; half = 2 ^ (e - 1)
           in (if r > half \<or> (r = half \<and> odd q) then q + 1 else q) * 2 ^ e)"

text \<open>A token whose test succeeded has neither a sign nor a decimal point around its digits.\<close>

definition extractNumberFromCommand :: "string \<Rightarrow> nat option" where
  "extractNumberFromCommand s =
     (let ds = takeWhile is_digit (dropWhile (\<lambda>c. \<not> is_digit c) s)
      in if ds = [] then None else Some (to_double (digits_value ds)))"

text \<open>The tests \<open>/^p\\d+$/\<close>, for one of several prefixes.\<close>

definition numbered :: "string list \<Rightarrow> string \<Rightarrow> bool" where
  "numbered ps v \<longleftrightarrow> list_ex (\<lambda>p. starts_with p v \<and> drop (length p) v \<noteq> [] \<and> list_all is_digit (drop (length p) v)) ps"

subsection \<open>Host info\<close>

definition SINGLE :: nat where "SINGLE = 0"
definition MATCH :: nat where "MATCH = 1"
definition TAG :: nat where "TAG = 2"

record host_info =
  lflist :: int
  rule :: nat
  mode :: nat
  duel_rule :: nat
  no_check_deck :: nat
  no_shuffle_deck :: nat
  start_lp :: nat
  start_hand :: nat
  draw_count :: nat
  time_limit :: nat
  max_deck_points :: nat
  best_of :: nat
  tcg_segoc_nonpublic :: nat
  goat_2005 :: nat

type_synonym lists = "ygopro_ban_list list"

record mapping =
  validates :: "string \<Rightarrow> bool"
  effect :: "lists \<Rightarrow> string \<Rightarrow> (host_info \<Rightarrow> host_info) option"

text \<open>Most mappings accept a few fixed words.\<close>

definition words :: "string list \<Rightarrow> (lists \<Rightarrow> host_info \<Rightarrow> host_info) \<Rightarrow> mapping" where
  "words ws u = \<lparr>validates = (\<lambda>v. v \<in> set ws), effect = (\<lambda>ls v. Some (u ls))\<rparr>"

definition number_mapping :: "string list \<Rightarrow> (nat option \<Rightarrow> host_info \<Rightarrow> host_info) \<Rightarrow> mapping" where
  "number_mapping ps u =
     \<lparr>validates = numbered ps, effect = (\<lambda>ls v. Some (u (extractNumberFromCommand v)))\<rparr>"

definition resolveAliasIndex :: "lists \<Rightarrow> string \<Rightarrow> int" where
  "resolveAliasIndex ls alias_name = (let i = findIndexByAlias ls alias_name in if i = -1 then 0 else i)"

subsection \<open>Mode tier\<close>

definition mapping_m :: mapping where
  "mapping_m = words [''m'', ''match''] (\<lambda>ls h. h\<lparr>mode := MATCH, start_lp := 8000, best_of := 3\<rparr>)"

definition mapping_t :: mapping where
  "mapping_t = words [''t'', ''tag''] (\<lambda>ls h. h\<lparr>mode := TAG, start_lp := 16000, best_of := 1\<rparr>)"

subsection \<open>Priority tier\<close>

definition mapping_bo :: mapping where
  "mapping_bo = number_mapping [''bo''] (\<lambda>n h. case n of
       None \<Rightarrow> h\<lparr>mode := MATCH, best_of := 3\<rparr>
     | Some b \<Rightarrow> if b < 1 then h\<lparr>mode := MATCH, best_of := 3\<rparr>
         else if b mod 2 = 0 then h\<lparr>mode := MATCH, best_of := to_double (b + 1)\<rparr>
         else h\<lparr>mode := MATCH, best_of := b\<rparr>)"

definition mapping_lp :: mapping where
  "mapping_lp = number_mapping [''lp''] (\<lambda>n h. case n of
       None \<Rightarrow> h\<lparr>start_lp := 8000\<rparr>
     | Some lps \<Rightarrow> if lps \<le> 0 then h\<lparr>start_lp := 1\<rparr>
         else if lps \<ge> 99999 then h\<lparr>start_lp := 99999\<rparr> else h\<lparr>start_lp := lps\<rparr>)"

definition mapping_tm :: mapping where
  "mapping_tm = number_mapping [''tm'', ''time''] (\<lambda>n h. case n of
       None \<Rightarrow> h\<lparr>time_limit := 450\<rparr>
     | Some t \<Rightarrow> if t \<ge> 1 \<and> t \<le> 60 then h\<lparr>time_limit := t * 60\<rparr>
         else if t \<ge> 999 then h\<lparr>time_limit := 999\<rparr> else h\<lparr>time_limit := t\<rparr>)"

definition mapping_mr :: mapping where
  "mapping_mr = number_mapping [''mr'', ''duelrule''] (\<lambda>n h. case n of
       None \<Rightarrow> h | Some r \<Rightarrow> if r > 0 \<and> r \<le> 5 then h\<lparr>duel_rule := r\<rparr> else h)"

definition mapping_ot :: mapping where
  "mapping_ot = words [''ot'', ''tcg''] (\<lambda>ls h. h\<lparr>rule := 5\<rparr>)"

definition mapping_otto :: mapping where
  "mapping_otto = words [''otto''] (\<lambda>ls h. h\<lparr>rule := 5, lflist := getFirstOCGIndex ls\<rparr>)"

definition mapping_toot :: mapping where
  "mapping_toot = words [''toot'', ''tt''] (\<lambda>ls h. h\<lparr>rule := 5, lflist := getNewestTCGIndex ls\<rparr>)"

definition mapping_ns :: mapping where
  "mapping_ns = words [''ns'', ''noshuffle''] (\<lambda>ls h. h\<lparr>no_shuffle_deck := 1\<rparr>)"

definition mapping_tcgsegoc :: mapping where
  "mapping_tcgsegoc = words [''tcgsegoc''] (\<lambda>ls h. h\<lparr>tcg_segoc_nonpublic := 1\<rparr>)"

definition mapping_goat2005 :: mapping where
  "mapping_goat2005 = words [''goat2005''] (\<lambda>ls h. h\<lparr>goat_2005 := 1\<rparr>)"

definition mapping_nc :: mapping where
  "mapping_nc = words [''nc'', ''nocheck''] (\<lambda>ls h. h\<lparr>no_check_deck := 1\<rparr>)"

definition mapping_dr :: mapping where
  "mapping_dr = number_mapping [''dr'', ''draw''] (\<lambda>n h. case n of
       None \<Rightarrow> h\<lparr>draw_count := 1\<rparr>
     | Some c \<Rightarrow> if c > 35 then h\<lparr>draw_count := 35\<rparr>
         else if c \<le> 0 then h\<lparr>draw_count := 1\<rparr> else h\<lparr>draw_count := c\<rparr>)"

definition mapping_st :: mapping where
  "mapping_st = number_mapping [''st'', ''start''] (\<lambda>n h. case n of
       None \<Rightarrow> h\<lparr>start_hand := 5\<rparr>
     | Some c \<Rightarrow> if c > 40 then h\<lparr>start_hand := 40\<rparr>
         else if c \<le> 0 then h\<lparr>start_hand := 5\<rparr> else h\<lparr>start_hand := c\<rparr>)"

definition mapping_to :: mapping where
  "mapping_to = words [''to'', ''tcgonly'', ''tor''] (\<lambda>ls h. h\<lparr>rule := 1, lflist := getNewestTCGIndex ls\<rparr>)"

text \<open>The pattern \<open>/^(?:lf|lflist)(.+)$/\<close> tries its alternatives in order, and \<open>lf\<close> matches whatever
  \<open>lflist\<close> does, so the query is everything after the first two letters. A query that is the decimal
  text of a number is a position from 1 on, anything else an alias. Positions are numbers below
  \<open>2 ^ 53\<close>.\<close>

definition no_line_break :: "string \<Rightarrow> bool" where
  "no_line_break s \<longleftrightarrow> list_all (\<lambda>c. (of_char c :: nat) \<notin> {10, 13}) s"

definition numeric_index :: "string \<Rightarrow> int option" where
  "numeric_index query =
     (let canonical = (\<lambda>ds. ds \<noteq> [] \<and> list_all is_digit ds \<and> show_nat (digits_value ds) = ds \<and> digits_value ds < 2 ^ 53)
      in if canonical query then Some (int (digits_value query))
         else if query \<noteq> [] \<and> hd query = CHR ''-'' \<and> canonical (tl query) \<and> tl query \<noteq> ''0''
         then Some (- int (digits_value (tl query))) else None)"

definition mapping_lf :: mapping where
  "mapping_lf = \<lparr>validates = (\<lambda>v. starts_with ''lf'' v \<and> drop 2 v \<noteq> [] \<and> no_line_break (drop 2 v)),
     effect = (\<lambda>ls v. Some (\<lambda>h.
       if \<not> (starts_with ''lf'' v \<and> drop 2 v \<noteq> [] \<and> no_line_break (drop 2 v)) then h\<lparr>lflist := -1\<rparr>
       else case numeric_index (drop 2 v) of Some i \<Rightarrow> h\<lparr>lflist := i - 1\<rparr>
          | None \<Rightarrow> (let i = findIndexByAlias ls (drop 2 v) in if i \<noteq> -1 then h\<lparr>lflist := i\<rparr> else h\<lparr>lflist := 0\<rparr>)))\<rparr>"

definition mapping_nf :: mapping where
  "mapping_nf = words [''nf'', ''nolflist''] (\<lambda>ls h. h\<lparr>lflist := -1\<rparr>)"

definition mapping_oor :: mapping where
  "mapping_oor = words [''oor'', ''oo'', ''ocgonly''] (\<lambda>ls h. h\<lparr>rule := 0, lflist := getFirstOCGIndex ls\<rparr>)"

definition mapping_or :: mapping where
  "mapping_or = words [''or''] (\<lambda>ls h. h\<lparr>rule := 5, lflist := getFirstOCGIndex ls\<rparr>)"

definition mapping_tr :: mapping where
  "mapping_tr = words [''tr''] (\<lambda>ls h. h\<lparr>rule := 5, lflist := getNewestTCGIndex ls\<rparr>)"

definition mapping_oomr :: mapping where
  "mapping_oomr = words [''oomr'']
     (\<lambda>ls h. h\<lparr>rule := 0, lflist := getFirstOCGIndex ls, mode := MATCH, best_of := 3\<rparr>)"

definition mapping_omr :: mapping where
  "mapping_omr = words [''omr'']
     (\<lambda>ls h. h\<lparr>rule := 5, lflist := getFirstOCGIndex ls, mode := MATCH, best_of := 3\<rparr>)"

definition mapping_tomr :: mapping where
  "mapping_tomr = words [''tomr'']
     (\<lambda>ls h. h\<lparr>rule := 1, lflist := getNewestTCGIndex ls, mode := MATCH, best_of := 3\<rparr>)"

definition mapping_tmr :: mapping where
  "mapping_tmr = words [''tmr'']
     (\<lambda>ls h. h\<lparr>rule := 5, lflist := getNewestTCGIndex ls, mode := MATCH, best_of := 3\<rparr>)"

subsection \<open>Format tier\<close>

definition goatRuleSet :: "lists \<Rightarrow> host_info \<Rightarrow> host_info" where
  "goatRuleSet ls h = h\<lparr>rule := 5, lflist := resolveAliasIndex ls ''goat'', duel_rule := 1, goat_2005 := 1, time_limit := 450\<rparr>"

definition edisonRuleSet :: "lists \<Rightarrow> host_info \<Rightarrow> host_info" where
  "edisonRuleSet ls h = h\<lparr>rule := 5, lflist := resolveAliasIndex ls ''edison'', duel_rule := 1, time_limit := 450\<rparr>"

definition mapping_goat :: mapping where
  "mapping_goat = words [''goat''] goatRuleSet"

definition mapping_gt :: mapping where
  "mapping_gt = words [''gt''] goatRuleSet"

definition mapping_edison :: mapping where
  "mapping_edison = words [''edison''] edisonRuleSet"

definition mapping_ed :: mapping where
  "mapping_ed = words [''ed''] edisonRuleSet"

definition mapping_edm :: mapping where
  "mapping_edm = words [''edm''] (\<lambda>ls h. (edisonRuleSet ls h)\<lparr>mode := MATCH, best_of := 3\<rparr>)"

definition mapping_tengu :: mapping where
  "mapping_tengu = words [''tengu'']
     (\<lambda>ls h. h\<lparr>rule := 5, lflist := resolveAliasIndex ls ''tengu'', duel_rule := 2, time_limit := 450\<rparr>)"

definition mapping_md :: mapping where
  "mapping_md = words [''md'']
     (\<lambda>ls h. h\<lparr>rule := 5, lflist := resolveAliasIndex ls ''md'', duel_rule := 5, time_limit := 450\<rparr>)"

definition mapping_jtp :: mapping where
  "mapping_jtp = words [''jtp''] (\<lambda>ls h. h\<lparr>rule := 5, lflist := resolveAliasIndex ls ''jtp'', duel_rule := 1\<rparr>)"

definition mapping_jtp_2007_03 :: mapping where
  "mapping_jtp_2007_03 = words [''jtp-2007-03'']
     (\<lambda>ls h. h\<lparr>rule := 5, lflist := resolveAliasIndex ls ''adv2007-03'', duel_rule := 1\<rparr>)"

definition mapping_jm :: mapping where
  "mapping_jm = words [''jm'']
     (\<lambda>ls h. h\<lparr>rule := 5, lflist := resolveAliasIndex ls ''jtp'', duel_rule := 1, mode := MATCH, best_of := 3\<rparr>)"

definition mapping_genesys :: mapping where
  "mapping_genesys =
     \<lparr>validates = (\<lambda>v. v = ''genesys'' \<or> v = ''g'' \<or> numbered [''g''] v \<or> numbered [''genesys''] v),
      effect = (\<lambda>ls v.
        let points = (case extractNumberFromCommand v of None \<Rightarrow> 100 | Some n \<Rightarrow> n);
            i = findIndexByAlias ls ''genesys''
        in if i = -1 then None
           else Some (\<lambda>h. h\<lparr>rule := 1, lflist := i, duel_rule := 5, max_deck_points := points, time_limit := 450\<rparr>))\<rparr>"

definition mapping_rush :: mapping where
  "mapping_rush = words [''rush''] (\<lambda>ls h. let index = findIndexByAlias ls ''rush'' in
     h\<lparr>rule := 5, lflist := (if index \<noteq> -1 then index else 2), duel_rule := 5, start_hand := 4\<rparr>)"

definition mapping_rushpre :: mapping where
  "mapping_rushpre = words [''rushpre''] (\<lambda>ls h. let index = findIndexByAlias ls ''rush'' in
     h\<lparr>rule := 5, lflist := (if index \<noteq> -1 then index else 2), duel_rule := 4\<rparr>)"

definition mapping_world :: mapping where
  "mapping_world = words [''world''] (\<lambda>ls h. let index = findIndexByAlias ls ''world'' in
     h\<lparr>rule := 5, lflist := (if index \<noteq> -1 then index else 5), duel_rule := 4\<rparr>)"

definition mapping_pre :: mapping where
  "mapping_pre = words [''pre''] (\<lambda>ls h. h\<lparr>rule := 5, duel_rule := 5, time_limit := 450\<rparr>)"

definition mapping_ocg :: mapping where
  "mapping_ocg = words [''ocg''] (\<lambda>ls h. h\<lparr>rule := 0, lflist := getFirstOCGIndex ls, time_limit := 450\<rparr>)"

definition mapping_tcgpre :: mapping where
  "mapping_tcgpre = words [''tcgpre''] (\<lambda>ls h. h\<lparr>rule := 1, duel_rule := 5, time_limit := 450\<rparr>)"

definition mapping_ocgpre :: mapping where
  "mapping_ocgpre = words [''ocgpre'']
     (\<lambda>ls h. h\<lparr>rule := 0, duel_rule := 5, lflist := getFirstOCGIndex ls, time_limit := 450\<rparr>)"

definition mapping_tcgart :: mapping where
  "mapping_tcgart = words [''tcgart''] (\<lambda>ls h. h\<lparr>rule := 1, duel_rule := 5, time_limit := 450\<rparr>)"

definition mapping_ocgart :: mapping where
  "mapping_ocgart = words [''ocgart'']
     (\<lambda>ls h. h\<lparr>rule := 0, duel_rule := 5, lflist := getFirstOCGIndex ls, time_limit := 450\<rparr>)"

subsection \<open>Tiers and the create command\<close>

definition MODE_TIER :: "mapping list" where
  "MODE_TIER = [mapping_m, mapping_t]"

definition FORMAT_TIER :: "mapping list" where
  "FORMAT_TIER = [mapping_goat, mapping_gt, mapping_edison, mapping_ed, mapping_edm, mapping_tengu, mapping_md,
     mapping_jtp, mapping_jtp_2007_03, mapping_jm, mapping_genesys, mapping_rush, mapping_rushpre, mapping_world,
     mapping_pre, mapping_ocg, mapping_tcgpre, mapping_ocgpre, mapping_tcgart, mapping_ocgart]"

definition PRIORITY_TIER :: "mapping list" where
  "PRIORITY_TIER = [mapping_bo, mapping_lp, mapping_tm, mapping_mr, mapping_ot, mapping_otto, mapping_toot, mapping_ns,
     mapping_tcgsegoc, mapping_goat2005, mapping_nc, mapping_dr, mapping_st, mapping_to, mapping_lf, mapping_nf,
     mapping_oor, mapping_or, mapping_tr, mapping_oomr, mapping_omr, mapping_tomr, mapping_tmr]"

definition RULE_MAPPING_TIERS :: "mapping list list" where
  "RULE_MAPPING_TIERS = [MODE_TIER, FORMAT_TIER, PRIORITY_TIER]"

datatype create_error = TwoRules | GenesysNotLoaded

definition apply_option :: "lists \<Rightarrow> mapping list \<Rightarrow> string \<Rightarrow> host_info \<Rightarrow> create_error + host_info" where
  "apply_option ls tier v h =
     (let items = filter (\<lambda>m. validates m v) tier
      in if length items > 1 then Inl TwoRules
         else case items of [] \<Rightarrow> Inr h
            | m # _ \<Rightarrow> (case effect m ls v of None \<Rightarrow> Inl GenesysNotLoaded | Some u \<Rightarrow> Inr (u h)))"

definition apply_tier :: "lists \<Rightarrow> string list \<Rightarrow> mapping list \<Rightarrow> host_info \<Rightarrow> create_error + host_info" where
  "apply_tier ls opts tier = fold_e (apply_option ls tier) opts"

definition apply_options :: "lists \<Rightarrow> string list \<Rightarrow> host_info \<Rightarrow> create_error + host_info" where
  "apply_options ls opts = fold_e (apply_tier ls opts) RULE_MAPPING_TIERS"

definition default_host_info :: "lists \<Rightarrow> host_info" where
  "default_host_info ls = \<lparr>lflist = getNewestTCGIndex ls, rule = 1, mode = SINGLE, duel_rule = 5, no_check_deck = 0,
     no_shuffle_deck = 0, start_lp = 8000, start_hand = 5, draw_count = 1, time_limit = 450, max_deck_points = 100,
     best_of = 1, tcg_segoc_nonpublic = 0, goat_2005 = 0\<rparr>"

definition DEFAULT_POOL :: string where "DEFAULT_POOL = ''standard''"
definition EXTENDED_POOL :: string where "EXTENDED_POOL = ''extended''"
definition RUSH_POOL :: string where "RUSH_POOL = ''rush''"

definition formatCardPools :: "(string, string) js_map" where
  "formatCardPools = [(''pre'', EXTENDED_POOL), (''tcgpre'', EXTENDED_POOL), (''ocgpre'', EXTENDED_POOL),
     (''tcgart'', EXTENDED_POOL), (''ocgart'', EXTENDED_POOL), (''rushpre'', EXTENDED_POOL), (''rush'', RUSH_POOL)]"

fun resolveCardPool :: "string list \<Rightarrow> string" where
  "resolveCardPool [] = DEFAULT_POOL"
| "resolveCardPool (v # vs) = (case map_get formatCardPools (to_lower v) of Some p \<Rightarrow> p | None \<Rightarrow> resolveCardPool vs)"

record room_settings =
  rs_host_info :: host_info
  rs_name :: string
  rs_password :: string
  rs_team0 :: nat
  rs_team1 :: nat
  rs_league :: room_league
  rs_bestOf :: nat
  rs_startLp :: nat
  rs_banListHash :: int
  rs_cardPool :: string

definition command_options :: "string \<Rightarrow> string list" where
  "command_options configuration = map js_trim (js_split (CHR '','') (to_lower configuration))"

definition YGOProRoom_create :: "lists \<Rightarrow> string \<Rightarrow> player_info \<Rightarrow> bool option \<Rightarrow> create_error + room_settings" where
  "YGOProRoom_create ls cmd info rankedOverride =
     (let parts = js_split (CHR ''#'') cmd;
          configuration = parts ! 0;
          password = (if length parts > 1 then parts ! 1 else []);
          opts = command_options configuration
      in sum_bind (apply_options ls opts (default_host_info ls)) (\<lambda>h.
           let teamCount = (if mode h = TAG then 2 else 1)
           in Inr \<lparr>rs_host_info = h, rs_name = configuration, rs_password = password, rs_team0 = teamCount,
                rs_team1 = teamCount,
                rs_league = league_determine (''casual'' \<in> set opts) rankedOverride (given (pi_password info)),
                rs_bestOf = best_of h, rs_startLp = start_lp h,
                rs_banListHash = (case findLFListByIndex ls (lflist h) of None \<Rightarrow> 0 | Some l \<Rightarrow> list_hash l),
                rs_cardPool = resolveCardPool opts\<rparr>))"

definition isRecognizedToken :: "string \<Rightarrow> bool" where
  "isRecognizedToken token =
     (let normalized = to_lower token
      in list_ex (list_ex (\<lambda>m. validates m normalized)) [MODE_TIER, FORMAT_TIER, PRIORITY_TIER])"

text \<open>A pairing join (\<open>isPairingJoin.ts\<close>): no password and nothing but rule tokens.\<close>

definition isPairingJoin :: "string \<Rightarrow> string \<Rightarrow> bool" where
  "isPairingJoin cmd password =
     (if password \<noteq> [] then False
      else if cmd = [] then False
      else let tokens = filter (\<lambda>t. t \<noteq> []) (map (\<lambda>t. to_lower (js_trim t)) (js_split (CHR '','') cmd))
           in if length tokens = 0 then False
              else list_all (\<lambda>t. isRecognizedToken t \<or> t = ''casual'') tokens)"

subsection \<open>No token fits two mappings of a tier\<close>

text \<open>A numbered token begins with the first two letters of one of its prefixes, and no fixed word is
  numbered.\<close>

lemma numbered_start:
  "numbered ps v \<Longrightarrow> list_all (\<lambda>p. 2 \<le> length p) ps \<Longrightarrow> take 2 v \<in> set (map (take 2) ps)"
proof -
  assume "numbered ps v" "list_all (\<lambda>p. 2 \<le> length p) ps"
  then obtain p where p: "p \<in> set ps" "take (length p) v = p" "2 \<le> length p"
    by (auto simp: numbered_def starts_with_def list_ex_iff list_all_iff)
  then have "take 2 v = take 2 p"
    by (metis min_absorb1 take_take)
  then show ?thesis
    using p(1) by simp
qed

definition format_words :: "string list" where
  "format_words = [''goat'', ''gt'', ''edison'', ''ed'', ''edm'', ''tengu'', ''md'', ''jtp'', ''jtp-2007-03'', ''jm'', ''rush'',
     ''rushpre'', ''world'', ''pre'', ''ocg'', ''tcgpre'', ''ocgpre'', ''tcgart'', ''ocgart'']"

lemma format_word_once: "list_all (\<lambda>v. length (filter (\<lambda>m. validates m v) FORMAT_TIER) \<le> 1) format_words"
  by code_simp

lemma format_once: "length (filter (\<lambda>m. validates m v) FORMAT_TIER) \<le> 1"
proof (cases "v \<in> set format_words")
  case False
  then have "filter (\<lambda>m. validates m v) FORMAT_TIER = filter (\<lambda>m. validates m v) [mapping_genesys]"
    by (simp add: FORMAT_TIER_def format_words_def words_def mapping_goat_def mapping_gt_def mapping_edison_def
        mapping_ed_def mapping_edm_def mapping_tengu_def mapping_md_def mapping_jtp_def mapping_jtp_2007_03_def
        mapping_jm_def mapping_rush_def mapping_rushpre_def mapping_world_def mapping_pre_def mapping_ocg_def
        mapping_tcgpre_def mapping_ocgpre_def mapping_tcgart_def mapping_ocgart_def)
  then show ?thesis by simp
qed (use format_word_once in \<open>auto simp: list_all_iff\<close>)

definition fixed_words :: "string list" where
  "fixed_words = [''ot'', ''tcg'', ''otto'', ''toot'', ''tt'', ''ns'', ''noshuffle'', ''tcgsegoc'', ''goat2005'', ''nc'',
     ''nocheck'', ''to'', ''tcgonly'', ''tor'', ''nf'', ''nolflist'', ''oor'', ''oo'', ''ocgonly'', ''or'', ''tr'',
     ''oomr'', ''omr'', ''tomr'', ''tmr'']"

lemma priority_words: "list_all (\<lambda>v. length (filter (\<lambda>m. validates m v) PRIORITY_TIER) \<le> 1) fixed_words"
  by code_simp

lemma mode_once: "length (filter (\<lambda>m. validates m v) MODE_TIER) \<le> 1"
  by (simp add: MODE_TIER_def mapping_m_def mapping_t_def words_def)

lemma priority_numbered:
  assumes "v \<notin> set fixed_words"
  shows "length (filter (\<lambda>m. validates m v) PRIORITY_TIER) \<le> 1"
proof -
  have start: "numbered [''bo''] v \<Longrightarrow> take 2 v = ''bo''" "numbered [''lp''] v \<Longrightarrow> take 2 v = ''lp''"
    "numbered [''tm'', ''time''] v \<Longrightarrow> take 2 v \<in> {''tm'', ''ti''}"
    "numbered [''mr'', ''duelrule''] v \<Longrightarrow> take 2 v \<in> {''mr'', ''du''}"
    "numbered [''dr'', ''draw''] v \<Longrightarrow> take 2 v = ''dr''" "numbered [''st'', ''start''] v \<Longrightarrow> take 2 v = ''st''"
    "validates mapping_lf v \<Longrightarrow> take 2 v = ''lf''"
    using numbered_start [of "[''bo'']" v] numbered_start [of "[''lp'']" v] numbered_start [of "[''tm'', ''time'']" v]
      numbered_start [of "[''mr'', ''duelrule'']" v] numbered_start [of "[''dr'', ''draw'']" v]
      numbered_start [of "[''st'', ''start'']" v]
    by (auto simp: mapping_lf_def starts_with_def numeral_2_eq_2)
  have "filter (\<lambda>m. validates m v) PRIORITY_TIER =
      filter (\<lambda>m. validates m v) [mapping_bo, mapping_lp, mapping_tm, mapping_mr, mapping_dr, mapping_st, mapping_lf]"
    using assms
    by (simp add: PRIORITY_TIER_def fixed_words_def words_def mapping_ot_def mapping_otto_def mapping_toot_def
        mapping_ns_def mapping_tcgsegoc_def mapping_goat2005_def mapping_nc_def mapping_to_def mapping_nf_def
        mapping_oor_def mapping_or_def mapping_tr_def mapping_oomr_def mapping_omr_def mapping_tomr_def mapping_tmr_def)
  moreover have "validates mapping_bo v = numbered [''bo''] v" "validates mapping_lp v = numbered [''lp''] v"
    "validates mapping_tm v = numbered [''tm'', ''time''] v" "validates mapping_mr v = numbered [''mr'', ''duelrule''] v"
    "validates mapping_dr v = numbered [''dr'', ''draw''] v" "validates mapping_st v = numbered [''st'', ''start''] v"
    by (simp_all add: mapping_bo_def mapping_lp_def mapping_tm_def mapping_mr_def mapping_dr_def mapping_st_def number_mapping_def)
  ultimately show ?thesis
    using start by auto
qed

lemma priority_once: "length (filter (\<lambda>m. validates m v) PRIORITY_TIER) \<le> 1"
  using priority_words priority_numbered by (cases "v \<in> set fixed_words") (auto simp: list_all_iff)

end
