(* ===== verification/RulesProps.thy ===== *)
theory RulesProps
  imports Rules
begin

text \<open>
  What a create command can produce: no command is ambiguous and only a missing Genesys list makes one
  fail, the settings of a created room stay in the ranges the duel needs, and the order of tokens
  matters within a tier only.
\<close>

subsection \<open>Failure\<close>

lemma fold_e_error:
  assumes "\<And>x s e. f x s = Inl e \<longleftrightarrow> e = E \<and> Q x"
  shows "fold_e f xs s = Inl e \<longleftrightarrow> e = E \<and> list_ex Q xs"
proof (induction xs arbitrary: s)
  case (Cons x xs)
  then show ?case
    using assms [of x s] by (cases "f x s") auto
qed simp

definition genesys_missing :: "lists \<Rightarrow> string \<Rightarrow> bool" where
  "genesys_missing ls v \<longleftrightarrow> validates mapping_genesys v \<and> findIndexByAlias ls ''genesys'' = -1"

lemma effect_words [simp]: "effect (words ws u) ls v = Some (u ls)"
  by (simp add: words_def)

lemma effect_number [simp]: "effect (number_mapping ps u) ls v = Some (u (extractNumberFromCommand v))"
  by (simp add: number_mapping_def)

lemmas mode_defs = MODE_TIER_def mapping_m_def mapping_t_def
lemmas format_defs = FORMAT_TIER_def mapping_goat_def mapping_gt_def mapping_edison_def
  mapping_ed_def mapping_edm_def mapping_tengu_def mapping_md_def mapping_jtp_def mapping_jtp_2007_03_def
  mapping_jm_def mapping_rush_def mapping_rushpre_def mapping_world_def mapping_pre_def mapping_ocg_def
  mapping_tcgpre_def mapping_ocgpre_def mapping_tcgart_def mapping_ocgart_def
lemmas priority_defs = PRIORITY_TIER_def mapping_ot_def mapping_otto_def mapping_toot_def
  mapping_ns_def mapping_tcgsegoc_def mapping_goat2005_def mapping_nc_def mapping_to_def mapping_nf_def
  mapping_oor_def mapping_or_def mapping_tr_def mapping_oomr_def mapping_omr_def mapping_tomr_def mapping_tmr_def
  mapping_bo_def mapping_lp_def mapping_tm_def mapping_mr_def mapping_dr_def mapping_st_def

lemma mode_total: "list_all (\<lambda>m. effect m ls v \<noteq> None) MODE_TIER"
  by (simp add: mode_defs)

lemma priority_total: "list_all (\<lambda>m. effect m ls v \<noteq> None) PRIORITY_TIER"
  by (simp add: priority_defs mapping_lf_def)

lemma format_total:
  "list_all (\<lambda>m. validates m v \<longrightarrow> \<not> validates mapping_genesys v \<longrightarrow> effect m ls v \<noteq> None) FORMAT_TIER"
  by (simp add: format_defs)

lemma genesys_only: "validates mapping_genesys v \<Longrightarrow> filter (\<lambda>m. validates m v) FORMAT_TIER = [mapping_genesys]"
proof -
  assume "validates mapping_genesys v"
  then have "mapping_genesys \<in> set (filter (\<lambda>m. validates m v) FORMAT_TIER)"
    by (simp add: FORMAT_TIER_def)
  then show ?thesis
    using format_once [of v] by (cases "filter (\<lambda>m. validates m v) FORMAT_TIER") (auto simp: le_Suc_eq)
qed

text \<open>An option of a tier fails exactly when its one mapping throws.\<close>

lemma apply_total:
  assumes "length (filter (\<lambda>m. validates m v) tier) \<le> 1"
    and "list_all (\<lambda>m. validates m v \<longrightarrow> effect m ls v \<noteq> None) tier"
  shows "apply_option ls tier v h \<noteq> Inl e"
proof (cases "filter (\<lambda>m. validates m v) tier")
  case (Cons m ms)
  then have "m \<in> set tier" "validates m v"
    using filter_eq_ConsD [OF Cons] by auto
  then show ?thesis
    using assms Cons by (auto simp: apply_option_def list_all_iff)
qed (simp add: apply_option_def)

lemma apply_mode: "apply_option ls MODE_TIER v h \<noteq> Inl e"
  using apply_total [OF mode_once] mode_total by (auto simp: list_all_iff)

lemma apply_priority: "apply_option ls PRIORITY_TIER v h \<noteq> Inl e"
  using apply_total [OF priority_once] priority_total by (auto simp: list_all_iff)

lemma apply_format: "apply_option ls FORMAT_TIER v h = Inl e \<longleftrightarrow> e = GenesysNotLoaded \<and> genesys_missing ls v"
proof (cases "validates mapping_genesys v")
  case True
  then show ?thesis
    by (auto simp: apply_option_def genesys_only genesys_missing_def) (auto simp: mapping_genesys_def Let_def split: if_splits)
next
  case False
  then have "list_all (\<lambda>m. validates m v \<longrightarrow> effect m ls v \<noteq> None) FORMAT_TIER"
    using format_total [of v ls] by (auto simp: list_all_iff)
  then show ?thesis
    using apply_total [OF format_once] False by (auto simp: genesys_missing_def)
qed

lemma tier_total: "(\<And>v h e. apply_option ls tier v h \<noteq> Inl e) \<Longrightarrow> \<exists>h'. apply_tier ls opts tier h = Inr h'"
  using fold_e_inv [of "\<lambda>_. True" h opts "apply_option ls tier"] by (metis apply_tier_def obj_sumE)

lemma tier_format: "apply_tier ls opts FORMAT_TIER h = Inl e \<longleftrightarrow> e = GenesysNotLoaded \<and> list_ex (genesys_missing ls) opts"
  unfolding apply_tier_def by (rule fold_e_error) (rule apply_format)

lemma options_fail: "apply_options ls opts h = Inl e \<longleftrightarrow> e = GenesysNotLoaded \<and> list_ex (genesys_missing ls) opts"
proof -
  obtain h1 where m: "apply_tier ls opts MODE_TIER h = Inr h1"
    using tier_total [OF apply_mode] by blast
  have p: "apply_tier ls opts PRIORITY_TIER h2 \<noteq> Inl e2" for h2 e2
    using tier_total [OF apply_priority, of ls opts h2] by auto
  show ?thesis
    using tier_format [of ls opts h1 e] p m
    by (cases "apply_tier ls opts FORMAT_TIER h1") (auto simp: apply_options_def RULE_MAPPING_TIERS_def sum_bind_def split: sum.split)
qed

text \<open>No create command is ambiguous: of the mappings of a tier at most one accepts a token, whatever
  the token is. So a room is always created, except that a Genesys token fails, with its own error,
  while no Genesys ban list is loaded.\<close>

theorem only_a_missing_genesys_list_fails:
  "YGOProRoom_create ls cmd info ranked = Inl e \<longleftrightarrow>
     e = GenesysNotLoaded \<and> findIndexByAlias ls ''genesys'' = -1 \<and>
     list_ex (validates mapping_genesys) (command_options (js_split (CHR ''#'') cmd ! 0))"
proof -
  have "YGOProRoom_create ls cmd info ranked = Inl e \<longleftrightarrow>
      apply_options ls (command_options (js_split (CHR ''#'') cmd ! 0)) (default_host_info ls) = Inl e"
    by (simp add: YGOProRoom_create_def Let_def sum_bind_def split: sum.split)
  then show ?thesis
    unfolding options_fail by (auto simp: genesys_missing_def list_ex_iff)
qed

subsection \<open>Ranges\<close>

definition host_ok :: "host_info \<Rightarrow> bool" where
  "host_ok h \<longleftrightarrow> mode h \<le> 2 \<and> 1 \<le> best_of h \<and> (best_of h < 2 ^ 53 \<longrightarrow> odd (best_of h)) \<and>
     1 \<le> start_lp h \<and> start_lp h \<le> 99999 \<and> 1 \<le> start_hand h \<and> start_hand h \<le> 40 \<and>
     1 \<le> draw_count h \<and> draw_count h \<le> 35 \<and> time_limit h \<le> 3600 \<and>
     1 \<le> duel_rule h \<and> duel_rule h \<le> 5 \<and> rule h \<in> {0, 1, 5}"

lemma to_double_exact: "n < 2 ^ 53 \<Longrightarrow> to_double n = n"
  by (simp add: to_double_def)

lemma to_double_large:
  assumes "2 ^ 53 \<le> n"
  shows "2 ^ 53 \<le> to_double n"
proof -
  let ?e = "floorlog 2 n - 53"
  have n: "0 < n" using assms by (rule less_le_trans [rotated]) simp
  have up: "n < 2 ^ floorlog 2 n" and low: "2 ^ (floorlog 2 n - 1) \<le> n"
    using floorlog_bounds [OF n, of 2] by simp_all
  have "53 < floorlog 2 n"
    using assms up by (metis le_less_trans nat_power_less_imp_less zero_less_numeral)
  then have e: "floorlog 2 n - 1 = ?e + 52" "1 \<le> ?e"
    by simp_all
  have "2 ^ ?e * 2 ^ 52 \<le> n"
    using low unfolding e(1) power_add .
  then have "2 ^ 52 \<le> n div 2 ^ ?e"
    by (metis div_le_mono nonzero_mult_div_cancel_left power_eq_0_iff zero_neq_numeral)
  then have "2 ^ 52 * 2 ^ 1 \<le> n div 2 ^ ?e * 2 ^ ?e"
    using e(2) by (intro mult_le_mono power_increasing) auto
  then have "2 ^ 53 \<le> n div 2 ^ ?e * 2 ^ ?e"
    by simp
  also have "\<dots> \<le> to_double n"
    using assms by (auto simp: to_double_def Let_def)
  finally show ?thesis .
qed

lemma to_double_small: "to_double n < 2 ^ 53 \<Longrightarrow> n < 2 ^ 53 \<and> to_double n = n"
  using to_double_large [of n] to_double_exact [of n] by (cases "n < 2 ^ 53") auto

text \<open>An effect that keeps the ranges, whatever the token.\<close>

definition keeps_ranges :: "mapping \<Rightarrow> bool" where
  "keeps_ranges m \<longleftrightarrow> (\<forall>ls v u h. effect m ls v = Some u \<longrightarrow> host_ok h \<longrightarrow> host_ok (u h))"

lemma keeps_words: "(\<And>ls h. host_ok h \<Longrightarrow> host_ok (u ls h)) \<Longrightarrow> keeps_ranges (words ws u)"
  by (simp add: keeps_ranges_def)

lemma keeps_number: "(\<And>n h. host_ok h \<Longrightarrow> host_ok (u n h)) \<Longrightarrow> keeps_ranges (number_mapping ps u)"
  by (simp add: keeps_ranges_def)

lemma keeps_mode: "list_all keeps_ranges MODE_TIER"
  unfolding mode_defs by (auto intro!: keeps_words simp: host_ok_def MATCH_def TAG_def)

lemma keeps_genesys: "keeps_ranges mapping_genesys"
  by (auto simp: keeps_ranges_def mapping_genesys_def host_ok_def Let_def split: if_splits)

lemma keeps_format: "list_all keeps_ranges FORMAT_TIER"
  unfolding format_defs list.pred_inject
  by (intro conjI TrueI keeps_genesys keeps_words; simp add: host_ok_def MATCH_def goatRuleSet_def edisonRuleSet_def Let_def)

lemma best_of_ok:
  "host_ok h \<Longrightarrow> 1 \<le> b \<Longrightarrow> (b < 2 ^ 53 \<longrightarrow> odd b) \<Longrightarrow> host_ok (h\<lparr>mode := MATCH, best_of := b\<rparr>)"
  by (simp add: host_ok_def MATCH_def)

lemma next_double: "1 \<le> to_double (b + 1)" "even b \<Longrightarrow> to_double (b + 1) < 2 ^ 53 \<longrightarrow> odd (to_double (b + 1))"
proof -
  show "1 \<le> to_double (b + 1)"
  proof (cases "b + 1 < 2 ^ 53")
    case False
    then have "2 ^ 53 \<le> to_double (b + 1)"
      by (intro to_double_large) (rule leI)
    then show ?thesis
      by (rule order_trans [rotated]) simp
  qed (simp add: to_double_exact)
  assume "even b"
  then show "to_double (b + 1) < 2 ^ 53 \<longrightarrow> odd (to_double (b + 1))"
    using to_double_small [of "b + 1"] by (metis even_plus_one_iff)
qed

lemma keeps_bo: "keeps_ranges mapping_bo"
  unfolding mapping_bo_def
proof (rule keeps_number)
  fix n h
  assume h: "host_ok h"
  show "host_ok (case n of None \<Rightarrow> h\<lparr>mode := MATCH, best_of := 3\<rparr>
     | Some b \<Rightarrow> if b < 1 then h\<lparr>mode := MATCH, best_of := 3\<rparr>
         else if b mod 2 = 0 then h\<lparr>mode := MATCH, best_of := to_double (b + 1)\<rparr>
         else h\<lparr>mode := MATCH, best_of := b\<rparr>)"
  proof (cases n)
    case None
    then show ?thesis using best_of_ok [OF h, of 3] by simp
  next
    case (Some b)
    consider "b < 1" | "1 \<le> b" "even b" | "1 \<le> b" "odd b"
      by (meson not_less)
    then show ?thesis
    proof cases
      case 1
      then show ?thesis using best_of_ok [OF h, of 3] Some by simp
    next
      case 2
      then show ?thesis
        using best_of_ok [OF h next_double(1) next_double(2) [OF 2(2)]] Some by (simp add: even_iff_mod_2_eq_zero)
    next
      case 3
      then show ?thesis
        using best_of_ok [OF h 3(1)] Some by (simp add: odd_iff_mod_2_eq_one)
    qed
  qed
qed

lemma keeps_priority: "list_all keeps_ranges PRIORITY_TIER"
proof -
  have "keeps_ranges mapping_lp" "keeps_ranges mapping_tm" "keeps_ranges mapping_mr" "keeps_ranges mapping_dr"
    "keeps_ranges mapping_st"
    unfolding mapping_lp_def mapping_tm_def mapping_mr_def mapping_dr_def mapping_st_def
    by (intro keeps_number; auto simp: host_ok_def split: option.split)+
  moreover have "keeps_ranges mapping_lf"
    by (auto simp: keeps_ranges_def mapping_lf_def host_ok_def Let_def split: option.split)
  ultimately show ?thesis
    using keeps_bo
    unfolding PRIORITY_TIER_def list.pred_inject mapping_ot_def mapping_otto_def mapping_toot_def
      mapping_ns_def mapping_tcgsegoc_def mapping_goat2005_def mapping_nc_def mapping_to_def mapping_nf_def
      mapping_oor_def mapping_or_def mapping_tr_def mapping_oomr_def mapping_omr_def mapping_tomr_def mapping_tmr_def
    by (intro conjI TrueI keeps_words; (assumption | simp add: host_ok_def MATCH_def))
qed

lemma tier_keeps:
  assumes "list_all keeps_ranges tier" and "host_ok h" and "apply_tier ls opts tier h = Inr h'"
  shows "host_ok h'"
proof -
  have step: "host_ok y" if "apply_option ls tier v x = Inr y" "host_ok x" for v x y
  proof (cases "filter (\<lambda>m. validates m v) tier")
    case (Cons m ms)
    then have "keeps_ranges m"
      using filter_eq_ConsD [OF Cons] assms(1) by (auto simp: list_all_iff)
    then show ?thesis
      using that Cons by (auto simp: apply_option_def keeps_ranges_def split: option.splits if_splits)
  qed (use that in \<open>simp add: apply_option_def\<close>)
  show ?thesis
    using assms(2,3) unfolding apply_tier_def
  proof (induction opts arbitrary: h)
    case (Cons v vs)
    then obtain x where "apply_option ls tier v h = Inr x" "fold_e (apply_option ls tier) vs x = Inr h'"
      by (auto simp: sum_bind_Inr)
    then show ?case
      using Cons.IH step Cons.prems(1) by blast
  qed simp
qed

text \<open>Every room that is created can be played: a best-of count that is odd (as long as the number in
  the token is exact), between 1 and 99999 life points, an opening hand of 1 to 40 cards, 1 to 35 draws, a
  time limit of at most an hour, a master rule from 1 to 5, and the same number of seats on both sides,
  two exactly in tag mode.\<close>

theorem created_rooms_are_playable:
  assumes "YGOProRoom_create ls cmd info ranked = Inr s"
  shows "host_ok (rs_host_info s) \<and> rs_bestOf s = best_of (rs_host_info s) \<and> rs_startLp s = start_lp (rs_host_info s) \<and>
    rs_team0 s = rs_team1 s \<and> rs_team0 s = (if mode (rs_host_info s) = TAG then 2 else 1)"
proof -
  let ?opts = "command_options (js_split (CHR ''#'') cmd ! 0)"
  obtain h where h: "apply_options ls ?opts (default_host_info ls) = Inr h" "rs_host_info s = h"
    and rest: "rs_bestOf s = best_of h" "rs_startLp s = start_lp h" "rs_team0 s = rs_team1 s"
      "rs_team0 s = (if mode h = TAG then 2 else 1)"
    using assms by (auto simp: YGOProRoom_create_def Let_def sum_bind_Inr)
  obtain h1 h2 where "apply_tier ls ?opts MODE_TIER (default_host_info ls) = Inr h1"
    "apply_tier ls ?opts FORMAT_TIER h1 = Inr h2" "apply_tier ls ?opts PRIORITY_TIER h2 = Inr h"
    using h(1) by (auto simp: apply_options_def RULE_MAPPING_TIERS_def sum_bind_Inr)
  moreover have "host_ok (default_host_info ls)"
    by (simp add: host_ok_def default_host_info_def SINGLE_def)
  ultimately have "host_ok h"
    using tier_keeps [OF keeps_mode] tier_keeps [OF keeps_format] tier_keeps [OF keeps_priority] by blast
  then show ?thesis
    using h(2) rest by simp
qed

definition plain_info :: player_info where
  "plain_info = \<lparr>pi_name = ''Ann'', pi_password = None\<rparr>"

lemma tag_options: "command_options (js_split (CHR ''#'') ''T,NC,tcg#pw'' ! 0) = [''t'', ''nc'', ''tcg'']"
  by code_simp

lemma tag_room_created: "\<exists>s. YGOProRoom_create ls ''T,NC,tcg#pw'' plain_info None = Inr s \<and> rs_password s = ''pw''"
proof -
  have "\<not> validates mapping_genesys ''t''" "\<not> validates mapping_genesys ''nc''" "\<not> validates mapping_genesys ''tcg''"
    by code_simp+
  then have "apply_options ls [''t'', ''nc'', ''tcg''] (default_host_info ls) \<noteq> Inl e" for e
    by (simp add: options_fail genesys_missing_def)
  then obtain h where "apply_options ls [''t'', ''nc'', ''tcg''] (default_host_info ls) = Inr h"
    by (metis obj_sumE)
  moreover have "js_split (CHR ''#'') ''T,NC,tcg#pw'' = [''T,NC,tcg'', ''pw'']" by code_simp
  ultimately show ?thesis
    using tag_options by (simp add: YGOProRoom_create_def Let_def)
qed

lemma created_rooms_are_playable_witness:
  "\<exists>s. YGOProRoom_create [] ''T,NC,tcg#pw'' plain_info None = Inr s \<and> host_ok (rs_host_info s) \<and> rs_password s = ''pw''"
  using tag_room_created [of "[]"] created_rooms_are_playable [of "[]" "''T,NC,tcg#pw''" plain_info None] by blast

subsection \<open>The order of the tokens\<close>

definition known_to :: "mapping list \<Rightarrow> string \<Rightarrow> bool" where
  "known_to tier v \<longleftrightarrow> list_ex (\<lambda>m. validates m v) tier"

lemma tier_known: "apply_tier ls opts tier h = apply_tier ls (filter (known_to tier) opts) tier h"
proof -
  have "apply_option ls tier v h = Inr h" if "\<not> known_to tier v" for v h
    using that by (simp add: known_to_def apply_option_def list_ex_iff filter_empty_conv)
  then have "fold_e (apply_option ls tier) opts h = fold_e (apply_option ls tier) (filter (known_to tier) opts) h"
    by (induction opts arbitrary: h) (auto simp: sum_bind_def split: sum.split)
  then show ?thesis
    by (simp add: apply_tier_def)
qed

text \<open>Only the order of the tokens of one tier matters: two lists of options with the same mode tokens,
  the same format tokens and the same priority tokens, each in the same order, give the same host info,
  however the three are interleaved and whatever unknown tokens stand between them.\<close>

theorem token_order_across_tiers_is_irrelevant:
  assumes "\<And>tier. tier \<in> set RULE_MAPPING_TIERS \<Longrightarrow> filter (known_to tier) opts = filter (known_to tier) opts'"
  shows "apply_options ls opts h = apply_options ls opts' h"
proof -
  have "apply_tier ls opts tier = apply_tier ls opts' tier" if "tier \<in> set RULE_MAPPING_TIERS" for tier
    using tier_known [of ls opts tier] tier_known [of ls opts' tier] assms [OF that] by auto
  then have "fold_e (apply_tier ls opts) ts h = fold_e (apply_tier ls opts') ts h" if "set ts \<subseteq> set RULE_MAPPING_TIERS" for ts h
    using that by (induction ts arbitrary: h) (auto simp: sum_bind_def split: sum.split)
  then show ?thesis
    by (simp add: apply_options_def)
qed

lemma token_order_across_tiers_is_irrelevant_witness:
  "apply_options [] [''bo5'', ''pre'', ''t''] (default_host_info []) = apply_options [] [''t'', ''zzz'', ''pre'', ''bo5''] (default_host_info [])"
proof (rule token_order_across_tiers_is_irrelevant)
  have "known_to MODE_TIER ''t''" "\<not> known_to MODE_TIER ''bo5''" "\<not> known_to MODE_TIER ''pre''" "\<not> known_to MODE_TIER ''zzz''"
    "\<not> known_to FORMAT_TIER ''t''" "\<not> known_to FORMAT_TIER ''bo5''" "known_to FORMAT_TIER ''pre''" "\<not> known_to FORMAT_TIER ''zzz''"
    "\<not> known_to PRIORITY_TIER ''t''" "known_to PRIORITY_TIER ''bo5''" "\<not> known_to PRIORITY_TIER ''pre''" "\<not> known_to PRIORITY_TIER ''zzz''"
    by code_simp+
  then show "filter (known_to tier) [''bo5'', ''pre'', ''t''] = filter (known_to tier) [''t'', ''zzz'', ''pre'', ''bo5'']"
    if "tier \<in> set RULE_MAPPING_TIERS" for tier
    using that unfolding RULE_MAPPING_TIERS_def by auto
qed

text \<open>The short spelling of the ban list token selects by position, the long one never does.\<close>

lemma long_list_token_ignores_its_number:
  "map_option (\<lambda>u. lflist (u h)) (effect mapping_lf [] ''lf3'') = Some 2 \<and>
   map_option (\<lambda>u. lflist (u h)) (effect mapping_lf [] ''lflist3'') = Some 0"
proof -
  have "show_nat 3 = ''3''"
    by code_simp
  then have "numeric_index ''3'' = Some 3"
    by (simp add: numeric_index_def is_digit_def digits_value_def digit_val_def)
  moreover have "numeric_index ''list3'' = None"
    by (simp add: numeric_index_def is_digit_def)
  moreover have "findIndexByAlias [] a = -1" for a
    by (simp add: findIndexByAlias_def alias_candidates_def)
  ultimately show ?thesis
    by (simp add: mapping_lf_def starts_with_def no_line_break_def)
qed

end
