(* ===== verification/Ratings.thy ===== *)
theory Ratings
  imports Prelude Complex_Main
begin

text \<open>
  Elo ratings (\<open>src/shared/stats/rating/domain\<close>: \<open>Rating.ts\<close>, \<open>EloCalculator.ts\<close>,
  \<open>RatingEligibility.ts\<close>, \<open>replayRatingWindow.ts\<close>) and the subscriber that rates a finished match
  (\<open>src/plugins/elo-rating/application/EloRatingCalculator.ts\<close>) over the contract of the rating
  repository: missing ratings start fresh, a history row is inserted once per match, user and rank.

  Expected scores are real numbers, rounded as \<open>Math.round\<close> does; the margins proved are far above
  the rounding error of a double. A player without opponents would get the rating \<open>NaN\<close> in the
  source; here the calculation stops with an error. The ladder of a rank in a season is one state.
\<close>

subsection \<open>Ratings\<close>

record rating =
  r_value :: int
  gamesPlayed :: int
  peak :: int

definition INITIAL_RATING :: int where "INITIAL_RATING = 1000"
definition RATING_FLOOR :: int where "RATING_FLOOR = 100"
definition PROVISIONAL_GAMES_THRESHOLD :: int where "PROVISIONAL_GAMES_THRESHOLD = 10"

definition initialize_rating :: rating where
  "initialize_rating = \<lparr>r_value = INITIAL_RATING, gamesPlayed = 0, peak = INITIAL_RATING\<rparr>"

definition provisional :: "rating \<Rightarrow> bool" where
  "provisional r \<longleftrightarrow> gamesPlayed r < PROVISIONAL_GAMES_THRESHOLD"

definition effectiveDelta :: "int \<Rightarrow> rating \<Rightarrow> int" where
  "effectiveDelta d r = max RATING_FLOOR (r_value r + d) - r_value r"

definition applyDelta :: "int \<Rightarrow> rating \<Rightarrow> rating" where
  "applyDelta d r =
     (let v = r_value r + effectiveDelta d r
      in \<lparr>r_value = v, gamesPlayed = gamesPlayed r + 1, peak = max (peak r) v\<rparr>)"

subsection \<open>The Elo formula\<close>

definition RATING_SCALE :: real where "RATING_SCALE = 400"
definition MAX_EXPECTED_SCORE_GAP :: real where "MAX_EXPECTED_SCORE_GAP = 500"
definition HIGH_RATED_THRESHOLD :: int where "HIGH_RATED_THRESHOLD = 2300"
definition K_PROVISIONAL :: int where "K_PROVISIONAL = 40"
definition K_HIGH_RATED :: int where "K_HIGH_RATED = 10"
definition K_DEFAULT :: int where "K_DEFAULT = 20"

definition js_round :: "real \<Rightarrow> int" where
  "js_round x = \<lfloor>x + 1 / 2\<rfloor>"

definition expectedScore :: "real \<Rightarrow> real \<Rightarrow> real" where
  "expectedScore playerRating opponentRating =
     (let gap = min MAX_EXPECTED_SCORE_GAP (max (- MAX_EXPECTED_SCORE_GAP) (opponentRating - playerRating))
      in 1 / (1 + 10 powr (gap / RATING_SCALE)))"

definition kFactorFor :: "rating \<Rightarrow> int" where
  "kFactorFor r =
     (if provisional r then K_PROVISIONAL
      else if r_value r \<ge> HIGH_RATED_THRESHOLD then K_HIGH_RATED else K_DEFAULT)"

record rated_player =
  rp_id :: string
  rp_team :: nat
  rp_winner :: bool

record rating_delta =
  rd_user :: string
  rd_previous :: int
  rd_delta :: int
  rd_kFactor :: int
  rd_opponent :: int

datatype rating_error = NoRating string | NoOpponents

type_synonym ratings = "string \<Rightarrow> rating option"

fun total_rating :: "rated_player list \<Rightarrow> ratings \<Rightarrow> rating_error + int" where
  "total_rating [] rs = Inr 0"
| "total_rating (p # ps) rs =
     (case rs (rp_id p) of None \<Rightarrow> Inl (NoRating (rp_id p))
      | Some r \<Rightarrow> sum_bind (total_rating ps rs) (\<lambda>t. Inr (r_value r + t)))"

definition averageRatingOf :: "rated_player list \<Rightarrow> ratings \<Rightarrow> rating_error + real" where
  "averageRatingOf ps rs =
     (if ps = [] then Inl NoOpponents
      else sum_bind (total_rating ps rs) (\<lambda>t. Inr (real_of_int t / real (length ps))))"

definition delta_for :: "rated_player list \<Rightarrow> ratings \<Rightarrow> rated_player \<Rightarrow> rating_error + rating_delta" where
  "delta_for ps rs p =
     (case rs (rp_id p) of None \<Rightarrow> Inl (NoRating (rp_id p))
      | Some r \<Rightarrow>
          sum_bind (averageRatingOf (filter (\<lambda>q. rp_team q \<noteq> rp_team p) ps) rs) (\<lambda>average.
            let expected = expectedScore (real_of_int (r_value r)) average;
                actual = (if rp_winner p then 1 else 0);
                k = kFactorFor r
            in Inr \<lparr>rd_user = rp_id p, rd_previous = r_value r, rd_delta = js_round (real_of_int k * (actual - expected)),
                 rd_kFactor = k, rd_opponent = js_round average\<rparr>))"

definition deltasFor :: "rated_player list \<Rightarrow> ratings \<Rightarrow> rating_error + rating_delta list" where
  "deltasFor ps rs = fold_e (\<lambda>p ds. sum_bind (delta_for ps rs p) (\<lambda>d. Inr (ds @ [d]))) ps []"

subsection \<open>Which matches are rated\<close>

record eligibility_player =
  ep_id :: "string option"
  ep_team :: nat
  ep_name :: string
  ep_winner :: bool

datatype eligibility =
    Eligible string "rated_player list"
  | Unranked | NoRankedBanlist | MissingAccountId nat

definition evaluateRatingEligibility :: "bool \<Rightarrow> string \<Rightarrow> eligibility_player list \<Rightarrow> eligibility" where
  "evaluateRatingEligibility ranked banListName ps =
     (if \<not> ranked then Unranked
      else if banListName = [] \<or> banListName = ''N/A'' then NoRankedBanlist
      else let missing = length (filter (\<lambda>p. ep_id p = None) ps)
           in if missing > 0 then MissingAccountId missing
              else Eligible banListName
                (map (\<lambda>p. \<lparr>rp_id = the (ep_id p), rp_team = ep_team p, rp_winner = ep_winner p\<rparr>) ps))"

subsection \<open>Rating a match\<close>

record history_row =
  h_game :: string
  h_user :: string
  h_previous :: int
  h_delta :: int
  h_kFactor :: int
  h_opponent :: int

text \<open>The stored ratings and history of one rank in one season.\<close>

record ladder =
  stored :: "(string, rating) js_map"
  history :: "history_row list"

definition rating_or_new :: "(string, rating) js_map \<Rightarrow> string \<Rightarrow> rating" where
  "rating_or_new m u = (case map_get m u of None \<Rightarrow> initialize_rating | Some r \<Rightarrow> r)"

text \<open>The ratings a transaction, or a replayed game, starts from.\<close>

definition load_ratings :: "string list \<Rightarrow> (string, rating) js_map \<Rightarrow> ratings" where
  "load_ratings us m = (\<lambda>u. if u \<in> set us then Some (rating_or_new m u) else None)"

definition row_of :: "string \<Rightarrow> rating \<Rightarrow> rating_delta \<Rightarrow> history_row" where
  "row_of g r d =
     \<lparr>h_game = g, h_user = rd_user d, h_previous = rd_previous d, h_delta = effectiveDelta (rd_delta d) r,
      h_kFactor = rd_kFactor d, h_opponent = rd_opponent d\<rparr>"

definition insertHistory :: "history_row \<Rightarrow> ladder \<Rightarrow> bool \<times> ladder" where
  "insertHistory row L =
     (if list_ex (\<lambda>x. h_game x = h_game row \<and> h_user x = h_user row) (history L) then (False, L)
      else (True, L\<lparr>history := history L @ [row]\<rparr>))"

definition record_delta :: "string \<Rightarrow> ratings \<Rightarrow> rating_delta \<Rightarrow> ladder \<Rightarrow> ladder" where
  "record_delta g rs d L =
     (let r = the (rs (rd_user d)); applied = effectiveDelta (rd_delta d) r
      in case insertHistory (row_of g r d) L of
           (False, L') \<Rightarrow> L'
         | (True, L') \<Rightarrow> L'\<lparr>stored := map_put (rd_user d) (applyDelta applied r) (stored L')\<rparr>)"

definition rate_on_ladder :: "string \<Rightarrow> rated_player list \<Rightarrow> ladder \<Rightarrow> rating_error + ladder" where
  "rate_on_ladder g ps L =
     (let rs = load_ratings (map rp_id ps) (stored L)
      in sum_bind (deltasFor ps rs) (\<lambda>ds. Inr (fold (record_delta g rs) ds L)))"

text \<open>The subscriber: every ladder the played list feeds is rated, each on its own. The accounts that
  still exist, the alias of a list name and the groups it feeds are arguments; a rank is known by its
  name.\<close>

type_synonym ladders = "string \<Rightarrow> ladder"

definition EloRatingCalculator_handle ::
  "(string \<Rightarrow> bool) \<Rightarrow> (string \<Rightarrow> string) \<Rightarrow> (string \<Rightarrow> string list) \<Rightarrow>
   bool \<Rightarrow> string \<Rightarrow> string \<Rightarrow> eligibility_player list \<Rightarrow> ladders \<Rightarrow> rating_error + ladders" where
  "EloRatingCalculator_handle account resolveAlias groupsFor ranked matchId banListName ps Ls =
     (case evaluateRatingEligibility ranked banListName ps of
        Eligible name rated \<Rightarrow>
          if \<not> list_all (\<lambda>p. account (rp_id p)) rated then Inr Ls
          else let played = resolveAlias name
               in fold_e (\<lambda>rank Ls. sum_bind (rate_on_ladder matchId rated (Ls rank)) (\<lambda>L. Inr (Ls(rank := L))))
                    (played # groupsFor played) Ls
      | _ \<Rightarrow> Inr Ls)"

subsection \<open>Replaying a window\<close>

record window_player =
  wp_user :: string
  wp_winner :: bool

record window_game =
  wg_game :: string
  wg_players :: "window_player list"
  wg_rated :: bool

text \<open>Team \<open>PLAYER\<close> is 0 and \<open>OPPONENT\<close> 1.\<close>

definition replay_players :: "window_game \<Rightarrow> rated_player list" where
  "replay_players g =
     map (\<lambda>(i, p). \<lparr>rp_id = wp_user p, rp_team = (if i = 0 then 0 else 1), rp_winner = wp_winner p\<rparr>)
       (enumerate 0 (wg_players g))"

definition replay_delta :: "string \<Rightarrow> ratings \<Rightarrow> rating_delta \<Rightarrow>
    history_row list \<times> (string, rating) js_map \<Rightarrow> history_row list \<times> (string, rating) js_map" where
  "replay_delta g rs d s =
     (case s of (rows, m) \<Rightarrow>
        (let r = the (rs (rd_user d)); applied = effectiveDelta (rd_delta d) r
         in (rows @ [row_of g r d], map_put (rd_user d) (applyDelta applied r) m)))"

definition replay_game :: "window_game \<Rightarrow> history_row list \<times> (string, rating) js_map \<Rightarrow>
    rating_error + history_row list \<times> (string, rating) js_map" where
  "replay_game g s =
     (let rs = load_ratings (map wp_user (wg_players g)) (snd s)
      in sum_bind (deltasFor (replay_players g) rs) (\<lambda>ds. Inr (fold (replay_delta (wg_game g) rs) ds s)))"

definition replayRatingWindow :: "(string, rating) js_map \<Rightarrow> window_game list \<Rightarrow>
    rating_error + history_row list \<times> (string, rating) js_map" where
  "replayRatingWindow baselines gs = fold_e replay_game (filter wg_rated gs) ([], baselines)"

definition baselineAtWindowStart :: "rating option \<Rightarrow> history_row list \<Rightarrow> history_row list \<Rightarrow> rating option" where
  "baselineAtWindowStart current windowRows preWindowRows =
     (if windowRows = [] then Some (case current of None \<Rightarrow> initialize_rating | Some r \<Rightarrow> r)
      else case current of None \<Rightarrow> None
         | Some r \<Rightarrow> Some
             \<lparr>r_value = h_previous (hd windowRows),
              gamesPlayed = gamesPlayed r - int (length windowRows),
              peak = fold max (concat (map (\<lambda>x. [h_previous x, h_previous x + h_delta x]) preWindowRows)) INITIAL_RATING\<rparr>)"

definition same_row_key :: "history_row \<Rightarrow> history_row \<Rightarrow> bool" where
  "same_row_key a b \<longleftrightarrow> h_game a @ '':'' @ h_user a = h_game b @ '':'' @ h_user b"

definition sameRow :: "history_row \<Rightarrow> history_row \<Rightarrow> bool" where
  "sameRow a b \<longleftrightarrow> h_previous a = h_previous b \<and> h_delta a = h_delta b \<and> h_kFactor a = h_kFactor b \<and>
     h_opponent a = h_opponent b"

text \<open>The map of the replayed rows keeps the last row of a key.\<close>

definition compareReplayWithStored :: "history_row list \<Rightarrow> history_row list \<Rightarrow> (history_row \<times> history_row option) list" where
  "compareReplayWithStored stored_rows replayed =
     filter (\<lambda>(row, match). case match of None \<Rightarrow> True | Some m \<Rightarrow> \<not> sameRow row m)
       (map (\<lambda>row. (row, find (same_row_key row) (rev replayed))) stored_rows)"

datatype window_error = PlayerCount nat | SamePlayer | NotOneWinner

definition validateWindowGame :: "window_game \<Rightarrow> window_error option" where
  "validateWindowGame g =
     (if length (wg_players g) \<noteq> 2 then Some (PlayerCount (length (wg_players g)))
      else if wp_user (wg_players g ! 0) = wp_user (wg_players g ! 1) then Some SamePlayer
      else if length (filter wp_winner (wg_players g)) \<noteq> 1 then Some NotOneWinner
      else None)"

subsection \<open>Bounds of the formula\<close>

lemma ten_powr_bounds:
  assumes "\<bar>g\<bar> \<le> (5 / 4 :: real)"
  shows "10 powr g < 19" and "1 / 19 < 10 powr g"
proof -
  have "(10 powr (5 / 4 :: real)) ^ 4 = 10 powr 5"
    by (simp add: powr_power)
  also have "\<dots> = 100000"
    using powr_numeral [of "10 :: real" "num.Bit1 (num.Bit0 num.One)"] by simp
  also have "\<dots> < (19 :: real) ^ 4"
    by simp
  finally have top: "10 powr (5 / 4 :: real) < 19"
    by (rule power_less_imp_less_base) simp
  have le: "10 powr h \<le> 10 powr (5 / 4 :: real)" if "h \<le> 5 / 4" for h :: real
    using that by simp
  show "10 powr g < 19"
    using le [of g] top assms by linarith
  have "10 powr (- g) < 19"
    using le [of "- g"] top assms by linarith
  then show "1 / 19 < 10 powr g"
    by (simp add: powr_minus field_simps)
qed

lemma expectedScore_bounds: "1 / 20 < expectedScore a b" "expectedScore a b < 19 / 20"
proof -
  define g where "g = min MAX_EXPECTED_SCORE_GAP (max (- MAX_EXPECTED_SCORE_GAP) (b - a)) / RATING_SCALE"
  have "\<bar>g\<bar> \<le> 5 / 4"
    by (auto simp: g_def MAX_EXPECTED_SCORE_GAP_def RATING_SCALE_def min_def max_def)
  note x = ten_powr_bounds [OF this]
  have e: "expectedScore a b = 1 / (1 + 10 powr g)"
    by (simp add: expectedScore_def g_def)
  show "1 / 20 < expectedScore a b" "expectedScore a b < 19 / 20"
    using x by (simp_all add: e field_simps)
qed

lemma kFactor_cases: "kFactorFor r \<in> {10, 20, 40}"
  by (simp add: kFactorFor_def K_PROVISIONAL_def K_HIGH_RATED_def K_DEFAULT_def)

lemma rounded_delta:
  assumes "k \<in> {10, 20, 40 :: int}" and "1 / 20 < e" and "e < (19 / 20 :: real)"
  shows "1 \<le> js_round (real_of_int k * (1 - e)) \<and> js_round (real_of_int k * (1 - e)) \<le> k"
    and "- k \<le> js_round (real_of_int k * (0 - e)) \<and> js_round (real_of_int k * (0 - e)) \<le> -1"
  using assms by (auto simp: js_round_def le_floor_iff floor_le_iff floor_less_iff)

end
