(* ===== verification/RatingsProps.thy ===== *)
theory RatingsProps
  imports Ratings
begin

text \<open>
  What the rating of matches guarantees: a rated game always moves both sides, within the K factor and
  never below the floor, and replaying a window of games from the ratings before it writes the history
  the live path wrote, row by row.
\<close>

subsection \<open>Every rated game counts\<close>

lemma fold_snoc:
  "fold_e (\<lambda>p ds. sum_bind (f p) (\<lambda>d. Inr (ds @ [d]))) ps acc = Inr ds \<longleftrightarrow>
     (\<exists>es. ds = acc @ es \<and> list_all2 (\<lambda>p d. f p = Inr d) ps es)"
proof (induction ps arbitrary: acc)
  case (Cons p ps)
  show ?case
    by (cases "f p") (auto simp: Cons.IH list_all2_Cons1)
qed auto

lemma deltasFor_iff: "deltasFor ps rs = Inr ds \<longleftrightarrow> list_all2 (\<lambda>p d. delta_for ps rs p = Inr d) ps ds"
  by (simp add: deltasFor_def fold_snoc)

definition moved :: "rated_player \<Rightarrow> rating_delta \<Rightarrow> bool" where
  "moved p d \<longleftrightarrow> rd_user d = rp_id p \<and> rd_kFactor d \<in> {10, 20, 40} \<and>
     (if rp_winner p then 1 \<le> rd_delta d \<and> rd_delta d \<le> rd_kFactor d
      else - rd_kFactor d \<le> rd_delta d \<and> rd_delta d \<le> -1)"

lemma delta_moved:
  assumes "delta_for ps rs p = Inr d"
  shows "moved p d"
proof -
  obtain r a where r: "rs (rp_id p) = Some r" and d: "d = \<lparr>rd_user = rp_id p, rd_previous = r_value r,
      rd_delta = js_round (real_of_int (kFactorFor r) * ((if rp_winner p then 1 else 0) - expectedScore (real_of_int (r_value r)) a)),
      rd_kFactor = kFactorFor r, rd_opponent = js_round a\<rparr>"
    using assms by (auto simp: delta_for_def sum_bind_Inr Let_def split: option.splits)
  note k = kFactor_cases [of r]
  show ?thesis
    using rounded_delta [OF k expectedScore_bounds, of "real_of_int (r_value r)" a] k
    by (simp add: moved_def d)
qed

lemma effective_idem: "effectiveDelta (effectiveDelta d r) r = effectiveDelta d r"
  by (simp add: effectiveDelta_def)

text \<open>C30. Whatever the ratings of a match and however large their gap, every winner gains at least one
  point and every loser pays at least one, none more than its K factor of 10, 20 or 40; applied to any
  rating the result never falls below the floor, and the delta that is recorded leads exactly from the
  old value to the new one.\<close>

theorem rated_games_move_both_sides:
  assumes "deltasFor ps rs = Inr ds"
  shows "list_all2 moved ps ds \<and>
    (\<forall>d r. RATING_FLOOR \<le> r_value (applyDelta d r) \<and>
       r_value (applyDelta (effectiveDelta d r) r) = r_value r + effectiveDelta d r \<and>
       applyDelta (effectiveDelta d r) r = applyDelta d r)"
proof -
  have "list_all2 moved ps ds"
    using assms delta_moved unfolding deltasFor_iff by (blast intro: list_all2_mono)
  then show ?thesis
    by (simp add: applyDelta_def effective_idem Let_def) (simp add: effectiveDelta_def)
qed

subsection \<open>Replaying the live path\<close>

text \<open>A game as it was played: the window's record of it and the players with their teams.\<close>

definition played_as :: "window_game \<Rightarrow> rated_player list \<Rightarrow> bool" where
  "played_as g ps \<longleftrightarrow> wg_rated g \<and> validateWindowGame g = None \<and>
     map (\<lambda>p. (rp_id p, rp_winner p)) ps = map (\<lambda>w. (wp_user w, wp_winner w)) (wg_players g) \<and>
     distinct (map rp_team ps)"

definition live_run :: "(window_game \<times> rated_player list) list \<Rightarrow> ladder \<Rightarrow> rating_error + ladder" where
  "live_run gs = fold_e (\<lambda>(g, ps). rate_on_ladder (wg_game g) ps) gs"

lemma played_two:
  assumes "played_as g ps"
  obtains a b t t' where "wg_players g = [a, b]" "wp_user a \<noteq> wp_user b" "t \<noteq> t'"
    "ps = [\<lparr>rp_id = wp_user a, rp_team = t, rp_winner = wp_winner a\<rparr>, \<lparr>rp_id = wp_user b, rp_team = t', rp_winner = wp_winner b\<rparr>]"
proof -
  have "length (wg_players g) = 2"
    using assms by (auto simp: played_as_def validateWindowGame_def split: if_splits)
  then obtain a b where ab: "wg_players g = [a, b]"
    by (auto simp: length_Suc_conv numeral_2_eq_2)
  moreover have "wp_user a \<noteq> wp_user b"
    using assms ab by (auto simp: played_as_def validateWindowGame_def split: if_splits)
  moreover have m: "map (\<lambda>p. (rp_id p, rp_winner p)) ps = [(wp_user a, wp_winner a), (wp_user b, wp_winner b)]"
    using assms ab by (simp add: played_as_def)
  then obtain p q where "ps = [p, q]"
    by (auto simp: map_eq_Cons_conv)
  moreover have "distinct (map rp_team ps)"
    using assms by (simp add: played_as_def)
  ultimately show thesis
    using m that [of a b "rp_team p" "rp_team q"] by (cases p; cases q) auto
qed

text \<open>The deltas of a game for two depend on the two ratings and the result only.\<close>

lemma two_deltas:
  assumes "t \<noteq> t'" and "rs u = Some r" and "rs v = Some r'"
  shows "\<exists>d e. deltasFor [\<lparr>rp_id = u, rp_team = t, rp_winner = x\<rparr>, \<lparr>rp_id = v, rp_team = t', rp_winner = y\<rparr>] rs = Inr [d, e] \<and>
    rd_user d = u \<and> rd_user e = v \<and>
    (\<forall>s s'. s \<noteq> s' \<longrightarrow>
      deltasFor [\<lparr>rp_id = u, rp_team = s, rp_winner = x\<rparr>, \<lparr>rp_id = v, rp_team = s', rp_winner = y\<rparr>] rs = Inr [d, e])"
proof -
  let ?d = "\<lambda>s s'. delta_for [\<lparr>rp_id = u, rp_team = s, rp_winner = x\<rparr>, \<lparr>rp_id = v, rp_team = s', rp_winner = y\<rparr>] rs
    \<lparr>rp_id = u, rp_team = s, rp_winner = x\<rparr>"
  let ?e = "\<lambda>s s'. delta_for [\<lparr>rp_id = u, rp_team = s, rp_winner = x\<rparr>, \<lparr>rp_id = v, rp_team = s', rp_winner = y\<rparr>] rs
    \<lparr>rp_id = v, rp_team = s', rp_winner = y\<rparr>"
  have same: "?d s s' = ?d t t'" "?e s s' = ?e t t'" if "s \<noteq> s'" for s s'
    using that assms by (simp_all add: delta_for_def averageRatingOf_def)
  obtain d e where de: "?d t t' = Inr d" "?e t t' = Inr e"
    using assms by (simp add: delta_for_def averageRatingOf_def Let_def)
  have u: "rd_user d = u" "rd_user e = v"
    using de by (auto simp: delta_for_def sum_bind_Inr Let_def split: option.splits)
  have both: "deltasFor [\<lparr>rp_id = u, rp_team = s, rp_winner = x\<rparr>, \<lparr>rp_id = v, rp_team = s', rp_winner = y\<rparr>] rs = Inr [d, e]"
    if "s \<noteq> s'" for s s'
    unfolding deltasFor_iff list_all2_Cons list_all2_Nil same [OF that] using de by blast
  show ?thesis
    using u both assms(1) by blast
qed

lemma load_known: "u \<in> set us \<Longrightarrow> load_ratings us m u = Some (rating_or_new m u)"
  by (simp add: load_ratings_def)

definition unplayed :: "string \<Rightarrow> ladder \<Rightarrow> bool" where
  "unplayed g L \<longleftrightarrow> g \<notin> h_game ` set (history L)"

text \<open>One game: the live path appends to the history what the replay appends to its rows.\<close>

lemma game_replayed:
  assumes "played_as g ps" and "unplayed (wg_game g) L"
  shows "\<exists>new m. rate_on_ladder (wg_game g) ps L = Inr (L\<lparr>history := history L @ new, stored := m\<rparr>) \<and>
    (\<forall>rows. replay_game g (rows, stored L) = Inr (rows @ new, m)) \<and>
    (\<forall>x \<in> set new. h_game x = wg_game g) \<and> distinct (map h_user new)"
proof -
  obtain a b t t' where g: "wg_players g = [a, b]" "wp_user a \<noteq> wp_user b" "t \<noteq> t'"
    "ps = [\<lparr>rp_id = wp_user a, rp_team = t, rp_winner = wp_winner a\<rparr>, \<lparr>rp_id = wp_user b, rp_team = t', rp_winner = wp_winner b\<rparr>]"
    using played_two [OF assms(1)] .
  let ?u = "wp_user a" and ?v = "wp_user b"
  let ?rs = "load_ratings [?u, ?v] (stored L)"
  have rs: "?rs ?u = Some (rating_or_new (stored L) ?u)" "?rs ?v = Some (rating_or_new (stored L) ?v)"
    by (simp_all add: load_known)
  obtain d e where de: "deltasFor ps ?rs = Inr [d, e]" "rd_user d = ?u" "rd_user e = ?v"
    "deltasFor (replay_players g) ?rs = Inr [d, e]"
    using two_deltas [OF g(3) rs, of "wp_winner a" "wp_winner b"] unfolding g(4) replay_players_def g(1)
    by auto
  let ?new = "[row_of (wg_game g) (rating_or_new (stored L) ?u) d, row_of (wg_game g) (rating_or_new (stored L) ?v) e]"
  have fresh: "\<not> list_ex (\<lambda>x. h_game x = wg_game g \<and> P x) (history L)" for P
    using assms(2) by (auto simp: unplayed_def list_ex_iff image_iff)
  have "map rp_id ps = [?u, ?v]" "map wp_user (wg_players g) = [?u, ?v]"
    by (simp_all add: g(1,4))
  then show ?thesis
    using de rs g(2) fresh
    by (intro exI [of _ ?new])
      (simp add: rate_on_ladder_def replay_game_def record_delta_def replay_delta_def insertHistory_def row_of_def Let_def)
qed

lemma live_replayed:
  assumes "list_all (\<lambda>(g, ps). played_as g ps) gs" and "distinct (map (wg_game \<circ> fst) gs)"
    and "list_all (\<lambda>(g, ps). unplayed (wg_game g) L) gs"
  shows "\<exists>new m. live_run gs L = Inr (L\<lparr>history := history L @ new, stored := m\<rparr>) \<and>
    (\<forall>rows. fold_e replay_game (map fst gs) (rows, stored L) = Inr (rows @ new, m)) \<and>
    set (map h_game new) \<subseteq> (wg_game \<circ> fst) ` set gs \<and> distinct (map (\<lambda>x. (h_game x, h_user x)) new)"
  using assms
proof (induction gs arbitrary: L)
  case Nil
  show ?case
    by (rule exI [of _ "[]"], rule exI [of _ "stored L"]) (simp add: live_run_def)
next
  case (Cons gp gs)
  obtain g ps where gp: "gp = (g, ps)" by (cases gp)
  obtain new m where one: "rate_on_ladder (wg_game g) ps L = Inr (L\<lparr>history := history L @ new, stored := m\<rparr>)"
    "\<And>rows. replay_game g (rows, stored L) = Inr (rows @ new, m)"
    "\<forall>x \<in> set new. h_game x = wg_game g" "distinct (map h_user new)"
    using game_replayed [of g ps L] Cons.prems gp by auto
  let ?L = "L\<lparr>history := history L @ new, stored := m\<rparr>"
  have "list_all (\<lambda>(g, ps). unplayed (wg_game g) ?L) gs"
    using Cons.prems(2,3) one(3) gp by (force simp: unplayed_def list_all_iff)
  then obtain more m' where rest: "live_run gs ?L = Inr (?L\<lparr>history := history ?L @ more, stored := m'\<rparr>)"
    "\<And>rows. fold_e replay_game (map fst gs) (rows, stored ?L) = Inr (rows @ more, m')"
    "set (map h_game more) \<subseteq> (wg_game \<circ> fst) ` set gs" "distinct (map (\<lambda>x. (h_game x, h_user x)) more)"
    using Cons.IH [of ?L] Cons.prems by auto
  have "live_run (gp # gs) L = Inr (L\<lparr>history := history L @ (new @ more), stored := m'\<rparr>)"
    using one(1) rest(1) by (simp add: live_run_def gp)
  moreover have "fold_e replay_game (map fst (gp # gs)) (rows, stored L) = Inr (rows @ (new @ more), m')" for rows
    using one(2) [of rows] rest(2) [of "rows @ new"] by (simp add: gp)
  moreover have "distinct (map (\<lambda>x. (h_game x, h_user x)) (new @ more))"
  proof -
    have "distinct (map (\<lambda>x. (h_game x, h_user x)) new)"
      using one(3,4) by (simp add: distinct_map inj_on_def)
    moreover have "wg_game g \<notin> h_game ` set more"
      using rest(3) Cons.prems(2) gp by auto
    ultimately show ?thesis
      using rest(4) one(3) by (auto simp: image_iff)
  qed
  moreover have "set (map h_game (new @ more)) \<subseteq> (wg_game \<circ> fst) ` set (gp # gs)"
    using one(3) rest(3) gp by auto
  ultimately show ?case
    by blast
qed

lemma key_determines_row:
  assumes "CHR '':'' \<notin> set g" and "CHR '':'' \<notin> set g'" and "g @ '':'' @ u = g' @ '':'' @ u'"
  shows "g = g' \<and> u = u'"
proof -
  have "takeWhile (\<lambda>c. c \<noteq> CHR '':'') (h @ '':'' @ w) = h" if "CHR '':'' \<notin> set h" for h w
    using that by (subst takeWhile_append2) auto
  then have "g = g'"
    using assms by metis
  then show ?thesis
    using assms(3) by simp
qed

lemma replay_matches_itself:
  assumes "distinct (map (\<lambda>x. (h_game x, h_user x)) rows)" and "\<forall>x \<in> set rows. CHR '':'' \<notin> set (h_game x)"
  shows "compareReplayWithStored rows rows = []"
proof -
  have "find (same_row_key r) (rev rows) = Some r" if r: "r \<in> set rows" for r
  proof (cases "find (same_row_key r) (rev rows)")
    case None
    then show ?thesis
      using r by (auto simp: find_None_iff same_row_key_def)
  next
    case (Some x)
    then have x: "x \<in> set rows" "same_row_key r x"
      using find_SomeD [OF Some] by auto
    then have "h_game r = h_game x \<and> h_user r = h_user x"
      using key_determines_row [of "h_game r" "h_game x" "h_user r" "h_user x"] assms(2) r
      unfolding same_row_key_def by blast
    then have "x = r"
      using assms(1) r x(1) by (auto simp: distinct_map inj_on_def)
    then show ?thesis using Some by simp
  qed
  then show ?thesis
    by (auto simp: compareReplayWithStored_def filter_empty_conv sameRow_def)
qed

text \<open>C31. A window of one-against-one games rated live, in order and each once, on a ladder in any state:
  the live path succeeds, and replaying the window from the ratings the ladder held before it yields
  exactly the rows the live path appended to the history and exactly the ratings it left stored, so that
  the comparison finds no mismatch.\<close>

theorem replay_rewrites_the_live_history:
  assumes "list_all (\<lambda>(g, ps). played_as g ps) gs" and "distinct (map (wg_game \<circ> fst) gs)"
    and "list_all (\<lambda>(g, ps). unplayed (wg_game g) L \<and> CHR '':'' \<notin> set (wg_game g)) gs"
  shows "\<exists>new m. live_run gs L = Inr (L\<lparr>history := history L @ new, stored := m\<rparr>) \<and>
    replayRatingWindow (stored L) (map fst gs) = Inr (new, m) \<and> compareReplayWithStored new new = []"
proof -
  have "list_all (\<lambda>(g, ps). unplayed (wg_game g) L) gs"
    using assms(3) by (auto simp: list_all_iff)
  then obtain new m where run: "live_run gs L = Inr (L\<lparr>history := history L @ new, stored := m\<rparr>)"
    "\<And>rows. fold_e replay_game (map fst gs) (rows, stored L) = Inr (rows @ new, m)"
    "set (map h_game new) \<subseteq> (wg_game \<circ> fst) ` set gs" "distinct (map (\<lambda>x. (h_game x, h_user x)) new)"
    using live_replayed [OF assms(1,2)] by blast
  have "filter wg_rated (map fst gs) = map fst gs"
    using assms(1) by (auto simp: list_all_iff played_as_def filter_id_conv)
  then have "replayRatingWindow (stored L) (map fst gs) = Inr (new, m)"
    using run(2) [of "[]"] by (simp add: replayRatingWindow_def)
  moreover have "\<forall>x \<in> set new. CHR '':'' \<notin> set (h_game x)"
    using run(3) assms(3) by (fastforce simp: list_all_iff)
  ultimately show ?thesis
    using run(1) replay_matches_itself [OF run(4)] by blast
qed

definition sample_game :: window_game where
  "sample_game = \<lparr>wg_game = ''g1'', wg_players = [\<lparr>wp_user = ''ana'', wp_winner = True\<rparr>, \<lparr>wp_user = ''bob'', wp_winner = False\<rparr>],
     wg_rated = True\<rparr>"

definition sample_sides :: "rated_player list" where
  "sample_sides = [\<lparr>rp_id = ''ana'', rp_team = 1, rp_winner = True\<rparr>, \<lparr>rp_id = ''bob'', rp_team = 0, rp_winner = False\<rparr>]"

lemma sample_played: "played_as sample_game sample_sides"
  by (simp add: played_as_def sample_game_def sample_sides_def validateWindowGame_def)

lemma replay_rewrites_the_live_history_witness:
  "\<exists>new m. live_run [(sample_game, sample_sides)] \<lparr>stored = [], history = []\<rparr> = Inr \<lparr>stored = m, history = new\<rparr> \<and>
     replayRatingWindow [] [sample_game] = Inr (new, m)"
proof -
  have "list_all (\<lambda>(g, ps). unplayed (wg_game g) \<lparr>stored = [], history = []\<rparr> \<and> CHR '':'' \<notin> set (wg_game g)) [(sample_game, sample_sides)]"
    by (simp add: unplayed_def sample_game_def)
  then show ?thesis
    using replay_rewrites_the_live_history [of "[(sample_game, sample_sides)]" "\<lparr>stored = [], history = []\<rparr>"] sample_played
    by auto
qed

lemma sample_deltas: "\<exists>ds. deltasFor sample_sides (load_ratings [''ana'', ''bob''] []) = Inr ds"
  using two_deltas [of 1 0 "load_ratings [''ana'', ''bob''] []" "''ana''" initialize_rating "''bob''" initialize_rating True False]
  by (auto simp: sample_sides_def load_ratings_def rating_or_new_def)

lemma rated_games_move_both_sides_witness:
  "\<exists>ds. deltasFor sample_sides (load_ratings [''ana'', ''bob''] []) = Inr ds \<and> list_all2 moved sample_sides ds"
  using sample_deltas rated_games_move_both_sides by blast

end
