(* ===== verification/RankGroups.thy ===== *)
theory RankGroups
  imports JsStrings
begin

text \<open>
  Which group ladders a played ban list feeds (\<open>src/shared/rank/domain/RankGroupResolution.ts\<close>) and the
  facade bound to the configuration, the loaded lists and the clock
  (\<open>src/shared/rank/application/RankGroupResolver.ts\<close>). The UTC calendar day is an argument, as the
  number \<open>YYYYMMDD\<close> is built from it. \<open>current_lists_feed_the_group\<close> is the promise of the comments:
  the summary of current lists agrees with the resolution of a single played list.
\<close>

subsection \<open>Names and members\<close>

record rank_group =
  group_name :: string
  group_enabled :: bool
  onlyCurrent :: bool
  members :: "string list"

record rank_groups_config =
  cfg_aliases :: "(string, string) js_map"
  cfg_groups :: "rank_group list"

record list_date =
  d_year :: nat
  d_month :: nat
  d_day :: nat

definition NON_GROUPABLE_NAMES :: "string list" where
  "NON_GROUPABLE_NAMES = [''N/A'', ''Global'']"

definition resolveAlias :: "string \<Rightarrow> (string, string) js_map \<Rightarrow> string" where
  "resolveAlias name aliases = (case map_get aliases name of None \<Rightarrow> name | Some n \<Rightarrow> n)"

definition ends_with :: "string \<Rightarrow> string \<Rightarrow> bool" where
  "ends_with suf s \<longleftrightarrow> length suf \<le> length s \<and> drop (length s - length suf) s = suf"

definition memberMatches :: "string \<Rightarrow> string \<Rightarrow> bool" where
  "memberMatches banListName member =
     (if starts_with ''* '' member then ends_with ('' '' @ drop 2 member) banListName
      else banListName = member)"

text \<open>\<open>/^(\\d{4})\\.(\\d{2})(?:\\.(\\d{2}))?(?=\\s|$)/\<close>: the optional day is taken when it is
  there and the name ends or a space follows it.\<close>

definition at_end :: "string \<Rightarrow> bool" where
  "at_end s \<longleftrightarrow> s = [] \<or> is_space (hd s)"

definition year_month :: "string \<Rightarrow> bool" where
  "year_month s \<longleftrightarrow> 7 \<le> length s \<and> list_all is_digit (take 4 s) \<and> s ! 4 = CHR ''.'' \<and>
     list_all is_digit (take 2 (drop 5 s))"

definition day_part :: "string \<Rightarrow> bool" where
  "day_part s \<longleftrightarrow> 3 \<le> length s \<and> hd s = CHR ''.'' \<and> list_all is_digit (take 2 (drop 1 s)) \<and> at_end (drop 3 s)"

definition parseBanListDatePrefix :: "string \<Rightarrow> list_date option" where
  "parseBanListDatePrefix name =
     (let y = digits_value (take 4 name); m = digits_value (take 2 (drop 5 name)); rest = drop 7 name
      in if \<not> year_month name then None
         else if day_part rest then Some \<lparr>d_year = y, d_month = m, d_day = digits_value (take 2 (drop 1 rest))\<rparr>
         else if at_end rest then Some \<lparr>d_year = y, d_month = m, d_day = 1\<rparr>
         else None)"

definition dateKey :: "list_date \<Rightarrow> nat" where
  "dateKey d = d_year d * 10000 + d_month d * 100 + d_day d"

definition matchesGroup :: "string \<Rightarrow> rank_group \<Rightarrow> bool" where
  "matchesGroup name g \<longleftrightarrow> list_ex (memberMatches name) (members g)"

subsection \<open>Currency\<close>

definition maxCurrentDatedKey :: "rank_group \<Rightarrow> string list \<Rightarrow> nat \<Rightarrow> nat option" where
  "maxCurrentDatedKey g names referenceKey =
     (let ks = filter (\<lambda>k. k \<le> referenceKey)
                 (map dateKey (List.map_filter parseBanListDatePrefix (filter (\<lambda>n. matchesGroup n g) names)))
      in if length ks = 0 then None else Some (fold max (tl ks) (hd ks)))"

definition currencyFloorKey :: "rank_group \<Rightarrow> string list list \<Rightarrow> nat \<Rightarrow> nat option" where
  "currencyFloorKey g nameSets referenceKey =
     (let newestKeys = List.map_filter (\<lambda>names. maxCurrentDatedKey g names referenceKey) nameSets
      in if length newestKeys = 0 then None else Some (fold min (tl newestKeys) (hd newestKeys)))"

definition isCurrent :: "nat option \<Rightarrow> rank_group \<Rightarrow> string list list \<Rightarrow> nat \<Rightarrow> bool" where
  "isCurrent playedKey g nameSets referenceKey =
     (case playedKey of None \<Rightarrow> True
      | Some k \<Rightarrow>
          if k > referenceKey then False
          else case currencyFloorKey g nameSets referenceKey of None \<Rightarrow> True | Some f \<Rightarrow> k \<ge> f)"

definition played_key :: "string \<Rightarrow> nat option" where
  "played_key name = map_option dateKey (parseBanListDatePrefix name)"

definition resolveGroupsFor :: "string \<Rightarrow> rank_group list \<Rightarrow> string list list \<Rightarrow> list_date \<Rightarrow> string list" where
  "resolveGroupsFor name groups nameSets today =
     (if name = [] \<or> name \<in> set NON_GROUPABLE_NAMES then []
      else map group_name
        (filter (\<lambda>g. \<not> onlyCurrent g \<or> isCurrent (played_key name) g nameSets (dateKey today))
          (filter (matchesGroup name) (filter group_enabled groups))))"

definition unique :: "'a list \<Rightarrow> 'a list" where
  "unique xs = fold set_add xs []"

definition currentListsFor :: "rank_group \<Rightarrow> string list list \<Rightarrow> list_date \<Rightarrow> string list \<times> string list" where
  "currentListsFor g nameSets today =
     (let matched = filter (\<lambda>n. matchesGroup n g) (unique (concat nameSets));
          referenceKey = dateKey today;
          floorKey = currencyFloorKey g nameSets referenceKey;
          current = filter (\<lambda>n.
            if n \<in> set NON_GROUPABLE_NAMES then False
            else case parseBanListDatePrefix n of None \<Rightarrow> True
              | Some d \<Rightarrow> (case floorKey of None \<Rightarrow> False | Some f \<Rightarrow> dateKey d \<ge> f \<and> dateKey d \<le> referenceKey)) matched
      in (matched, current))"

definition RankGroupResolver_groupsFor ::
  "rank_groups_config \<Rightarrow> string list list \<Rightarrow> list_date \<Rightarrow> string \<Rightarrow> string list" where
  "RankGroupResolver_groupsFor cfg nameSets now name =
     resolveGroupsFor name (cfg_groups cfg)
       (map (map (\<lambda>n. resolveAlias n (cfg_aliases cfg))) nameSets) now"

subsection \<open>Properties\<close>

lemma set_unique [simp]: "set (unique xs) = set xs"
proof -
  have "set (fold set_add xs ys) = set ys \<union> set xs" for ys
    by (induction xs arbitrary: ys) (auto simp: set_add_def)
  then show ?thesis by (simp add: unique_def)
qed

lemma fold_max: "ks \<noteq> [] \<Longrightarrow> fold max (tl ks) (hd ks :: nat) \<in> set ks \<and> (\<forall>x \<in> set ks. x \<le> fold max (tl ks) (hd ks))"
  using Max.set_eq_fold [of "hd ks" "tl ks"] Max_in [of "set ks"] Max_ge [of "set ks"] by (cases ks) auto

lemma fold_min: "ks \<noteq> [] \<Longrightarrow> fold min (tl ks) (hd ks :: nat) \<in> set ks \<and> (\<forall>x \<in> set ks. fold min (tl ks) (hd ks) \<le> x)"
  using Min.set_eq_fold [of "hd ks" "tl ks"] Min_in [of "set ks"] Min_le [of "set ks"] by (cases ks) auto

text \<open>The dates of a group's lists on one server, up to the reference day.\<close>

definition dated :: "rank_group \<Rightarrow> nat \<Rightarrow> string list \<Rightarrow> nat set" where
  "dated g ref names = {k. \<exists>n \<in> set names. matchesGroup n g \<and> played_key n = Some k \<and> k \<le> ref}"

lemma set_map_filter': "set (List.map_filter f xs) = {y. \<exists>x \<in> set xs. f x = Some y}"
  by (auto simp: List.map_filter_def image_iff) (metis option.sel)

lemma maxCurrent_spec:
  "(case maxCurrentDatedKey g names ref of None \<Rightarrow> dated g ref names = {}
    | Some k \<Rightarrow> k \<in> dated g ref names \<and> (\<forall>x \<in> dated g ref names. x \<le> k))"
proof -
  define ks where "ks = filter (\<lambda>k. k \<le> ref)
    (map dateKey (List.map_filter parseBanListDatePrefix (filter (\<lambda>n. matchesGroup n g) names)))"
  have s: "set ks = dated g ref names"
    by (auto simp: ks_def set_map_filter' dated_def played_key_def)
  have m: "maxCurrentDatedKey g names ref = (if length ks = 0 then None else Some (fold max (tl ks) (hd ks)))"
    unfolding maxCurrentDatedKey_def Let_def ks_def ..
  show ?thesis
    using fold_max [of ks] unfolding m s [symmetric] by (cases ks) auto
qed

lemma floor_spec:
  "(case currencyFloorKey g sets ref of None \<Rightarrow> \<forall>names \<in> set sets. dated g ref names = {}
    | Some f \<Rightarrow> (\<exists>names \<in> set sets. f \<in> dated g ref names) \<and>
        (\<forall>names \<in> set sets. dated g ref names \<noteq> {} \<longrightarrow> (\<exists>k \<in> dated g ref names. f \<le> k)))"
proof -
  let ?new = "List.map_filter (\<lambda>names. maxCurrentDatedKey g names ref) sets"
  have s: "set ?new = {k. \<exists>names \<in> set sets. maxCurrentDatedKey g names ref = Some k}"
    by (rule set_map_filter')
  show ?thesis
  proof (cases ?new)
    case Nil
    then have "{k. \<exists>names \<in> set sets. maxCurrentDatedKey g names ref = Some k} = {}"
      using s by simp
    then have "maxCurrentDatedKey g names ref = None" if "names \<in> set sets" for names
      using that by (cases "maxCurrentDatedKey g names ref") auto
    then have "dated g ref names = {}" if "names \<in> set sets" for names
      using maxCurrent_spec [where g = g and names = names and ref = ref] that by simp
    then show ?thesis
      using Nil by (simp add: currencyFloorKey_def)
  next
    case (Cons a ks)
    define f where "f = fold min ks a"
    have f: "currencyFloorKey g sets ref = Some f" "f \<in> set ?new" "\<forall>x \<in> set ?new. f \<le> x"
      using fold_min [of ?new] Cons by (simp_all add: currencyFloorKey_def f_def)
    have member: "k \<in> dated g ref names" if "maxCurrentDatedKey g names ref = Some k" for k names
      using maxCurrent_spec [where g = g and names = names and ref = ref] that by simp
    have newest: "\<exists>k. maxCurrentDatedKey g names ref = Some k" if "dated g ref names \<noteq> {}" for names
      using maxCurrent_spec [where g = g and names = names and ref = ref] that by (cases "maxCurrentDatedKey g names ref") auto
    show ?thesis
      using f member newest s by (auto simp: f(1)) blast
  qed
qed

lemma current_iff:
  assumes "n \<in> set (concat sets)" and "matchesGroup n g"
  shows "isCurrent (played_key n) g sets ref \<longleftrightarrow>
    (case played_key n of None \<Rightarrow> True
     | Some k \<Rightarrow> (case currencyFloorKey g sets ref of None \<Rightarrow> False | Some f \<Rightarrow> k \<ge> f \<and> k \<le> ref))"
proof (cases "played_key n")
  case (Some k)
  show ?thesis
  proof (cases "k \<le> ref")
    case True
    then obtain names where "names \<in> set sets" "k \<in> dated g ref names"
      using assms Some by (auto simp: dated_def)
    then have "currencyFloorKey g sets ref \<noteq> None"
      using floor_spec [where g = g and sets = sets and ref = ref] by (cases "currencyFloorKey g sets ref") auto
    then show ?thesis
      using Some True by (auto simp: isCurrent_def)
  qed (use Some in \<open>auto simp: isCurrent_def split: option.split\<close>)
qed (simp add: isCurrent_def)

text \<open>C32. The summary of a group and the resolution of a played list agree: of the lists some server has
  loaded, exactly those the summary calls current feed an enabled group that only counts current lists.
  And on every server the newest matching list that is not in the future is among them, so no server's
  players fall out of the ladder because another server already loaded a newer list.\<close>

theorem current_lists_feed_the_group:
  assumes "g \<in> set groups" and "distinct (map group_name groups)" and "group_enabled g" and "onlyCurrent g"
    and "n \<in> set (concat sets)" and "n \<noteq> []"
  shows "(n \<in> set (snd (currentListsFor g sets today)) \<longleftrightarrow> group_name g \<in> set (resolveGroupsFor n groups sets today)) \<and>
    (\<forall>names k. names \<in> set sets \<and> n \<in> set names \<and> n \<notin> set NON_GROUPABLE_NAMES \<and> matchesGroup n g \<and>
        played_key n = Some k \<and> k \<le> dateKey today \<and> (\<forall>x \<in> dated g (dateKey today) names. x \<le> k) \<longrightarrow>
        group_name g \<in> set (resolveGroupsFor n groups sets today))"
proof -
  have only: "h = g" if "h \<in> set groups" "group_name h = group_name g" for h
    using assms(1,2) that by (auto simp: distinct_map inj_on_def)
  have r: "group_name g \<in> set (resolveGroupsFor n groups sets today) \<longleftrightarrow>
      n \<notin> set NON_GROUPABLE_NAMES \<and> matchesGroup n g \<and> isCurrent (played_key n) g sets (dateKey today)"
  proof -
    define P where "P h \<longleftrightarrow> group_enabled h \<and> matchesGroup n h \<and>
      (\<not> onlyCurrent h \<or> isCurrent (played_key n) h sets (dateKey today))" for h
    have "group_name g \<in> group_name ` {h \<in> set groups. P h} \<longleftrightarrow> P g"
    proof
      assume "group_name g \<in> group_name ` {h \<in> set groups. P h}"
      then obtain h where h: "h \<in> set groups" "P h" "group_name h = group_name g"
        by force
      with only [OF h(1,3)] show "P g" by simp
    qed (use assms(1) in simp)
    moreover have "set (resolveGroupsFor n groups sets today) =
        (if n \<in> set NON_GROUPABLE_NAMES then {} else group_name ` {h \<in> set groups. P h})"
      using assms(6) by (auto simp: resolveGroupsFor_def P_def)
    ultimately show ?thesis
      using assms(3,4) by (simp add: P_def)
  qed
  have c: "n \<in> set (snd (currentListsFor g sets today)) \<longleftrightarrow>
      n \<notin> set NON_GROUPABLE_NAMES \<and> matchesGroup n g \<and> isCurrent (played_key n) g sets (dateKey today)"
    using assms(5) current_iff [OF assms(5)]
    by (auto simp: currentListsFor_def Let_def played_key_def split: option.splits)
  have "isCurrent (played_key n) g sets (dateKey today)"
    if "names \<in> set sets" "n \<in> set names" "matchesGroup n g" "played_key n = Some k" "k \<le> dateKey today"
      "\<forall>x \<in> dated g (dateKey today) names. x \<le> k" for names k
  proof -
    have "k \<in> dated g (dateKey today) names"
      using that by (auto simp: dated_def)
    then have ne: "dated g (dateKey today) names \<noteq> {}"
      by blast
    have "f \<le> k" if f: "currencyFloorKey g sets (dateKey today) = Some f" for f
    proof -
      have "\<forall>names \<in> set sets. dated g (dateKey today) names \<noteq> {} \<longrightarrow> (\<exists>x \<in> dated g (dateKey today) names. f \<le> x)"
        using floor_spec [where g = g and sets = sets and ref = "dateKey today"] f by simp
      then obtain x where "x \<in> dated g (dateKey today) names" "f \<le> x"
        using ne \<open>names \<in> set sets\<close> by blast
      then show ?thesis
        using \<open>\<forall>x \<in> dated g (dateKey today) names. x \<le> k\<close> order_trans by blast
    qed
    then show ?thesis
      using \<open>played_key n = Some k\<close> \<open>k \<le> dateKey today\<close> by (auto simp: isCurrent_def split: option.split)
  qed
  then show ?thesis
    using r c by auto
qed

definition tcg_group :: rank_group where
  "tcg_group = \<lparr>group_name = ''TCG'', group_enabled = True, onlyCurrent = True, members = [''* TCG'']\<rparr>"

definition two_servers :: "string list list" where
  "two_servers = [[''2026.09 TCG'', ''2026.10 TCG''], [''2026.05 TCG'', ''2026.09 TCG'']]"

definition some_day :: list_date where
  "some_day = \<lparr>d_year = 2026, d_month = 10, d_day = 21\<rparr>"

lemma current_lists_feed_the_group_witness:
  "''2026.09 TCG'' \<in> set (snd (currentListsFor tcg_group two_servers some_day)) \<longleftrightarrow>
     ''TCG'' \<in> set (resolveGroupsFor ''2026.09 TCG'' [tcg_group] two_servers some_day)"
proof -
  have "''2026.09 TCG'' \<in> set (concat two_servers)"
    by (simp add: two_servers_def)
  then show ?thesis
    using current_lists_feed_the_group [of tcg_group "[tcg_group]" "''2026.09 TCG''" two_servers some_day]
    by (simp add: tcg_group_def)
qed

end
