(* ===== verification/Ledger.thy ===== *)
theory Ledger
  imports MatchScore JsStrings "HOL-Library.Product_Lexorder"
begin

text \<open>
  Crediting a finished ranked match to the ladders it feeds
  (\<open>src/plugins/basic-stats/application/BasicStatsCalculator.ts\<close>,
  \<open>src/shared/stats/player-stats/domain/PlayerStats.ts\<close>), and the offline tools that rebuild the points
  ledger from the stored matches (\<open>src/shared/stats/points-ledger/domain\<close>:
  \<open>planLedgerBackfill.ts\<close>, \<open>fanOutAchievementPoints.ts\<close>).

  The tables are state: ranks (created on first use, with a serial number as id), one row of totals per
  user and rank, the ledger with its uniqueness constraint, the rows of matches and of their duels. The
  season is fixed; entries are those of kind \<open>applied\<close> and cycle 0, the only ones these operations write. The alias of a list name, the groups it feeds and the account behind a name
  are arguments. \<open>localeCompare\<close> is an argument too, as a sort key.
\<close>

subsection \<open>Tables\<close>

record rank =
  rank_id :: nat
  rank_name :: string

record player_stats =
  st_points :: int
  st_wins :: nat
  st_losses :: nat

record ledger_entry =
  e_game :: string
  e_user :: string
  e_rank :: nat
  e_season :: nat
  e_points :: int
  e_wins :: nat
  e_losses :: nat

record match_row =
  m_game :: string
  m_user :: string
  m_season :: nat
  m_banList :: string
  m_winner :: bool
  m_points :: int
  m_anulled :: bool

record duel_row =
  dr_game :: string
  dr_user :: string
  dr_duel :: "string option"
  dr_result :: game_result
  dr_turns :: int

record tables =
  ranks :: "(string, nat) js_map"
  totals :: "(string \<times> nat, player_stats) js_map"
  ledger :: "ledger_entry list"
  match_rows :: "match_row list"
  duel_rows :: "duel_row list"

definition GLOBAL_RANK_NAME :: string where "GLOBAL_RANK_NAME = ''Global''"
definition NO_BAN_LIST_RANK_NAME :: string where "NO_BAN_LIST_RANK_NAME = ''N/A''"

definition initialize_stats :: player_stats where
  "initialize_stats = \<lparr>st_points = 0, st_wins = 0, st_losses = 0\<rparr>"

definition addPoints :: "int \<Rightarrow> player_stats \<Rightarrow> player_stats" where
  "addPoints p s = s\<lparr>st_points := st_points s + p\<rparr>"

definition increaseWins :: "player_stats \<Rightarrow> player_stats" where
  "increaseWins s = s\<lparr>st_wins := st_wins s + 1\<rparr>"

definition increaseLosses :: "player_stats \<Rightarrow> player_stats" where
  "increaseLosses s = s\<lparr>st_losses := st_losses s + 1\<rparr>"

definition findOrCreateByName :: "string \<Rightarrow> tables \<Rightarrow> rank \<times> tables" where
  "findOrCreateByName name T =
     (case map_get (ranks T) name of
        Some i \<Rightarrow> (\<lparr>rank_id = i, rank_name = name\<rparr>, T)
      | None \<Rightarrow> (\<lparr>rank_id = length (ranks T), rank_name = name\<rparr>, T\<lparr>ranks := map_put name (length (ranks T)) (ranks T)\<rparr>))"

definition findStats :: "string \<Rightarrow> nat \<Rightarrow> tables \<Rightarrow> player_stats" where
  "findStats u r T = (case map_get (totals T) (u, r) of None \<Rightarrow> initialize_stats | Some s \<Rightarrow> s)"

definition insertLedgerEntry :: "ledger_entry \<Rightarrow> tables \<Rightarrow> bool \<times> tables" where
  "insertLedgerEntry e T =
     (if list_ex (\<lambda>x. e_game x = e_game e \<and> e_user x = e_user e \<and> e_rank x = e_rank e) (ledger T) then (False, T)
      else (True, T\<lparr>ledger := ledger T @ [e]\<rparr>))"

subsection \<open>Crediting a match\<close>

record game_over =
  go_match :: string
  go_ranked :: bool
  go_banList :: string
  go_players :: "player_data list"
  go_duelIds :: "string list"

type_synonym alias_of = "string \<Rightarrow> string"
type_synonym groups_of = "string \<Rightarrow> string list"

text \<open>The ladders a match credits: its list, Global, and the groups the list feeds.\<close>

definition credited_names :: "alias_of \<Rightarrow> groups_of \<Rightarrow> string \<Rightarrow> string list" where
  "credited_names resolveAlias groupsFor bl =
     (let hasBanList = bl \<noteq> [];
          isRankedBanList = hasBanList \<and> bl \<noteq> NO_BAN_LIST_RANK_NAME;
          resolved = (if isRankedBanList then resolveAlias bl else bl)
      in (if hasBanList then [resolved] else []) @ [GLOBAL_RANK_NAME] @ (if isRankedBanList then groupsFor resolved else []))"

fun find_or_create_all :: "string list \<Rightarrow> tables \<Rightarrow> rank list \<times> tables" where
  "find_or_create_all [] T = ([], T)"
| "find_or_create_all (n # ns) T =
     (case findOrCreateByName n T of (r, T1) \<Rightarrow> (case find_or_create_all ns T1 of (rs, T2) \<Rightarrow> (r # rs, T2)))"

definition entry_for :: "match_row \<Rightarrow> rank \<Rightarrow> ledger_entry" where
  "entry_for row r =
     \<lparr>e_game = m_game row, e_user = m_user row, e_rank = rank_id r, e_season = m_season row, e_points = m_points row,
      e_wins = (if m_winner row then 1 else 0), e_losses = (if m_winner row then 0 else 1)\<rparr>"

definition credit_rank :: "match_row \<Rightarrow> rank \<Rightarrow> tables \<Rightarrow> tables" where
  "credit_rank row r T =
     (let s = addPoints (m_points row) (findStats (m_user row) (rank_id r) T);
          s' = (if m_winner row then increaseWins s else increaseLosses s);
          T1 = T\<lparr>totals := map_put (m_user row, rank_id r) s' (totals T)\<rparr>
      in snd (insertLedgerEntry (entry_for row r) T1))"

definition row_for :: "nat \<Rightarrow> game_over \<Rightarrow> string \<Rightarrow> player_data \<Rightarrow> match_row" where
  "row_for season ev user p =
     \<lparr>m_game = go_match ev, m_user = user, m_season = season, m_banList = go_banList ev, m_winner = data_winner p,
      m_points = calculateMatchPoints (data_player p), m_anulled = False\<rparr>"

text \<open>One row per game; the ids of the duels are used only when there is one for every game.\<close>

definition duel_rows_for :: "game_over \<Rightarrow> string \<Rightarrow> player_data \<Rightarrow> duel_row list" where
  "duel_rows_for ev user p =
     (let idsMatchGames = length (go_duelIds ev) = length (games (data_player p))
      in map (\<lambda>(i, g). \<lparr>dr_game = go_match ev, dr_user = user,
               dr_duel = (if idsMatchGames then Some (go_duelIds ev ! i) else None), dr_result = result g, dr_turns = turns g\<rparr>)
           (enumerate 0 (games (data_player p))))"

definition credit_player ::
  "(string \<Rightarrow> string option) \<Rightarrow> nat \<Rightarrow> game_over \<Rightarrow> rank list \<Rightarrow> player_data \<Rightarrow> tables \<Rightarrow> tables" where
  "credit_player findByUsername season ev statsRanks p T =
     (case findByUsername (player_name (data_player p)) of None \<Rightarrow> T
      | Some user \<Rightarrow>
          (let row = row_for season ev user p; T1 = fold (credit_rank row) statsRanks T
           in T1\<lparr>match_rows := match_rows T1 @ [row], duel_rows := duel_rows T1 @ duel_rows_for ev user p\<rparr>))"

definition BasicStatsCalculator_handle ::
  "alias_of \<Rightarrow> groups_of \<Rightarrow> (string \<Rightarrow> string option) \<Rightarrow> nat \<Rightarrow> game_over \<Rightarrow> tables \<Rightarrow> tables" where
  "BasicStatsCalculator_handle resolveAlias groupsFor findByUsername season ev T =
     (if \<not> go_ranked ev then T
      else case find_or_create_all (credited_names resolveAlias groupsFor (go_banList ev)) T of
        (statsRanks, T1) \<Rightarrow> fold (credit_player findByUsername season ev statsRanks) (go_players ev) T1)"

subsection \<open>Rebuilding the ledger\<close>

record rank_accumulator =
  ra_name :: string
  ra_entryCount :: nat
  ra_games :: "string list"
  ra_users :: "string list"

record plan_state =
  entries :: "ledger_entry list"
  unmappedCounts :: "(string, nat) js_map"
  preFlagged :: "string list"
  rankStats :: "(nat, rank_accumulator) js_map"
  missingUsers :: "string list"
  missingUserMatchRows :: nat
  gameRowCounts :: "(string, nat \<times> nat) js_map"

text \<open>\<open>None\<close> when any rank of the row is unknown: the row is then reported, never credited in part.\<close>

fun lookup_all :: "(string \<Rightarrow> rank option) \<Rightarrow> string list \<Rightarrow> rank list option" where
  "lookup_all ranksByName [] = Some []"
| "lookup_all ranksByName (n # ns) =
     (case ranksByName n of None \<Rightarrow> None
      | Some r \<Rightarrow> (case lookup_all ranksByName ns of None \<Rightarrow> None | Some rs \<Rightarrow> Some (r # rs)))"

definition resolveRanksToCredit ::
  "match_row \<Rightarrow> alias_of \<Rightarrow> groups_of \<Rightarrow> (string \<Rightarrow> rank option) \<Rightarrow> rank list option" where
  "resolveRanksToCredit row resolveAlias groupsFor ranksByName =
     (let hasBanList = m_banList row \<noteq> [];
          isRankedBanList = hasBanList \<and> m_banList row \<noteq> NO_BAN_LIST_RANK_NAME;
          resolved = (if isRankedBanList then resolveAlias (m_banList row) else m_banList row)
      in lookup_all ranksByName
           ((if hasBanList then [resolved] else []) @ [GLOBAL_RANK_NAME] @ (if isRankedBanList then groupsFor resolved else [])))"

definition accumulateRankStats :: "match_row \<Rightarrow> rank \<Rightarrow> plan_state \<Rightarrow> plan_state" where
  "accumulateRankStats row r S =
     (let s = (case map_get (rankStats S) (rank_id r) of
                 None \<Rightarrow> \<lparr>ra_name = rank_name r, ra_entryCount = 0, ra_games = [], ra_users = []\<rparr> | Some s \<Rightarrow> s)
      in S\<lparr>rankStats := map_put (rank_id r)
             (s\<lparr>ra_entryCount := ra_entryCount s + 1, ra_games := set_add (m_game row) (ra_games s),
               ra_users := set_add (m_user row) (ra_users s)\<rparr>) (rankStats S)\<rparr>)"

definition plan_credit :: "match_row \<Rightarrow> rank \<Rightarrow> plan_state \<Rightarrow> plan_state" where
  "plan_credit row r S = accumulateRankStats row r (S\<lparr>entries := entries S @ [entry_for row r]\<rparr>)"

definition plan_row ::
  "alias_of \<Rightarrow> groups_of \<Rightarrow> (string \<Rightarrow> rank option) \<Rightarrow> (string \<Rightarrow> bool) \<Rightarrow> match_row \<Rightarrow> plan_state \<Rightarrow> plan_state" where
  "plan_row resolveAlias groupsFor ranksByName knownUserIds row S =
     (let counts = get_or (0, 0) (gameRowCounts S) (m_game row); total = fst counts + 1
      in if \<not> knownUserIds (m_user row)
         then S\<lparr>missingUsers := set_add (m_user row) (missingUsers S),
                missingUserMatchRows := missingUserMatchRows S + 1,
                gameRowCounts := map_put (m_game row) (total, snd counts + 1) (gameRowCounts S)\<rparr>
         else let S1 = S\<lparr>gameRowCounts := map_put (m_game row) (total, snd counts) (gameRowCounts S)\<rparr>;
                  S2 = (if m_anulled row then S1\<lparr>preFlagged := set_add (m_game row) (preFlagged S1)\<rparr> else S1)
              in case resolveRanksToCredit row resolveAlias groupsFor ranksByName of
                   None \<Rightarrow> S2\<lparr>unmappedCounts := js_incr (m_banList row) (unmappedCounts S2)\<rparr>
                 | Some credit \<Rightarrow> fold (plan_credit row) credit S2)"

definition plan_rows ::
  "match_row list \<Rightarrow> alias_of \<Rightarrow> groups_of \<Rightarrow> (string \<Rightarrow> rank option) \<Rightarrow> (string \<Rightarrow> bool) \<Rightarrow> plan_state" where
  "plan_rows rows resolveAlias groupsFor ranksByName knownUserIds =
     fold (plan_row resolveAlias groupsFor ranksByName knownUserIds) rows
       \<lparr>entries = [], unmappedCounts = [], preFlagged = [], rankStats = [], missingUsers = [],
        missingUserMatchRows = 0, gameRowCounts = []\<rparr>"

record rank_summary =
  rs_rank :: nat
  rs_rankName :: string
  rs_entryCount :: nat
  rs_gameCount :: nat
  rs_userCount :: nat

record plan_result =
  pr_entries :: "ledger_entry list"
  pr_unmapped :: "(string \<times> nat) list"
  pr_summaries :: "rank_summary list"
  pr_preFlagged :: "string list"
  pr_missingRows :: nat
  pr_missingUsers :: "string list"
  pr_missingGames :: "string list"

definition planLedgerBackfill ::
  "(string \<Rightarrow> string) \<Rightarrow> match_row list \<Rightarrow> alias_of \<Rightarrow> groups_of \<Rightarrow> (string \<Rightarrow> rank option) \<Rightarrow> (string \<Rightarrow> bool) \<Rightarrow> plan_result" where
  "planLedgerBackfill collate rows resolveAlias groupsFor ranksByName knownUserIds =
     (let S = plan_rows rows resolveAlias groupsFor ranksByName knownUserIds
      in \<lparr>pr_entries = entries S,
          pr_unmapped = sort_key (collate \<circ> fst) (unmappedCounts S),
          pr_summaries = sort_key (\<lambda>s. (collate (rs_rankName s), rs_rank s))
            (map (\<lambda>(i, s). \<lparr>rs_rank = i, rs_rankName = ra_name s, rs_entryCount = ra_entryCount s,
                  rs_gameCount = length (ra_games s), rs_userCount = length (ra_users s)\<rparr>) (rankStats S)),
          pr_preFlagged = sort (preFlagged S),
          pr_missingRows = missingUserMatchRows S,
          pr_missingUsers = sort (missingUsers S),
          pr_missingGames = sort (map fst (filter (\<lambda>(g, c). snd c = fst c) (gameRowCounts S)))\<rparr>)"

subsection \<open>Achievement points\<close>

record achievement_row =
  a_user :: string
  a_rankName :: string
  a_season :: nat
  a_points :: int

definition resolveTargetNames :: "string \<Rightarrow> alias_of \<Rightarrow> groups_of \<Rightarrow> string list" where
  "resolveTargetNames label resolveAlias groupsFor =
     (if label = GLOBAL_RANK_NAME \<or> label = NO_BAN_LIST_RANK_NAME then [label]
      else resolveAlias label # groupsFor (resolveAlias label))"

definition fan_out_row ::
  "alias_of \<Rightarrow> groups_of \<Rightarrow> (string \<Rightarrow> rank option) \<Rightarrow> achievement_row \<Rightarrow>
   achievement_row list \<times> (string, nat) js_map \<Rightarrow> achievement_row list \<times> (string, nat) js_map" where
  "fan_out_row resolveAlias groupsFor ranksByName row s =
     (let targets = resolveTargetNames (a_rankName row) resolveAlias groupsFor
      in if \<not> list_all (\<lambda>n. ranksByName n \<noteq> None) targets then (fst s, js_incr (a_rankName row) (snd s))
         else (fst s @ map (\<lambda>n. row\<lparr>a_rankName := n\<rparr>) targets, snd s))"

definition fanOutAchievementPoints ::
  "(string \<Rightarrow> string) \<Rightarrow> achievement_row list \<Rightarrow> alias_of \<Rightarrow> groups_of \<Rightarrow> (string \<Rightarrow> rank option) \<Rightarrow>
   achievement_row list \<times> (string \<times> nat) list" where
  "fanOutAchievementPoints collate rows resolveAlias groupsFor ranksByName =
     (case fold (fan_out_row resolveAlias groupsFor ranksByName) rows ([], []) of
        (fanned, counts) \<Rightarrow> (fanned, sort_key (collate \<circ> fst) counts))"

end
