(* ===== verification/LedgerProps.thy ===== *)
theory LedgerProps
  imports Ledger
begin

text \<open>
  The ledger and the totals tell the same story, and the offline planner rebuilds the ledger from the
  stored match rows.
\<close>

subsection \<open>Sums of the ledger\<close>

definition entries_of :: "string \<Rightarrow> nat \<Rightarrow> tables \<Rightarrow> ledger_entry list" where
  "entries_of u i T = filter (\<lambda>e. e_user e = u \<and> e_rank e = i) (ledger T)"

definition ledger_totals :: "string \<Rightarrow> nat \<Rightarrow> tables \<Rightarrow> player_stats" where
  "ledger_totals u i T =
     \<lparr>st_points = sum_list (map e_points (entries_of u i T)), st_wins = sum_list (map e_wins (entries_of u i T)),
      st_losses = sum_list (map e_losses (entries_of u i T))\<rparr>"

definition balanced :: "tables \<Rightarrow> bool" where
  "balanced T \<longleftrightarrow> (\<forall>u i. findStats u i T = ledger_totals u i T)"

definition uncredited :: "string \<Rightarrow> string \<Rightarrow> nat \<Rightarrow> tables \<Rightarrow> bool" where
  "uncredited g u i T \<longleftrightarrow> (\<forall>x \<in> set (ledger T). \<not> (e_game x = g \<and> e_user x = u \<and> e_rank x = i))"

lemma credit_rank_effect:
  assumes "uncredited (m_game row) (m_user row) (rank_id r) T" and "balanced T"
  shows "ledger (credit_rank row r T) = ledger T @ [entry_for row r]" and "balanced (credit_rank row r T)"
    and "ranks (credit_rank row r T) = ranks T" and "match_rows (credit_rank row r T) = match_rows T"
proof -
  have f: "\<not> list_ex (\<lambda>x. e_game x = m_game row \<and> e_user x = m_user row \<and> e_rank x = rank_id r) (ledger T)"
    using assms(1) by (auto simp: uncredited_def list_ex_iff)
  then show l: "ledger (credit_rank row r T) = ledger T @ [entry_for row r]"
    and "ranks (credit_rank row r T) = ranks T" "match_rows (credit_rank row r T) = match_rows T"
    by (simp_all add: credit_rank_def insertLedgerEntry_def entry_for_def Let_def)
  have "findStats u i (credit_rank row r T) = ledger_totals u i (credit_rank row r T)" for u i
  proof (cases "u = m_user row \<and> i = rank_id r")
    case True
    have "findStats u i T = ledger_totals u i T"
      using assms(2) by (simp add: balanced_def)
    then have t: "st_points (findStats u i T) = sum_list (map e_points (entries_of u i T))"
      "st_wins (findStats u i T) = sum_list (map e_wins (entries_of u i T))"
      "st_losses (findStats u i T) = sum_list (map e_losses (entries_of u i T))"
      by (simp_all add: ledger_totals_def)
    have "findStats u i (credit_rank row r T) =
        (if m_winner row then increaseWins (addPoints (m_points row) (findStats u i T))
         else increaseLosses (addPoints (m_points row) (findStats u i T)))"
      using True f by (simp add: credit_rank_def insertLedgerEntry_def entry_for_def Let_def findStats_def js_simps)
    then show ?thesis
      using True t
      by (simp add: ledger_totals_def entries_of_def l entry_for_def addPoints_def increaseWins_def increaseLosses_def)
  next
    case False
    then have "findStats u i (credit_rank row r T) = findStats u i T"
      using f by (auto simp: credit_rank_def insertLedgerEntry_def entry_for_def Let_def findStats_def js_simps)
    moreover have "entries_of u i (credit_rank row r T) = entries_of u i T"
      using False by (auto simp: entries_of_def l entry_for_def)
    ultimately show ?thesis
      using assms(2) by (simp add: balanced_def ledger_totals_def)
  qed
  then show "balanced (credit_rank row r T)"
    by (simp add: balanced_def)
qed

lemma credit_ranks:
  assumes "\<forall>r \<in> set rs. uncredited (m_game row) (m_user row) (rank_id r) T" and "distinct (map rank_id rs)" and "balanced T"
  shows "ledger (fold (credit_rank row) rs T) = ledger T @ map (entry_for row) rs \<and> balanced (fold (credit_rank row) rs T) \<and>
    ranks (fold (credit_rank row) rs T) = ranks T \<and> match_rows (fold (credit_rank row) rs T) = match_rows T"
  using assms
proof (induction rs arbitrary: T)
  case (Cons r rs)
  note one = credit_rank_effect [of row r T]
  have "\<forall>x \<in> set rs. uncredited (m_game row) (m_user row) (rank_id x) (credit_rank row r T)"
    using Cons.prems one(1) by (auto simp: uncredited_def entry_for_def)
  then show ?case
    using Cons.IH [of "credit_rank row r T"] Cons.prems one by simp
qed simp

text \<open>A whole event: the rows it stores, for the players with an account.\<close>

fun rows_of :: "(string \<Rightarrow> string option) \<Rightarrow> nat \<Rightarrow> game_over \<Rightarrow> player_data list \<Rightarrow> match_row list" where
  "rows_of accountOf season ev [] = []"
| "rows_of accountOf season ev (p # ps) =
     (case accountOf (player_name (data_player p)) of None \<Rightarrow> [] | Some u \<Rightarrow> [row_for season ev u p]) @ rows_of accountOf season ev ps"

abbreviation rows_users :: "match_row list \<Rightarrow> string list" where
  "rows_users rows \<equiv> map m_user rows"

lemma rows_of_game: "row \<in> set (rows_of accountOf season ev ps) \<Longrightarrow>
    m_game row = go_match ev \<and> m_banList row = go_banList ev \<and> \<not> m_anulled row"
  by (induction ps) (auto simp: row_for_def split: option.splits)

lemma credit_players:
  assumes "distinct (map rank_id rs)" and "balanced T" and "\<forall>x \<in> set (ledger T). e_game x = go_match ev \<longrightarrow> e_user x \<in> seen"
    and "distinct (rows_users (rows_of accountOf season ev ps))" and "set (rows_users (rows_of accountOf season ev ps)) \<inter> seen = {}"
  shows "ledger (fold (credit_player accountOf season ev rs) ps T) =
      ledger T @ concat (map (\<lambda>row. map (entry_for row) rs) (rows_of accountOf season ev ps)) \<and>
    balanced (fold (credit_player accountOf season ev rs) ps T) \<and> ranks (fold (credit_player accountOf season ev rs) ps T) = ranks T \<and>
    match_rows (fold (credit_player accountOf season ev rs) ps T) = match_rows T @ rows_of accountOf season ev ps"
  using assms(2-5)
proof (induction ps arbitrary: T seen)
  case (Cons p ps)
  show ?case
  proof (cases "accountOf (player_name (data_player p))")
    case None
    then have s: "credit_player accountOf season ev rs p T = T"
      by (simp add: credit_player_def)
    show ?thesis
      using Cons.IH [of T seen] Cons.prems None by (simp add: s)
  next
    case (Some u)
    let ?row = "row_for season ev u p"
    let ?T1 = "fold (credit_rank ?row) rs T"
    let ?T = "?T1\<lparr>match_rows := match_rows ?T1 @ [?row], duel_rows := duel_rows ?T1 @ duel_rows_for ev u p\<rparr>"
    have step: "credit_player accountOf season ev rs p T = ?T"
      by (simp add: credit_player_def Some Let_def)
    have "\<forall>r \<in> set rs. uncredited (m_game ?row) (m_user ?row) (rank_id r) T"
      using Cons.prems(2,4) Some by (auto simp: uncredited_def row_for_def)
    then have one: "ledger ?T1 = ledger T @ map (entry_for ?row) rs" "balanced ?T1" "ranks ?T1 = ranks T"
      "match_rows ?T1 = match_rows T"
      using credit_ranks [of rs ?row T] assms(1) Cons.prems(1) by blast+
    have "balanced ?T"
      using one(2) by (simp add: balanced_def findStats_def ledger_totals_def entries_of_def)
    moreover have "\<forall>x \<in> set (ledger ?T). e_game x = go_match ev \<longrightarrow> e_user x \<in> insert u seen"
      using Cons.prems(2) one(1) by (auto simp: entry_for_def row_for_def)
    moreover have "distinct (rows_users (rows_of accountOf season ev ps))"
      "set (rows_users (rows_of accountOf season ev ps)) \<inter> insert u seen = {}"
      using Cons.prems(3,4) Some by (auto simp: row_for_def)
    ultimately show ?thesis
      using Cons.IH [of ?T "insert u seen"] one Some by (simp add: step)
  qed
qed simp

subsection \<open>Ranks\<close>

definition rank_of :: "tables \<Rightarrow> string \<Rightarrow> rank option" where
  "rank_of T n = map_option (\<lambda>i. \<lparr>rank_id = i, rank_name = n\<rparr>) (map_get (ranks T) n)"

definition ranks_ok :: "tables \<Rightarrow> bool" where
  "ranks_ok T \<longleftrightarrow> map snd (ranks T) = [0..<length (ranks T)] \<and> map_ok (ranks T)"

definition grows :: "tables \<Rightarrow> tables \<Rightarrow> bool" where
  "grows T T' \<longleftrightarrow> (\<forall>n r. rank_of T n = Some r \<longrightarrow> rank_of T' n = Some r)"

lemma update_absent: "k \<notin> fst ` set m \<Longrightarrow> map_put k v m = m @ [(k, v)]"
  by (induction m) auto

lemma findOrCreate_effect:
  assumes "ranks_ok T" and "findOrCreateByName n T = (r, T')"
  shows "ranks_ok T'" and "rank_of T' n = Some r" and "grows T T'"
    and "ledger T' = ledger T" and "totals T' = totals T" and "match_rows T' = match_rows T"
proof -
  show "ranks_ok T'"
  proof (cases "map_get (ranks T) n")
    case None
    then have "map_put n (length (ranks T)) (ranks T) = ranks T @ [(n, length (ranks T))]"
      by (intro update_absent) (simp add: map_of_eq_None_iff)
    then show ?thesis
      using assms None by (auto simp: findOrCreateByName_def ranks_ok_def map_ok_def map_of_eq_None_iff)
  qed (use assms in \<open>auto simp: findOrCreateByName_def\<close>)
  show "rank_of T' n = Some r" "grows T T'" "ledger T' = ledger T" "totals T' = totals T" "match_rows T' = match_rows T"
    using assms(2) by (auto simp: findOrCreateByName_def rank_of_def grows_def js_simps split: option.splits)
qed

lemma rank_of_name: "rank_of T n = Some r \<Longrightarrow> rank_name r = n"
  by (auto simp: rank_of_def)

lemma rank_of_inj:
  assumes "ranks_ok T" and "rank_of T n = Some r" and "rank_of T k = Some q" and "rank_id r = rank_id q"
  shows "n = k"
proof -
  have "(n, rank_id r) \<in> set (ranks T)" "(k, rank_id r) \<in> set (ranks T)"
    using assms(2-4) by (auto simp: rank_of_def dest: map_of_SomeD)
  moreover have "distinct (map snd (ranks T))"
    using assms(1) by (simp add: ranks_ok_def)
  ultimately show ?thesis
    using inj_onD [of snd "set (ranks T)" "(n, rank_id r)" "(k, rank_id r)"] by (simp add: distinct_map)
qed

lemma grows_trans: "grows A B \<Longrightarrow> grows B C \<Longrightarrow> grows A C"
  by (simp add: grows_def)

lemma lookup_all_grows: "grows T T' \<Longrightarrow> lookup_all (rank_of T) ns = Some rs \<Longrightarrow> lookup_all (rank_of T') ns = Some rs"
  by (induction ns arbitrary: rs) (auto simp: grows_def split: option.splits)

lemma lookup_all_distinct:
  assumes "ranks_ok T" and "distinct ns" and "lookup_all (rank_of T) ns = Some rs"
  shows "distinct (map rank_id rs)"
  using assms(2,3)
proof (induction ns arbitrary: rs)
  case (Cons n ns)
  then obtain r qs where r: "rank_of T n = Some r" and qs: "lookup_all (rank_of T) ns = Some qs" and rs: "rs = r # qs"
    by (auto split: option.splits)
  have "\<forall>q \<in> set xs. \<exists>k \<in> set ks. rank_of T k = Some q" if "lookup_all (rank_of T) ks = Some xs" for ks xs
    using that by (induction ks arbitrary: xs) (fastforce split: option.splits)+
  then have "\<forall>q \<in> set qs. \<exists>k \<in> set ns. rank_of T k = Some q"
    using qs by blast
  then have "rank_id r \<notin> rank_id ` set qs"
    using rank_of_inj [OF assms(1) r] Cons.prems(1) by (metis distinct.simps(2) imageE)
  then show ?case
    using Cons rs qs by simp
qed simp

lemma find_or_create_all_effect:
  assumes "ranks_ok T" and "find_or_create_all ns T = (rs, T')"
  shows "ranks_ok T' \<and> lookup_all (rank_of T') ns = Some rs \<and> grows T T' \<and>
    ledger T' = ledger T \<and> totals T' = totals T \<and> match_rows T' = match_rows T"
  using assms
proof (induction ns arbitrary: T rs)
  case Nil
  then show ?case by (simp add: grows_def)
next
  case (Cons n ns)
  obtain r T1 where h: "findOrCreateByName n T = (r, T1)"
    by fastforce
  obtain qs where t: "find_or_create_all ns T1 = (qs, T')" and rs: "rs = r # qs"
    using Cons.prems(2) h by (auto split: prod.splits)
  note one = findOrCreate_effect [OF Cons.prems(1) h]
  note rest = Cons.IH [OF one(1) t]
  have "rank_of T' n = Some r"
    using one(2) rest by (auto simp: grows_def)
  then show ?case
    using one rest rs by (auto intro: grows_trans)
qed

subsection \<open>A history of matches\<close>

text \<open>What the planner would compute for the stored rows, as a plain function.\<close>

definition row_entries :: "alias_of \<Rightarrow> groups_of \<Rightarrow> tables \<Rightarrow> match_row \<Rightarrow> ledger_entry list" where
  "row_entries resolveAlias groupsFor T row =
     map (entry_for row) (the (lookup_all (rank_of T) (credited_names resolveAlias groupsFor (m_banList row))))"

definition rebuildable :: "alias_of \<Rightarrow> groups_of \<Rightarrow> tables \<Rightarrow> bool" where
  "rebuildable resolveAlias groupsFor T \<longleftrightarrow>
     (\<forall>row \<in> set (match_rows T). lookup_all (rank_of T) (credited_names resolveAlias groupsFor (m_banList row)) \<noteq> None \<and>
        \<not> m_anulled row) \<and>
     ledger T = concat (map (row_entries resolveAlias groupsFor T) (match_rows T))"

definition empty_tables :: tables where
  "empty_tables = \<lparr>ranks = [], totals = [], ledger = [], match_rows = [], duel_rows = []\<rparr>"

definition credit_run ::
  "alias_of \<Rightarrow> groups_of \<Rightarrow> (string \<Rightarrow> string option) \<Rightarrow> nat \<Rightarrow> game_over list \<Rightarrow> tables" where
  "credit_run resolveAlias groupsFor accountOf season evs =
     fold (BasicStatsCalculator_handle resolveAlias groupsFor accountOf season) evs empty_tables"

text \<open>An event names each account once, and its ladders are different ones.\<close>

definition event_ok :: "alias_of \<Rightarrow> groups_of \<Rightarrow> (string \<Rightarrow> string option) \<Rightarrow> nat \<Rightarrow> game_over \<Rightarrow> bool" where
  "event_ok resolveAlias groupsFor accountOf season ev \<longleftrightarrow>
     distinct (credited_names resolveAlias groupsFor (go_banList ev)) \<and>
     distinct (rows_users (rows_of accountOf season ev (go_players ev)))"

lemma rank_of_same: "ranks T' = ranks T \<Longrightarrow> rank_of T' = rank_of T"
  by (simp add: fun_eq_iff rank_of_def)

lemma rebuildable_grows:
  assumes "rebuildable a g T" and "grows T T'" and "ledger T' = ledger T" and "match_rows T' = match_rows T"
  shows "rebuildable a g T'"
proof -
  have "row_entries a g T' row = row_entries a g T row \<and>
      lookup_all (rank_of T') (credited_names a g (m_banList row)) \<noteq> None" if "row \<in> set (match_rows T)" for row
    using that assms(1) lookup_all_grows [OF assms(2), of "credited_names a g (m_banList row)"]
    by (auto simp: rebuildable_def row_entries_def)
  then show ?thesis
    using assms by (simp add: rebuildable_def cong: map_cong)
qed

lemma handle_keeps_the_story:
  assumes ok: "event_ok a g accountOf season ev" and T: "ranks_ok T" "balanced T" "rebuildable a g T"
    and fresh: "\<forall>x \<in> set (ledger T). e_game x \<noteq> go_match ev"
  defines "T' \<equiv> BasicStatsCalculator_handle a g accountOf season ev T"
  shows "ranks_ok T' \<and> balanced T' \<and> rebuildable a g T' \<and> (\<forall>x \<in> set (ledger T'). x \<in> set (ledger T) \<or> e_game x = go_match ev)"
proof (cases "go_ranked ev")
  case False
  then show ?thesis
    using T by (simp add: T'_def BasicStatsCalculator_handle_def)
next
  case True
  let ?ns = "credited_names a g (go_banList ev)" and ?rows = "rows_of accountOf season ev (go_players ev)"
  obtain rs T1 where c: "find_or_create_all ?ns T = (rs, T1)"
    by fastforce
  note e = find_or_create_all_effect [OF T(1) c]
  have T': "T' = fold (credit_player accountOf season ev rs) (go_players ev) T1"
    using True c by (simp add: T'_def BasicStatsCalculator_handle_def)
  have b: "balanced T1" and r1: "rebuildable a g T1"
    using T(2) e rebuildable_grows [OF T(3), of T1]
    by (simp_all add: balanced_def findStats_def ledger_totals_def entries_of_def)
  have d: "distinct (map rank_id rs)"
    using lookup_all_distinct [of T1 ?ns rs] e ok by (simp add: event_ok_def)
  have f: "ledger T' = ledger T1 @ concat (map (\<lambda>row. map (entry_for row) rs) ?rows)" "balanced T'" "ranks T' = ranks T1"
    "match_rows T' = match_rows T1 @ ?rows"
    using credit_players [of rs T1 ev "{}" accountOf season "go_players ev"] d b e fresh ok
    by (auto simp: T' event_ok_def)
  have re: "row_entries a g T' row = (if row \<in> set ?rows then map (entry_for row) rs else row_entries a g T1 row)"
    if "row \<in> set ?rows \<or> row \<in> set (match_rows T1)" for row
    using e that rows_of_game [of row accountOf season ev "go_players ev"] rank_of_same [OF f(3)]
    by (auto simp: row_entries_def)
  have same: "row_entries a g T' row = row_entries a g T1 row" for row
    using rank_of_same [OF f(3)] by (simp add: row_entries_def)
  have "concat (map (row_entries a g T') ?rows) = concat (map (\<lambda>row. map (entry_for row) rs) ?rows)"
    using re by (intro arg_cong [of _ _ concat] map_cong) auto
  then have "rebuildable a g T'"
    using r1 f e rank_of_same [OF f(3)] rows_of_game
    by (fastforce simp: rebuildable_def same cong: map_cong)
  moreover have "ranks_ok T'"
    using e f(3) by (simp add: ranks_ok_def)
  moreover have "\<forall>x \<in> set (ledger T'). x \<in> set (ledger T) \<or> e_game x = go_match ev"
    using f(1) e by (auto simp: entry_for_def dest: rows_of_game)
  ultimately show ?thesis
    using f(2) by blast
qed

lemma credit_run_keeps_the_story:
  assumes "distinct (map go_match evs)" and "\<forall>ev \<in> set evs. event_ok a g accountOf season ev"
  shows "balanced (credit_run a g accountOf season evs) \<and> rebuildable a g (credit_run a g accountOf season evs)"
proof -
  have "ranks_ok (credit_run a g accountOf season evs) \<and> balanced (credit_run a g accountOf season evs) \<and>
      rebuildable a g (credit_run a g accountOf season evs) \<and>
      (\<forall>x \<in> set (ledger (credit_run a g accountOf season evs)). e_game x \<in> go_match ` set evs)"
    using assms
  proof (induction evs rule: rev_induct)
    case Nil
    show ?case
      by (simp add: credit_run_def empty_tables_def ranks_ok_def balanced_def rebuildable_def findStats_def
          ledger_totals_def entries_of_def initialize_stats_def map_ok_def)
  next
    case (snoc ev evs)
    let ?T = "credit_run a g accountOf season evs"
    have "credit_run a g accountOf season (evs @ [ev]) = BasicStatsCalculator_handle a g accountOf season ev ?T"
      by (simp add: credit_run_def)
    moreover have IH: "ranks_ok ?T" "balanced ?T" "rebuildable a g ?T" "\<forall>x \<in> set (ledger ?T). e_game x \<in> go_match ` set evs"
      using snoc by auto
    moreover have "\<forall>x \<in> set (ledger ?T). e_game x \<noteq> go_match ev"
      using IH(4) snoc.prems(1) by (metis distinct_append list.set_map list.set_intros(1) map_append list.map(2) disjoint_iff)
    ultimately show ?case
      using handle_keeps_the_story [of a g accountOf season ev ?T] snoc.prems(2) IH(4) by auto
  qed
  then show ?thesis by blast
qed

lemma plan_credit_fold:
  "entries (fold (plan_credit row) rs S) = entries S @ map (entry_for row) rs"
  "unmappedCounts (fold (plan_credit row) rs S) = unmappedCounts S"
  by (induction rs arbitrary: S) (simp_all add: plan_credit_def accumulateRankStats_def Let_def)

lemma resolve_is_credited:
  "resolveRanksToCredit row a g byName = lookup_all byName (credited_names a g (m_banList row))"
  by (simp add: resolveRanksToCredit_def credited_names_def Let_def)

lemma plan_fold:
  assumes "\<forall>row \<in> set rows. lookup_all (rank_of T) (credited_names a g (m_banList row)) \<noteq> None"
  shows "entries (fold (plan_row a g (rank_of T) (\<lambda>_. True)) rows S) = entries S @ concat (map (row_entries a g T) rows) \<and>
    unmappedCounts (fold (plan_row a g (rank_of T) (\<lambda>_. True)) rows S) = unmappedCounts S"
  using assms
proof (induction rows arbitrary: S)
  case (Cons row rows)
  then obtain rs where "lookup_all (rank_of T) (credited_names a g (m_banList row)) = Some rs"
    by auto
  then have "entries (plan_row a g (rank_of T) (\<lambda>_. True) row S) = entries S @ row_entries a g T row \<and>
      unmappedCounts (plan_row a g (rank_of T) (\<lambda>_. True) row S) = unmappedCounts S"
    by (simp add: plan_row_def Let_def resolve_is_credited plan_credit_fold row_entries_def)
  then show ?case
    using Cons by simp
qed simp


definition two_matches :: "game_over list" where
  "two_matches =
     (let side = (\<lambda>n t won. \<lparr>data_player = \<lparr>player_id = Some n, player_name = n, player_team = t, games = []\<rparr>,
                               data_winner = won, data_score = (if won then 2 else 0)\<rparr>)
      in [\<lparr>go_match = ''m1'', go_ranked = True, go_banList = ''TCG'', go_players = [side ''a'' 0 True, side ''b'' 1 False], go_duelIds = []\<rparr>,
          \<lparr>go_match = ''m2'', go_ranked = True, go_banList = ''N/A'', go_players = [side ''a'' 0 False, side ''c'' 1 True], go_duelIds = []\<rparr>])"


end
