(* ===== verification/Phases.thy ===== *)
theory Phases
  imports Lobby DeckBuild
begin

text \<open>
  The phases of a match after the lobby, except the duel itself: rock-paper-scissors, the turn choice and
  side decking (\<open>YGOProRockPaperScissorState.ts\<close>, \<open>YGOProChoosingOrderState.ts\<close>,
  \<open>YGOProSideDeckingState.ts\<close> and their base \<open>YGOProRoomState.ts\<close> under
  \<open>src/ygopro/room/domain\<close>), and what ends a match between duels (\<open>AbandonBetweenDuels.ts\<close>,
  \<open>EndMatchByAbandon.ts\<close> under \<open>src/ygopro/room/application\<close>).

  A room is the lobby of theory \<open>Lobby\<close> with the fields the phases add. A state object lives from one
  transition to the next; its own fields (the hands, the side-deck timers, the teammates who surrendered)
  are fields of the room, reset where the object is constructed. Fresh ids are arguments. Waiting for the
  deck builder or the user database is one instant. A message that makes a handler throw before any effect
  leaves the room as it is.
\<close>

subsection \<open>State\<close>

record game_over_event =
  ev_match :: nat
  ev_duelIds :: "string list"
  ev_bestOf :: nat
  ev_players :: "player_data list"
  ev_ranked :: bool
  ev_winReasons :: "string list option"

record room =
  lob :: lobby
  handResult :: "nat \<times> nat"
  clientWhoChoosesTurn :: "nat option"
  turnChoiceRequiresRps :: bool
  isPositionSwapped :: bool
  currentDuel :: "duel option"
  duelRecords :: "(nat \<times> nat) option list"
  core :: bool
  pendingSurrenders :: "nat list"
  playerTimers :: "(nat, nat) js_map"
  playerRemainMinutes :: "(nat, nat) js_map"
  graceTimers :: "(nat, nat) js_map"
  tokenIndex :: "(nat, nat) js_map"
  nextToken :: nat
  reconnectingClients :: "nat list"
  lastEmoteAt :: "(nat, int) js_map"
  gameOvers :: "game_over_event list"

definition on_lobby :: "(lobby \<Rightarrow> lobby) \<Rightarrow> room \<Rightarrow> room" where
  "on_lobby f R = R\<lparr>lob := f (lob R)\<rparr>"

definition tell :: "client \<Rightarrow> frame \<Rightarrow> room \<Rightarrow> room" where
  "tell c f = on_lobby (send_client c f)"

definition tell_all :: "client list \<Rightarrow> frame \<Rightarrow> room \<Rightarrow> room" where
  "tell_all cs f = on_lobby (fold (\<lambda>c. send_client c f) cs)"

definition phase :: "room \<Rightarrow> duel_state" where
  "phase R = duelState (lob R)"

definition isTag :: "room \<Rightarrow> bool" where
  "isTag R \<longleftrightarrow> (room_mode (lob R) div 2) mod 2 = 1"

definition isBetweenDuels :: "room \<Rightarrow> bool" where
  "isBetweenDuels R \<longleftrightarrow> phase R \<in> {RPS, CHOOSING_ORDER, SIDE_DECKING}"

definition is_ranked :: "room \<Rightarrow> bool" where
  "is_ranked R \<longleftrightarrow> isRanked (room_league (lob R))"

definition played_any :: "room \<Rightarrow> bool" where
  "played_any R \<longleftrightarrow> (case room_match (lob R) of None \<Rightarrow> False | Some m \<Rightarrow> hasPlayedAnyDuel m)"

text \<open>A single reserved duel ends with its first duel, a draw included.\<close>

definition isMatchFinished :: "room \<Rightarrow> bool" where
  "isMatchFinished R \<longleftrightarrow>
     (if (case reservedDuel (lob R) of None \<Rightarrow> False | Some s \<Rightarrow> isSingle s) \<and> played_any R then True
      else case room_match (lob R) of None \<Rightarrow> True | Some m \<Rightarrow> isFinished m)"

definition matchPlayersHistory :: "room \<Rightarrow> player_data list" where
  "matchPlayersHistory R = (case room_match (lob R) of None \<Rightarrow> [] | Some m \<Rightarrow> playersHistory m)"

definition connections :: "room \<Rightarrow> player_connection list" where
  "connections R = map (\<lambda>c. \<lparr>conn_name = c_name c, conn_ip = remoteAddress (c_socket c), conn_client = clientName (c_socket c)\<rparr>)
     (players (lob R))"

definition turn :: "room \<Rightarrow> int" where
  "turn R = (case currentDuel R of None \<Rightarrow> 0 | Some d \<Rightarrow> duel_turn d)"

text \<open>\<open>disconnect\<close> stands for a game awarded because the other side left.\<close>

definition duelWinReasons :: "room \<Rightarrow> string list" where
  "duelWinReasons R = map (\<lambda>i. if i < length (duelRecords R)
       then (case duelRecords R ! i of Some (_, reason) \<Rightarrow> show_nat reason | None \<Rightarrow> ''disconnect'')
       else ''disconnect'') [0..<length (duelIds (lob R))]"

definition game_over_of :: "room \<Rightarrow> game_over_event" where
  "game_over_of R =
     \<lparr>ev_match = match_serial (lob R), ev_duelIds = duelIds (lob R), ev_bestOf = room_bestOf (lob R),
      ev_players = matchPlayersHistory R, ev_ranked = is_ranked R,
      ev_winReasons = (if reservedDuel (lob R) = None then None else Some (duelWinReasons R))\<rparr>"

definition publishGameOver :: "room \<Rightarrow> room" where
  "publishGameOver R = R\<lparr>gameOvers := gameOvers R @ [game_over_of R]\<rparr>"

subsection \<open>Reconnection tokens\<close>

text \<open>The index knows which client of this room a token belongs to. A client keeps the token issued to
  it last; issuing one does not remove the token before it, and revoking removes only the current one.\<close>

definition token_of :: "room \<Rightarrow> client \<Rightarrow> nat option" where
  "token_of R c = map_option fst (find (\<lambda>(t, i). i = c_id c) (rev (tokenIndex R)))"

definition token_register :: "client \<Rightarrow> room \<Rightarrow> room" where
  "token_register c R =
     R\<lparr>tokenIndex := map_put (nextToken R) (c_id c) (tokenIndex R), nextToken := Suc (nextToken R)\<rparr>"

definition token_issue :: "client \<Rightarrow> room \<Rightarrow> room" where
  "token_issue c R = tell c (Token (nextToken R)) (token_register c R)"

definition token_resend :: "client \<Rightarrow> room \<Rightarrow> room" where
  "token_resend c R = (case token_of R c of None \<Rightarrow> token_issue c R | Some t \<Rightarrow> tell c (Token t) R)"

definition token_resolve :: "nat \<Rightarrow> room \<Rightarrow> client option" where
  "token_resolve t R =
     (case map_get (tokenIndex R) t of None \<Rightarrow> None | Some i \<Rightarrow> find (\<lambda>c. c_id c = i) (clients (lob R)))"

definition revoke_tokens :: "room \<Rightarrow> room" where
  "revoke_tokens R = R\<lparr>tokenIndex := filter (\<lambda>(t, i). \<forall>c \<in> set (clients (lob R)). token_of R c \<noteq> Some t) (tokenIndex R)\<rparr>"

definition FinalizeYGOProRoom_run :: "abandon option \<Rightarrow> room \<Rightarrow> room" where
  "FinalizeYGOProRoom_run ab R = (if finalizing (lob R) then R else on_lobby (finalize_room ab) (revoke_tokens R))"

subsection \<open>Between duels: leaving the match\<close>

definition opponentsOf :: "nat \<Rightarrow> room \<Rightarrow> client list" where
  "opponentsOf team R = getTeamPlayers (if team = 0 then 1 else 0) (lob R)"

definition matchForfeit :: "nat \<Rightarrow> (nat \<Rightarrow> string) \<Rightarrow> room \<Rightarrow> room" where
  "matchForfeit winner fresh R =
     (case room_match (lob R) of None \<Rightarrow> R
      | Some m \<Rightarrow> (case forfeit winner (connections R) m of (awarded, m') \<Rightarrow>
          on_lobby (\<lambda>L. L\<lparr>room_match := Some m', duelIds := duelIds L @ map fresh [0..<awarded]\<rparr>) R))"

definition mark_over :: "room \<Rightarrow> room" where
  "mark_over = on_lobby (\<lambda>L. L\<lparr>reservedDuel := map_option markGameOver (reservedDuel L)\<rparr>)"

definition EndMatchByAbandon_run :: "nat \<Rightarrow> (nat \<Rightarrow> string) \<Rightarrow> room \<Rightarrow> room" where
  "EndMatchByAbandon_run abandoning fresh R =
     (if finalizing (lob R) \<or> isMatchFinished R then R
      else let R1 = mark_over (matchForfeit (if abandoning = 0 then 1 else 0) fresh R)
           in FinalizeYGOProRoom_run None (publishGameOver R1))"

definition abandon_resolve :: "nat \<Rightarrow> (nat \<Rightarrow> string) \<Rightarrow> room \<Rightarrow> room" where
  "abandon_resolve abandoning fresh R0 =
     (let R = R0\<lparr>graceTimers := []\<rparr>
      in if finalizing (lob R) \<or> isMatchFinished R \<or> \<not> isBetweenDuels R then R
         else if \<not> played_any R
         then FinalizeYGOProRoom_run (Some (seat_abandon (Some abandoning) Disconnect))
                (tell_all (opponentsOf abandoning R) MatchCancelled R)
         else EndMatchByAbandon_run abandoning fresh (tell_all (opponentsOf abandoning R) MatchWon R))"

definition ABANDON_GRACE_MS :: int where "ABANDON_GRACE_MS = 60000"

text \<open>\<open>silence\<close> is the time since a WebSocket client was last heard of, \<open>None\<close> for other
  transports.\<close>

definition remainingGraceMs :: "int option \<Rightarrow> int" where
  "remainingGraceMs silence =
     (case silence of None \<Rightarrow> ABANDON_GRACE_MS
      | Some silent \<Rightarrow> min ABANDON_GRACE_MS (max 0 (ABANDON_GRACE_MS - silent)))"

definition abandon_playerLeft :: "int option \<Rightarrow> client \<Rightarrow> room \<Rightarrow> bool \<times> room" where
  "abandon_playerLeft silence c R =
     (if isSpectator c \<or> \<not> isBetweenDuels R then (False, R)
      else let secs = nat (- ((- remainingGraceMs silence) div 1000));
               R1 = tell_all (opponentsOf (c_team c) R) (OpponentDisconnected secs) R
           in (True, R1\<lparr>graceTimers := map_put (c_position c) (c_id c) (graceTimers R1)\<rparr>))"

text \<open>The grace timer of a position fires. The client it was started for is looked up by its identity,
  since a reconnect changes its socket.\<close>

definition grace_expired :: "nat \<Rightarrow> (nat \<Rightarrow> string) \<Rightarrow> room \<Rightarrow> room" where
  "grace_expired position fresh R =
     (case map_get (graceTimers R) position of None \<Rightarrow> R
      | Some i \<Rightarrow>
          (let R1 = R\<lparr>graceTimers := AList.delete position (graceTimers R)\<rparr>
           in case find (\<lambda>c. c_id c = i) (players (lob R)) of None \<Rightarrow> R1
              | Some c \<Rightarrow>
                  if finalizing (lob R1) \<or> \<not> is_closed (lob R1) (c_socket c) \<or> \<not> isBetweenDuels R1 then R1
                  else abandon_resolve (c_team c) fresh R1))"

definition settleSurrenderBetweenDuels :: "client \<Rightarrow> (nat \<Rightarrow> string) \<Rightarrow> room \<Rightarrow> room" where
  "settleSurrenderBetweenDuels c fresh R =
     (if isSpectator c \<or> isTag R \<or> \<not> isBetweenDuels R then R else abandon_resolve (c_team c) fresh R)"

subsection \<open>Transitions\<close>

text \<open>Leaving side decking clears the timers that are still running.\<close>

definition clearPlayerTimeout :: "nat \<Rightarrow> room \<Rightarrow> room" where
  "clearPlayerTimeout position R =
     R\<lparr>playerTimers := AList.delete position (playerTimers R), playerRemainMinutes := AList.delete position (playerRemainMinutes R)\<rparr>"

definition clearAllTimeouts :: "room \<Rightarrow> room" where
  "clearAllTimeouts R = fold clearPlayerTimeout (map fst (playerTimers R)) R"

definition removeAllListener :: "room \<Rightarrow> room" where
  "removeAllListener R = (if phase R = SIDE_DECKING then clearAllTimeouts R else R)"

definition enter_phase :: "duel_state \<Rightarrow> room \<Rightarrow> room" where
  "enter_phase p R = on_lobby (\<lambda>L. L\<lparr>duelState := p\<rparr>) (removeAllListener R)"

definition rps :: "room \<Rightarrow> room" where
  "rps R = (enter_phase RPS R)\<lparr>handResult := (0, 0)\<rparr>"

definition choosingOrder :: "room \<Rightarrow> room" where
  "choosingOrder = enter_phase CHOOSING_ORDER"

definition createDuel :: "string \<Rightarrow> int \<Rightarrow> string option \<Rightarrow> room \<Rightarrow> room" where
  "createDuel uuid startLp listName R =
     on_lobby (\<lambda>L. L\<lparr>duelIds := duelIds L @ [uuid]\<rparr>) (R\<lparr>currentDuel := Some (new_duel uuid 0 (startLp, startLp) listName)\<rparr>)"

definition dueling :: "string \<Rightarrow> int \<Rightarrow> string option \<Rightarrow> room \<Rightarrow> room" where
  "dueling uuid startLp listName R =
     (enter_phase DUELING (createDuel uuid startLp listName R))\<lparr>pendingSurrenders := [], core := False\<rparr>"

definition side_deck_notice :: "nat \<Rightarrow> frame" where
  "side_deck_notice mins = Chat YELLOW (''Side deck: '' @ show_nat mins @ '' minutes to submit.'')"

definition startPlayerTimeout :: "nat \<Rightarrow> client \<Rightarrow> room \<Rightarrow> room" where
  "startPlayerTimeout mins c R =
     (let R1 = tell c (side_deck_notice mins) (R\<lparr>playerRemainMinutes := map_put (c_position c) mins (playerRemainMinutes R)\<rparr>)
      in R1\<lparr>playerTimers := map_put (c_position c) (c_id c) (playerTimers R1)\<rparr>)"

definition sideDecking :: "nat \<Rightarrow> room \<Rightarrow> room" where
  "sideDecking mins R =
     (let R1 = (enter_phase SIDE_DECKING R)\<lparr>playerTimers := [], playerRemainMinutes := []\<rparr>
      in if mins = 0 then R1 else fold (startPlayerTimeout mins) (players (lob R1)) R1)"

text \<open>A room that falls back to waiting after a broken duel: everyone has to be ready again.\<close>

definition waiting :: "room \<Rightarrow> room" where
  "waiting R = on_lobby (\<lambda>L. L\<lparr>players := map not_ready (players L)\<rparr>) (enter_phase WAITING R)"


text \<open>The match starts in the lobby; \<open>False\<close> when the handler throws. Every player gets a token, unless
  the room allows no reconnection. The rock-paper-scissors state is a new object.\<close>

definition start_room :: "room \<Rightarrow> bool \<times> room" where
  "start_room R =
     (case startMatch (lob R) of
        (False, L) \<Rightarrow> (False, R\<lparr>lob := L\<rparr>)
      | (True, L) \<Rightarrow>
          (let R1 = R\<lparr>lob := L, handResult := (0, 0)\<rparr>
           in (True, if noReconnect L then R1 else fold token_register (players L) R1)))"

subsection \<open>Rock, paper, scissors\<close>

definition getRPSWinner :: "nat \<times> nat \<Rightarrow> nat" where
  "getRPSWinner h = (if h \<in> {(1, 2), (2, 3), (3, 1)} then 1 else 0)"

definition handleRPSChoice :: "nat \<Rightarrow> client \<Rightarrow> room \<Rightarrow> room" where
  "handleRPSChoice res c R =
     (if \<not> c_captain c then R
      else if c_team c > 1 then R
      else
        (let h = (if c_team c = 0 then (res, snd (handResult R)) else (fst (handResult R), res));
             R1 = R\<lparr>handResult := h\<rparr>
         in if fst h = 0 \<or> snd h = 0 then R1
            else
              (let R2 = tell_all (getTeamPlayers 1 (lob R1)) (HandResult (snd h) (fst h))
                          (tell_all (getTeamPlayers 0 (lob R1) @ spectators (lob R1)) (HandResult (fst h) (snd h)) R1)
               in if fst h = snd h then on_lobby toRPS (R2\<lparr>handResult := (0, 0)\<rparr>)
                  else case getTeamPlayers (getRPSWinner h) (lob R2) of [] \<Rightarrow> R2
                    | w # _ \<Rightarrow>
                        choosingOrder ((tell w SelectTp (R2\<lparr>handResult := (0, 0)\<rparr>))\<lparr>clientWhoChoosesTurn := Some (c_id w)\<rparr>))))"

subsection \<open>The turn choice\<close>

text \<open>The handler does not look at who is sending: see \<open>anyone_may_choose_the_turn\<close>.\<close>

definition handleTurnChoice :: "bool \<Rightarrow> client \<Rightarrow> string \<Rightarrow> int \<Rightarrow> string option \<Rightarrow> room \<Rightarrow> room" where
  "handleTurnChoice first c uuid startLp listName R =
     dueling uuid startLp listName (R\<lparr>isPositionSwapped := (first \<noteq> (c_team c = 0))\<rparr>)"

subsection \<open>Side decking\<close>

definition disconnected_notice :: "string \<Rightarrow> frame" where
  "disconnected_notice n = Chat RED (n @ '' was disconnected - side deck not submitted in time.'')"

definition tickPlayerTimeout :: "client \<Rightarrow> (nat \<Rightarrow> string) \<Rightarrow> room \<Rightarrow> room" where
  "tickPlayerTimeout c fresh R =
     (case map_get (playerRemainMinutes R) (c_position c) of
        None \<Rightarrow> clearPlayerTimeout (c_position c) R
      | Some remain \<Rightarrow>
          if remain \<le> 1
          then (let R1 = clearAllTimeouts R
                in abandon_resolve (c_team c) fresh (tell_all (clients (lob R1)) (disconnected_notice (c_name c)) R1))
          else (let R1 = R\<lparr>playerRemainMinutes := map_put (c_position c) (remain - 1) (playerRemainMinutes R)\<rparr>
                in if remain - 1 = 1 then tell c (Chat YELLOW ''Side deck: 1 minute left.'') R1 else R1))"

definition sided :: "room \<Rightarrow> room" where
  "sided R0 =
     (let R = clearAllTimeouts R0
      in case (if turnChoiceRequiresRps R then None
               else case clientWhoChoosesTurn R of None \<Rightarrow> None | Some i \<Rightarrow> find (\<lambda>c. c_id c = i) (clients (lob R))) of
           None \<Rightarrow> rps (on_lobby toRPS (R\<lparr>turnChoiceRequiresRps := False\<rparr>))
         | Some chooser \<Rightarrow> choosingOrder (tell chooser SelectTp R))"

definition accept_side :: "client \<Rightarrow> deck \<Rightarrow> room \<Rightarrow> room" where
  "accept_side c d R =
     (let R1 = on_lobby (change_client (c_id c) (\<lambda>x. x\<lparr>c_ready := True\<rparr>)) (on_lobby (setDecksToPlayerUnsafe (c_position c) d) R);
          R2 = tell c DuelStart (clearPlayerTimeout (c_position c) R1)
      in if \<not> allPlayersReady (lob R2) then R2 else sided R2)"

definition side_handleUpdateDeck ::
  "nat list \<Rightarrow> nat list \<Rightarrow> deck_error + deck \<Rightarrow> (deck \<Rightarrow> deck_error option) \<Rightarrow> client \<Rightarrow> room \<Rightarrow> room" where
  "side_handleUpdateDeck newMain newSide built validate c R =
     (if isSpectator c then R
      else case c_deck c of None \<Rightarrow> R
      | Some d0 \<Rightarrow>
          if \<not> isSideDeckValid d0 newMain newSide then tell c SideError R
          else case built of
            Inl e \<Rightarrow> on_lobby (deck_refused e c) R
          | Inr d \<Rightarrow>
              (case (if shouldValidateDeck (lob R) then validate d else None) of
                 Some e \<Rightarrow> on_lobby (deck_refused e c) R
               | None \<Rightarrow>
                   if (case reservedDuel (lob R) of None \<Rightarrow> False | Some s \<Rightarrow> \<not> acceptsDeck (c_team c) (toCardCodes d) s)
                   then on_lobby (\<lambda>L. send_client c (DeckErrorFrame 0 0) (notReadyUnsafe c L)) R
                   else accept_side c d R))"

end
