(* ===== verification/Dueling.thy ===== *)
theory Dueling
  imports Phases
begin

text \<open>
  The duel (\<open>src/ygopro/room/domain/states/YGOProDuelingState.ts\<close>) around its third-party engine, which
  is a parameter: the messages the engine reports are the arguments of the operations, and the counts it
  answers are arguments of the start. Also what all phases share: joining a room whose match has started and
  taking a seat back, by name or by token (\<open>findMidDuelReconnectingPlayer.ts\<close>,
  \<open>findReconnectingPlayer.ts\<close> under \<open>src/shared/room/domain\<close>), chat and emotes
  (\<open>YGOProRoomState.ts\<close>), and the disconnect policy in every phase.
\<close>

subsection \<open>Sides and teams\<close>

text \<open>The engine numbers the sides 0 and 1; the side that was given the first turn is side 0.\<close>

definition getSideTeam :: "room \<Rightarrow> nat \<Rightarrow> nat" where
  "getSideTeam R side = (if isPositionSwapped R then 1 - side else side)"

definition getTeamSide :: "room \<Rightarrow> nat \<Rightarrow> nat" where
  "getTeamSide R team = (if isPositionSwapped R then 1 - team else team)"

definition toIngamePosition :: "room \<Rightarrow> nat \<Rightarrow> nat" where
  "toIngamePosition R p = (if p \<noteq> 0 \<and> p \<noteq> 1 then p else if isPositionSwapped R then 1 - p else p)"

definition getPlayersAtIngamePosition :: "room \<Rightarrow> nat \<Rightarrow> client list" where
  "getPlayersAtIngamePosition R side = getTeamPlayers (getSideTeam R side) (lob R)"

text \<open>Which teammate acts for a side: teammates take turns in pairs of turns.\<close>

definition tag_index :: "nat \<Rightarrow> nat \<Rightarrow> nat" where
  "tag_index side tc = (if side = 0 then ((tc - 1) div 2) mod 2 else 1 - (tc div 2) mod 2)"

definition getActivePlayer :: "room \<Rightarrow> nat \<Rightarrow> client option" where
  "getActivePlayer R side =
     (let team = filter (\<lambda>c. c_team c = getSideTeam R side) (players (lob R))
      in if \<not> isTag R \<or> length team \<le> 1 then (case team of [] \<Rightarrow> None | c # _ \<Rightarrow> Some c)
         else let idx = tag_index side (nat (turn R)); sorted_players = sort_key c_position team
              in if idx < length sorted_players then Some (sorted_players ! idx)
                 else (case sorted_players of [] \<Rightarrow> None | c # _ \<Rightarrow> Some c))"

text \<open>The seat chat and emotes come from: after a swap the bit of the team flips.\<close>

definition ingameSeat :: "room \<Rightarrow> client \<Rightarrow> nat" where
  "ingameSeat R c =
     (if \<not> isPositionSwapped R then c_position c
      else if isTag R then (if (c_position c div 2) mod 2 = 0 then c_position c + 2 else c_position c - 2)
      else (if c_position c mod 2 = 0 then c_position c + 1 else c_position c - 1))"

subsection \<open>The engine's messages\<close>

definition on_duel :: "(duel \<Rightarrow> duel) \<Rightarrow> room \<Rightarrow> room" where
  "on_duel f R = R\<lparr>currentDuel := map_option f (currentDuel R)\<rparr>"

text \<open>In a tag duel the side of the engine is taken for the team as it is.\<close>

definition resolveTeam :: "room \<Rightarrow> nat \<Rightarrow> nat" where
  "resolveTeam R side = (if isTag R then side else getSideTeam R side)"

definition on_damage :: "nat \<Rightarrow> int \<Rightarrow> room \<Rightarrow> room" where
  "on_damage player value R = on_duel (decreaseLps (resolveTeam R player) value) R"

definition on_recover :: "nat \<Rightarrow> int \<Rightarrow> room \<Rightarrow> room" where
  "on_recover player value R = on_duel (increaseLps (resolveTeam R player) value) R"

definition on_pay_cost :: "nat \<Rightarrow> int \<Rightarrow> room \<Rightarrow> room" where
  "on_pay_cost player cost R = on_duel (decreaseLps (resolveTeam R player) cost) R"

definition on_new_turn :: "nat \<Rightarrow> room \<Rightarrow> room" where
  "on_new_turn player R =
     (let R1 = on_duel increaseTurn R
      in if isTag R \<and> (player div 2) mod 2 = 0 then R1\<lparr>pendingSurrenders := []\<rparr> else R1)"

text \<open>Start of the engine: a record of the duel, the opening frames, and the reservation is marked. The
  counts of deck and extra deck of both sides come from the engine.\<close>

definition duel_started :: "nat \<times> nat \<Rightarrow> nat \<times> nat \<Rightarrow> room \<Rightarrow> room" where
  "duel_started counts0 counts1 R =
     (let R1 = R\<lparr>duelRecords := duelRecords R @ [None], core := True\<rparr>;
          R2 = tell_all (getPlayersAtIngamePosition R1 0) (MatchStart 0 counts0 counts1) R1;
          R3 = tell_all (getPlayersAtIngamePosition R2 1) (MatchStart 1 counts0 counts1) R2;
          R4 = tell_all (spectators (lob R3)) (MatchStart (if isPositionSwapped R then 17 else 16) counts0 counts1) R3
      in on_lobby (\<lambda>L. L\<lparr>reservedDuel := map_option (markStarted (show_nat (match_serial L))) (reservedDuel L)\<rparr>) R4)"

text \<open>The engine failed on a response: the room falls back to waiting.\<close>

definition setDuelFinished :: "room \<Rightarrow> room" where
  "setDuelFinished R = waiting (if phase R = DUELING then R\<lparr>core := False\<rparr> else R)"

subsection \<open>The end of a duel\<close>

definition room_duelWinner :: "nat \<Rightarrow> room \<Rightarrow> room" where
  "room_duelWinner winner R =
     on_lobby (\<lambda>L. L\<lparr>room_match := map_option (duelWinner winner (turn R) (connections R)) (room_match L)\<rparr>) R"

definition updateDuelRecord :: "nat \<Rightarrow> nat \<Rightarrow> room \<Rightarrow> room" where
  "updateDuelRecord winner reason R =
     (if duelRecords R = [] then R else R\<lparr>duelRecords := butlast (duelRecords R) @ [Some (winner, reason)]\<rparr>)"

definition processDuelEnd :: "nat \<Rightarrow> nat \<Rightarrow> nat \<Rightarrow> room \<Rightarrow> room" where
  "processDuelEnd player reason winner R =
     (let R1 = room_duelWinner winner (on_duel finish_duel R);
          R2 = on_lobby (\<lambda>L. L\<lparr>players := map not_ready (players L)\<rparr>) R1
      in updateDuelRecord winner reason (tell_all (clients (lob R2)) (Win player reason) R2))"

text \<open>The loser of the duel chooses; after a draw rock-paper-scissors is played again.\<close>

definition assignSideDeckChoice :: "nat \<Rightarrow> room \<Rightarrow> room" where
  "assignSideDeckChoice winner R =
     (if winner \<noteq> 0 \<and> winner \<noteq> 1 then R\<lparr>turnChoiceRequiresRps := True\<rparr>
      else
        (let R1 = R\<lparr>turnChoiceRequiresRps := False\<rparr>; L = lob R;
             size = (if winner = 0 then seats1 L else seats0 L)
         in case find (\<lambda>c. c_position c mod size = 0 \<and> c_team c = (if winner = 0 then 1 else 0)) (players L) of
              None \<Rightarrow> R1 | Some c \<Rightarrow> R1\<lparr>clientWhoChoosesTurn := Some (c_id c)\<rparr>))"

definition transitionToSideDecking :: "nat \<Rightarrow> nat \<Rightarrow> room \<Rightarrow> room" where
  "transitionToSideDecking mins winner R =
     (let R1 = sideDecking mins (R\<lparr>core := False\<rparr>);
          R2 = tell_all (players (lob R1)) ChangeSide R1;
          R3 = tell_all (spectators (lob R2)) WaitingSide R2
      in assignSideDeckChoice winner R3)"

text \<open>The replays that can be encoded go out one by one, then everyone is told the duel ended and closed.\<close>

definition sendReplay :: "(nat \<Rightarrow> bool) \<Rightarrow> nat \<Rightarrow> nat \<Rightarrow> room \<Rightarrow> room" where
  "sendReplay encodable amount i R =
     (if encodable i then tell_all (clients (lob R)) (DuelReplay (i + 1) amount) R else R)"

definition sendDuelEndAndDisconnect :: "room \<Rightarrow> room" where
  "sendDuelEndAndDisconnect R =
     on_lobby (fold (\<lambda>c L. close_socket (c_socket c) (send_client c DuelEnd L)) (clients (lob R))) R"

definition finalizeWithReplays :: "(nat \<Rightarrow> bool) \<Rightarrow> room \<Rightarrow> room" where
  "finalizeWithReplays encodable R =
     (let R1 = R\<lparr>core := False\<rparr>; n = length (duelRecords R)
      in sendDuelEndAndDisconnect (fold (sendReplay encodable n) [0..<n] R1))"

definition determineNextPhase :: "nat \<Rightarrow> (nat \<Rightarrow> bool) \<Rightarrow> nat \<Rightarrow> room \<Rightarrow> room" where
  "determineNextPhase mins encodable winner R =
     (if isMatchFinished R
      then FinalizeYGOProRoom_run None (publishGameOver (finalizeWithReplays encodable (mark_over R)))
      else transitionToSideDecking mins winner R)"

definition duel_over :: "room \<Rightarrow> bool" where
  "duel_over R \<longleftrightarrow> (case currentDuel R of None \<Rightarrow> False | Some d \<Rightarrow> duel_finished d)"

definition handleWinCondition :: "nat \<Rightarrow> (nat \<Rightarrow> bool) \<Rightarrow> nat \<Rightarrow> nat \<Rightarrow> room \<Rightarrow> room" where
  "handleWinCondition mins encodable player reason R =
     (let winner = toIngamePosition R player
      in if duel_over R then R
         else determineNextPhase mins encodable winner (processDuelEnd player reason winner R))"

text \<open>A surrender: in a tag duel both teammates have to agree, unless one of them is gone.\<close>

definition executeSurrender :: "nat \<Rightarrow> (nat \<Rightarrow> bool) \<Rightarrow> client \<Rightarrow> room \<Rightarrow> room" where
  "executeSurrender mins encodable c R = handleWinCondition mins encodable (1 - getTeamSide R (c_team c)) 0 R"

definition getTeammate :: "client \<Rightarrow> room \<Rightarrow> client option" where
  "getTeammate c R = find (\<lambda>p. c_team p = c_team c \<and> c_id p \<noteq> c_id c) (players (lob R))"

definition handleSurrender :: "nat \<Rightarrow> (nat \<Rightarrow> bool) \<Rightarrow> client \<Rightarrow> room \<Rightarrow> room" where
  "handleSurrender mins encodable c R =
     (if isSpectator c then R
      else if \<not> isTag R then executeSurrender mins encodable c R
      else case getTeammate c R of
        None \<Rightarrow> executeSurrender mins encodable c (R\<lparr>pendingSurrenders := []\<rparr>)
      | Some mate \<Rightarrow>
          if c_id mate \<in> set (reconnectingClients R) then executeSurrender mins encodable c (R\<lparr>pendingSurrenders := []\<rparr>)
          else if c_position c \<in> set (pendingSurrenders R) then R
          else if c_position mate \<in> set (pendingSurrenders R)
          then executeSurrender mins encodable c (R\<lparr>pendingSurrenders := []\<rparr>)
          else tell mate TeammateSurrender (tell c TeammateSurrender
                 (R\<lparr>pendingSurrenders := set_add (c_position c) (pendingSurrenders R)\<rparr>)))"

text \<open>The clock of a team ran out: the other team wins.\<close>

definition finish_by_timeout :: "nat \<Rightarrow> (nat \<Rightarrow> bool) \<Rightarrow> nat \<Rightarrow> room \<Rightarrow> room" where
  "finish_by_timeout mins encodable team R = handleWinCondition mins encodable (getTeamSide R (1 - team)) 3 R"

subsection \<open>Taking a seat back\<close>

definition is_strong :: "client \<Rightarrow> bool" where
  "is_strong c \<longleftrightarrow> (case c_credential c of Some (Verified _) \<Rightarrow> True | _ \<Rightarrow> False)"

definition isReconnectEligibleSeat :: "string \<Rightarrow> socket \<Rightarrow> bool \<Rightarrow> lobby \<Rightarrow> client \<Rightarrow> bool" where
  "isReconnectEligibleSeat n sk rk L c \<longleftrightarrow>
     (if is_strong c then False
      else if c_name c \<noteq> n then False
      else if \<not> rk then remoteAddress (c_socket c) = remoteAddress sk \<and> is_closed L (c_socket c)
      else True)"

definition findReconnectingPlayer :: "string \<Rightarrow> socket \<Rightarrow> bool \<Rightarrow> string option \<Rightarrow> lobby \<Rightarrow> client option" where
  "findReconnectingPlayer n sk rk joiner L =
     find (\<lambda>c.
       if \<not> isReconnectEligibleSeat n sk rk L c then False
       else if \<not> rk then True
       else case c_credential c of None \<Rightarrow> True
         | Some (External u) \<Rightarrow> joiner = Some u
         | Some _ \<Rightarrow> False) (players L)"

definition findMidDuelReconnectingPlayer :: "string \<Rightarrow> socket \<Rightarrow> bool \<Rightarrow> string option \<Rightarrow> lobby \<Rightarrow> client option" where
  "findMidDuelReconnectingPlayer n sk rk joiner L =
     (if watchForRoomId sk = Some (room_id L) then None else findReconnectingPlayer n sk rk joiner L)"

definition room_reconnect :: "client \<Rightarrow> socket \<Rightarrow> room \<Rightarrow> room" where
  "room_reconnect c sk R =
     (let R1 = on_lobby (change_client (c_id c) (\<lambda>x. x\<lparr>c_socket := sk\<rparr>)) R;
          R2 = (if sock_id (c_socket c) \<noteq> sock_id sk \<and> \<not> is_closed (lob R1) (c_socket c)
                then on_lobby (close_socket (c_socket c)) R1 else R1);
          R3 = R2\<lparr>reconnectingClients := set_add (c_id c) (reconnectingClients R2)\<rparr>;
          c' = c\<lparr>c_socket := sk\<rparr>;
          R4 = tell c' (TypeChange (c_position c) (c_host c)) (tell c' JoinGame R3);
          R5 = fold (\<lambda>p. tell c' (PlayerEnter (c_name p) (c_position p))) (players (lob R4)) R4
      in if isBetweenDuels R5
         then tell_all (filter (\<lambda>p. c_team p \<noteq> c_team c) (players (lob R5))) OpponentReconnected R5
         else R5)"

definition clear_reconnecting :: "client \<Rightarrow> room \<Rightarrow> room" where
  "clear_reconnecting c R = R\<lparr>reconnectingClients := filter (\<lambda>i. i \<noteq> c_id c) (reconnectingClients R)\<rparr>"

definition deck_counts :: "client \<Rightarrow> room \<Rightarrow> room" where
  "deck_counts c R = (case sendDeckCountMessage c (lob R) of None \<Rightarrow> R | Some L \<Rightarrow> R\<lparr>lob := L\<rparr>)"

text \<open>What a player gets who is back in its seat, in each phase.\<close>

definition has_selected :: "client \<Rightarrow> room \<Rightarrow> bool" where
  "has_selected c R \<longleftrightarrow> (if c_team c = 0 then fst (handResult R) else snd (handResult R)) \<noteq> 0"

definition rps_resync :: "client \<Rightarrow> room \<Rightarrow> room" where
  "rps_resync c R =
     (let R1 = deck_counts c (tell c DuelStart R)
      in if c_captain c \<and> \<not> has_selected c R1 then tell c SelectHand R1 else R1)"

definition order_resync :: "client \<Rightarrow> room \<Rightarrow> room" where
  "order_resync c R =
     (let R1 = deck_counts c (tell c DuelStart R)
      in if clientWhoChoosesTurn R1 = Some (c_id c) then tell c SelectTp R1 else R1)"

definition side_resync :: "client \<Rightarrow> room \<Rightarrow> room" where
  "side_resync c R = (let R1 = tell c DuelStart R in if \<not> c_ready c then tell c ChangeSide R1 else R1)"

definition resync :: "client \<Rightarrow> room \<Rightarrow> room" where
  "resync c R =
     (case phase R of
        RPS \<Rightarrow> rps_resync c R
      | CHOOSING_ORDER \<Rightarrow> order_resync c R
      | SIDE_DECKING \<Rightarrow> side_resync c R
      | _ \<Rightarrow> R)"

text \<open>The live board, all frames of the engine as one.\<close>

definition resyncBoard :: "client \<Rightarrow> room \<Rightarrow> room" where
  "resyncBoard c R = tell c BoardState (tell c DuelStart R)"

text \<open>By name: the duel waits for the player to send the deck again before the board is sent.\<close>

definition reconnect_by_name :: "client \<Rightarrow> socket \<Rightarrow> room \<Rightarrow> room" where
  "reconnect_by_name c sk R =
     (let c' = c\<lparr>c_socket := sk\<rparr>; R1 = resync c' (room_reconnect c sk R)
      in if phase R = SIDE_DECKING then clear_reconnecting c R1 else R1)"

definition duel_handleUpdateDeck :: "nat list \<Rightarrow> nat list \<Rightarrow> client \<Rightarrow> room \<Rightarrow> room" where
  "duel_handleUpdateDeck newMain newSide c R =
     (if c_id c \<notin> set (reconnectingClients R) then R
      else case c_deck c of None \<Rightarrow> R
      | Some d \<Rightarrow>
          if \<not> isSideDeckValid d newMain newSide then tell c (PlayerChange (c_position c) ChangeNotReady) R
          else clear_reconnecting c (resyncBoard c R))"

definition handleExpressReconnect :: "nat \<Rightarrow> socket \<Rightarrow> room \<Rightarrow> room" where
  "handleExpressReconnect token sk R =
     (case token_resolve token R of
        None \<Rightarrow> on_lobby (\<lambda>L. close_socket sk (send_socket sk (ReconnectAck False) L)) R
      | Some c \<Rightarrow>
          (let c' = c\<lparr>c_socket := sk\<rparr>;
               R1 = room_reconnect c sk (on_lobby (send_socket sk (ReconnectAck True)) R);
               R2 = (if phase R = DUELING then resyncBoard c' R1 else resync c' R1)
           in clear_reconnecting c (token_resend c' R2)))"

subsection \<open>Joining a room whose match has started\<close>

definition seat_spectator :: "socket \<Rightarrow> string \<Rightarrow> room \<Rightarrow> client \<times> room" where
  "seat_spectator sk n R = (let c = createSpectatorUnsafe sk n (lob R) in (c, on_lobby (addSpectatorUnsafe c) R))"

definition counts_spectator :: "client \<times> room \<Rightarrow> room" where
  "counts_spectator = (\<lambda>(c, R). deck_counts c (tell c DuelStart R))"

definition side_spectator :: "client \<times> room \<Rightarrow> room" where
  "side_spectator = (\<lambda>(c, R). tell c WaitingSide (tell c DuelStart R))"

definition duel_spectator :: "client \<times> room \<Rightarrow> room" where
  "duel_spectator = (\<lambda>(c, R). tell c History (tell c DuelStart R))"

definition admitAsSpectator :: "socket \<Rightarrow> string \<Rightarrow> room \<Rightarrow> room" where
  "admitAsSpectator sk n R =
     (case phase R of
        SIDE_DECKING \<Rightarrow> side_spectator (seat_spectator sk n R)
      | DUELING \<Rightarrow> duel_spectator (seat_spectator sk n R)
      | _ \<Rightarrow> counts_spectator (seat_spectator sk n R))"

lemmas spectator_defs = admitAsSpectator_def side_spectator_def duel_spectator_def counts_spectator_def seat_spectator_def
lemmas resync_defs = resync_def rps_resync_def order_resync_def side_resync_def resyncBoard_def

text \<open>The gate, and what runs once the mutex is held. The answer of the identity resolver is an argument:
  an error or a timeout is \<open>None\<close>.\<close>

definition mid_gate :: "socket \<Rightarrow> room \<Rightarrow> bool \<times> room" where
  "mid_gate sk R = (if \<not> reservationAdmits sk (lob R) then (False, on_lobby (rejectReservedJoin sk) R) else (True, R))"

definition mid_join :: "string option option \<Rightarrow> socket \<Rightarrow> string \<Rightarrow> room \<Rightarrow> room" where
  "mid_join identity sk n R =
     (case (if is_ranked R then identity else Some None) of
        None \<Rightarrow> admitAsSpectator sk n R
      | Some joiner \<Rightarrow>
          (case findMidDuelReconnectingPlayer n sk (is_ranked R) joiner (lob R) of
             None \<Rightarrow> admitAsSpectator sk n R
           | Some c \<Rightarrow> reconnect_by_name c sk R))"

definition resolveJoinerIdentity :: "user_repository \<Rightarrow> socket \<Rightarrow> player_info \<Rightarrow> string option" where
  "resolveJoinerIdentity repo sk info = credential_user (CredentialResolver_resolve repo (resolvedUserId sk) info)"

definition mid_handleJoin :: "string option option \<Rightarrow> socket \<Rightarrow> string \<Rightarrow> room \<Rightarrow> room" where
  "mid_handleJoin identity sk n R =
     (case mid_gate sk R of (False, R') \<Rightarrow> R' | (True, R') \<Rightarrow> mid_join identity sk n R')"

subsection \<open>Chat and emotes\<close>

definition relayChat :: "string \<Rightarrow> client \<Rightarrow> room \<Rightarrow> room" where
  "relayChat content c R =
     tell_all (clients (lob R))
       (SeatChat (if isSpectator c then OBSERVER else ingameSeat R c)
         (if isSpectator c then js_trim (filter (\<lambda>x. x \<noteq> CHR 0x00) (c_name c)) @ '': '' @ content else content)) R"

definition EMOTE_COOLDOWN_MS :: int where "EMOTE_COOLDOWN_MS = 2500"
definition MAX_ID_BYTES :: nat where "MAX_ID_BYTES = 48"

text \<open>A client that has not sent an emote yet always may.\<close>

definition tryEmote :: "int \<Rightarrow> client \<Rightarrow> room \<Rightarrow> bool \<times> room" where
  "tryEmote now c R =
     (if (case map_get (lastEmoteAt R) (c_id c) of None \<Rightarrow> False | Some t \<Rightarrow> now - t < EMOTE_COOLDOWN_MS) then (False, R)
      else (True, R\<lparr>lastEmoteAt := map_put (c_id c) now (lastEmoteAt R)\<rparr>))"

definition relayEmote :: "int \<Rightarrow> nat list \<Rightarrow> client \<Rightarrow> room \<Rightarrow> room" where
  "relayEmote now data c R =
     (if isSpectator c then R
      else if length data = 0 \<or> length data > MAX_ID_BYTES then R
      else case tryEmote now c R of
        (False, R') \<Rightarrow> R'
      | (True, R') \<Rightarrow> tell_all (clients (lob R')) (EmoteFrame (ingameSeat R' c) data) R')"

subsection \<open>Closing sockets\<close>

definition YGOProDisconnectPolicy_onDisconnect :: "int option \<Rightarrow> string \<Rightarrow> room \<Rightarrow> room" where
  "YGOProDisconnectPolicy_onDisconnect silence i R0 =
     (let R = on_lobby (\<lambda>L. L\<lparr>closed_sockets := set_add i (closed_sockets L)\<rparr>) R0; L = lob R in
      if isMatchmaking L \<and> phase R = WAITING then FinalizeYGOProRoom_run None R
      else
        case (if reservedDuel L \<noteq> None then closeReservedDuel i L else (False, L)) of
          (True, L') \<Rightarrow> if finalizing L then R else (revoke_tokens R)\<lparr>lob := L'\<rparr>
        | (False, _) \<Rightarrow>
            if hasNoConnectedPlayers L then FinalizeYGOProRoom_run None R
            else case player_on i L of
              None \<Rightarrow> (case find (\<lambda>c. sock_id (c_socket c) = i) (spectators L) of
                         None \<Rightarrow> R | Some c \<Rightarrow> on_lobby (spectatorLeave c) R)
            | Some c \<Rightarrow>
                if noHost L then FinalizeYGOProRoom_run None R
                else case abandon_playerLeft silence c R of
                  (True, R') \<Rightarrow> R'
                | (False, R') \<Rightarrow> if phase R' = WAITING then on_lobby (playerLeave c) R' else R')"

text \<open>A reserved room whose first duel did not start in time.\<close>

definition ReservedDuelLobbyTimeout_expire :: "room \<Rightarrow> room" where
  "ReservedDuelLobbyTimeout_expire R =
     (case reservedDuel (lob R) of None \<Rightarrow> R
      | Some s \<Rightarrow>
          if finalizing (lob R) \<or> started s then R
          else (let seated = map c_team (filter (\<lambda>c. \<not> is_closed (lob R) (c_socket c)) (players (lob R)));
                    ready = map c_team (filter c_ready (players (lob R)))
                in FinalizeYGOProRoom_run
                     (Some (case noShowSeat seated ready s of None \<Rightarrow> seat_abandon None BotUnavailable
                            | Some k \<Rightarrow> seat_abandon (Some k) NoShow)) R))"

end
