(* ===== verification/MatchLife.thy ===== *)
theory MatchLife
  imports MatchScore
begin

text \<open>
  The life of a match as a small machine of its own: what the phases of a room promise about the match they
  play, without clients, sockets and frames. A match starts, is ordered, dueled and sided until it is decided,
  awarded or cancelled; closing a room is final and a result is published at most once. The rooms of theory
  \<open>Dueling\<close> refine it, see \<open>PhaseProps.rooms_follow_the_match_protocol\<close>; the invariant of the
  machine is therefore one of every room.
\<close>

datatype life_phase = Waiting | Rps | Ordering | Dueling | Siding

record life =
  l_phase :: life_phase
  l_match :: "match_state option"
  l_ids :: "string list"
  l_best :: nat
  l_single :: bool
  l_open :: bool
  l_closed :: bool
  l_published :: "(string list \<times> player_data list) list"

definition l_played :: "match_state \<Rightarrow> bool" where
  "l_played = hasPlayedAnyDuel"

definition decided :: "bool \<Rightarrow> match_state \<Rightarrow> bool" where
  "decided single m \<longleftrightarrow> isFinished m \<or> single \<and> hasPlayedAnyDuel m"

definition publish :: "life \<Rightarrow> life" where
  "publish S = S\<lparr>l_closed := True, l_published := l_published S @
     [(l_ids S, case l_match S of None \<Rightarrow> [] | Some m \<Rightarrow> playersHistory m)]\<rparr>"

inductive life_step :: "life \<Rightarrow> life \<Rightarrow> bool" where
  started: "\<not> l_closed S \<Longrightarrow> l_phase S = Waiting \<Longrightarrow> \<forall>p \<in> set ps. games p = [] \<Longrightarrow>
    life_step S (S\<lparr>l_phase := Rps, l_match := Some (initializeHistoricalData ps (new_match (l_best S))), l_ids := []\<rparr>)"
| ordered: "\<not> l_closed S \<Longrightarrow> l_phase S = Rps \<Longrightarrow> life_step S (S\<lparr>l_phase := Ordering\<rparr>)"
| chosen: "\<not> l_closed S \<Longrightarrow> l_phase S = Ordering \<Longrightarrow>
    life_step S (S\<lparr>l_phase := Dueling, l_ids := l_ids S @ [i], l_open := True\<rparr>)"
| played_on: "\<not> l_closed S \<Longrightarrow> l_phase S = Dueling \<Longrightarrow> l_open S \<Longrightarrow> l_match S = Some m \<Longrightarrow> w \<le> DRAW \<Longrightarrow>
    \<not> decided (l_single S) (duelWinner w t ips m) \<Longrightarrow>
    life_step S (S\<lparr>l_phase := Siding, l_match := Some (duelWinner w t ips m), l_open := False\<rparr>)"
| played_out: "\<not> l_closed S \<Longrightarrow> l_phase S = Dueling \<Longrightarrow> l_open S \<Longrightarrow> l_match S = Some m \<Longrightarrow> w \<le> DRAW \<Longrightarrow>
    decided (l_single S) (duelWinner w t ips m) \<Longrightarrow>
    life_step S (publish (S\<lparr>l_match := Some (duelWinner w t ips m), l_open := False\<rparr>))"
| sided: "\<not> l_closed S \<Longrightarrow> l_phase S = Siding \<Longrightarrow> p \<in> {Rps, Ordering} \<Longrightarrow> life_step S (S\<lparr>l_phase := p\<rparr>)"
| broken: "\<not> l_closed S \<Longrightarrow> l_phase S = Dueling \<Longrightarrow> life_step S (S\<lparr>l_phase := Waiting\<rparr>)"
| awarded: "\<not> l_closed S \<Longrightarrow> l_phase S \<in> {Rps, Ordering, Siding} \<Longrightarrow> l_match S = Some m \<Longrightarrow> hasPlayedAnyDuel m \<Longrightarrow>
    \<not> decided (l_single S) m \<Longrightarrow> w < DRAW \<Longrightarrow> forfeit w ips m = (length is, m') \<Longrightarrow>
    life_step S (publish (S\<lparr>l_match := Some m', l_ids := l_ids S @ is\<rparr>))"
| cancelled: "\<not> l_closed S \<Longrightarrow> life_step S (S\<lparr>l_closed := True\<rparr>)"
| settled: "\<not> l_closed S \<Longrightarrow> l_phase S = Waiting \<Longrightarrow> life_step S (S\<lparr>l_open := b\<rparr>)"

inductive_cases life_stepE: "life_step S S'"

subsection \<open>The invariant\<close>

definition games_are :: "nat \<Rightarrow> match_state \<Rightarrow> bool" where
  "games_are k m \<longleftrightarrow> (\<forall>p \<in> set (match_players m). length (games p) = k)"

definition result_ok :: "bool \<Rightarrow> string list \<times> player_data list \<Rightarrow> bool" where
  "result_ok single e \<longleftrightarrow> (\<exists>m. snd e = playersHistory m \<and> games_are (length (fst e)) m \<and> decided single m \<and>
     (\<exists>n ps. match_run n ps m))"

definition life_inv :: "life \<Rightarrow> bool" where
  "life_inv S \<longleftrightarrow> 1 \<le> l_best S \<and>
     (if l_closed S then length (l_published S) \<le> 1 \<and> (\<forall>e \<in> set (l_published S). result_ok (l_single S) e)
      else l_published S = [] \<and>
        (l_phase S \<noteq> Waiting \<longrightarrow> (\<exists>m. l_match S = Some m \<and> bestOf m = l_best S \<and> \<not> decided (l_single S) m \<and>
           (\<exists>ps. match_run (l_best S) ps m) \<and>
           (if l_phase S = Dueling then l_open S \<and> (\<exists>k. length (l_ids S) = Suc k \<and> games_are k m)
            else games_are (length (l_ids S)) m))))"

lemma games_are_duelWinner: "games_are k m \<Longrightarrow> games_are (Suc k) (duelWinner w t ips m)"
  by (auto simp: games_are_def duelWinner_players record_game_def Let_def)

lemma forfeit_loop_games:
  "match_run n ps m \<Longrightarrow> w \<le> DRAW \<Longrightarrow> games_are k m \<Longrightarrow> a \<le> fst (forfeit_loop w ips a m) \<and>
    match_run n ps (snd (forfeit_loop w ips a m)) \<and>
    games_are (k + (fst (forfeit_loop w ips a m) - a)) (snd (forfeit_loop w ips a m))"
proof (induction w ips a m arbitrary: k rule: forfeit_loop.induct)
  case (1 w ips a m)
  show ?case
  proof (cases "\<not> isFinished m \<and> a < bestOf m")
    case True
    have "Suc a \<le> fst (forfeit_loop w ips (Suc a) (duelWinner w 0 ips m)) \<and>
        match_run n ps (snd (forfeit_loop w ips (Suc a) (duelWinner w 0 ips m))) \<and>
        games_are (Suc k + (fst (forfeit_loop w ips (Suc a) (duelWinner w 0 ips m)) - Suc a))
          (snd (forfeit_loop w ips (Suc a) (duelWinner w 0 ips m)))"
      using 1 True by (intro "1.IH") (auto intro: match_run.played games_are_duelWinner)
    moreover have "forfeit_loop w ips a m = forfeit_loop w ips (Suc a) (duelWinner w 0 ips m)"
      using True by (simp add: forfeit_loop.simps [of w ips a m])
    ultimately show ?thesis
      by (smt (verit) Suc_diff_Suc Suc_le_lessD add_Suc_shift less_imp_le_nat)
  next
    case False
    then have "forfeit_loop w ips a m = (a, m)"
      by (subst forfeit_loop.simps) auto
    then show ?thesis
      using "1.prems" by simp
  qed
qed

lemma forfeit_result:
  assumes "match_run n ps m" and "1 \<le> n" and "w < DRAW" and "games_are k m" and "forfeit w ips m = (a, m')"
  shows "isFinished m' \<and> match_run n ps m' \<and> games_are (k + a) m'"
proof -
  have inv: "bestOf m = n \<and> score_ok m"
    using match_run_invariant [OF assms(1)] by blast
  have "isFinished (snd (forfeit_loop w ips 0 m))"
    using inv assms(2,3) by (intro forfeit_loop_decides [THEN conjunct1]) (auto simp: score_ok_def)
  moreover have "w \<le> DRAW"
    using assms(3) by simp
  ultimately show ?thesis
    using forfeit_loop_games [OF assms(1) _ assms(4), of w 0 ips] assms(5) by (simp add: forfeit_def)
qed

lemma decided_not_finished: "\<not> decided s m \<Longrightarrow> \<not> isFinished m"
  by (simp add: decided_def)

lemma life_step_inv: "life_step S S' \<Longrightarrow> life_inv S \<Longrightarrow> life_inv S'"
proof (induction rule: life_step.induct)
  case (started S ps)
  let ?m = "initializeHistoricalData ps (new_match (l_best S))"
  have "match_run (l_best S) ps ?m"
    by (rule match_run.start)
  moreover have "bestOf ?m = l_best S" "games_are 0 ?m"
    by (auto simp: initializeHistoricalData_def new_match_def games_are_def)
  moreover have "\<not> decided (l_single S) ?m"
    using started by (auto simp: decided_def isFinished_def initializeHistoricalData_def new_match_def
        hasPlayedAnyDuel_def life_inv_def)
  ultimately show ?case
    using started by (auto simp: life_inv_def)
next
  case (played_on S m w t ips)
  then obtain k ps where "length (l_ids S) = Suc k" "games_are k m" "match_run (l_best S) ps m" "bestOf m = l_best S"
    "\<not> isFinished m"
    by (auto simp: life_inv_def dest: decided_not_finished)
  then show ?case
    using played_on by (auto simp: life_inv_def intro: match_run.played games_are_duelWinner)
next
  case (played_out S m w t ips)
  then obtain k ps where "length (l_ids S) = Suc k" "games_are k m" "match_run (l_best S) ps m" "\<not> isFinished m"
    by (auto simp: life_inv_def dest: decided_not_finished)
  then have "games_are (length (l_ids S)) (duelWinner w t ips m)" "match_run (l_best S) ps (duelWinner w t ips m)"
    using played_out by (auto intro: match_run.played games_are_duelWinner)
  then show ?case
    using played_out by (auto simp: life_inv_def publish_def result_ok_def)
next
  case (awarded S m w ips "is" m')
  then obtain ps where "games_are (length (l_ids S)) m" "match_run (l_best S) ps m" "1 \<le> l_best S"
    by (auto simp: life_inv_def)
  then have "isFinished m' \<and> match_run (l_best S) ps m' \<and> games_are (length (l_ids S) + length is) m'"
    using forfeit_result awarded by blast
  then show ?case
    using awarded by (auto simp: life_inv_def publish_def result_ok_def decided_def)
qed (auto simp: life_inv_def split: if_splits)

end
