(* ===== verification/PhaseLaws.thy ===== *)
theory PhaseLaws
  imports Dueling MatchLife LobbyProps
begin

text \<open>
  What the operations of a room do to its match: \<open>life_of\<close> reads the machine of theory \<open>MatchLife\<close>
  off a room. Most operations only send frames or change clients and leave it alone; the others get a lemma
  with the step they take.
\<close>

subsection \<open>The match of a lobby\<close>

definition single_reserved :: "lobby \<Rightarrow> bool" where
  "single_reserved L \<longleftrightarrow> (case reservedDuel L of None \<Rightarrow> False | Some s \<Rightarrow> isSingle s)"

type_synonym lobby_core = "match_state option \<times> string list \<times> nat \<times> bool \<times> bool \<times> duel_state"

definition lcore :: "lobby \<Rightarrow> lobby_core" where
  "lcore L = (room_match L, duelIds L, room_bestOf L, single_reserved L, finalizing L, duelState L)"

lemma lcore_frames: "frames L L' \<Longrightarrow> lcore L' = lcore L"
  by (auto simp: frames_def lcore_def single_reserved_def)

lemma lcore_fold: "(\<And>x M. x \<in> set xs \<Longrightarrow> lcore (g x M) = lcore M) \<Longrightarrow> lcore (fold g xs L) = lcore L"
  by (induction xs arbitrary: L) simp_all

lemmas lcore_sends [simp] =
  frames_socket [THEN lcore_frames] frames_client [THEN lcore_frames] frames_broadcast [THEN lcore_frames]
  frames_count [THEN lcore_frames]

lemma lcore_lists [simp]:
  "lcore (L\<lparr>players := ps\<rparr>) = lcore L" "lcore (L\<lparr>spectators := ss\<rparr>) = lcore L" "lcore (L\<lparr>created := n\<rparr>) = lcore L"
  "lcore (L\<lparr>closed_sockets := k\<rparr>) = lcore L" "lcore (L\<lparr>players := ps, spectators := ss\<rparr>) = lcore L"
  "lcore (L\<lparr>spectators := ss, created := n\<rparr>) = lcore L"
  by (simp_all add: lcore_def single_reserved_def)

lemma lcore_clients [simp]:
  "lcore (change_client i f L) = lcore L" "lcore (close_socket sk L) = lcore L" "lcore (name_captains L) = lcore L"
  "lcore (removePlayerUnsafe c L) = lcore L" "lcore (removeSpectatorUnsafe c L) = lcore L"
  by (simp_all add: change_client_def Let_def close_socket_def name_captains_def removePlayerUnsafe_def
      removeSpectatorUnsafe_def split: list.split)

lemma lcore_lobby_ops [simp]:
  "lcore (toRPS L) = lcore L" "lcore (addSpectatorUnsafe c L) = lcore L" "lcore (setDecksToPlayerUnsafe i d L) = lcore L"
  "lcore (notReadyUnsafe c L) = lcore L" "lcore (deck_refused e c L) = lcore L" "lcore (spectatorLeave c L) = lcore L"
  "lcore (playerLeave c L) = lcore L" "lcore (rejectReservedJoin sk L) = lcore L"
  using addSpectator_effect [THEN lcore_frames, of c L]
  by (simp_all add: frames_toRPS [THEN lcore_frames] setDecksToPlayerUnsafe_def notReadyUnsafe_def deck_refused_def
      spectatorLeave_def playerLeave_def rejectReservedJoin_def split: option.split)

lemma lcore_deck_counts: "sendDeckCountMessage c L = Some L' \<Longrightarrow> lcore L' = lcore L"
  by (auto simp: sendDeckCountMessage_def Let_def split: list.splits)

lemma lcore_sessions [simp]:
  "lcore (L\<lparr>reservedDuel := map_option markGameOver (reservedDuel L)\<rparr>) = lcore L"
  "lcore (L\<lparr>reservedDuel := map_option (markStarted i) (reservedDuel L)\<rparr>) = lcore L"
  by (auto simp: lcore_def single_reserved_def markGameOver_def markStarted_def isSingle_def split: option.split)

lemma lcore_finalize:
  assumes "\<not> finalizing L"
  shows "lcore (finalize_room ab L) = (room_match L, duelIds L, room_bestOf L, single_reserved L, True, duelState L)"
proof -
  define N where "N a = L\<lparr>finalizing := True, reservedDuel := map_option (close_session a) (reservedDuel L)\<rparr>" for a
  have n: "lcore (N a) = (room_match L, duelIds L, room_bestOf L, single_reserved L, True, duelState L)" for a
    by (auto simp: N_def lcore_def single_reserved_def isSingle_def split: option.split)
  have "lcore (fold (\<lambda>c M. if is_closed M (c_socket c) then M
      else close_socket (c_socket c) (if duelState L \<noteq> WAITING then send_client c DuelEnd M else M)) cs (N a)) = lcore (N a)" for a cs
    by (rule lcore_fold) simp
  then show ?thesis
    unfolding finalize_room_def Let_def N_def [symmetric] using assms n by simp
qed

lemma finalize_closed: "finalizing L \<Longrightarrow> finalize_room ab L = L"
  by (simp add: finalize_room_def)

lemma lcore_start:
  "lcore (snd (startMatch L)) =
    (if fst (startMatch L)
     then (Some (initializeHistoricalData (map (\<lambda>c. \<lparr>player_id = c_user c, player_name = c_name c, player_team = c_team c, games = []\<rparr>)
             (players (name_captains L))) (new_match (room_bestOf L))), [], room_bestOf L, single_reserved L, finalizing L, RPS)
     else lcore L)"
proof -
  have "lcore ((createMatchUnsafe (name_captains L))\<lparr>duelState := RPS\<rparr>) =
      (Some (initializeHistoricalData (map (\<lambda>c. \<lparr>player_id = c_user c, player_name = c_name c, player_team = c_team c, games = []\<rparr>)
         (players (name_captains L))) (new_match (room_bestOf L))), [], room_bestOf L, single_reserved L, finalizing L, RPS)"
    using lcore_clients(3) [of L] by (simp add: lcore_def createMatchUnsafe_def single_reserved_def)
  then show ?thesis
    using startMatch_effect [THEN lcore_frames, of L] by (simp split: if_splits)
qed

lemma lcore_reserved_close:
  "closeReservedDuel i L = (b, L') \<Longrightarrow> L' = L \<and> \<not> b \<or> b \<and> (\<exists>ab. L' = finalize_room ab L)"
  by (auto simp: closeReservedDuel_def split: option.splits if_splits)

subsection \<open>The match of a room\<close>

fun life_phase_of :: "duel_state \<Rightarrow> life_phase" where
  "life_phase_of WAITING = Waiting"
| "life_phase_of RPS = Rps"
| "life_phase_of CHOOSING_ORDER = Ordering"
| "life_phase_of DUELING = Dueling"
| "life_phase_of SIDE_DECKING = Siding"

definition duel_open :: "room \<Rightarrow> bool" where
  "duel_open R \<longleftrightarrow> currentDuel R \<noteq> None \<and> \<not> duel_over R"

definition read_life :: "lobby_core \<Rightarrow> bool \<Rightarrow> game_over_event list \<Rightarrow> life" where
  "read_life c op es = (case c of (m, is, b, s, f, p) \<Rightarrow>
     \<lparr>l_phase = life_phase_of p, l_match = m, l_ids = is, l_best = b, l_single = s, l_open = op, l_closed = f,
      l_published = map (\<lambda>e. (ev_duelIds e, ev_players e)) es\<rparr>)"

definition life_of :: "room \<Rightarrow> life" where
  "life_of R = read_life (lcore (lob R)) (duel_open R) (gameOvers R)"

lemma life_of_cong:
  "lcore (lob R') = lcore (lob R) \<Longrightarrow> duel_open R' = duel_open R \<Longrightarrow> gameOvers R' = gameOvers R \<Longrightarrow> life_of R' = life_of R"
  by (simp add: life_of_def)

lemma life_fields:
  "l_phase (life_of R) = life_phase_of (phase R)" "l_match (life_of R) = room_match (lob R)"
  "l_ids (life_of R) = duelIds (lob R)" "l_best (life_of R) = room_bestOf (lob R)"
  "l_single (life_of R) = single_reserved (lob R)" "l_open (life_of R) = duel_open R"
  "l_closed (life_of R) = finalizing (lob R)" "l_published (life_of R) = map (\<lambda>e. (ev_duelIds e, ev_players e)) (gameOvers R)"
  by (simp_all add: life_of_def read_life_def lcore_def phase_def)

lemma on_lobby_fields [simp]:
  "lob (on_lobby f R) = f (lob R)" "currentDuel (on_lobby f R) = currentDuel R" "gameOvers (on_lobby f R) = gameOvers R"
  "duel_open (on_lobby f R) = duel_open R" "tokenIndex (on_lobby f R) = tokenIndex R"
  by (simp_all add: on_lobby_def duel_open_def duel_over_def)

lemma life_on_lobby [simp]: "lcore (f (lob R)) = lcore (lob R) \<Longrightarrow> life_of (on_lobby f R) = life_of R"
  by (rule life_of_cong) simp_all

lemma life_tell [simp]: "life_of (tell c f R) = life_of R" "life_of (tell_all cs f R) = life_of R"
  by (simp_all add: tell_def tell_all_def lcore_fold)

lemma life_fold: "(\<And>x M. x \<in> set xs \<Longrightarrow> life_of (g x M) = life_of M) \<Longrightarrow> life_of (fold g xs R) = life_of R"
  by (induction xs arbitrary: R) simp_all

text \<open>Fields the match does not see.\<close>

lemma life_fields_update [simp]:
  "life_of (R\<lparr>handResult := h\<rparr>) = life_of R" "life_of (R\<lparr>clientWhoChoosesTurn := t\<rparr>) = life_of R"
  "life_of (R\<lparr>turnChoiceRequiresRps := b\<rparr>) = life_of R" "life_of (R\<lparr>isPositionSwapped := b\<rparr>) = life_of R"
  "life_of (R\<lparr>duelRecords := rs\<rparr>) = life_of R" "life_of (R\<lparr>core := b\<rparr>) = life_of R"
  "life_of (R\<lparr>pendingSurrenders := ns\<rparr>) = life_of R" "life_of (R\<lparr>playerTimers := pt\<rparr>) = life_of R"
  "life_of (R\<lparr>playerRemainMinutes := pm\<rparr>) = life_of R" "life_of (R\<lparr>graceTimers := gt\<rparr>) = life_of R"
  "life_of (R\<lparr>tokenIndex := ti\<rparr>) = life_of R" "life_of (R\<lparr>nextToken := k\<rparr>) = life_of R"
  "life_of (R\<lparr>reconnectingClients := ns\<rparr>) = life_of R" "life_of (R\<lparr>lastEmoteAt := le\<rparr>) = life_of R"
  by (simp_all add: life_of_def duel_open_def duel_over_def)

lemma life_timers [simp]:
  "life_of (clearPlayerTimeout i R) = life_of R" "life_of (clearAllTimeouts R) = life_of R"
  "life_of (removeAllListener R) = life_of R"
proof -
  show c: "life_of (clearPlayerTimeout i R) = life_of R" for i R
    unfolding clearPlayerTimeout_def
    using life_fields_update(8,9) by metis
  then show "life_of (clearAllTimeouts R) = life_of R"
    by (simp add: clearAllTimeouts_def life_fold)
  then show "life_of (removeAllListener R) = life_of R"
    by (simp add: removeAllListener_def)
qed

lemma life_tokens [simp]:
  "life_of (token_register c R) = life_of R" "life_of (token_issue c R) = life_of R" "life_of (token_resend c R) = life_of R"
  "life_of (revoke_tokens R) = life_of R"
  by (simp_all add: token_register_def token_issue_def token_resend_def revoke_tokens_def life_of_def duel_open_def duel_over_def
      tell_def on_lobby_def split: option.split)

subsection \<open>Transitions\<close>

lemma lob_removeAll [simp]: "lob (removeAllListener R) = lob R" "gameOvers (removeAllListener R) = gameOvers R"
  "currentDuel (removeAllListener R) = currentDuel R"
proof -
  have "lob (fold clearPlayerTimeout is R) = lob R \<and> gameOvers (fold clearPlayerTimeout is R) = gameOvers R \<and>
      currentDuel (fold clearPlayerTimeout is R) = currentDuel R" for "is" R
    by (induction "is" arbitrary: R) (simp_all add: clearPlayerTimeout_def)
  then show "lob (removeAllListener R) = lob R" "gameOvers (removeAllListener R) = gameOvers R"
    "currentDuel (removeAllListener R) = currentDuel R"
    by (simp_all add: removeAllListener_def clearAllTimeouts_def)
qed

lemma life_enter: "life_of (enter_phase p R) = (life_of R)\<lparr>l_phase := life_phase_of p\<rparr>"
  by (simp add: enter_phase_def life_of_def read_life_def lcore_def single_reserved_def duel_open_def duel_over_def)

lemma life_transitions:
  "life_of (rps R) = (life_of R)\<lparr>l_phase := Rps\<rparr>" "life_of (choosingOrder R) = (life_of R)\<lparr>l_phase := Ordering\<rparr>"
  "life_of (dueling i lp n R) = (life_of R)\<lparr>l_phase := Dueling, l_ids := l_ids (life_of R) @ [i], l_open := True\<rparr>"
  "life_of (waiting R) = (life_of R)\<lparr>l_phase := Waiting\<rparr>"
proof -
  show "life_of (rps R) = (life_of R)\<lparr>l_phase := Rps\<rparr>" "life_of (choosingOrder R) = (life_of R)\<lparr>l_phase := Ordering\<rparr>"
    by (simp_all add: rps_def choosingOrder_def life_enter)
  have "life_of (createDuel i lp n R) = (life_of R)\<lparr>l_ids := l_ids (life_of R) @ [i], l_open := True\<rparr>"
    by (simp add: createDuel_def on_lobby_def life_of_def read_life_def lcore_def single_reserved_def duel_open_def duel_over_def
        new_duel_def)
  then show "life_of (dueling i lp n R) = (life_of R)\<lparr>l_phase := Dueling, l_ids := l_ids (life_of R) @ [i], l_open := True\<rparr>"
    by (simp add: dueling_def life_enter)
  show "life_of (waiting R) = (life_of R)\<lparr>l_phase := Waiting\<rparr>"
    by (simp add: waiting_def life_enter)
qed

lemma life_sideDecking: "life_of (sideDecking mins R) = (life_of R)\<lparr>l_phase := Siding\<rparr>"
proof -
  have "life_of (startPlayerTimeout mins c M) = life_of M" for c M
    by (simp add: startPlayerTimeout_def Let_def)
  then have "life_of (fold (startPlayerTimeout mins) cs M) = life_of M" for cs M
    by (rule life_fold)
  moreover have "life_of ((enter_phase SIDE_DECKING R)\<lparr>playerTimers := [], playerRemainMinutes := []\<rparr>) =
      (life_of R)\<lparr>l_phase := Siding\<rparr>"
    using life_fields_update(8,9) life_enter by (metis life_phase_of.simps(5))
  ultimately show ?thesis
    by (simp add: sideDecking_def Let_def)
qed

lemma life_finalize:
  "\<not> finalizing (lob R) \<Longrightarrow> life_of (FinalizeYGOProRoom_run ab R) = (life_of R)\<lparr>l_closed := True\<rparr>"
  using lcore_finalize [of "lob R" ab]
  by (simp add: FinalizeYGOProRoom_run_def revoke_tokens_def life_of_def read_life_def duel_open_def duel_over_def
      on_lobby_def lcore_def)

lemma finalize_closed_room: "finalizing (lob R) \<Longrightarrow> FinalizeYGOProRoom_run ab R = R"
  by (simp add: FinalizeYGOProRoom_run_def)

lemma life_mark_over [simp]: "life_of (mark_over R) = life_of R"
  by (simp add: mark_over_def)

lemma decided_iff: "room_match (lob R) = Some m \<Longrightarrow> isMatchFinished R \<longleftrightarrow> decided (single_reserved (lob R)) m"
  by (auto simp: isMatchFinished_def decided_def single_reserved_def played_any_def split: option.splits)

lemma life_publish:
  assumes "\<not> finalizing (lob R)"
  shows "life_of (FinalizeYGOProRoom_run ab (publishGameOver R)) = publish (life_of R)"
proof -
  have "\<not> finalizing (lob (publishGameOver R))"
    using assms by (simp add: publishGameOver_def)
  moreover have "life_of (publishGameOver R) = (life_of R)\<lparr>l_published := l_published (life_of R) @
      [(duelIds (lob R), matchPlayersHistory R)]\<rparr>"
    by (simp add: publishGameOver_def life_of_def read_life_def lcore_def game_over_of_def duel_open_def duel_over_def)
  ultimately show ?thesis
    by (simp add: life_finalize publish_def life_fields matchPlayersHistory_def)
qed

lemma life_match_update:
  "life_of (on_lobby (\<lambda>L. L\<lparr>room_match := x, duelIds := f L\<rparr>) R) =
     (life_of R)\<lparr>l_match := x, l_ids := f (lob R)\<rparr>"
  "life_of (on_lobby (\<lambda>L. L\<lparr>room_match := g L\<rparr>) R) = (life_of R)\<lparr>l_match := g (lob R)\<rparr>"
  by (simp_all add: life_of_def read_life_def lcore_def single_reserved_def)

lemma life_forfeit:
  assumes "room_match (lob R) = Some m" and "forfeit w (connections R) m = (n, m')"
  shows "life_of (matchForfeit w fresh R) = (life_of R)\<lparr>l_match := Some m', l_ids := duelIds (lob R) @ map fresh [0..<n]\<rparr>"
  using assms by (simp add: matchForfeit_def life_match_update)

lemma life_duelWinner:
  "life_of (room_duelWinner w (on_duel finish_duel R)) =
     (life_of R)\<lparr>l_match := map_option (duelWinner w (turn R) (connections R)) (room_match (lob R)), l_open := False\<rparr>"
proof -
  have "life_of (on_duel finish_duel R) = (life_of R)\<lparr>l_open := False\<rparr>"
    by (simp add: on_duel_def life_of_def read_life_def lcore_def duel_open_def duel_over_def finish_duel_def split: option.split)
  moreover have "turn (on_duel finish_duel R) = turn R" "connections (on_duel finish_duel R) = connections R"
    "lob (on_duel finish_duel R) = lob R"
    by (simp_all add: turn_def on_duel_def finish_duel_def connections_def split: option.split)
  ultimately show ?thesis
    by (simp add: room_duelWinner_def life_match_update)
qed

lemma life_processDuelEnd:
  "life_of (processDuelEnd player reason w R) =
     (life_of R)\<lparr>l_match := map_option (duelWinner w (turn R) (connections R)) (room_match (lob R)), l_open := False\<rparr>"
proof -
  have "life_of (updateDuelRecord w reason M) = life_of M" for M
    by (simp add: updateDuelRecord_def)
  then show ?thesis
    by (simp add: processDuelEnd_def Let_def life_duelWinner)
qed

lemma life_engine [simp]:
  "life_of (on_new_turn player R) = life_of R" "life_of (on_damage player v R) = life_of R"
  "life_of (on_recover player v R) = life_of R" "life_of (on_pay_cost player v R) = life_of R"
proof -
  have d: "life_of (on_duel f R) = life_of R" if "\<And>d. duel_finished (f d) = duel_finished d" for f R
    using that by (simp add: on_duel_def life_of_def read_life_def lcore_def duel_open_def duel_over_def split: option.split)
  show "life_of (on_damage player v R) = life_of R" "life_of (on_recover player v R) = life_of R"
    "life_of (on_pay_cost player v R) = life_of R"
    unfolding on_damage_def on_recover_def on_pay_cost_def
    by (rule d; simp add: decreaseLps_def increaseLps_def)+
  have "life_of (on_duel increaseTurn R) = life_of R"
    by (rule d) (simp add: increaseTurn_def)
  then show "life_of (on_new_turn player R) = life_of R"
    by (simp add: on_new_turn_def Let_def)
qed

lemma life_duel_started [simp]: "life_of (duel_started k0 k1 R) = life_of R"
  by (simp add: duel_started_def Let_def)

lemma life_reconnects [simp]:
  "life_of (room_reconnect c sk R) = life_of R" "life_of (clear_reconnecting c R) = life_of R"
  "life_of (deck_counts c R) = life_of R" "life_of (resync c R) = life_of R" "life_of (reconnect_by_name c sk R) = life_of R"
  "life_of (handleExpressReconnect token sk R) = life_of R" "life_of (admitAsSpectator sk n R) = life_of R"
  "life_of (mid_handleJoin identity sk n R) = life_of R" "life_of (duel_handleUpdateDeck nm ns c R) = life_of R"
proof -
  show r: "life_of (room_reconnect c sk R) = life_of R" for c sk R
    by (simp add: room_reconnect_def Let_def life_fold)
  show k: "life_of (clear_reconnecting c R) = life_of R" for c R
    by (simp add: clear_reconnecting_def)
  show d: "life_of (deck_counts c R) = life_of R" for c R
  proof (cases "sendDeckCountMessage c (lob R)")
    case (Some L)
    then show ?thesis
      using lcore_deck_counts [OF Some] by (simp add: deck_counts_def life_of_def duel_open_def duel_over_def)
  qed (simp add: deck_counts_def)
  show s: "life_of (resync c R) = life_of R" for c R
    by (simp add: resync_defs Let_def d split: duel_state.split)
  show n: "life_of (reconnect_by_name c sk R) = life_of R" for c sk R
    by (simp add: reconnect_by_name_def Let_def r s k)
  show "life_of (handleExpressReconnect token sk R) = life_of R"
    by (simp add: handleExpressReconnect_def resyncBoard_def Let_def r s k split: option.split)
  show a: "life_of (admitAsSpectator sk n R) = life_of R" for sk n R
    by (simp add: spectator_defs Let_def d split: duel_state.split)
  show "life_of (mid_handleJoin identity sk n R) = life_of R"
    by (simp add: mid_handleJoin_def mid_gate_def mid_join_def a n split: option.split)
  show "life_of (duel_handleUpdateDeck nm ns c R) = life_of R"
    by (simp add: duel_handleUpdateDeck_def resyncBoard_def k split: option.split)
qed

lemma life_finishing [simp]: "life_of (finalizeWithReplays encodable R) = life_of R"
proof -
  have "life_of (sendReplay encodable n i M) = life_of M" for n i M
    by (simp add: sendReplay_def)
  moreover have "life_of (sendDuelEndAndDisconnect M) = life_of M" for M
    by (simp add: sendDuelEndAndDisconnect_def lcore_fold)
  ultimately show ?thesis
    by (simp add: finalizeWithReplays_def Let_def life_fold)
qed

lemma life_sideTransition [simp]:
  "life_of (transitionToSideDecking mins w R) = (life_of R)\<lparr>l_phase := Siding\<rparr>"
proof -
  have "life_of (assignSideDeckChoice w M) = life_of M" for M
    by (simp add: assignSideDeckChoice_def Let_def split: option.split)
  then show ?thesis
    by (simp add: transitionToSideDecking_def Let_def life_sideDecking)
qed

end
