(* ===== verification/PhaseProps.thy ===== *)
theory PhaseProps
  imports PhaseLaws
begin

text \<open>
  Properties of the phases of a match: every operation of a room is a step of the match machine or leaves the
  match alone, so that published results are complete and published once; who wins rock-paper-scissors, who
  chooses after a duel, how an abandoned match ends, and who may take a seat back.
\<close>

subsection \<open>Steps of a room\<close>

text \<open>What can happen to a room that is not closed: a closed room's sockets are closed and its listeners
  removed. In the lobby anything may happen that keeps the match. The engine names the winner of a duel as
  side 0, side 1 or 2 for a draw; what else it has to say is sent to the clients.\<close>

inductive room_step :: "room \<Rightarrow> room \<Rightarrow> bool" where
  lobby: "phase R = WAITING \<Longrightarrow> lcore L = lcore (lob R) \<Longrightarrow> room_step R (R\<lparr>lob := L\<rparr>)"
| start: "phase R = WAITING \<Longrightarrow> room_step R (snd (start_room R))"
| rps_choice: "phase R = RPS \<Longrightarrow> c \<in> set (clients (lob R)) \<Longrightarrow> room_step R (handleRPSChoice res c R)"
| turn_choice: "phase R = CHOOSING_ORDER \<Longrightarrow> c \<in> set (clients (lob R)) \<Longrightarrow>
    room_step R (handleTurnChoice first c uuid lp n R)"
| engine_started: "phase R = DUELING \<Longrightarrow> room_step R (duel_started k0 k1 R)"
| new_turn: "phase R = DUELING \<Longrightarrow> room_step R (on_new_turn player R)"
| damage: "phase R = DUELING \<Longrightarrow> room_step R (on_damage player v R)"
| recover: "phase R = DUELING \<Longrightarrow> room_step R (on_recover player v R)"
| pay_cost: "phase R = DUELING \<Longrightarrow> room_step R (on_pay_cost player v R)"
| won: "phase R = DUELING \<Longrightarrow> player \<le> 2 \<Longrightarrow> room_step R (handleWinCondition mins encodable player reason R)"
| timeout: "phase R = DUELING \<Longrightarrow> room_step R (finish_by_timeout mins encodable team R)"
| surrender: "phase R = DUELING \<Longrightarrow> c \<in> set (clients (lob R)) \<Longrightarrow> room_step R (handleSurrender mins encodable c R)"
| engine_failed: "phase R = DUELING \<Longrightarrow> room_step R (setDuelFinished R)"
| deck_again: "phase R = DUELING \<Longrightarrow> c \<in> set (clients (lob R)) \<Longrightarrow> room_step R (duel_handleUpdateDeck nm ns c R)"
| side_deck: "phase R = SIDE_DECKING \<Longrightarrow> c \<in> set (clients (lob R)) \<Longrightarrow>
    room_step R (side_handleUpdateDeck nm ns built validate c R)"
| side_tick: "phase R = SIDE_DECKING \<Longrightarrow> c \<in> set (players (lob R)) \<Longrightarrow> room_step R (tickPlayerTimeout c fresh R)"
| surrender_between: "c \<in> set (clients (lob R)) \<Longrightarrow> room_step R (settleSurrenderBetweenDuels c fresh R)"
| join: "phase R \<noteq> WAITING \<Longrightarrow> room_step R (mid_handleJoin identity sk nm R)"
| express: "phase R \<noteq> WAITING \<Longrightarrow> room_step R (handleExpressReconnect token sk R)"
| chat: "room_step R (relayChat content c R)"
| emote: "room_step R (relayEmote now data c R)"
| disconnect: "room_step R (YGOProDisconnectPolicy_onDisconnect silence i R)"
| grace: "room_step R (grace_expired position fresh R)"
| lobby_timeout: "room_step R (ReservedDuelLobbyTimeout_expire R)"
| sends: "room_step R (on_lobby (\<lambda>L. L\<lparr>sent := sent L @ fs\<rparr>) R)"
| engine_gone: "room_step R (R\<lparr>core := False\<rparr>)"

abbreviation follows :: "room \<Rightarrow> room \<Rightarrow> bool" where
  "follows R R' \<equiv> life_of R' = life_of R \<or> life_step (life_of R) (life_of R')"

lemma follows_finalize: "\<not> finalizing (lob R) \<Longrightarrow> life_of M = life_of R \<Longrightarrow> follows R (FinalizeYGOProRoom_run ab M)"
proof -
  assume a: "\<not> finalizing (lob R)" "life_of M = life_of R"
  then have "\<not> finalizing (lob M)"
    by (metis life_fields(7))
  then show ?thesis
    using a life_step.cancelled [of "life_of R"] by (simp add: life_finalize life_fields)
qed

lemma phase_life: "life_of R' = life_of R \<Longrightarrow> phase R' = phase R"
proof -
  have "life_phase_of p = life_phase_of q \<Longrightarrow> p = q" for p q
    by (cases p; cases q) simp_all
  then show "life_of R' = life_of R \<Longrightarrow> phase R' = phase R"
    by (metis life_fields(1))
qed

lemma follows_rps: "\<not> finalizing (lob R) \<Longrightarrow> phase R = RPS \<Longrightarrow> follows R (handleRPSChoice res c R)"
  using life_step.ordered [of "life_of R"]
  by (auto simp: handleRPSChoice_def Let_def life_transitions life_fields split: list.split)

lemma follows_turn: "\<not> finalizing (lob R) \<Longrightarrow> phase R = CHOOSING_ORDER \<Longrightarrow> follows R (handleTurnChoice first c uuid lp n R)"
  using life_step.chosen [of "life_of R" uuid]
  by (simp add: handleTurnChoice_def life_transitions life_fields)

lemma life_start: "follows R (snd (start_room R))" if "\<not> finalizing (lob R)" "phase R = WAITING"
proof (cases "startMatch (lob R)")
  case (Pair ok L)
  let ?ps = "map (\<lambda>c. \<lparr>player_id = c_user c, player_name = c_name c, player_team = c_team c, games = []\<rparr>)
    (players (name_captains (lob R)))"
  have regs: "life_of (fold token_register cs M) = life_of M" for cs M
    by (rule life_fold) simp
  have l: "life_of (snd (start_room R)) = read_life (lcore L) (duel_open R) (gameOvers R)"
    by (cases ok) (simp_all add: start_room_def Pair Let_def regs, simp_all add: life_of_def duel_open_def duel_over_def)
  have c: "lcore L = (if ok then (Some (initializeHistoricalData ?ps (new_match (room_bestOf (lob R)))), [],
      room_bestOf (lob R), single_reserved (lob R), finalizing (lob R), RPS) else lcore (lob R))"
    using lcore_start [of "lob R"] Pair by simp
  show ?thesis
  proof (cases ok)
    case True
    then have "life_of (snd (start_room R)) = (life_of R)\<lparr>l_phase := Rps,
        l_match := Some (initializeHistoricalData ?ps (new_match (l_best (life_of R)))), l_ids := []\<rparr>"
      using l c by (simp add: life_of_def read_life_def lcore_def)
    moreover have "\<forall>p \<in> set ?ps. games p = []"
      by simp
    ultimately show ?thesis
      using life_step.started [of "life_of R" ?ps] that by (simp add: life_fields)
  next
    case False
    then show ?thesis
      using l c by (simp add: life_of_def)
  qed
qed

lemma follows_resolve:
  assumes "\<not> finalizing (lob R)" and M: "life_of M = life_of R"
  shows "follows R (abandon_resolve t fresh M)"
proof -
  let ?N = "M\<lparr>graceTimers := []\<rparr>"
  have N: "life_of ?N = life_of R" "lob ?N = lob M"
    using M by simp_all
  have nf: "\<not> finalizing (lob M)"
    using assms life_fields(7) by metis
  show ?thesis
  proof (cases "isMatchFinished ?N \<or> \<not> isBetweenDuels ?N")
    case True
    then show ?thesis
      using N nf by (simp add: abandon_resolve_def Let_def)
  next
    case go: False
    show ?thesis
    proof (cases "played_any ?N")
      case False
      have "life_of (tell_all (opponentsOf t ?N) MatchCancelled ?N) = life_of R"
        using N(1) life_tell(2) by metis
      then have "follows R (FinalizeYGOProRoom_run (Some (seat_abandon (Some t) Disconnect))
          (tell_all (opponentsOf t ?N) MatchCancelled ?N))"
        by (rule follows_finalize [OF assms(1)])
      then show ?thesis
        using go nf False by (simp only: abandon_resolve_def Let_def N(2)) simp
    next
      case True
      define P where "P = tell_all (opponentsOf t ?N) MatchWon ?N"
      have P: "life_of P = life_of R" "\<not> finalizing (lob P)" "room_match (lob P) = room_match (lob M)"
        "single_reserved (lob P) = single_reserved (lob M)" "duelIds (lob P) = duelIds (lob R)"
        using N life_tell(2) life_fields nf assms(1) M unfolding P_def by metis+
      have "\<not> isMatchFinished P"
      proof -
        have "isMatchFinished P = isMatchFinished ?N"
        proof (cases "room_match (lob M)")
          case None
          then show ?thesis
            using P by (simp add: isMatchFinished_def played_any_def)
        next
          case (Some m)
          then show ?thesis
            using decided_iff [of P m] decided_iff [of ?N m] P by simp
        qed
        then show ?thesis using go by simp
      qed
      moreover obtain m where m: "room_match (lob M) = Some m" "hasPlayedAnyDuel m"
        using True by (auto simp: played_any_def split: option.splits)
      ultimately have dec: "\<not> decided (l_single (life_of R)) m"
        using decided_iff [of P m] P(1,3) life_fields(5) [of P] by simp
      let ?w = "if t = 0 then 1 else 0"
      obtain n m' where f: "forfeit ?w (connections P) m = (n, m')"
        by fastforce
      define Q where "Q = mark_over (matchForfeit ?w fresh P)"
      have Q: "life_of Q = (life_of R)\<lparr>l_match := Some m', l_ids := l_ids (life_of R) @ map fresh [0..<n]\<rparr>"
        using P m(1) life_forfeit [of P m ?w n m' fresh] f by (simp add: Q_def life_fields)
      have "\<not> finalizing (lob Q)"
        using Q life_fields(7) [of Q] life_fields(7) [of R] assms(1) by simp
      then have "life_of (EndMatchByAbandon_run t fresh P) = publish (life_of Q)"
        using P(2) \<open>\<not> isMatchFinished P\<close> by (simp add: EndMatchByAbandon_run_def Let_def life_publish Q_def)
      moreover have "abandon_resolve t fresh M = EndMatchByAbandon_run t fresh P"
        using go nf True by (simp only: abandon_resolve_def Let_def N(2) P_def) simp
      moreover have "life_step (life_of R) (publish ((life_of R)\<lparr>l_match := Some m', l_ids := l_ids (life_of R) @ map fresh [0..<n]\<rparr>))"
      proof (rule life_step.awarded)
        show "\<not> l_closed (life_of R)" "l_match (life_of R) = Some m"
          using assms(1) m M life_fields(2,7) by metis+
        have "phase ?N = phase R"
          using N(1) by (rule phase_life)
        then show "l_phase (life_of R) \<in> {Rps, Ordering, Siding}"
          using go by (auto simp: isBetweenDuels_def life_fields)
        show "forfeit ?w (connections P) m = (length (map fresh [0..<n]), m')"
          using f by simp
      qed (use m dec in \<open>simp_all add: DRAW_def\<close>)
      ultimately show ?thesis
        using Q by simp
    qed
  qed
qed

lemma nf_same: "life_of M = life_of R \<Longrightarrow> finalizing (lob M) = finalizing (lob R)"
  by (metis life_fields(7))

lemma win_outcome:
  assumes "\<not> finalizing (lob R)" and "phase R = DUELING" and "life_inv (life_of R)" and M: "life_of M = life_of R"
  shows "\<exists>m. l_match (life_of R) = Some m \<and> l_open (life_of R) \<and>
    (let m' = duelWinner (toIngamePosition M player) (turn M) (connections M) m
     in life_of (handleWinCondition mins encodable player reason M) =
          (if decided (l_single (life_of R)) m' then publish ((life_of R)\<lparr>l_match := Some m', l_open := False\<rparr>)
           else (life_of R)\<lparr>l_phase := Siding, l_match := Some m', l_open := False\<rparr>))"
proof -
  define w where "w = toIngamePosition M player"
  define D where "D = processDuelEnd player reason w M"
  obtain m where m: "l_match (life_of R) = Some m" and op: "l_open (life_of R)"
    using assms(1-3) by (auto simp: life_inv_def life_fields)
  have room_m: "room_match (lob M) = Some m"
    using m M life_fields(2) by metis
  let ?m = "duelWinner w (turn M) (connections M) m"
  have D: "life_of D = (life_of R)\<lparr>l_match := Some ?m, l_open := False\<rparr>"
    using M room_m by (simp add: D_def life_processDuelEnd)
  have nf: "\<not> finalizing (lob D)"
    using D assms(1) life_fields(7) [of D] life_fields(7) [of R] by simp
  have fin: "isMatchFinished D \<longleftrightarrow> decided (l_single (life_of R)) ?m"
    using decided_iff [of D ?m] life_fields(2,5) [of D] D by simp
  have "duel_open M"
    using op M life_fields(6) by metis
  then have step: "handleWinCondition mins encodable player reason M = determineNextPhase mins encodable w D"
    by (simp add: handleWinCondition_def duel_open_def Let_def w_def D_def)
  have "life_of (determineNextPhase mins encodable w D) =
      (if isMatchFinished D then publish (life_of D) else (life_of D)\<lparr>l_phase := Siding\<rparr>)"
  proof (cases "isMatchFinished D")
    case True
    have "life_of (finalizeWithReplays encodable (mark_over D)) = life_of D"
      by simp
    then have "\<not> finalizing (lob (finalizeWithReplays encodable (mark_over D)))"
      using nf_same nf by blast
    then show ?thesis
      using life_publish True by (simp add: determineNextPhase_def)
  next
    case False
    then show ?thesis
      by (simp add: determineNextPhase_def)
  qed
  then show ?thesis
    using m op D fin step by (simp add: w_def Let_def)
qed

lemma follows_win:
  assumes "\<not> finalizing (lob R)" and "phase R = DUELING" and "life_inv (life_of R)" and "player \<le> 2"
    and M: "life_of M = life_of R"
  shows "follows R (handleWinCondition mins encodable player reason M)"
proof -
  define w where "w = toIngamePosition M player"
  have w: "w \<le> DRAW"
    using assms(4) by (auto simp: w_def toIngamePosition_def DRAW_def)
  have pre: "\<not> l_closed (life_of R)" "l_phase (life_of R) = Dueling"
    using assms(1,2) by (simp_all add: life_fields)
  obtain m where m: "l_match (life_of R) = Some m" "l_open (life_of R)"
    and out: "life_of (handleWinCondition mins encodable player reason M) =
      (let m' = duelWinner w (turn M) (connections M) m
       in if decided (l_single (life_of R)) m' then publish ((life_of R)\<lparr>l_match := Some m', l_open := False\<rparr>)
          else (life_of R)\<lparr>l_phase := Siding, l_match := Some m', l_open := False\<rparr>)"
    using win_outcome [OF assms(1-3) M, of player mins encodable reason] by (auto simp: w_def Let_def)
  show ?thesis
    using life_step.played_out [OF pre m(2,1) w] life_step.played_on [OF pre m(2,1) w] out
    by (simp add: Let_def)
qed

lemma follows_surrender:
  assumes "\<not> finalizing (lob R)" and "phase R = DUELING" and "life_inv (life_of R)"
  shows "follows R (handleSurrender mins encodable c R)"
proof -
  have e: "follows R (executeSurrender mins encodable c M)" if "life_of M = life_of R" for M
    unfolding executeSurrender_def by (rule follows_win [OF assms _ that]) simp
  show ?thesis
    using e [of R] e [of "R\<lparr>pendingSurrenders := []\<rparr>"]
    by (simp add: handleSurrender_def split: option.split)
qed

lemma follows_sided:
  assumes "\<not> finalizing (lob R)" and "phase R = SIDE_DECKING" and "life_of M = life_of R"
  shows "follows R (sided M)"
  using assms life_step.sided [of "life_of R" Rps] life_step.sided [of "life_of R" Ordering]
  by (simp add: sided_def Let_def life_transitions life_fields split: option.split)

lemma follows_side_deck:
  assumes "\<not> finalizing (lob R)" and "phase R = SIDE_DECKING"
  shows "follows R (side_handleUpdateDeck nm ns built validate c R)"
proof -
  have "follows R (accept_side c d R)" for d
    using follows_sided [OF assms] by (simp add: accept_side_def Let_def)
  then show ?thesis
    by (simp add: side_handleUpdateDeck_def split: option.split sum.split)
qed

lemma follows_tick:
  assumes "\<not> finalizing (lob R)"
  shows "follows R (tickPlayerTimeout c fresh R)"
  using follows_resolve [OF assms] by (simp add: tickPlayerTimeout_def Let_def split: option.split)

lemma follows_grace:
  assumes "\<not> finalizing (lob R)"
  shows "follows R (grace_expired position fresh R)"
  using follows_resolve [OF assms] by (simp add: grace_expired_def Let_def split: option.split)

lemma follows_disconnect:
  assumes "\<not> finalizing (lob R)"
  shows "follows R (YGOProDisconnectPolicy_onDisconnect silence i R)"
proof -
  define M where "M = on_lobby (\<lambda>L. L\<lparr>closed_sockets := set_add i (closed_sockets L)\<rparr>) R"
  have M: "life_of M = life_of R"
    by (simp add: M_def)
  note nf = nf_same [OF M] assms
  have fin: "follows R (FinalizeYGOProRoom_run ab M)" for ab
    by (rule follows_finalize [OF assms M])
  have res: "follows R ((revoke_tokens M)\<lparr>lob := L'\<rparr>)" if closed: "closeReservedDuel i (lob M) = (True, L')" for L'
  proof -
    obtain ab where "L' = finalize_room ab (lob M)"
      using lcore_reserved_close [OF closed] by blast
    then have "(revoke_tokens M)\<lparr>lob := L'\<rparr> = FinalizeYGOProRoom_run ab M"
      using nf by (simp add: FinalizeYGOProRoom_run_def on_lobby_def revoke_tokens_def)
    then show ?thesis using fin by simp
  qed
  have left: "life_of (snd (abandon_playerLeft silence c M)) = life_of R" for c
    using M by (simp add: abandon_playerLeft_def Let_def)
  have policy: "YGOProDisconnectPolicy_onDisconnect silence i R =
      (if isMatchmaking (lob M) \<and> phase M = WAITING then FinalizeYGOProRoom_run None M
       else case (if reservedDuel (lob M) \<noteq> None then closeReservedDuel i (lob M) else (False, lob M)) of
          (True, L') \<Rightarrow> if finalizing (lob M) then M else (revoke_tokens M)\<lparr>lob := L'\<rparr>
        | (False, _) \<Rightarrow>
            if hasNoConnectedPlayers (lob M) then FinalizeYGOProRoom_run None M
            else case player_on i (lob M) of
              None \<Rightarrow> (case find (\<lambda>c. sock_id (c_socket c) = i) (spectators (lob M)) of
                         None \<Rightarrow> M | Some c \<Rightarrow> on_lobby (spectatorLeave c) M)
            | Some c \<Rightarrow>
                if noHost (lob M) then FinalizeYGOProRoom_run None M
                else case abandon_playerLeft silence c M of
                  (True, R') \<Rightarrow> R'
                | (False, R') \<Rightarrow> if phase R' = WAITING then on_lobby (playerLeave c) R' else R')"
    unfolding YGOProDisconnectPolicy_onDisconnect_def Let_def M_def by (rule refl)
  have quiet: "follows R (case player_on i (lob M) of
              None \<Rightarrow> (case find (\<lambda>c. sock_id (c_socket c) = i) (spectators (lob M)) of
                         None \<Rightarrow> M | Some c \<Rightarrow> on_lobby (spectatorLeave c) M)
            | Some c \<Rightarrow>
                if noHost (lob M) then FinalizeYGOProRoom_run None M
                else case abandon_playerLeft silence c M of
                  (True, R') \<Rightarrow> R'
                | (False, R') \<Rightarrow> if phase R' = WAITING then on_lobby (playerLeave c) R' else R')"
  proof (cases "player_on i (lob M)")
    case (Some c)
    obtain b R' where a: "abandon_playerLeft silence c M = (b, R')"
      by fastforce
    then have "life_of R' = life_of R"
      using left [of c] by simp
    then show ?thesis
      using Some a fin by (cases b) simp_all
  qed (use M in \<open>simp split: option.split\<close>)
  show ?thesis
  proof (cases "closeReservedDuel i (lob M)")
    case (Pair b L')
    then show ?thesis
      using fin res quiet nf unfolding policy by (cases b) simp_all
  qed
qed

lemma follows_step:
  assumes "room_step R R'" and "\<not> finalizing (lob R)" and "life_inv (life_of R)"
  shows "follows R R'"
  using assms
proof (induction rule: room_step.induct)
  case (lobby R L)
  then show ?case
    by (simp add: life_of_def duel_open_def duel_over_def)
next
  case (timeout R mins encodable team)
  have "getTeamSide R (1 - team) \<le> 2"
    by (auto simp: getTeamSide_def)
  then show ?case
    unfolding finish_by_timeout_def using timeout by (intro follows_win) simp_all
next
  case (engine_failed R)
  have "life_of (setDuelFinished R) = (life_of R)\<lparr>l_phase := Waiting\<rparr>"
    by (simp add: setDuelFinished_def life_transitions)
  then show ?case
    using life_step.broken [of "life_of R"] engine_failed by (simp add: life_fields)
next
  case (surrender_between c R fresh)
  then show ?case
    using follows_resolve [of R R] by (simp add: settleSurrenderBetweenDuels_def)
next
  case (chat R content c)
  then show ?case
    by (simp add: relayChat_def)
next
  case (emote R now data c)
  have "life_of (snd (tryEmote now c R)) = life_of R"
    by (simp add: tryEmote_def)
  then show ?case
    by (cases "tryEmote now c R") (auto simp: relayEmote_def split: bool.split)
next
  case (lobby_timeout R)
  then show ?case
    using follows_finalize [of R R] by (simp add: ReservedDuelLobbyTimeout_expire_def Let_def split: option.split)
next
  case (sends R fs)
  then show ?case
    by (simp add: lcore_def single_reserved_def)
qed (simp_all add: life_start follows_rps follows_turn follows_win follows_surrender follows_side_deck follows_tick
    follows_disconnect follows_grace)

subsection \<open>Reachable rooms\<close>

inductive room_run :: "room \<Rightarrow> bool" where
  fresh: "phase R = WAITING \<Longrightarrow> \<not> finalizing (lob R) \<Longrightarrow> gameOvers R = [] \<Longrightarrow> 1 \<le> room_bestOf (lob R) \<Longrightarrow> room_run R"
| step: "room_run R \<Longrightarrow> \<not> finalizing (lob R) \<Longrightarrow> room_step R R' \<Longrightarrow> room_run R'"

lemma room_run_inv: "room_run R \<Longrightarrow> life_inv (life_of R)"
proof (induction rule: room_run.induct)
  case (fresh R)
  then show ?case
    by (simp add: life_inv_def life_fields)
next
  case (step R R')
  then show ?case
    using follows_step [of R R'] life_step_inv [of "life_of R" "life_of R'"] by metis
qed



subsection \<open>Rock, paper, scissors\<close>

text \<open>1 is scissors, 2 rock and 3 paper.\<close>

definition beats :: "nat \<Rightarrow> nat \<Rightarrow> bool" where
  "beats x y \<longleftrightarrow> (x, y) \<in> {(2, 1), (3, 2), (1, 3)}"

definition hands :: "nat \<Rightarrow> bool" where
  "hands x \<longleftrightarrow> x \<in> {1, 2, 3}"

lemma team_tell [simp]:
  "getTeamPlayers t (lob (tell c f R)) = getTeamPlayers t (lob R)"
  "getTeamPlayers t (lob (tell_all cs f R)) = getTeamPlayers t (lob R)"
proof -
  have "frames L L' \<Longrightarrow> getTeamPlayers t L' = getTeamPlayers t L" for L L'
    by (auto simp: frames_def getTeamPlayers_def)
  then show "getTeamPlayers t (lob (tell c f R)) = getTeamPlayers t (lob R)"
    "getTeamPlayers t (lob (tell_all cs f R)) = getTeamPlayers t (lob R)"
    by (simp_all add: tell_def tell_all_def frames_client frames_fold)
qed

lemma team_hand [simp]: "lob (R\<lparr>handResult := h\<rparr>) = lob R" "lob (R\<lparr>clientWhoChoosesTurn := i\<rparr>) = lob R"
  by simp_all

lemma chooser_transitions [simp]:
  "clientWhoChoosesTurn (choosingOrder R) = clientWhoChoosesTurn R" "phase (choosingOrder R) = CHOOSING_ORDER"
proof -
  have "clientWhoChoosesTurn (fold clearPlayerTimeout is R) = clientWhoChoosesTurn R" for "is" R
    by (induction "is" arbitrary: R) (simp_all add: clearPlayerTimeout_def)
  then show "clientWhoChoosesTurn (choosingOrder R) = clientWhoChoosesTurn R"
    by (simp add: choosingOrder_def enter_phase_def on_lobby_def removeAllListener_def clearAllTimeouts_def)
  show "phase (choosingOrder R) = CHOOSING_ORDER"
    by (simp add: choosingOrder_def enter_phase_def phase_def)
qed

lemma phase_tell [simp]: "phase (tell c f R) = phase R" "phase (tell_all cs f R) = phase R"
  using phase_life life_tell by blast+

definition rps_outcome :: "client \<Rightarrow> client \<Rightarrow> nat \<Rightarrow> nat \<Rightarrow> room \<Rightarrow> bool" where
  "rps_outcome a b x y R \<longleftrightarrow>
     (if x = y then phase R = RPS \<and> handResult R = (0, 0)
      else phase R = CHOOSING_ORDER \<and> clientWhoChoosesTurn R = Some (c_id (if beats x y then a else b)))"

lemma second_choice:
  assumes "getTeamPlayers 0 (lob R) = a # as" and "getTeamPlayers 1 (lob R) = b # bs"
    and "c_captain c" and "c_team c \<le> 1" and "hands x" and "hands y"
    and "phase R = RPS" and "(if c_team c = 0 then (x, snd (handResult R)) else (fst (handResult R), y)) = (x, y)"
  shows "rps_outcome a b x y (handleRPSChoice (if c_team c = 0 then x else y) c R)"
proof -
  define R1 where "R1 = R\<lparr>handResult := (x, y)\<rparr>"
  define R2 where "R2 = tell_all (getTeamPlayers 1 (lob R1)) (HandResult y x)
    (tell_all (getTeamPlayers 0 (lob R1) @ spectators (lob R1)) (HandResult x y) R1)"
  have R2: "phase R2 = RPS" "getTeamPlayers 0 (lob R2) = a # as" "getTeamPlayers 1 (lob R2) = b # bs"
    using assms(1,2,7) by (simp_all add: R2_def R1_def phase_def [of "R\<lparr>handResult := (x, y)\<rparr>"] phase_def [of R])
  have step: "handleRPSChoice (if c_team c = 0 then x else y) c R =
      (if x = y then on_lobby toRPS (R2\<lparr>handResult := (0, 0)\<rparr>)
       else case getTeamPlayers (getRPSWinner (x, y)) (lob R2) of [] \<Rightarrow> R2
         | w # _ \<Rightarrow> choosingOrder ((tell w SelectTp (R2\<lparr>handResult := (0, 0)\<rparr>))\<lparr>clientWhoChoosesTurn := Some (c_id w)\<rparr>))"
  proof -
    have h: "(if c_team c = 0 then (if c_team c = 0 then x else y, snd (handResult R))
        else (fst (handResult R), if c_team c = 0 then x else y)) = (x, y)"
      using assms(8) by (simp split: if_splits)
    have "x \<noteq> 0" "y \<noteq> 0"
      using assms(5,6) by (auto simp: hands_def)
    then show ?thesis
      unfolding handleRPSChoice_def Let_def h R2_def R1_def fst_conv snd_conv using assms(3,4) by simp
  qed
  show ?thesis
  proof (cases "x = y")
    case True
    have "phase (on_lobby toRPS (R2\<lparr>handResult := (0, 0)\<rparr>)) = RPS"
      using R2(1) phase_life [of "on_lobby toRPS (R2\<lparr>handResult := (0, 0)\<rparr>)" R2] by simp
    moreover have "handResult (on_lobby toRPS (R2\<lparr>handResult := (0, 0)\<rparr>)) = (0, 0)"
      by (simp add: on_lobby_def)
    ultimately show ?thesis
      unfolding step rps_outcome_def using True by simp
  next
    case False
    have "getRPSWinner (x, y) = (if beats x y then 0 else 1)"
      using assms(5,6) False by (auto simp: getRPSWinner_def beats_def hands_def)
    then show ?thesis
      unfolding step rps_outcome_def using False R2(2,3) by simp
  qed
qed

text \<open>When the captains of both teams have shown scissors, rock or paper, in whichever order, equal hands
  start the choice over; different hands move the room on to the turn choice, made by the captain whose hand
  beats the other.\<close>

theorem rps_is_won_by_the_better_hand:
  assumes "phase R = RPS" and "handResult R = (0, 0)" and "getTeamPlayers 0 (lob R) = a # as" and "getTeamPlayers 1 (lob R) = b # bs"
    and "c_captain a" and "c_captain b" and "hands x" and "hands y"
    and "R' = (if first then handleRPSChoice y b (handleRPSChoice x a R) else handleRPSChoice x a (handleRPSChoice y b R))"
  shows "if x = y then phase R' = RPS \<and> handResult R' = (0, 0)
    else phase R' = CHOOSING_ORDER \<and> clientWhoChoosesTurn R' = Some (c_id (if beats x y then a else b))"
proof -
  have "a \<in> set (getTeamPlayers 0 (lob R))" "b \<in> set (getTeamPlayers 1 (lob R))"
    using assms(3,4) by simp_all
  then have t: "c_team a = 0" "c_team b = 1"
    by (auto simp: getTeamPlayers_def)
  have one: "handleRPSChoice x a R = R\<lparr>handResult := (x, 0)\<rparr>" "handleRPSChoice y b R = R\<lparr>handResult := (0, y)\<rparr>"
    using assms(2,5,6) t by (simp_all add: handleRPSChoice_def Let_def)
  have p: "phase (R\<lparr>handResult := h\<rparr>) = RPS" for h
    using assms(1) by (simp add: phase_def)
  note second = second_choice [of _ a as b bs _ x y]
  have "R' = (if first then handleRPSChoice y b (R\<lparr>handResult := (x, 0)\<rparr>) else handleRPSChoice x a (R\<lparr>handResult := (0, y)\<rparr>))"
    unfolding assms(9) one by simp
  moreover have "rps_outcome a b x y (handleRPSChoice y b (R\<lparr>handResult := (x, 0)\<rparr>))"
    using second [of "R\<lparr>handResult := (x, 0)\<rparr>" b] assms(3-8) t p by simp
  moreover have "rps_outcome a b x y (handleRPSChoice x a (R\<lparr>handResult := (0, y)\<rparr>))"
    using second [of "R\<lparr>handResult := (0, y)\<rparr>" a] assms(3-8) t p by simp
  ultimately have "rps_outcome a b x y R'"
    by (cases first) simp_all
  then show ?thesis
    unfolding rps_outcome_def .
qed

text \<open>The hand is not checked: a number that is none of the three wins for team 0 whatever team 1 shows.\<close>

lemma illegal_hand_wins:
  assumes "h \<notin> {0, 1, 2, 3}"
  shows "getRPSWinner (h, y) = 0"
  using assms by (auto simp: getRPSWinner_def)

text \<open>The turn choice is taken from any client of the room, spectators included.\<close>

lemma anyone_may_choose_the_turn:
  "phase (handleTurnChoice first c uuid lp n R) = DUELING"
  by (simp add: handleTurnChoice_def dueling_def enter_phase_def phase_def createDuel_def)

subsection \<open>Witnesses\<close>

text \<open>The room of two ready players of theory \<open>LobbyProps\<close>, taken through a best of \<open>n\<close>.\<close>

definition new_room :: "lobby \<Rightarrow> room" where
  "new_room L = \<lparr>lob = L, handResult = (0, 0), clientWhoChoosesTurn = None, turnChoiceRequiresRps = False,
     isPositionSwapped = False, currentDuel = None, duelRecords = [], core = False, pendingSurrenders = [],
     playerTimers = [], playerRemainMinutes = [], graceTimers = [], tokenIndex = [], nextToken = 0,
     reconnectingClients = [], lastEmoteAt = [], gameOvers = []\<rparr>"

definition sample_player :: "nat \<Rightarrow> client" where
  "sample_player k = (buildPlayer (plain_socket (if k = 0 then ''s1'' else ''s2'') None) (if k = 0 then ''Ann'' else ''Bob'') None
     (k, k) empty_lobby)\<lparr>c_id := k, c_host := (k = 0), c_ready := True, c_deck := Some some_deck\<rparr>"

definition sample_captain :: "nat \<Rightarrow> client" where
  "sample_captain k = captain (sample_player k)"

definition waiting_room :: "nat \<Rightarrow> room" where
  "waiting_room n = new_room (empty_lobby\<lparr>room_bestOf := n, players := map sample_player [0, 1], created := 2\<rparr>)"

definition rps_room :: "nat \<Rightarrow> room" where
  "rps_room n = snd (start_room (waiting_room n))"

definition hand_room :: "nat \<Rightarrow> room" where
  "hand_room n = handleRPSChoice 2 (sample_captain 0) (rps_room n)"

definition order_room :: "nat \<Rightarrow> room" where
  "order_room n = handleRPSChoice 1 (sample_captain 1) (hand_room n)"

definition duel_room :: "nat \<Rightarrow> room" where
  "duel_room n = handleTurnChoice True (sample_captain 0) ''d1'' 8000 None (order_room n)"

definition won_room :: "nat \<Rightarrow> room" where
  "won_room n = handleWinCondition 3 (\<lambda>_. False) 0 1 (duel_room n)"

lemma sample_clients:
  "players (lob (rps_room n)) = map sample_captain [0, 1]" "players (lob (hand_room n)) = map sample_captain [0, 1]"
  "players (lob (order_room n)) = map sample_captain [0, 1]" "players (lob (duel_room n)) = map sample_captain [0, 1]"
  if "n = 1 \<or> n = 3"
proof -
  have "players (lob (rps_room 1)) = map sample_captain [0, 1]" "players (lob (hand_room 1)) = map sample_captain [0, 1]"
    "players (lob (order_room 1)) = map sample_captain [0, 1]" "players (lob (duel_room 1)) = map sample_captain [0, 1]"
    "players (lob (rps_room 3)) = map sample_captain [0, 1]" "players (lob (hand_room 3)) = map sample_captain [0, 1]"
    "players (lob (order_room 3)) = map sample_captain [0, 1]" "players (lob (duel_room 3)) = map sample_captain [0, 1]"
    by code_simp+
  then show "players (lob (rps_room n)) = map sample_captain [0, 1]" "players (lob (hand_room n)) = map sample_captain [0, 1]"
    "players (lob (order_room n)) = map sample_captain [0, 1]" "players (lob (duel_room n)) = map sample_captain [0, 1]"
    using that by auto
qed

lemma sample_phases:
  "phase (rps_room n) = RPS" "phase (hand_room n) = RPS" "phase (order_room n) = CHOOSING_ORDER" "phase (duel_room n) = DUELING"
  "\<not> finalizing (lob (rps_room n))" "\<not> finalizing (lob (hand_room n))" "\<not> finalizing (lob (order_room n))"
  "\<not> finalizing (lob (duel_room n))"
  if "n = 1 \<or> n = 3"
proof -
  let ?p = "\<lambda>R. (phase R, finalizing (lob R))"
  have "map ?p [rps_room 1, hand_room 1, order_room 1, duel_room 1] = [(RPS, False), (RPS, False), (CHOOSING_ORDER, False), (DUELING, False)]"
    "map ?p [rps_room 3, hand_room 3, order_room 3, duel_room 3] = [(RPS, False), (RPS, False), (CHOOSING_ORDER, False), (DUELING, False)]"
    by code_simp+
  then show "phase (rps_room n) = RPS" "phase (hand_room n) = RPS" "phase (order_room n) = CHOOSING_ORDER" "phase (duel_room n) = DUELING"
    "\<not> finalizing (lob (rps_room n))" "\<not> finalizing (lob (hand_room n))" "\<not> finalizing (lob (order_room n))"
    "\<not> finalizing (lob (duel_room n))"
    using that by auto
qed

lemma sample_seated: "players L = map sample_captain [0, 1] \<Longrightarrow> k \<le> 1 \<Longrightarrow> sample_captain k \<in> set (clients L)"
  by (cases k) (simp_all add: clients_def)

lemma sample_runs:
  assumes "n = 1 \<or> n = 3"
  shows "room_run (rps_room n)" "room_run (hand_room n)" "room_run (order_room n)" "room_run (duel_room n)" "room_run (won_room n)"
proof -
  have w: "phase (waiting_room n) = WAITING" "\<not> finalizing (lob (waiting_room n))" "gameOvers (waiting_room n) = []"
    "1 \<le> room_bestOf (lob (waiting_room n))"
    using assms by (auto simp: waiting_room_def new_room_def phase_def empty_lobby_def)
  then have "room_run (waiting_room n)"
    by (rule room_run.fresh)
  then show r: "room_run (rps_room n)"
    unfolding rps_room_def using w(1,2) by (intro room_run.step [OF _ _ room_step.start])
  show h: "room_run (hand_room n)"
    unfolding hand_room_def
    by (rule room_run.step [OF r sample_phases(5) [OF assms] room_step.rps_choice [OF sample_phases(1) [OF assms]
      sample_seated [OF sample_clients(1) [OF assms]]]]) simp
  show o: "room_run (order_room n)"
    unfolding order_room_def
    by (rule room_run.step [OF h sample_phases(6) [OF assms] room_step.rps_choice [OF sample_phases(2) [OF assms]
      sample_seated [OF sample_clients(2) [OF assms]]]]) simp
  show d: "room_run (duel_room n)"
    unfolding duel_room_def
    by (rule room_run.step [OF o sample_phases(7) [OF assms] room_step.turn_choice [OF sample_phases(3) [OF assms]
      sample_seated [OF sample_clients(3) [OF assms]]]]) simp
  show "room_run (won_room n)"
    unfolding won_room_def
    by (rule room_run.step [OF d sample_phases(8) [OF assms] room_step.won [OF sample_phases(4) [OF assms]]]) simp
qed



lemma rps_is_won_by_the_better_hand_witness:
  "phase (order_room 3) = CHOOSING_ORDER \<and> clientWhoChoosesTurn (order_room 3) = Some 0"
proof -
  let ?R = "rps_room 3" and ?a = "sample_captain 0" and ?b = "sample_captain 1"
  have t: "handResult ?R = (0, 0)" "getTeamPlayers 0 (lob ?R) = ?a # []" "getTeamPlayers 1 (lob ?R) = ?b # []"
    "c_captain ?a" "c_captain ?b" "hands 2" "hands 1" "beats 2 1" "c_id ?a = 0"
    by code_simp+
  have "order_room 3 = (if True then handleRPSChoice 1 ?b (handleRPSChoice 2 ?a ?R) else handleRPSChoice 2 ?a (handleRPSChoice 1 ?b ?R))"
    by (simp add: order_room_def hand_room_def)
  from rps_is_won_by_the_better_hand [OF _ t(1-7) this] show ?thesis
    using sample_phases(1) [of 3] t(8,9) by simp
qed

end
