(* ===== verification/AfterDuel.thy ===== *)
theory AfterDuel
  imports PhaseProps
begin

text \<open>
  What comes after a duel and who may come back: the loser's turn choice through side decking, a match whose
  player does not return within the grace window, and the seats a returning player can take by name.
\<close>

subsection \<open>Who chooses next\<close>

text \<open>The part of a room side decking has to keep for the choice.\<close>

type_synonym seat_ids = "duel_state \<times> nat \<times> nat \<times> (nat \<times> nat \<times> nat) list"

definition seat_ids :: "lobby \<Rightarrow> seat_ids" where
  "seat_ids L = (duelState L, seats0 L, seats1 L, map (\<lambda>c. (c_id c, c_position c, c_team c)) (players L))"

type_synonym choice = "nat option \<times> bool \<times> seat_ids"

definition choice_of :: "room \<Rightarrow> choice" where
  "choice_of R = (clientWhoChoosesTurn R, turnChoiceRequiresRps R, seat_ids (lob R))"

named_theorems keeps_seats
named_theorems keeps_choice

lemma seat_ids_frames: "frames L L' \<Longrightarrow> seat_ids L' = seat_ids L"
  by (auto simp: frames_def seat_ids_def)

lemmas seat_ids_sends [keeps_seats] =
  frames_socket [THEN seat_ids_frames] frames_client [THEN seat_ids_frames] frames_broadcast [THEN seat_ids_frames]
  frames_count [THEN seat_ids_frames]

lemma seat_ids_fold: "(\<And>x M. x \<in> set xs \<Longrightarrow> seat_ids (g x M) = seat_ids M) \<Longrightarrow> seat_ids (fold g xs L) = seat_ids L"
  by (induction xs arbitrary: L) simp_all

lemma seat_ids_lists [keeps_seats]:
  "seat_ids (L\<lparr>closed_sockets := k\<rparr>) = seat_ids L" "seat_ids (L\<lparr>spectators := ss\<rparr>) = seat_ids L"
  "seat_ids (L\<lparr>spectators := ss, created := n\<rparr>) = seat_ids L" "seat_ids (L\<lparr>reservedDuel := s\<rparr>) = seat_ids L"
  "seat_ids (L\<lparr>finalizing := b\<rparr>) = seat_ids L" "seat_ids (L\<lparr>room_match := m, duelIds := is\<rparr>) = seat_ids L"
  "seat_ids (L\<lparr>room_match := m\<rparr>) = seat_ids L"
  "seat_ids (close_socket sk L) = seat_ids L" "seat_ids (removeSpectatorUnsafe c L) = seat_ids L"
  "seat_ids (L\<lparr>players := map not_ready (players L)\<rparr>) = seat_ids L"
  by (simp_all add: seat_ids_def close_socket_def removeSpectatorUnsafe_def not_ready_def o_def)

lemma seat_ids_change:
  "(\<And>c. c_id (f c) = c_id c \<and> c_position (f c) = c_position c \<and> c_team (f c) = c_team c) \<Longrightarrow>
    seat_ids (change_client i f L) = seat_ids L"
  by (simp add: seat_ids_def change_client_def Let_def)

lemma seat_ids_changes [keeps_seats]:
  "seat_ids (change_client i captain L) = seat_ids L" "seat_ids (change_client i not_ready L) = seat_ids L"
  "seat_ids (change_client i (\<lambda>x. x\<lparr>c_socket := sk\<rparr>) L) = seat_ids L"
  "seat_ids (change_client i (\<lambda>x. x\<lparr>c_ready := b\<rparr>) L) = seat_ids L"
  "seat_ids (change_client i (\<lambda>x. x\<lparr>c_ready := b, c_deck := d\<rparr>) L) = seat_ids L"
  by (rule seat_ids_change; simp add: captain_def not_ready_def)+

lemma seat_ids_operations [keeps_seats]:
  "seat_ids (toRPS L) = seat_ids L" "seat_ids (setDecksToPlayerUnsafe i d L) = seat_ids L"
  "seat_ids (notReadyUnsafe c L) = seat_ids L" "seat_ids (deck_refused e c L) = seat_ids L"
  "seat_ids (spectatorLeave c L) = seat_ids L" "seat_ids (addSpectatorUnsafe c L) = seat_ids L"
  "seat_ids (rejectReservedJoin sk L) = seat_ids L"
  using addSpectator_effect [THEN seat_ids_frames, of c L]
  by (simp_all add: keeps_seats toRPS_def name_captains_def setDecksToPlayerUnsafe_def notReadyUnsafe_def deck_refused_def
      spectatorLeave_def rejectReservedJoin_def split: list.split option.split)

lemma seat_ids_finalize [keeps_seats]: "seat_ids (finalize_room ab L) = seat_ids L"
proof -
  have "seat_ids (fold (\<lambda>c M. if is_closed M (c_socket c) then M
      else close_socket (c_socket c) (if duelState L \<noteq> WAITING then send_client c DuelEnd M else M)) cs N) = seat_ids N" for cs N
    by (rule seat_ids_fold) (simp add: keeps_seats)
  then show ?thesis
    by (simp add: finalize_room_def Let_def keeps_seats)
qed

lemma choice_fold: "(\<And>x M. x \<in> set xs \<Longrightarrow> choice_of (g x M) = choice_of M) \<Longrightarrow> choice_of (fold g xs R) = choice_of R"
  by (induction xs arbitrary: R) simp_all

lemma choice_on_lobby: "seat_ids (f (lob R)) = seat_ids (lob R) \<Longrightarrow> choice_of (on_lobby f R) = choice_of R"
  by (simp add: choice_of_def on_lobby_def)

lemma choice_tells [keeps_choice]: "choice_of (tell c f R) = choice_of R" "choice_of (tell_all cs f R) = choice_of R"
  unfolding tell_def tell_all_def by (rule choice_on_lobby; simp add: keeps_seats seat_ids_fold)+

lemma choice_fields [keeps_choice]:
  "choice_of (R\<lparr>graceTimers := gt\<rparr>) = choice_of R" "choice_of (R\<lparr>playerTimers := pt, playerRemainMinutes := pm\<rparr>) = choice_of R"
  "choice_of (R\<lparr>playerRemainMinutes := pm\<rparr>) = choice_of R" "choice_of (R\<lparr>playerTimers := pt\<rparr>) = choice_of R"
  "choice_of (R\<lparr>tokenIndex := ti\<rparr>) = choice_of R" "choice_of (R\<lparr>tokenIndex := ti, nextToken := k\<rparr>) = choice_of R"
  "choice_of (R\<lparr>reconnectingClients := ns\<rparr>) = choice_of R" "choice_of (R\<lparr>lastEmoteAt := le\<rparr>) = choice_of R"
  "choice_of (R\<lparr>gameOvers := es\<rparr>) = choice_of R" "choice_of (R\<lparr>core := b\<rparr>) = choice_of R"
  "choice_of (R\<lparr>duelRecords := rs\<rparr>) = choice_of R" "choice_of (R\<lparr>currentDuel := du\<rparr>) = choice_of R"
  by (simp_all add: choice_of_def)

lemma choice_small [keeps_choice]:
  "choice_of (clearPlayerTimeout i R) = choice_of R" "choice_of (clearAllTimeouts R) = choice_of R"
  "choice_of (revoke_tokens R) = choice_of R" "choice_of (token_resend c R) = choice_of R"
  "choice_of (clear_reconnecting c R) = choice_of R" "choice_of (publishGameOver R) = choice_of R"
  "choice_of (matchForfeit w fresh R) = choice_of R" "choice_of (mark_over R) = choice_of R"
  "choice_of (removeAllListener R) = choice_of R"
proof -
  show t: "choice_of (clearPlayerTimeout i R) = choice_of R" for i R
    by (simp add: clearPlayerTimeout_def keeps_choice)
  show a: "choice_of (clearAllTimeouts R) = choice_of R"
    unfolding clearAllTimeouts_def by (rule choice_fold) (rule t)
  show "choice_of (removeAllListener R) = choice_of R"
    by (simp add: removeAllListener_def a)
  show "choice_of (revoke_tokens R) = choice_of R" "choice_of (token_resend c R) = choice_of R"
    "choice_of (clear_reconnecting c R) = choice_of R" "choice_of (publishGameOver R) = choice_of R"
    by (simp_all add: keeps_choice revoke_tokens_def token_resend_def token_issue_def token_register_def
        clear_reconnecting_def publishGameOver_def split: option.split)
  show "choice_of (matchForfeit w fresh R) = choice_of R" "choice_of (mark_over R) = choice_of R"
    by (auto simp: keeps_seats matchForfeit_def mark_over_def choice_on_lobby split: option.split prod.split)
qed

lemma choice_finalize [keeps_choice]: "choice_of (FinalizeYGOProRoom_run ab R) = choice_of R"
  by (simp add: FinalizeYGOProRoom_run_def choice_on_lobby keeps_seats keeps_choice)

lemma choice_abandon [keeps_choice]:
  "choice_of (abandon_resolve t fresh R) = choice_of R" "choice_of (grace_expired p fresh R) = choice_of R"
  "choice_of (settleSurrenderBetweenDuels c fresh R) = choice_of R" "choice_of (tickPlayerTimeout c fresh R) = choice_of R"
  "choice_of (snd (abandon_playerLeft silence c R)) = choice_of R"
proof -
  show a: "choice_of (abandon_resolve t fresh R) = choice_of R" for t fresh R
    by (simp add: abandon_resolve_def EndMatchByAbandon_run_def Let_def keeps_choice)
  then show "choice_of (settleSurrenderBetweenDuels c fresh R) = choice_of R"
    by (simp add: settleSurrenderBetweenDuels_def)
  show "choice_of (grace_expired p fresh R) = choice_of R"
    by (simp add: grace_expired_def Let_def a keeps_choice split: option.split)
  show "choice_of (tickPlayerTimeout c fresh R) = choice_of R"
    by (simp add: tickPlayerTimeout_def Let_def a keeps_choice split: option.split)
  show "choice_of (snd (abandon_playerLeft silence c R)) = choice_of R"
    by (simp add: abandon_playerLeft_def Let_def keeps_choice)
qed

lemma choice_returns [keeps_choice]:
  "choice_of (room_reconnect c sk R) = choice_of R" "choice_of (resync c R) = choice_of R"
  "choice_of (reconnect_by_name c sk R) = choice_of R" "choice_of (handleExpressReconnect token sk R) = choice_of R"
  "choice_of (mid_handleJoin identity sk n R) = choice_of R"
proof -
  have d: "choice_of (deck_counts c R) = choice_of R" for c R
    by (auto simp: deck_counts_def sendDeckCountMessage_def Let_def choice_of_def keeps_seats split: option.split list.splits)
  show r: "choice_of (room_reconnect c sk R) = choice_of R" for c sk R
    by (simp add: room_reconnect_def Let_def keeps_choice choice_fold choice_on_lobby keeps_seats)
  show s: "choice_of (resync c R) = choice_of R" for c R
    by (simp add: resync_defs Let_def d keeps_choice split: duel_state.split)
  show n: "choice_of (reconnect_by_name c sk R) = choice_of R" for c sk R
    by (simp add: reconnect_by_name_def Let_def r s keeps_choice)
  show "choice_of (handleExpressReconnect token sk R) = choice_of R"
    by (simp add: handleExpressReconnect_def resyncBoard_def Let_def r s keeps_choice choice_on_lobby keeps_seats split: option.split)
  have a: "choice_of (admitAsSpectator sk n R) = choice_of R" for sk n R
    by (simp add: spectator_defs Let_def d keeps_choice choice_on_lobby keeps_seats split: duel_state.split)
  show "choice_of (mid_handleJoin identity sk n R) = choice_of R"
    by (simp add: mid_handleJoin_def mid_gate_def mid_join_def a n choice_on_lobby keeps_seats split: option.split)
qed

lemma choice_talk [keeps_choice]:
  "choice_of (relayChat content c R) = choice_of R" "choice_of (relayEmote now data c R) = choice_of R"
  "choice_of (ReservedDuelLobbyTimeout_expire R) = choice_of R"
  by (simp_all add: relayChat_def relayEmote_def tryEmote_def ReservedDuelLobbyTimeout_expire_def Let_def keeps_choice
      split: option.split)

lemma phase_choice: "choice_of R' = choice_of R \<Longrightarrow> phase R' = phase R"
  by (simp add: choice_of_def seat_ids_def phase_def)

lemma choice_disconnect:
  assumes "phase R \<noteq> WAITING"
  shows "choice_of (YGOProDisconnectPolicy_onDisconnect silence i R) = choice_of R"
proof -
  define M where "M = on_lobby (\<lambda>L. L\<lparr>closed_sockets := set_add i (closed_sockets L)\<rparr>) R"
  have M: "choice_of M = choice_of R" "phase M = phase R"
    by (simp_all add: M_def choice_on_lobby keeps_seats phase_def)
  have closed: "choice_of ((revoke_tokens M)\<lparr>lob := L'\<rparr>) = choice_of R" if "closeReservedDuel i (lob M) = (b, L')" for b L'
  proof -
    have "seat_ids L' = seat_ids (lob M)"
      using lcore_reserved_close [OF that] keeps_seats by metis
    then show ?thesis
      using M by (simp add: choice_of_def revoke_tokens_def)
  qed
  have left: "choice_of R' = choice_of R \<and> phase R' \<noteq> WAITING" if "abandon_playerLeft silence c M = (b, R')" for c b R'
  proof -
    have "choice_of R' = choice_of M"
      using that choice_abandon(5) [of silence c M] by simp
    then show ?thesis
      using M assms phase_choice by metis
  qed
  show ?thesis
    unfolding YGOProDisconnectPolicy_onDisconnect_def Let_def M_def [symmetric]
    using M assms left closed
    by (auto simp: keeps_choice keeps_seats choice_on_lobby split: option.split prod.split bool.split)
qed

subsection \<open>Steps of side decking\<close>

text \<open>Every step of a room in side decking keeps the choice; a step out of it is \<open>sided\<close>.\<close>

lemma side_step_choice:
  assumes "room_step R R'" and "phase R = SIDE_DECKING"
  shows "choice_of R' = choice_of R \<or> (\<exists>M. choice_of M = choice_of R \<and> R' = sided M)"
  using assms
proof (induction rule: room_step.induct)
  case (side_deck R c nm ns built validate)
  have a: "accept_side c d R = sided M \<or> choice_of (accept_side c d R) = choice_of R" if "M = tell c DuelStart (clearPlayerTimeout (c_position c)
      (on_lobby (change_client (c_id c) (\<lambda>x. x\<lparr>c_ready := True\<rparr>)) (on_lobby (setDecksToPlayerUnsafe (c_position c) d) R)))" for d M
    using that by (simp add: accept_side_def Let_def keeps_choice choice_on_lobby keeps_seats)
  have m: "choice_of (tell c DuelStart (clearPlayerTimeout (c_position c)
      (on_lobby (change_client (c_id c) (\<lambda>x. x\<lparr>c_ready := True\<rparr>)) (on_lobby (setDecksToPlayerUnsafe (c_position c) d) R)))) = choice_of R" for d
    by (simp add: keeps_choice choice_on_lobby keeps_seats)
  have acc: "choice_of (accept_side c d R) = choice_of R"
    if "\<forall>M. choice_of M = choice_of R \<longrightarrow> accept_side c d R \<noteq> sided M" for d
    using a m that by blast
  show ?case
    by (auto simp: side_handleUpdateDeck_def keeps_choice choice_on_lobby keeps_seats split: option.split sum.split intro: acc)
next
  case (sends R fs)
  then show ?case
    by (simp add: choice_on_lobby seat_ids_def)
next
  case (engine_gone R)
  then show ?case
    by (simp add: choice_of_def phase_def)
qed (simp_all add: keeps_choice choice_disconnect)

inductive side_run :: "room \<Rightarrow> room \<Rightarrow> bool" where
  here: "phase R = SIDE_DECKING \<Longrightarrow> side_run R R"
| step: "side_run R M \<Longrightarrow> room_step M N \<Longrightarrow> phase N = SIDE_DECKING \<Longrightarrow> side_run R N"

lemma choice_fields_of:
  assumes "choice_of N = choice_of R"
  shows "clientWhoChoosesTurn N = clientWhoChoosesTurn R" "turnChoiceRequiresRps N = turnChoiceRequiresRps R"
    "map (\<lambda>c. (c_id c, c_position c, c_team c)) (players (lob N)) = map (\<lambda>c. (c_id c, c_position c, c_team c)) (players (lob R))"
  using assms by (simp_all add: choice_of_def seat_ids_def)

lemma sided_outcome:
  shows "turnChoiceRequiresRps M \<Longrightarrow> phase (sided M) = RPS"
    and "\<not> turnChoiceRequiresRps M \<Longrightarrow> clientWhoChoosesTurn M = Some i \<Longrightarrow> i \<in> c_id ` set (players (lob M)) \<Longrightarrow>
      phase (sided M) = CHOOSING_ORDER \<and> clientWhoChoosesTurn (sided M) = Some i"
    and "phase (sided M) \<noteq> SIDE_DECKING"
proof -
  note all = choice_fields_of [OF choice_small(2) [of M]]
  have r: "phase (rps N) = RPS" for N
    by (simp add: rps_def enter_phase_def phase_def on_lobby_def)
  show "turnChoiceRequiresRps M \<Longrightarrow> phase (sided M) = RPS"
    using all by (simp add: sided_def r)
  show "phase (sided M) \<noteq> SIDE_DECKING"
    by (simp add: sided_def Let_def r split: option.split)
  assume a: "\<not> turnChoiceRequiresRps M" "clientWhoChoosesTurn M = Some i" "i \<in> c_id ` set (players (lob M))"
  have "c_id ` set (players (lob (clearAllTimeouts M))) = c_id ` set (players (lob M))"
    using arg_cong [OF all(3), of "\<lambda>ps. fst ` set ps"] by (simp add: image_image)
  then have "i \<in> c_id ` set (clients (lob (clearAllTimeouts M)))"
    using a(3) by (auto simp: clients_def)
  then obtain c where c: "find (\<lambda>c. c_id c = i) (clients (lob (clearAllTimeouts M))) = Some c"
    by (cases "find (\<lambda>c. c_id c = i) (clients (lob (clearAllTimeouts M)))") (auto simp: find_None_iff)
  have t: "clientWhoChoosesTurn (tell c SelectTp (clearAllTimeouts M)) = Some i"
    using choice_fields_of(1) [OF choice_tells(1), of c SelectTp "clearAllTimeouts M"] all(1) a(2) by simp
  show "phase (sided M) = CHOOSING_ORDER \<and> clientWhoChoosesTurn (sided M) = Some i"
  proof -
    have "(if turnChoiceRequiresRps (clearAllTimeouts M) then None else case clientWhoChoosesTurn (clearAllTimeouts M) of None \<Rightarrow> None
        | Some i \<Rightarrow> find (\<lambda>c. c_id c = i) (clients (lob (clearAllTimeouts M)))) = Some c"
      unfolding all(1,2) a(2) option.case(2) c using a(1) by (rule if_not_P)
    then have "sided M = choosingOrder (tell c SelectTp (clearAllTimeouts M))"
      by (simp only: sided_def Let_def option.case(2))
    then show ?thesis
      using t by simp
  qed
qed

lemma side_run_choice: "side_run R M \<Longrightarrow> choice_of M = choice_of R \<and> phase M = SIDE_DECKING"
proof (induction rule: side_run.induct)
  case (step R M N)
  then show ?case
    using side_step_choice [of M N] sided_outcome(3) by metis
qed simp_all

lemma find_unique: "x \<in> set xs \<Longrightarrow> P x \<Longrightarrow> (\<And>y. y \<in> set xs \<Longrightarrow> P y \<Longrightarrow> y = x) \<Longrightarrow> find P xs = Some x"
proof (cases "find P xs")
  case (Some y)
  assume "\<And>y. y \<in> set xs \<Longrightarrow> P y \<Longrightarrow> y = x"
  moreover have "y \<in> set xs" "P y"
    using Some by (auto simp: find_Some_iff)
  ultimately show ?thesis
    using Some by simp
next
  case None
  assume "x \<in> set xs" "P x"
  then show ?thesis
    using None unfolding find_None_iff by blast
qed

text \<open>The first seat of the losing team.\<close>

definition first_seat :: "nat \<Rightarrow> lobby \<Rightarrow> nat" where
  "first_seat team L = (if team = 0 then 0 else seats0 L)"

lemma first_multiple: "n \<le> p \<Longrightarrow> p < 2 * n \<Longrightarrow> p mod n = 0 \<Longrightarrow> p = n" for p n :: nat
proof -
  assume a: "n \<le> p" "p < 2 * n" "p mod n = 0"
  have "p mod n = (p - n) mod n"
    by (rule le_mod_geq [OF a(1)])
  moreover have "(p - n) mod n = p - n"
    using a by (intro mod_less) simp
  ultimately show "p = n"
    using a by simp
qed

lemma loser_assigned:
  assumes "seats_ok (seats0 L) (seats1 L) (seating L)" and "seats0 L = seats1 L" and "lob R = L" and "w \<le> 1"
    and "c \<in> set (players L)" and "c_team c = 1 - w" and "c_position c = first_seat (1 - w) L"
  shows "\<not> turnChoiceRequiresRps (assignSideDeckChoice w R) \<and> clientWhoChoosesTurn (assignSideDeckChoice w R) = Some (c_id c)"
proof -
  let ?P = "\<lambda>x. c_position x mod (if w = 0 then seats1 L else seats0 L) = 0 \<and> c_team x = (if w = 0 then 1 else 0)"
  have seat: "seat_of_team (seats0 L) (seats1 L) (c_position x, c_team x)" if "x \<in> set (players L)" for x
    using assms(1) that by (force simp: seats_ok_def seating_def)
  have w: "w = 0 \<or> w = 1"
    using assms(4) by auto
  have P: "?P c"
    using w assms(2,6,7) by (auto simp: first_seat_def)
  have uniq: "x = c" if "x \<in> set (players L)" "?P x" for x
  proof -
    have "c_position x = c_position c"
    proof (cases "w = 0")
      case True
      then have "seats0 L \<le> c_position x" "c_position x < 2 * seats0 L" "c_position x mod seats0 L = 0"
        using seat [OF that(1)] that(2) assms(2) by (auto simp: seat_of_team_def)
      then have "c_position x = seats0 L"
        by (rule first_multiple)
      then show ?thesis
        using True assms(7) by (simp add: first_seat_def)
    next
      case False
      then have "w = 1"
        using w by simp
      then have "c_position x < seats0 L" "c_position x mod seats0 L = 0"
        using seat [OF that(1)] that(2) by (simp_all add: seat_of_team_def)
      then show ?thesis
        using \<open>w = 1\<close> assms(7) by (simp add: first_seat_def)
    qed
    moreover have "inj_on c_position (set (players L))"
      using assms(1) by (simp add: seats_ok_def seating_def o_def distinct_map)
    ultimately show "x = c"
      using inj_onD [OF _ _ that(1) assms(5)] by blast
  qed
  have f: "find ?P (players L) = Some c"
    by (rule find_unique [of c "players L" ?P, OF assms(5) P uniq])
  have "assignSideDeckChoice w R = (R\<lparr>turnChoiceRequiresRps := False\<rparr>)\<lparr>clientWhoChoosesTurn := Some (c_id c)\<rparr>"
    unfolding assignSideDeckChoice_def Let_def assms(3) f option.case(2) using w by (intro if_not_P) blast
  then show ?thesis
    by simp
qed

lemma side_run_start: "side_run R M \<Longrightarrow> phase R = SIDE_DECKING"
  by (induction rule: side_run.induct) simp_all

lemma choice_processDuelEnd: "choice_of (processDuelEnd player reason w R) = choice_of R"
proof -
  have "choice_of (on_lobby (\<lambda>L. L\<lparr>players := map not_ready (players L)\<rparr>) (room_duelWinner w M)) = choice_of M" for M
    by (simp add: room_duelWinner_def on_lobby_def choice_of_def seat_ids_def not_ready_def o_def)
  then show ?thesis
    by (simp add: processDuelEnd_def Let_def updateDuelRecord_def on_duel_def keeps_choice)
qed

text \<open>Where everyone sits does not depend on the phase.\<close>

lemma seats_sideDecking: "snd (seat_ids (lob (sideDecking mins R))) = snd (seat_ids (lob R))"
proof -
  define N where "N = (enter_phase SIDE_DECKING R)\<lparr>playerTimers := [], playerRemainMinutes := []\<rparr>"
  have s: "choice_of (startPlayerTimeout mins c M) = choice_of M" for c M
    by (simp add: startPlayerTimeout_def Let_def keeps_choice)
  have "choice_of (sideDecking mins R) = choice_of N"
    using s by (simp add: sideDecking_def Let_def N_def [symmetric] choice_fold)
  moreover have "snd (seat_ids (lob N)) = snd (seat_ids (lob R))"
    by (simp add: N_def enter_phase_def seat_ids_def)
  ultimately show ?thesis
    by (simp add: choice_of_def)
qed

lemma loser_chosen:
  assumes "w \<le> 1" and "seats_ok (seats0 L) (seats1 L) (seating L)" and "seats0 L = seats1 L"
    and c: "c \<in> set (players L) \<and> c_team c = 1 - w \<and> c_position c = first_seat (1 - w) L"
    and "choice_of R1 = choice_of R" and "lob R = L"
  shows "\<not> turnChoiceRequiresRps (transitionToSideDecking mins w R1) \<and>
    clientWhoChoosesTurn (transitionToSideDecking mins w R1) = Some (c_id c) \<and>
    c_id c \<in> c_id ` set (players (lob (transitionToSideDecking mins w R1)))"
proof -
  let ?t = "\<lambda>x. (c_id x, c_position x, c_team x)"
  define N where "N = sideDecking mins (R1\<lparr>core := False\<rparr>)"
  define R3 where "R3 = tell_all (spectators (lob (tell_all (players (lob N)) ChangeSide N))) WaitingSide
    (tell_all (players (lob N)) ChangeSide N)"
  have "seat_ids (lob R3) = seat_ids (lob N)"
    using choice_tells(2) by (metis (no_types) R3_def choice_of_def prod.inject)
  moreover have "snd (seat_ids (lob N)) = snd (seat_ids (lob R1))"
    by (simp add: N_def seats_sideDecking)
  ultimately have s: "snd (seat_ids (lob R3)) = snd (seat_ids L)"
    using assms(5,6) by (simp add: choice_of_def)
  then have sizes: "seats0 (lob R3) = seats0 L" "seats1 (lob R3) = seats1 L"
    and ts: "map ?t (players (lob R3)) = map ?t (players L)"
    by (simp_all add: seat_ids_def)
  have "seating (lob R3) = seating L"
    using arg_cong [OF ts, of "map snd"] by (simp add: seating_def o_def)
  moreover obtain d where d: "d \<in> set (players (lob R3))" "?t d = ?t c"
    using c arg_cong [OF ts, of set] by (metis (no_types, lifting) image_eqI image_iff list.set_map)
  ultimately have "\<not> turnChoiceRequiresRps (assignSideDeckChoice w R3) \<and> clientWhoChoosesTurn (assignSideDeckChoice w R3) = Some (c_id d)"
    using c assms(1-3) sizes by (intro loser_assigned [OF _ _ refl]) (simp_all add: first_seat_def)
  moreover have "transitionToSideDecking mins w R1 = assignSideDeckChoice w R3"
    by (simp add: transitionToSideDecking_def Let_def R3_def N_def)
  moreover have "lob (assignSideDeckChoice w R3) = lob R3"
    by (simp add: assignSideDeckChoice_def Let_def split: option.split)
  moreover have "c_id c \<in> c_id ` set (players (lob R3))"
    using d by (metis image_eqI prod.inject)
  ultimately show ?thesis
    using d by simp
qed

lemma stays_dueling:
  assumes "phase R = DUELING" and "\<not> duel_over R" and "phase (handleWinCondition mins encodable player reason R) = SIDE_DECKING"
  shows "handleWinCondition mins encodable player reason R =
    transitionToSideDecking mins (toIngamePosition R player) (processDuelEnd player reason (toIngamePosition R player) R)"
proof -
  define R1 where "R1 = processDuelEnd player reason (toIngamePosition R player) R"
  have R1: "phase R1 = DUELING"
    using phase_choice [OF choice_processDuelEnd] assms(1) by (simp add: R1_def)
  have "phase (finalizeWithReplays encodable (mark_over R1)) = phase R1"
    by (rule phase_life) simp
  then have "phase (FinalizeYGOProRoom_run None (publishGameOver (finalizeWithReplays encodable (mark_over R1)))) = DUELING"
    using phase_choice [OF choice_finalize] phase_choice [OF choice_small(6)] R1 by simp
  then show ?thesis
    using assms(2,3) by (auto simp: handleWinCondition_def determineNextPhase_def Let_def R1_def [symmetric])
qed

text \<open>C23. After a duel that does not end the match the loser chooses: whoever takes part in side decking, talks,
  joins, leaves or comes back, the room leaves side decking for rock-paper-scissors after a draw and otherwise
  for the turn choice of the player on the first seat of the losing team.\<close>

theorem loser_of_a_duel_chooses_next:
  assumes "phase R = DUELING" and "\<not> duel_over R" and "player \<le> 2" and "w = toIngamePosition R player"
    and "seats_ok (seats0 (lob R)) (seats1 (lob R)) (seating (lob R))" and "seats0 (lob R) = seats1 (lob R)"
    and "w \<noteq> 2 \<Longrightarrow> c \<in> set (players (lob R)) \<and> c_team c = 1 - w \<and> c_position c = first_seat (1 - w) (lob R)"
    and "side_run (handleWinCondition mins encodable player reason R) M" and "room_step M M'" and "phase M' \<noteq> SIDE_DECKING"
  shows "if w = 2 then phase M' = RPS else phase M' = CHOOSING_ORDER \<and> clientWhoChoosesTurn M' = Some (c_id c)"
proof -
  define R1 where "R1 = processDuelEnd player reason w R"
  define R2 where "R2 = transitionToSideDecking mins w R1"
  have start: "phase (handleWinCondition mins encodable player reason R) = SIDE_DECKING"
    by (rule side_run_start [OF assms(8)])
  then have R2: "handleWinCondition mins encodable player reason R = R2" "phase R2 = SIDE_DECKING"
    using stays_dueling [OF assms(1,2) start] assms(4) by (simp_all add: R2_def R1_def)
  then have M: "choice_of M = choice_of R2" "phase M = SIDE_DECKING"
    using side_run_choice assms(8) by simp_all
  moreover have "phase N = SIDE_DECKING" if "choice_of N = choice_of M" for N
    using phase_choice [OF that] M(2) by simp
  ultimately obtain N where N: "choice_of N = choice_of R2" "M' = sided N"
    using side_step_choice [OF assms(9)] assms(10) by metis
  note f = choice_fields_of [OF N(1)]
  show ?thesis
  proof (cases "w = 2")
    case True
    then have "turnChoiceRequiresRps R2"
      by (simp add: R2_def transitionToSideDecking_def assignSideDeckChoice_def Let_def)
    then show ?thesis
      using True sided_outcome(1) f(2) N(2) by simp
  next
    case False
    have "w \<le> 1"
      using False assms(3,4) by (auto simp: toIngamePosition_def split: if_splits)
    then have "\<not> turnChoiceRequiresRps R2 \<and> clientWhoChoosesTurn R2 = Some (c_id c) \<and> c_id c \<in> c_id ` set (players (lob R2))"
      using loser_chosen [OF _ assms(5,6)] assms(7) [OF False] choice_processDuelEnd [of player reason w R]
      by (simp add: R2_def R1_def)
    moreover have "c_id ` set (players (lob N)) = c_id ` set (players (lob R2))"
      using arg_cong [OF f(3), of "\<lambda>ps. fst ` set ps"] by (simp add: image_image)
    ultimately show ?thesis
      using False sided_outcome(2) [of N "c_id c"] f(1,2) N(2) by simp
  qed
qed

subsection \<open>A match whose player does not come back\<close>

lemma forfeit_other_side:
  "w \<noteq> DRAW \<Longrightarrow> (w = 0) \<noteq> (v = 0) \<Longrightarrow> side_score v (snd (forfeit_loop w ips a m)) = side_score v m"
proof (induction w ips a m rule: forfeit_loop.induct)
  case (1 w ips a m)
  then show ?case
    by (subst forfeit_loop.simps) (simp add: duelWinner_other_side)
qed

lemma forfeit_winner:
  assumes "match_run n ps m" and "1 \<le> n" and "\<not> isFinished m" and "w \<le> 1" and "forfeit w ips m = (k, m')"
  shows "match_winner m' = w \<and> isFinished m'"
proof -
  have w: "w \<noteq> DRAW" "(w = 0) \<noteq> (1 - w = 0)"
    using assms(4) by (auto simp: DRAW_def)
  have inv: "bestOf m = n \<and> score_ok m"
    using match_run_invariant [OF assms(1)] by blast
  then have "isFinished m' \<and> side_score w m' = needWins m"
    using forfeit_loop_decides [of m w 0 ips] w(1) assms(2,3,5) by (auto simp: forfeit_def score_ok_def)
  moreover have "side_score (1 - w) m' = side_score (1 - w) m"
    using forfeit_other_side [OF w, of ips 0 m] assms(5) by (simp add: forfeit_def)
  moreover have "side_score (1 - w) m < needWins m"
    using assms(3) by (auto simp: isFinished_def side_score_def)
  ultimately show ?thesis
    using assms(4) by (cases "w = 0") (auto simp: side_score_def match_winner_def split: if_splits)
qed

lemma open_match:
  assumes "room_run R" and "\<not> finalizing (lob R)" and "isBetweenDuels R"
  obtains m ps where "room_match (lob R) = Some m" "match_run (room_bestOf (lob R)) ps m" "1 \<le> room_bestOf (lob R)"
    "\<not> isMatchFinished R" "\<not> isFinished m" "gameOvers R = []"
proof -
  have "life_phase_of (phase R) \<noteq> Waiting"
    using assms(3) by (auto simp: isBetweenDuels_def)
  then have "1 \<le> room_bestOf (lob R) \<and> gameOvers R = [] \<and> (\<exists>m. room_match (lob R) = Some m \<and>
      \<not> decided (single_reserved (lob R)) m \<and> (\<exists>ps. match_run (room_bestOf (lob R)) ps m))"
    using room_run_inv [OF assms(1)] assms(2) by (auto simp: life_inv_def life_fields)
  then show ?thesis
    using that decided_iff decided_not_finished by blast
qed

text \<open>What a room shows of its match is what its machine shows.\<close>

lemma same_life:
  assumes "life_of M = life_of R"
  shows "finalizing (lob M) = finalizing (lob R)" "room_match (lob M) = room_match (lob R)"
    "isMatchFinished M = isMatchFinished R" "isBetweenDuels M = isBetweenDuels R" "played_any M = played_any R"
    "phase M = phase R"
proof -
  note f = life_fields [of M, unfolded assms, unfolded life_fields]
  show "finalizing (lob M) = finalizing (lob R)" and m: "room_match (lob M) = room_match (lob R)"
    using f by simp_all
  show p: "phase M = phase R"
    by (rule phase_life [OF assms])
  then show "isBetweenDuels M = isBetweenDuels R"
    by (simp add: isBetweenDuels_def)
  show "played_any M = played_any R"
    by (simp add: played_any_def m)
  show "isMatchFinished M = isMatchFinished R"
  proof (cases "room_match (lob R)")
    case None
    then show ?thesis
      using m by (simp add: isMatchFinished_def played_any_def)
  next
    case (Some k)
    then show ?thesis
      using decided_iff [of M k] decided_iff [of R k] m f(5) by simp
  qed
qed

lemma resolve_cases:
  assumes "\<not> finalizing (lob R)" and "\<not> isMatchFinished R" and "isBetweenDuels R" and "life_of M = life_of R"
  obtains (cancelled) G ab where "life_of G = life_of R" "\<not> played_any R" "abandon_resolve t fresh M = FinalizeYGOProRoom_run ab G"
  | (awarded) G where "life_of G = life_of R" "played_any R"
      "abandon_resolve t fresh M = FinalizeYGOProRoom_run None (publishGameOver (mark_over (matchForfeit (if t = 0 then 1 else 0) fresh G)))"
proof (cases "played_any R")
  case True
  define G where "G = tell_all (opponentsOf t (M\<lparr>graceTimers := []\<rparr>)) MatchWon (M\<lparr>graceTimers := []\<rparr>)"
  have N: "life_of (M\<lparr>graceTimers := []\<rparr>) = life_of R" "life_of G = life_of R"
    unfolding G_def life_tell life_fields_update by (rule assms(4))+
  have "abandon_resolve t fresh M = FinalizeYGOProRoom_run None (publishGameOver (mark_over (matchForfeit (if t = 0 then 1 else 0) fresh G)))"
    using same_life [OF N(1)] same_life [OF N(2)] assms(1-3) True
    unfolding abandon_resolve_def Let_def EndMatchByAbandon_run_def G_def [symmetric] by simp
  then show ?thesis
    using awarded N(2) True by blast
next
  case False
  define G where "G = tell_all (opponentsOf t (M\<lparr>graceTimers := []\<rparr>)) MatchCancelled (M\<lparr>graceTimers := []\<rparr>)"
  have N: "life_of (M\<lparr>graceTimers := []\<rparr>) = life_of R" "life_of G = life_of R"
    unfolding G_def life_tell life_fields_update by (rule assms(4))+
  have "abandon_resolve t fresh M = FinalizeYGOProRoom_run (Some (seat_abandon (Some t) Disconnect)) G"
    using same_life [OF N(1)] assms(1-3) False unfolding abandon_resolve_def Let_def G_def [symmetric] by simp
  then show ?thesis
    using cancelled N(2) False by blast
qed

text \<open>C22. A player who left between duels and whose socket is still closed when the grace timer fires ends the
  match: the room is closed, with exactly one result if a duel was played - the match is decided and the players
  of the other team, and only they, are its winners - and with no result if none was.\<close>

theorem abandoned_match_is_settled:
  assumes "room_run R" and "\<not> finalizing (lob R)" and "isBetweenDuels R" and "map_get (graceTimers R) position = Some (c_id c)"
    and "find (\<lambda>x. c_id x = c_id c) (players (lob R)) = Some c" and "is_closed (lob R) (c_socket c)" and "c_team c \<le> 1"
    and "R' = grace_expired position fresh R"
  shows "finalizing (lob R') \<and>
    (if played_any R
     then \<exists>e m. gameOvers R' = [e] \<and> ev_players e = playersHistory m \<and> isFinished m \<and>
       (\<forall>d \<in> set (ev_players e). data_winner d \<longleftrightarrow> player_team (data_player d) = 1 - c_team c)
     else gameOvers R' = [])"
proof -
  obtain m ps where m: "room_match (lob R) = Some m" "match_run (room_bestOf (lob R)) ps m" "1 \<le> room_bestOf (lob R)"
    "\<not> isMatchFinished R" "\<not> isFinished m" "gameOvers R = []"
    by (rule open_match [OF assms(1-3)])
  define S where "S = R\<lparr>graceTimers := AList.delete position (graceTimers R)\<rparr>"
  have S: "life_of S = life_of R" "lob S = lob R"
    by (simp_all add: S_def)
  have R': "R' = abandon_resolve (c_team c) fresh S"
    using assms(2-6) S same_life(4) [OF S(1)] by (simp add: assms(8) grace_expired_def S_def [symmetric] Let_def)
  show ?thesis
    using assms(2) m(4) assms(3) S(1)
  proof (cases rule: resolve_cases [where t = "c_team c" and fresh = fresh])
    case (cancelled G ab)
    have "\<not> finalizing (lob G)"
      using same_life(1) [OF cancelled(1)] assms(2) by simp
    then have "life_of R' = (life_of R)\<lparr>l_closed := True\<rparr>"
      using cancelled R' by (simp add: life_finalize)
    then show ?thesis
      using life_fields(7,8) [of R'] m(6) cancelled(2) life_fields(8) [of R] by simp
  next
    case (awarded G)
    obtain k m' where k: "forfeit (if c_team c = 0 then 1 else 0) (connections G) m = (k, m')"
      by fastforce
    define F where "F = mark_over (matchForfeit (if c_team c = 0 then 1 else 0) fresh G)"
    have F: "life_of F = (life_of G)\<lparr>l_match := Some m', l_ids := duelIds (lob G) @ map fresh [0..<k]\<rparr>"
      using life_forfeit [OF _ k] same_life(2) [OF awarded(1)] m(1) by (simp add: F_def)
    then have "\<not> finalizing (lob F)"
      using life_fields(7) [of F] life_fields(7) [of G] same_life(1) [OF awarded(1)] assms(2) by simp
    then have pub: "life_of R' = publish (life_of F)"
      using R' awarded(3) life_publish by (simp add: F_def)
    have "map (\<lambda>e. (ev_duelIds e, ev_players e)) (gameOvers R') = [(l_ids (life_of F), playersHistory m')]"
      using life_fields(8) [of R'] life_fields(8) [of R] m(6) F awarded(1) by (simp add: pub publish_def)
    then obtain e where e: "gameOvers R' = [e]" "ev_players e = playersHistory m'"
      by auto
    moreover have "finalizing (lob R')"
      using life_fields(7) [of R'] by (simp add: pub publish_def)
    moreover have "match_winner m' = 1 - c_team c \<and> isFinished m'"
      using forfeit_winner [OF m(2,3,5) _ k] assms(7) by (simp split: if_splits)
    moreover have "\<forall>d \<in> set (playersHistory m'). data_winner d \<longleftrightarrow> player_team (data_player d) = match_winner m'"
      by (auto simp: playersHistory_def)
    ultimately show ?thesis
      using awarded(2) by auto
  qed
qed

subsection \<open>Witnesses\<close>

text \<open>Both players of the sample room send a side deck, read from the room as it is.\<close>

definition side_player :: "nat \<Rightarrow> bool \<Rightarrow> client" where
  "side_player k r = (sample_captain k)\<lparr>c_ready := r\<rparr>"

definition sided_by :: "nat \<Rightarrow> room \<Rightarrow> room" where
  "sided_by k R = side_handleUpdateDeck [] [] (Inr some_deck) (\<lambda>_. None) (side_player k False) R"

lemma won_room_players: "players (lob (won_room 3)) = [side_player 0 False, side_player 1 False]"
  by code_simp

lemma sided_room_players: "players (lob (sided_by 0 (won_room 3))) = [side_player 0 True, side_player 1 False]"
  by code_simp

lemma loser_of_a_duel_chooses_next_witness:
  "phase (sided_by 1 (sided_by 0 (won_room 3))) = CHOOSING_ORDER \<and>
   clientWhoChoosesTurn (sided_by 1 (sided_by 0 (won_room 3))) = Some 1"
proof -
  let ?R = "duel_room 3" and ?W = "won_room 3" and ?S = "sided_by 0 (won_room 3)" and ?c = "sample_captain 1"
  have p: "phase ?W = SIDE_DECKING" "phase ?S = SIDE_DECKING" "phase (sided_by 1 ?S) \<noteq> SIDE_DECKING" "\<not> duel_over ?R"
    by code_simp+
  have seats: "seats_ok (seats0 (lob ?R)) (seats1 (lob ?R)) (seating (lob ?R))" "seats0 (lob ?R) = seats1 (lob ?R)"
    "0 = toIngamePosition ?R 0" "c_team ?c = 1" "c_position ?c = first_seat 1 (lob ?R)" "c_id ?c = 1"
    by code_simp+
  have m: "?c \<in> set (players (lob ?R))"
    by (simp add: sample_clients(4))
  have "room_step ?W ?S"
    unfolding sided_by_def by (rule room_step.side_deck [OF p(1)]) (simp add: clients_def won_room_players)
  then have "side_run ?W ?S"
    using side_run.step [OF side_run.here [OF p(1)]] p(2) by blast
  then have "side_run (handleWinCondition 3 (\<lambda>_. False) 0 1 ?R) ?S"
    by (simp only: won_room_def)
  moreover have "room_step ?S (sided_by 1 ?S)"
    unfolding sided_by_def [of 1] by (rule room_step.side_deck [OF p(2)]) (simp add: clients_def sided_room_players)
  ultimately show ?thesis
    using loser_of_a_duel_chooses_next [where c = ?c and mins = 3 and encodable = "\<lambda>_. False" and reason = 1 and M = ?S,
        OF sample_phases(4) p(4) _ seats(3) seats(1,2) _ _ _ p(3)]
      m seats(4-6) by simp
qed

definition left_room :: room where
  "left_room = YGOProDisconnectPolicy_onDisconnect None ''s2'' (won_room 3)"

lemma abandoned_match_is_settled_witness:
  "\<exists>e m. gameOvers (grace_expired 1 (\<lambda>_. ''d2'') left_room) = [e] \<and> ev_players e = playersHistory m \<and> isFinished m \<and>
     (\<forall>d \<in> set (ev_players e). data_winner d \<longleftrightarrow> player_team (data_player d) = 0)"
proof -
  let ?c = "side_player 1 False"
  have "\<not> finalizing (lob (won_room 3))" by code_simp
  then have "room_run left_room"
    unfolding left_room_def by (intro room_run.step [OF sample_runs(5) _ room_step.disconnect]) simp_all
  moreover have h: "\<not> finalizing (lob left_room)" "isBetweenDuels left_room" "map_get (graceTimers left_room) 1 = Some (c_id ?c)"
    "find (\<lambda>x. c_id x = c_id ?c) (players (lob left_room)) = Some ?c" "is_closed (lob left_room) (c_socket ?c)"
    "c_team ?c = 1" "played_any left_room"
    by code_simp+
  ultimately show ?thesis
    using abandoned_match_is_settled [OF _ h(1-5) _ refl, of "\<lambda>_. ''d2''"] by simp
qed

end
