(* ===== verification/SeatReturn.thy ===== *)
theory SeatReturn
  imports AfterDuel
begin

text \<open>
  Taking a seat back in a room whose match has started: which seats a joiner can take by name and by token, and
  that nothing else about the players changes.
\<close>

subsection \<open>What reaches the players\<close>

definition seated :: "room \<Rightarrow> client list \<times> string list" where
  "seated R = (players (lob R), closed_sockets (lob R))"

lemma seated_frames: "frames (lob R) (lob R') \<Longrightarrow> seated R' = seated R"
  by (auto simp: frames_def seated_def)

lemma seated_tell [simp]: "seated (tell c f R) = seated R" "seated (tell_all cs f R) = seated R"
  by (rule seated_frames; simp add: tell_def tell_all_def frames_client frames_fold)+

lemma seated_fold: "(\<And>x M. seated (g x M) = seated M) \<Longrightarrow> seated (fold g xs R) = seated R"
  by (induction xs arbitrary: R) simp_all

lemma seated_small [simp]:
  "seated (deck_counts c R) = seated R" "seated (clear_reconnecting c R) = seated R" "seated (token_resend c R) = seated R"
  "seated (R\<lparr>reconnectingClients := rc\<rparr>) = seated R"
proof -
  have "sendDeckCountMessage c (lob R) = Some L \<Longrightarrow> frames (lob R) L" for L
    by (auto simp: sendDeckCountMessage_def Let_def frames_client split: list.splits)
  then show "seated (deck_counts c R) = seated R"
    by (cases "sendDeckCountMessage c (lob R)") (auto simp: deck_counts_def intro: seated_frames)
  show "seated (clear_reconnecting c R) = seated R" "seated (R\<lparr>reconnectingClients := rc\<rparr>) = seated R"
    by (simp_all add: clear_reconnecting_def seated_def)
  have "seated (token_register c R) = seated R"
    by (simp add: token_register_def seated_def)
  then show "seated (token_resend c R) = seated R"
    by (simp add: token_resend_def token_issue_def split: option.split)
qed

lemma seated_resync [simp]: "seated (resync c R) = seated R"
  by (simp add: resync_defs Let_def split: duel_state.split)

lemma seated_spectator [simp]: "seated (admitAsSpectator sk n R) = seated R"
proof -
  have "seated (on_lobby (addSpectatorUnsafe (createSpectatorUnsafe sk n (lob R))) R) = seated R"
    using addSpectator_effect [of "lob R" "createSpectatorUnsafe sk n (lob R)"]
    by (auto simp: frames_def seated_def)
  then show ?thesis
    by (simp add: spectator_defs Let_def split: duel_state.split)
qed

text \<open>The seat with a new socket; the old socket, when it is another one, is closed.\<close>

definition with_socket :: "nat \<Rightarrow> socket \<Rightarrow> client list \<Rightarrow> client list" where
  "with_socket i sk = map (\<lambda>x. if c_id x = i then x\<lparr>c_socket := sk\<rparr> else x)"

definition returned :: "client \<Rightarrow> socket \<Rightarrow> room \<Rightarrow> room \<Rightarrow> bool" where
  "returned c sk R R' \<longleftrightarrow> players (lob R') = with_socket (c_id c) sk (players (lob R)) \<and>
     (sock_id (c_socket c) = sock_id sk \<or> is_closed (lob R') (c_socket c))"

lemma returned_seated: "returned c sk R M \<Longrightarrow> seated R' = seated M \<Longrightarrow> returned c sk R R'"
  by (simp add: returned_def seated_def is_closed_def)

lemma room_reconnect_returns: "returned c sk R (room_reconnect c sk R)"
proof -
  define R1 where "R1 = on_lobby (change_client (c_id c) (\<lambda>x. x\<lparr>c_socket := sk\<rparr>)) R"
  define R2 where "R2 = (if sock_id (c_socket c) \<noteq> sock_id sk \<and> \<not> is_closed (lob R1) (c_socket c)
    then on_lobby (close_socket (c_socket c)) R1 else R1)"
  have "players (lob R2) = with_socket (c_id c) sk (players (lob R))"
    by (simp add: R2_def R1_def with_socket_def change_client_def Let_def close_socket_def)
  moreover have "sock_id (c_socket c) = sock_id sk \<or> is_closed (lob R2) (c_socket c)"
    by (auto simp: R2_def is_closed_def close_socket_def set_add_def)
  ultimately have "returned c sk R R2"
    by (simp add: returned_def)
  moreover have "seated (room_reconnect c sk R) = seated R2"
    by (simp add: room_reconnect_def Let_def R2_def [symmetric] R1_def [symmetric] seated_fold)
  ultimately show ?thesis
    by (rule returned_seated)
qed

text \<open>Who may take a seat by name.\<close>

definition may_return :: "string option option \<Rightarrow> socket \<Rightarrow> string \<Rightarrow> room \<Rightarrow> client \<Rightarrow> bool" where
  "may_return identity sk n R c \<longleftrightarrow> c \<in> set (players (lob R)) \<and> c_name c = n \<and> \<not> is_strong c \<and>
     watchForRoomId sk \<noteq> Some (room_id (lob R)) \<and> reservationAdmits sk (lob R) \<and>
     (if is_ranked R then c_credential c = None \<or> (\<exists>u. c_credential c = Some (External u) \<and> identity = Some (Some u))
      else remoteAddress (c_socket c) = remoteAddress sk \<and> is_closed (lob R) (c_socket c))"

lemma found_may_return:
  assumes "findMidDuelReconnectingPlayer n sk (is_ranked R) joiner (lob R) = Some c" and "reservationAdmits sk (lob R)"
    and "is_ranked R \<Longrightarrow> identity = Some joiner"
  shows "may_return identity sk n R c"
proof -
  have "c \<in> set (players (lob R))" "watchForRoomId sk \<noteq> Some (room_id (lob R))"
    "isReconnectEligibleSeat n sk (is_ranked R) (lob R) c"
    "\<not> is_ranked R \<or> c_credential c = None \<or> (\<exists>u. c_credential c = Some (External u) \<and> joiner = Some u)"
    using assms(1) by (auto simp: findMidDuelReconnectingPlayer_def findReconnectingPlayer_def find_Some_iff
        split: if_splits option.splits credential.splits)
  then show ?thesis
    using assms(2,3) by (auto simp: may_return_def isReconnectEligibleSeat_def split: if_splits)
qed

text \<open>C24. Joining a room whose match has started never adds, removes or moves a player. It gives at most one seat
  a new socket, and closes the socket that seat had: a seat of the joiner's name that is not held by a verified
  account, which in a casual room the same address had lost its connection to, and in a ranked room belongs to
  the joiner's own resolved account or to nobody's.\<close>

theorem only_the_owner_returns_by_name:
  "players (lob (mid_handleJoin identity sk n R)) = players (lob R) \<or>
   (\<exists>c. may_return identity sk n R c \<and> returned c sk R (mid_handleJoin identity sk n R))"
proof -
  consider "players (lob (mid_handleJoin identity sk n R)) = players (lob R)"
    | joiner c where "reservationAdmits sk (lob R)" "is_ranked R \<Longrightarrow> identity = Some joiner"
        "findMidDuelReconnectingPlayer n sk (is_ranked R) joiner (lob R) = Some c"
        "mid_handleJoin identity sk n R = reconnect_by_name c sk R"
  proof (cases "reservationAdmits sk (lob R)")
    case False
    then show ?thesis
      using that(1) by (simp add: mid_handleJoin_def mid_gate_def rejectReservedJoin_def close_socket_def send_socket_def)
  next
    case True
    have spectate: "players (lob (admitAsSpectator sk n R)) = players (lob R)"
      using seated_spectator [of sk n R] by (simp add: seated_def)
    have join: "mid_handleJoin identity sk n R = mid_join identity sk n R"
      using True by (simp add: mid_handleJoin_def mid_gate_def)
    show ?thesis
    proof (cases "if is_ranked R then identity else Some None")
      case None
      then show ?thesis
        using that(1) spectate by (simp only: join mid_join_def option.case)
    next
      case (Some joiner)
      then show ?thesis
        using that(1) that(2) [OF True, of joiner] spectate
        by (cases "findMidDuelReconnectingPlayer n sk (is_ranked R) joiner (lob R)")
          (simp_all only: join mid_join_def option.case if_True split: if_splits)
    qed
  qed
  then show ?thesis
  proof cases
    case 2
    have "returned c sk R (reconnect_by_name c sk R)"
      by (rule returned_seated [OF room_reconnect_returns]) (simp add: reconnect_by_name_def Let_def)
    then show ?thesis
      using 2 found_may_return by metis
  qed simp
qed

text \<open>A token gives back the seat of the client it was issued to, and nothing else: with a token the room
  does not know the socket is turned away and closed, and no player changes.\<close>

theorem a_token_returns_its_own_seat:
  "case token_resolve token R of
     None \<Rightarrow> players (lob (handleExpressReconnect token sk R)) = players (lob R) \<and>
       is_closed (lob (handleExpressReconnect token sk R)) sk
   | Some c \<Rightarrow> map_get (tokenIndex R) token = Some (c_id c) \<and> returned c sk R (handleExpressReconnect token sk R)"
proof (cases "token_resolve token R")
  case None
  then show ?thesis
    by (simp add: handleExpressReconnect_def resyncBoard_def close_socket_def send_socket_def is_closed_def set_add_def)
next
  case (Some c)
  define R0 where "R0 = on_lobby (send_socket sk (ReconnectAck True)) R"
  have "lob R0 = send_socket sk (ReconnectAck True) (lob R)"
    by (simp add: R0_def)
  then have r: "returned c sk R M \<longleftrightarrow> returned c sk R0 M" for M
    by (simp add: returned_def send_socket_def)
  have "returned c sk R0 (handleExpressReconnect token sk R)"
    by (rule returned_seated [OF room_reconnect_returns])
      (use Some in \<open>simp add: handleExpressReconnect_def resyncBoard_def Let_def R0_def\<close>)
  moreover have "map_get (tokenIndex R) token = Some (c_id c)"
    using Some by (auto simp: token_resolve_def find_Some_iff split: option.splits)
  ultimately show ?thesis
    using Some r by simp
qed

end
