(* ===== verification/DuelClock.thy ===== *)
theory DuelClock
  imports Dueling
begin

text \<open>
  The clock of a duel: the time banks of both teams (\<open>src/ygopro/room/domain/TimerState.ts\<close>) and the
  operations the engine wrapper runs on them (\<open>src/ygopro/ocgcore-worker/ocgcore.ts\<close>). Every operation
  that reads the wall clock takes it as an argument, in milliseconds; a running timer is the instant it is
  due. The instants are positive, so that 0 means not started, as in the code.
\<close>

subsection \<open>Time banks\<close>

record timer_state =
  leftMs :: "int list"
  compensatorMs :: "int list"
  backedMs :: "int list"
  runningPos :: "nat option"
  startedAtMs :: int
  awaitingConfirm :: bool
  timer :: "int option"

definition elapsedMs :: "int \<Rightarrow> timer_state \<Rightarrow> int" where
  "elapsedMs now S = (if startedAtMs S = 0 then 0 else max 0 (now - startedAtMs S))"

definition timer_clear :: "bool \<Rightarrow> int \<Rightarrow> timer_state \<Rightarrow> timer_state" where
  "timer_clear settleElapsed now S =
     (let S1 = (case (settleElapsed, runningPos S) of
          (True, Some p) \<Rightarrow>
            if elapsedMs now S > 0 then S\<lparr>leftMs := (leftMs S)[p := max 0 (leftMs S ! p - elapsedMs now S)]\<rparr> else S
        | _ \<Rightarrow> S)
      in S1\<lparr>timer := None, runningPos := None, startedAtMs := 0, awaitingConfirm := False\<rparr>)"

definition timer_reset :: "int \<Rightarrow> int \<Rightarrow> timer_state \<Rightarrow> timer_state" where
  "timer_reset initialMs now S = timer_clear False now
     (S\<lparr>leftMs := [initialMs, initialMs], compensatorMs := [initialMs, initialMs], backedMs := [initialMs, initialMs]\<rparr>)"

definition timer_schedule :: "nat \<Rightarrow> int \<Rightarrow> bool \<Rightarrow> int \<Rightarrow> timer_state \<Rightarrow> timer_state" where
  "timer_schedule player delayMs confirm now S =
     S\<lparr>runningPos := Some player, startedAtMs := now, awaitingConfirm := confirm, timer := Some (now + delayMs)\<rparr>"

text \<open>The limit is the host's \<open>time_limit\<close> in seconds; 0 means no clock.\<close>

definition maxTimeMs :: "nat \<Rightarrow> int" where
  "maxTimeMs limit = int limit * 1000"

definition new_turn_time :: "nat \<Rightarrow> timer_state \<Rightarrow> timer_state" where
  "new_turn_time limit S =
     (if limit = 0 then S
      else S\<lparr>leftMs := [maxTimeMs limit, maxTimeMs limit], compensatorMs := [maxTimeMs limit, maxTimeMs limit],
             backedMs := [maxTimeMs limit, maxTimeMs limit]\<rparr>)"

text \<open>Which answers earn a second back. The numbers of the messages belong to the engine.\<close>

definition MSG_RETRY :: nat where "MSG_RETRY = 1"
definition MSG_SELECT_BATTLECMD :: nat where "MSG_SELECT_BATTLECMD = 10"
definition MSG_SELECT_IDLECMD :: nat where "MSG_SELECT_IDLECMD = 11"
definition MSG_SELECT_CHAIN :: nat where "MSG_SELECT_CHAIN = 16"
definition MSG_SELECT_UNSELECT_CARD :: nat where "MSG_SELECT_UNSELECT_CARD = 26"

definition low_word :: "nat list \<Rightarrow> nat" where
  "low_word b = b ! 0 + 256 * (b ! 1)"

definition is_minus_one :: "nat list \<Rightarrow> bool" where
  "is_minus_one b \<longleftrightarrow> take 4 b = [255, 255, 255, 255]"

definition canIncreaseTime :: "nat \<Rightarrow> nat list \<Rightarrow> bool" where
  "canIncreaseTime gameMsg response =
     (if gameMsg = MSG_RETRY \<or> gameMsg = MSG_SELECT_UNSELECT_CARD then False
      else if gameMsg = MSG_SELECT_CHAIN then length response \<ge> 4 \<and> \<not> is_minus_one response
      else if gameMsg = MSG_SELECT_IDLECMD then length response \<ge> 4 \<and> low_word response \<le> 5
      else if gameMsg = MSG_SELECT_BATTLECMD then length response \<ge> 4 \<and> low_word response \<le> 1
      else True)"

definition increaseResponseTime :: "nat \<Rightarrow> nat \<Rightarrow> nat \<Rightarrow> nat list \<Rightarrow> timer_state \<Rightarrow> timer_state" where
  "increaseResponseTime limit pos gameMsg response S =
     (if limit = 0 \<or> pos > 1 \<or> backedMs S ! pos \<le> 0 \<or> leftMs S ! pos \<ge> maxTimeMs limit \<or>
         \<not> canIncreaseTime gameMsg response then S
      else S\<lparr>leftMs := (leftMs S)[pos := min (maxTimeMs limit) (leftMs S ! pos + 1000)],
             compensatorMs := (compensatorMs S)[pos := compensatorMs S ! pos + 1000],
             backedMs := (backedMs S)[pos := backedMs S ! pos - 1000]\<rparr>)"

text \<open>A confirmation that arrives quickly is paid from the compensation for network delay.\<close>

definition charge_confirm :: "nat \<Rightarrow> int \<Rightarrow> timer_state \<Rightarrow> timer_state" where
  "charge_confirm pos elapsed S =
     (let S1 = (if elapsed < 10000 \<and> elapsed \<le> compensatorMs S ! pos
          then S\<lparr>compensatorMs := (compensatorMs S)[pos := compensatorMs S ! pos - elapsed]\<rparr>
          else S\<lparr>leftMs := (leftMs S)[pos := max 0 (leftMs S ! pos - elapsed)]\<rparr>)
      in S1\<lparr>awaitingConfirm := False\<rparr>)"

subsection \<open>A duel under way\<close>

text \<open>The room together with the wrapper of the engine. \<open>sideMinutes\<close> and \<open>encodable\<close> are the settings
  the end of a duel depends on.\<close>

record table =
  t_room :: room
  time_limit :: nat
  sideMinutes :: nat
  encodable :: "nat \<Rightarrow> bool"
  clock :: timer_state
  responseSide :: "nat option"
  lastRequest :: "core_msg option"
  isRetrying :: bool
  core_phase :: "nat option"
  deckReversed :: bool
  responses :: "nat list list"
  messages :: "core_msg list"

definition on_room :: "(room \<Rightarrow> room) \<Rightarrow> table \<Rightarrow> table" where
  "on_room f T = T\<lparr>t_room := f (t_room T)\<rparr>"

definition on_clock :: "(timer_state \<Rightarrow> timer_state) \<Rightarrow> table \<Rightarrow> table" where
  "on_clock f T = T\<lparr>clock := f (clock T)\<rparr>"

text \<open>Disposing of the engine stops the timer. What ends a duel disposes of it.\<close>

definition ends_duel :: "int \<Rightarrow> (room \<Rightarrow> room) \<Rightarrow> table \<Rightarrow> table" where
  "ends_duel now f T =
     (let T1 = on_room f T
      in if core (t_room T) \<and> \<not> core (t_room T1) then on_clock (timer_clear False now) T1 else T1)"

definition responsePlayer :: "table \<Rightarrow> client option" where
  "responsePlayer T = (case responseSide T of None \<Rightarrow> None | Some side \<Rightarrow> getActivePlayer (t_room T) side)"

definition seconds_left :: "nat \<Rightarrow> int \<Rightarrow> table \<Rightarrow> int" where
  "seconds_left pos now T =
     (let elapsed = (if runningPos (clock T) = Some pos then elapsedMs now (clock T) else 0);
          left = max 0 (leftMs (clock T) ! pos - elapsed)
      in - ((- left) div 1000))"

definition sendTimeLimitMessage :: "nat \<Rightarrow> client option \<Rightarrow> int \<Rightarrow> table \<Rightarrow> table" where
  "sendTimeLimitMessage pos only now T =
     (if time_limit T = 0 \<or> pos > 1 then T
      else let R = t_room T; everyone = getTeamPlayers 0 (lob R) @ getTeamPlayers 1 (lob R);
               those = filter (\<lambda>p. case only of None \<Rightarrow> True | Some c \<Rightarrow> c_id p = c_id c) everyone
           in on_room (tell_all those (TimeLimit (toIngamePosition R pos) (seconds_left pos now T))) T)"

definition handleResponseTimeout :: "nat \<Rightarrow> int \<Rightarrow> table \<Rightarrow> table" where
  "handleResponseTimeout pos now T =
     (if runningPos (clock T) \<noteq> Some pos then T
      else let T1 = on_clock (\<lambda>S. (timer_clear False now S)\<lparr>leftMs := (leftMs S)[pos := 0]\<rparr>) T;
               T2 = T1\<lparr>responseSide := None\<rparr>
           in ends_duel now (finish_by_timeout (sideMinutes T) (encodable T) pos) T2)"

definition setResponseTimer :: "bool \<Rightarrow> bool \<Rightarrow> nat \<Rightarrow> int \<Rightarrow> table \<Rightarrow> table" where
  "setResponseTimer settlePrevious confirm pos now T =
     (let T1 = on_clock (timer_clear settlePrevious now) T
      in if time_limit T = 0 \<or> pos > 1 then T1
         else let left = max 0 (leftMs (clock T1) ! pos);
                  T2 = sendTimeLimitMessage pos None now T1
              in if left \<le> 0 then handleResponseTimeout pos now T2
                 else on_clock (timer_schedule pos left confirm now) T2)"

text \<open>The timer fires at its instant or later.\<close>

definition timer_fires :: "int \<Rightarrow> table \<Rightarrow> table" where
  "timer_fires now T =
     (case (timer (clock T), runningPos (clock T)) of
        (Some due, Some pos) \<Rightarrow> if due \<le> now then handleResponseTimeout pos now T else T
      | _ \<Rightarrow> T)"

definition rescheduleTimerAfterConfirm :: "nat \<Rightarrow> int \<Rightarrow> table \<Rightarrow> table" where
  "rescheduleTimerAfterConfirm side now T =
     (if time_limit T = 0 \<or> side > 1 then T
      else let pos = getSideTeam (t_room T) side
           in if runningPos (clock T) \<noteq> Some pos then T
              else setResponseTimer False False pos now
                     (on_clock (charge_confirm pos (elapsedMs now (clock T))) T))"

definition handleTimeConfirm :: "client \<Rightarrow> int \<Rightarrow> table \<Rightarrow> table" where
  "handleTimeConfirm c now T =
     (if time_limit T = 0 then T
      else case responseSide T of None \<Rightarrow> T
      | Some side \<Rightarrow>
          if runningPos (clock T) = None \<or> \<not> awaitingConfirm (clock T) then T
          else if runningPos (clock T) \<noteq> Some (getSideTeam (t_room T) side) then T
          else case responsePlayer T of None \<Rightarrow> T
          | Some p \<Rightarrow> if c_id p \<noteq> c_id c then T else rescheduleTimerAfterConfirm side now T)"

subsection \<open>Answers\<close>

definition resetResponseRequestState :: "int \<Rightarrow> table \<Rightarrow> table" where
  "resetResponseRequestState now T =
     (on_clock (timer_reset (maxTimeMs (time_limit T)) now) T)\<lparr>lastRequest := None, isRetrying := False\<rparr>"

definition clearResponseRequestState :: "table \<Rightarrow> table" where
  "clearResponseRequestState T = T\<lparr>lastRequest := None, isRetrying := False\<rparr>"

text \<open>A retry is charged under the number 2, which is not the number of a retry message.\<close>

definition answered_msg :: "table \<Rightarrow> nat" where
  "answered_msg T = (if isRetrying T then 2 else case lastRequest T of None \<Rightarrow> 0 | Some m \<Rightarrow> msg_identifier m)"

definition settle_answer :: "nat \<Rightarrow> nat list \<Rightarrow> int \<Rightarrow> table \<Rightarrow> table" where
  "settle_answer team response now T =
     (if time_limit T = 0 then T
      else on_clock (increaseResponseTime (time_limit T) team (answered_msg T) response \<circ> timer_clear True now) T)"

text \<open>\<open>taken\<close> tells whether the engine takes the answer; an error sends the room back to waiting.\<close>

definition handleResponse :: "bool \<Rightarrow> nat list \<Rightarrow> client \<Rightarrow> int \<Rightarrow> table \<Rightarrow> table" where
  "handleResponse taken response c now T =
     (case responseSide T of None \<Rightarrow> T
      | Some side \<Rightarrow>
          if map_option c_id (responsePlayer T) \<noteq> Some (c_id c) \<or> \<not> core (t_room T) then T
          else let T1 = T\<lparr>responses := responses T @ [response]\<rparr>;
                   T2 = clearResponseRequestState (settle_answer (getSideTeam (t_room T) side) response now T1)
               in if taken then T2 else ends_duel now setDuelFinished T2)"

end
