(* ===== verification/DuelCore.thy ===== *)
theory DuelCore
  imports DuelClock
begin

text \<open>
  What the server does with the messages of the duel engine
  (\<open>src/ygopro/ocgcore-worker/ocgcore.ts\<close>, the middleware of \<open>YGOProDuelingState.ts\<close>): recording,
  the reactions of the room, who is sent which view, the request a team has to answer with its clock, an
  engine that fails, and the frames a reconnecting player gets. The positions a message goes to are the
  argument \<open>targets\<close>; field queries, which the engine answers, are not modelled.
\<close>

subsection \<open>Delivery\<close>

definition same_client :: "client \<Rightarrow> client option \<Rightarrow> bool" where
  "same_client c a \<longleftrightarrow> map_option c_id a = Some (c_id c)"

definition view_for :: "room \<Rightarrow> client \<Rightarrow> view" where
  "view_for R c = (let side = getTeamSide R (c_team c)
     in if same_client c (getActivePlayer R side) then PlayerView side else TeammateView side)"

definition deliver_one :: "core_msg \<Rightarrow> client list option \<Rightarrow> client \<Rightarrow> room \<Rightarrow> room" where
  "deliver_one m only c R =
     (if (case only of None \<Rightarrow> False | Some cs \<Rightarrow> c_id c \<notin> c_id ` set cs) then R
      else if is_request m \<and> \<not> same_client c (getActivePlayer R (getTeamSide R (c_team c))) then R
      else tell c (GameMsg m (view_for R c)) R)"

definition deliver_at :: "core_msg \<Rightarrow> client list option \<Rightarrow> nat \<Rightarrow> room \<Rightarrow> room" where
  "deliver_at m only position R =
     (if position = OBSERVER then tell_all (spectators (lob R)) (GameMsg m ObserverView) R
      else fold (deliver_one m only) (getPlayersAtIngamePosition R position) R)"

definition deliverToTargets :: "(core_msg \<Rightarrow> nat list) \<Rightarrow> core_msg \<Rightarrow> client list option \<Rightarrow> room \<Rightarrow> room" where
  "deliverToTargets targets m only R = fold (deliver_at m only) (targets m) R"

definition sendWaitingToNonOperator :: "nat \<Rightarrow> room \<Rightarrow> room" where
  "sendWaitingToNonOperator side R =
     tell_all (filter (\<lambda>c. \<not> same_client c (getActivePlayer R side)) (players (lob R))) WaitingMsg R"

subsection \<open>Requests\<close>

definition handleResponseOrRetry :: "core_msg \<Rightarrow> int \<Rightarrow> table \<Rightarrow> table" where
  "handleResponseOrRetry m now T =
     (case m of
        Request i side \<Rightarrow>
          (let T1 = T\<lparr>lastRequest := Some m, isRetrying := False, responseSide := Some side\<rparr>
           in setResponseTimer True True (getSideTeam (t_room T) side) now (on_room (sendWaitingToNonOperator side) T1))
      | _ \<Rightarrow>
          (case responseSide T of
             None \<Rightarrow> T
           | Some side \<Rightarrow>
               if m = Retry
               then (let T1 = T\<lparr>responses := butlast (responses T), isRetrying := True\<rparr>
                     in setResponseTimer True True (getSideTeam (t_room T) side) now (on_room (sendWaitingToNonOperator side) T1))
               else if lastRequest T = None then T\<lparr>responseSide := None\<rparr> else T))"

definition routeGameMsg :: "(core_msg \<Rightarrow> nat list) \<Rightarrow> core_msg \<Rightarrow> client list option \<Rightarrow> int \<Rightarrow> table \<Rightarrow> table" where
  "routeGameMsg targets m only now T = handleResponseOrRetry m now (on_room (deliverToTargets targets m only) T)"

subsection \<open>Messages of the engine\<close>

definition saveMessageToDuelRecord :: "core_msg \<Rightarrow> table \<Rightarrow> table" where
  "saveMessageToDuelRecord m T = T\<lparr>messages := messages T @ [m]\<rparr>"

text \<open>The reactions registered by the wrapper and by the dueling state, in the order they run.\<close>

definition react :: "core_msg \<Rightarrow> int \<Rightarrow> table \<Rightarrow> table" where
  "react m now T =
     (case m of
        NewTurn player \<Rightarrow> on_room (on_new_turn player) (on_clock (new_turn_time (time_limit T)) T)
      | NewPhase p \<Rightarrow> T\<lparr>core_phase := Some p\<rparr>
      | ReverseDeck \<Rightarrow> T\<lparr>deckReversed := \<not> deckReversed T\<rparr>
      | Damage player v \<Rightarrow> on_room (on_damage player v) T
      | Recover player v \<Rightarrow> on_room (on_recover player v) T
      | PayLpCost player v \<Rightarrow> on_room (on_pay_cost player v) T
      | WinMsg player reason \<Rightarrow> ends_duel now (handleWinCondition (sideMinutes T) (encodable T) player reason) T
      | _ \<Rightarrow> T)"

definition is_win :: "core_msg \<Rightarrow> bool" where
  "is_win m \<longleftrightarrow> (case m of WinMsg _ _ \<Rightarrow> True | _ \<Rightarrow> False)"

definition recorded :: "core_msg \<Rightarrow> table \<Rightarrow> table" where
  "recorded m T = (if m = Retry then T else saveMessageToDuelRecord m T)"

text \<open>The reaction to a result has a later priority than the record, all others come before it.\<close>

definition process_message :: "(core_msg \<Rightarrow> nat list) \<Rightarrow> core_msg \<Rightarrow> int \<Rightarrow> table \<Rightarrow> table" where
  "process_message targets m now T =
     (if is_win m then react m now (recorded m T)
      else routeGameMsg targets m None now (recorded m (react m now T)))"

text \<open>An error while the engine advances, or an empty message with a status. The drawn result is sent to the
  clients, but not to the reactions above.\<close>

definition draw_by_error :: core_msg where
  "draw_by_error = WinMsg 2 17"

definition disposeWithTimeout :: "int \<Rightarrow> table \<Rightarrow> table" where
  "disposeWithTimeout now T =
     (if core (t_room T) then on_clock (timer_clear False now) (on_room (\<lambda>R. R\<lparr>core := False\<rparr>) T) else T)"

definition handleAdvanceError :: "(core_msg \<Rightarrow> nat list) \<Rightarrow> int \<Rightarrow> table \<Rightarrow> table" where
  "handleAdvanceError targets now T =
     (let T1 = on_room (\<lambda>R. tell_all (clients (lob R)) (RedChat ''The duel has ended in a draw due to a server error.'') R) T;
          T2 = saveMessageToDuelRecord draw_by_error (disposeWithTimeout now T1)
      in routeGameMsg targets draw_by_error None now T2)"

datatype advance_result = Engine core_msg | Empty nat | EngineError

definition handleAdvanceResult :: "(core_msg \<Rightarrow> nat list) \<Rightarrow> advance_result \<Rightarrow> int \<Rightarrow> table \<Rightarrow> table" where
  "handleAdvanceResult targets r now T =
     (if \<not> core (t_room T) then T
      else case r of
        Engine m \<Rightarrow> process_message targets m now T
      | Empty status \<Rightarrow> if status = 0 then T else handleAdvanceError targets now T
      | EngineError \<Rightarrow> handleAdvanceError targets now T)"

subsection \<open>A player is back at the table\<close>

text \<open>The new-turn messages a reconnecting player is sent stand for the turn counter.\<close>

definition turn_messages :: "room \<Rightarrow> nat list" where
  "turn_messages R =
     (let raw = max 1 (nat (turn R))
      in if isTag R then map (\<lambda>i. i mod 2) [0..<(if raw mod 4 = 0 then 4 else raw mod 4)]
         else [0..<(if raw mod 2 = 0 then 2 else 1)])"

definition sendTurnMessages :: "client \<Rightarrow> room \<Rightarrow> room" where
  "sendTurnMessages c R = fold (\<lambda>p. tell c (GameMsg (NewTurn p) ObserverView)) (turn_messages R) R"

definition sendPhaseMessage :: "client \<Rightarrow> table \<Rightarrow> table" where
  "sendPhaseMessage c T =
     (case core_phase T of None \<Rightarrow> T | Some p \<Rightarrow> on_room (tell c (GameMsg (NewPhase p) ObserverView)) T)"

definition findLastHintForClient :: "(core_msg \<Rightarrow> nat list) \<Rightarrow> client \<Rightarrow> table \<Rightarrow> core_msg option" where
  "findLastHintForClient targets c T =
     find (\<lambda>m. (case m of Hint _ \<Rightarrow> True | _ \<Rightarrow> False) \<and> getTeamSide (t_room T) (c_team c) \<in> set (targets m))
       (rev (messages T))"

definition resendResponseRequestToClient :: "client \<Rightarrow> int \<Rightarrow> table \<Rightarrow> table" where
  "resendResponseRequestToClient c now T =
     (case lastRequest T of None \<Rightarrow> T
      | Some m \<Rightarrow> setResponseTimer True True (c_team c) now
          (on_room (tell c (GameMsg m (PlayerView (getTeamSide (t_room T) (c_team c))))) T))"

definition sendReconnectTimeLimitAndResponseState :: "(core_msg \<Rightarrow> nat list) \<Rightarrow> client \<Rightarrow> int \<Rightarrow> table \<Rightarrow> table" where
  "sendReconnectTimeLimitAndResponseState targets c now T =
     (let activeTeam = (case responsePlayer T of None \<Rightarrow> c_team c | Some p \<Rightarrow> c_team p);
          T1 = sendTimeLimitMessage (1 - activeTeam) (Some c) now T
      in if same_client c (responsePlayer T1)
         then (let T2 = (case findLastHintForClient targets c T1 of None \<Rightarrow> T1
                   | Some h \<Rightarrow> on_room (tell c (GameMsg h (PlayerView (getTeamSide (t_room T1) (c_team c))))) T1)
               in resendResponseRequestToClient c now T2)
         else sendTimeLimitMessage activeTeam (Some c) now (on_room (tell c WaitingMsg) T1))"

definition table_resync :: "(core_msg \<Rightarrow> nat list) \<Rightarrow> client \<Rightarrow> int \<Rightarrow> table \<Rightarrow> table" where
  "table_resync targets c now T =
     (let T1 = on_room (\<lambda>R. tell c (GameMsg (StartMsg (getTeamSide R (c_team c))) ObserverView) (tell c DuelStart R)) T;
          T2 = sendPhaseMessage c (on_room (sendTurnMessages c) T1);
          T3 = on_room (tell c BoardState) T2
      in sendReconnectTimeLimitAndResponseState targets c now T3)"

subsection \<open>The record of a duel\<close>

text \<open>What the record of a duel plays back; \<open>start_pos\<close> replaces the player of a start message. The result
  comes last, once, and is the one the room counted when it is known.\<close>

record duel_record =
  rec_players :: "string list"
  rec_swapped :: bool
  rec_messages :: "core_msg list"
  rec_win :: "(nat \<times> nat) option"

definition swapElements :: "nat \<Rightarrow> nat \<Rightarrow> 'a list \<Rightarrow> 'a list" where
  "swapElements a b xs = xs[a := xs ! b, b := xs ! a]"

definition toSwappedPlayers :: "bool \<Rightarrow> 'a list \<Rightarrow> 'a list" where
  "toSwappedPlayers swapped xs =
     (if \<not> swapped then xs
      else if length xs = 4 then swapElements 1 3 (swapElements 0 2 xs)
      else swapElements 0 1 xs)"

definition resolveObserverWinMsg :: "duel_record \<Rightarrow> core_msg option" where
  "resolveObserverWinMsg D =
     (case rec_win D of None \<Rightarrow> None
      | Some (w, reason) \<Rightarrow>
          if w \<noteq> 0 \<and> w \<noteq> 1 then None else Some (WinMsg (if rec_swapped D then 1 - w else w) reason))"

definition played_back :: "(core_msg \<Rightarrow> nat list) \<Rightarrow> bool \<Rightarrow> bool \<Rightarrow> core_msg \<Rightarrow> bool" where
  "played_back targets includeResponse includeNonObserver m \<longleftrightarrow>
     (\<not> is_request m \<or> includeResponse) \<and> \<not> is_win m \<and> (includeNonObserver \<or> OBSERVER \<in> set (targets m))"

definition start_at :: "nat option \<Rightarrow> core_msg \<Rightarrow> core_msg" where
  "start_at pos m = (case (pos, m) of (Some p, StartMsg _) \<Rightarrow> StartMsg p | _ \<Rightarrow> m)"

definition toPlayback :: "(core_msg \<Rightarrow> nat list) \<Rightarrow> (core_msg \<Rightarrow> core_msg option) \<Rightarrow> bool \<Rightarrow> bool \<Rightarrow> nat option \<Rightarrow>
    duel_record \<Rightarrow> core_msg list" where
  "toPlayback targets cb includeResponse includeNonObserver startPos D =
     List.map_filter (\<lambda>m. if played_back targets includeResponse includeNonObserver m then cb (start_at startPos m) else None)
       (rec_messages D) @
     (case resolveObserverWinMsg D of Some w \<Rightarrow> [w]
      | None \<Rightarrow> (case find is_win (rec_messages D) of None \<Rightarrow> [] | Some w \<Rightarrow> [w]))"

end
