(* ===== verification/ClockProps.thy ===== *)
theory ClockProps
  imports DuelCore PhaseProps
begin

text \<open>
  The invariant of the clock of a duel: the time banks stay within their bounds, the response timer runs for the
  side that was asked, and every message and answer keeps it so. Theory \<open>DuelProps\<close> states what follows.
\<close>

subsection \<open>Steps of a duel\<close>

text \<open>A duel starts with full banks in a room that has reached it; then messages of the engine, answers, clock
  confirmations, the timer, returning players and every other step of the room follow in any order until the room
  leaves the duel.\<close>

definition under_way :: "table \<Rightarrow> bool" where
  "under_way T \<longleftrightarrow> phase (t_room T) = DUELING \<and> \<not> finalizing (lob (t_room T))"

inductive table_step :: "int \<Rightarrow> table \<Rightarrow> table \<Rightarrow> bool" where
  engine: "(\<forall>p reason. r = Engine (WinMsg p reason) \<longrightarrow> p \<le> 2) \<Longrightarrow> table_step now T (handleAdvanceResult targets r now T)"
| answer: "table_step now T (handleResponse taken response c now T)"
| confirm: "table_step now T (handleTimeConfirm c now T)"
| fires: "table_step now T (timer_fires now T)"
| resync: "table_step now T (table_resync targets c now T)"
| other: "room_step (t_room T) (f (t_room T)) \<Longrightarrow> table_step now T (ends_duel now f T)"

inductive table_run :: "table \<Rightarrow> bool" where
  started: "room_run (t_room T) \<Longrightarrow> under_way T \<Longrightarrow> table_run (resetResponseRequestState now T)"
| step: "table_run T \<Longrightarrow> under_way T \<Longrightarrow> table_step now T T' \<Longrightarrow> table_run T'"

subsection \<open>What operations do to the clock\<close>

named_theorems clock_simps

lemma on_clock_fields [clock_simps]:
  "clock (on_clock f T) = f (clock T)" "time_limit (on_clock f T) = time_limit T" "t_room (on_clock f T) = t_room T"
  "responseSide (on_clock f T) = responseSide T" "lastRequest (on_clock f T) = lastRequest T"
  by (simp_all add: on_clock_def)

lemma on_room_fields [clock_simps]:
  "clock (on_room f T) = clock T" "time_limit (on_room f T) = time_limit T" "t_room (on_room f T) = f (t_room T)"
  "responseSide (on_room f T) = responseSide T" "lastRequest (on_room f T) = lastRequest T"
  by (simp_all add: on_room_def)

lemma time_limit_message [clock_simps]:
  "clock (sendTimeLimitMessage pos only now T) = clock T" "time_limit (sendTimeLimitMessage pos only now T) = time_limit T"
  "responseSide (sendTimeLimitMessage pos only now T) = responseSide T"
  by (simp_all add: sendTimeLimitMessage_def clock_simps Let_def)

text \<open>A step leaves the clock alone, or it is one of the following.\<close>

definition clock_prompt :: "nat \<Rightarrow> bool \<Rightarrow> bool \<Rightarrow> nat \<Rightarrow> int \<Rightarrow> timer_state \<Rightarrow> timer_state" where
  "clock_prompt limit settle confirm pos now S =
     (let S1 = timer_clear settle now S
      in if limit = 0 \<or> pos > 1 \<or> leftMs S1 ! pos \<le> 0 then S1 else timer_schedule pos (leftMs S1 ! pos) confirm now S1)"

lemma timeout_without_timer: "runningPos (clock T) = None \<Longrightarrow> handleResponseTimeout pos now T = T"
  by (simp add: handleResponseTimeout_def)

lemma cleared [simp]: "runningPos (timer_clear b now S) = None" "timer (timer_clear b now S) = None"
  by (simp_all add: timer_clear_def Let_def)

lemma clock_setResponseTimer [clock_simps]:
  "clock (setResponseTimer settle confirm pos now T) = clock_prompt (time_limit T) settle confirm pos now (clock T)"
  "time_limit (setResponseTimer settle confirm pos now T) = time_limit T"
  by (simp_all add: setResponseTimer_def clock_prompt_def Let_def clock_simps timeout_without_timer max_def)

text \<open>A prompt for a team whose bank is empty starts no timer and ends nothing.\<close>

lemma empty_bank_is_not_timed:
  assumes "runningPos (clock T) = None" and "leftMs (clock T) ! pos = 0"
  shows "timer (clock (setResponseTimer settle confirm pos now T)) = None \<and>
    phase (t_room (setResponseTimer settle confirm pos now T)) = phase (t_room T)"
proof -
  have c: "leftMs (timer_clear settle now (clock T)) = leftMs (clock T)"
    using assms(1) by (simp add: timer_clear_def Let_def split: bool.split)
  have "timer (clock (setResponseTimer settle confirm pos now T)) = None"
    using assms(2) c by (simp add: clock_simps clock_prompt_def Let_def)
  moreover have "phase (t_room (setResponseTimer settle confirm pos now T)) = phase (t_room T)"
    using assms(2) c
    by (simp add: setResponseTimer_def Let_def clock_simps timeout_without_timer sendTimeLimitMessage_def)
  ultimately show ?thesis
    by simp
qed

subsection \<open>The banks\<close>

definition bank_ok :: "nat \<Rightarrow> timer_state \<Rightarrow> nat \<Rightarrow> bool" where
  "bank_ok limit S p \<longleftrightarrow> 0 \<le> leftMs S ! p \<and> leftMs S ! p \<le> maxTimeMs limit \<and> 0 \<le> compensatorMs S ! p \<and>
     0 \<le> backedMs S ! p \<and> 1000 dvd backedMs S ! p \<and>
     leftMs S ! p + compensatorMs S ! p + 2 * backedMs S ! p \<le> 4 * maxTimeMs limit"

definition banks :: "timer_state \<Rightarrow> bool" where
  "banks S \<longleftrightarrow> length (leftMs S) = 2 \<and> length (compensatorMs S) = 2 \<and> length (backedMs S) = 2"

definition timer_ok :: "nat \<Rightarrow> timer_state \<Rightarrow> bool" where
  "timer_ok limit S \<longleftrightarrow> (case timer S of None \<Rightarrow> runningPos S = None
     | Some due \<Rightarrow> limit > 0 \<and> (\<exists>p. runningPos S = Some p \<and> p \<le> 1 \<and> startedAtMs S < due \<and> due \<le> startedAtMs S + maxTimeMs limit))"

definition clock_ok :: "nat \<Rightarrow> timer_state \<Rightarrow> bool" where
  "clock_ok limit S \<longleftrightarrow> banks S \<and> timer_ok limit S \<and> (\<forall>p \<le> 1. bank_ok limit S p)"

lemma max_time: "0 \<le> maxTimeMs limit" "1000 dvd maxTimeMs limit"
  by (simp_all add: maxTimeMs_def)

lemma elapsed_nonneg: "0 \<le> elapsedMs now S"
  by (simp add: elapsedMs_def)

lemma at_pair: "p \<le> 1 \<Longrightarrow> [x, x] ! p = x" for p :: nat
  by (cases p) simp_all

lemma clock_ok_full:
  assumes "leftMs S = [maxTimeMs limit, maxTimeMs limit]" and "compensatorMs S = [maxTimeMs limit, maxTimeMs limit]"
    and "backedMs S = [maxTimeMs limit, maxTimeMs limit]" and "timer_ok limit S"
  shows "clock_ok limit S"
  using assms max_time [of limit] by (simp add: clock_ok_def banks_def bank_ok_def at_pair)

lemma clock_ok_reset: "clock_ok limit (timer_reset (maxTimeMs limit) now S)"
  by (rule clock_ok_full) (simp_all add: timer_reset_def timer_clear_def Let_def timer_ok_def)

lemma timer_ok_banks [simp]:
  "timer_ok limit (S\<lparr>leftMs := l\<rparr>) = timer_ok limit S" "timer_ok limit (S\<lparr>compensatorMs := c\<rparr>) = timer_ok limit S"
  "timer_ok limit (S\<lparr>awaitingConfirm := w\<rparr>) = timer_ok limit S"
  "timer_ok limit (S\<lparr>leftMs := l, compensatorMs := c, backedMs := b\<rparr>) = timer_ok limit S"
  by (simp_all add: timer_ok_def split: option.split)

lemma clock_ok_new_turn: "clock_ok limit S \<Longrightarrow> clock_ok limit (new_turn_time limit S)"
proof (cases "limit = 0")
  case False
  assume "clock_ok limit S"
  then have "timer_ok limit S"
    by (simp add: clock_ok_def)
  with False show ?thesis
    unfolding new_turn_time_def by (simp add: clock_ok_full)
qed (simp add: new_turn_time_def)

text \<open>Changing one entry of a bank.\<close>

lemma pair_update: "length xs = 2 \<Longrightarrow> p \<le> 1 \<Longrightarrow> xs[q := v] ! p = (if p = q then v else xs ! p)" for p :: nat
  by (cases "p = q") simp_all

definition lower_left :: "timer_state \<Rightarrow> nat \<Rightarrow> int \<Rightarrow> timer_state" where
  "lower_left S q v = S\<lparr>leftMs := (leftMs S)[q := v]\<rparr>"

lemma clock_ok_lower:
  assumes "clock_ok limit S" and "q \<le> 1 \<Longrightarrow> 0 \<le> v \<and> v \<le> leftMs S ! q"
  shows "clock_ok limit (lower_left S q v)"
proof -
  have "bank_ok limit (lower_left S q v) p" if "p \<le> 1" for p
  proof (cases "p = q")
    case True
    then show ?thesis
      using that assms by (auto simp: lower_left_def bank_ok_def clock_ok_def banks_def)
  next
    case False
    then show ?thesis
      using that assms by (simp add: lower_left_def bank_ok_def clock_ok_def)
  qed
  then show ?thesis
    using assms by (simp add: clock_ok_def lower_left_def banks_def)
qed

lemma clock_ok_stop:
  "clock_ok limit S \<Longrightarrow> clock_ok limit (S\<lparr>timer := None, runningPos := None, startedAtMs := t, awaitingConfirm := w\<rparr>)"
  by (simp add: clock_ok_def timer_ok_def banks_def bank_ok_def)

lemma left_nonneg: "clock_ok limit S \<Longrightarrow> p \<le> 1 \<Longrightarrow> 0 \<le> leftMs S ! p"
  by (simp add: clock_ok_def bank_ok_def)

lemma clock_ok_clear:
  assumes "clock_ok limit S"
  shows "clock_ok limit (timer_clear b now S)"
proof -
  have "clock_ok limit (lower_left S q (max 0 (leftMs S ! q - elapsedMs now S)))" for q
    by (rule clock_ok_lower [OF assms]) (use left_nonneg [OF assms, of q] elapsed_nonneg [of now S] in auto)
  then show ?thesis
    using assms
    by (auto simp: timer_clear_def Let_def lower_left_def [symmetric] intro!: clock_ok_stop split: bool.split option.split)
qed

lemma clock_ok_prompt:
  assumes "clock_ok limit S"
  shows "clock_ok limit (clock_prompt limit settle confirm pos now S)"
proof -
  define S1 where "S1 = timer_clear settle now S"
  have S1: "clock_ok limit S1"
    using clock_ok_clear [OF assms] by (simp add: S1_def)
  show ?thesis
  proof (cases "limit = 0 \<or> pos > 1 \<or> leftMs S1 ! pos \<le> 0")
    case True
    then show ?thesis
      using S1 by (auto simp: clock_prompt_def Let_def S1_def)
  next
    case False
    then have "leftMs S1 ! pos \<le> maxTimeMs limit"
      using S1 by (auto simp: clock_ok_def bank_ok_def)
    then have "clock_ok limit (timer_schedule pos (leftMs S1 ! pos) confirm now S1)"
      using S1 False by (auto simp: clock_ok_def banks_def bank_ok_def timer_ok_def timer_schedule_def)
    then show ?thesis
      using False by (simp add: clock_prompt_def Let_def S1_def)
  qed
qed

lemma clock_ok_increase:
  assumes "clock_ok limit S"
  shows "clock_ok limit (increaseResponseTime limit pos g r S)"
proof (cases "limit = 0 \<or> pos > 1 \<or> backedMs S ! pos \<le> 0 \<or> leftMs S ! pos \<ge> maxTimeMs limit \<or> \<not> canIncreaseTime g r")
  case True
  then show ?thesis
    using assms by (auto simp: increaseResponseTime_def)
next
  case False
  define S' where "S' = increaseResponseTime limit pos g r S"
  have S': "S' = S\<lparr>leftMs := (leftMs S)[pos := min (maxTimeMs limit) (leftMs S ! pos + 1000)],
      compensatorMs := (compensatorMs S)[pos := compensatorMs S ! pos + 1000],
      backedMs := (backedMs S)[pos := backedMs S ! pos - 1000]\<rparr>"
    using False by (simp add: S'_def increaseResponseTime_def)
  have b: "banks S" "bank_ok limit S pos" "timer_ok limit S"
    using assms False by (auto simp: clock_ok_def)
  then have "1000 \<le> backedMs S ! pos"
    using False by (auto simp: bank_ok_def intro: zdvd_imp_le)
  then have "bank_ok limit S' p" if "p \<le> 1" for p
    using that b assms False
    by (cases "p = pos") (auto simp: S' bank_ok_def clock_ok_def banks_def min_def)
  moreover have "banks S'" "timer_ok limit S'"
    using b by (simp_all add: S' banks_def)
  ultimately show ?thesis
    unfolding S'_def [symmetric] by (simp add: clock_ok_def)
qed

lemma clock_ok_charge:
  assumes "clock_ok limit S" and "pos \<le> 1" and "0 \<le> e"
  shows "clock_ok limit (charge_confirm pos e S)"
proof (cases "e < 10000 \<and> e \<le> compensatorMs S ! pos")
  case True
  then have S': "charge_confirm pos e S = S\<lparr>compensatorMs := (compensatorMs S)[pos := compensatorMs S ! pos - e], awaitingConfirm := False\<rparr>"
    by (simp add: charge_confirm_def)
  have "bank_ok limit (charge_confirm pos e S) p" if "p \<le> 1" for p
    using that assms True unfolding S' by (cases "p = pos") (auto simp: bank_ok_def clock_ok_def banks_def)
  then show ?thesis
    using assms unfolding S' by (simp add: clock_ok_def banks_def)
next
  case False
  then have "charge_confirm pos e S = (lower_left S pos (max 0 (leftMs S ! pos - e)))\<lparr>awaitingConfirm := False\<rparr>"
    by (auto simp: charge_confirm_def lower_left_def Let_def)
  moreover have "clock_ok limit (lower_left S pos (max 0 (leftMs S ! pos - e)))"
    by (rule clock_ok_lower [OF assms(1)]) (use left_nonneg [OF assms(1), of pos] assms(3) in auto)
  ultimately show ?thesis
    by (simp add: clock_ok_def banks_def bank_ok_def)
qed

subsection \<open>Every step keeps the clock\<close>

definition good :: "table \<Rightarrow> bool" where
  "good T \<longleftrightarrow> clock_ok (time_limit T) (clock T)"

lemma good_fields [simp]:
  "good (T\<lparr>lastRequest := m\<rparr>) = good T" "good (T\<lparr>isRetrying := b\<rparr>) = good T" "good (T\<lparr>responseSide := s\<rparr>) = good T"
  "good (T\<lparr>core_phase := c\<rparr>) = good T" "good (T\<lparr>deckReversed := b\<rparr>) = good T" "good (T\<lparr>responses := rs\<rparr>) = good T"
  "good (T\<lparr>messages := ms\<rparr>) = good T" "good (T\<lparr>t_room := R\<rparr>) = good T"
  by (simp_all add: good_def)

lemma good_on_room [simp]: "good (on_room f T) = good T"
  by (simp add: on_room_def)

lemma good_time_limit_message [simp]: "good (sendTimeLimitMessage pos only now T) = good T"
  by (simp add: good_def clock_simps)

lemma good_on_clock:
  "good T \<Longrightarrow> (\<And>S. clock_ok (time_limit T) S \<Longrightarrow> clock_ok (time_limit T) (f S)) \<Longrightarrow> good (on_clock f T)"
  by (simp add: good_def clock_simps)

lemma good_ends_duel: "good T \<Longrightarrow> good (ends_duel now f T)"
  by (auto simp: ends_duel_def Let_def intro!: good_on_clock clock_ok_clear)

lemma good_timeout: "good T \<Longrightarrow> good (handleResponseTimeout pos now T)"
proof -
  assume T: "good T"
  have "clock_ok limit ((timer_clear False now S)\<lparr>leftMs := (leftMs S)[pos := 0]\<rparr>)" if S: "clock_ok limit S" for limit S
  proof -
    have "clock_ok limit (lower_left (timer_clear False now S) pos 0)"
      by (rule clock_ok_lower [OF clock_ok_clear [OF S]]) (use left_nonneg [OF clock_ok_clear [OF S], of pos] in auto)
    then show ?thesis
      by (simp add: lower_left_def timer_clear_def)
  qed
  then have "good (on_clock (\<lambda>S. (timer_clear False now S)\<lparr>leftMs := (leftMs S)[pos := 0]\<rparr>) T)"
    by (rule good_on_clock [OF T])
  with T show ?thesis
    by (simp add: handleResponseTimeout_def Let_def good_ends_duel)
qed

lemma good_prompt: "good T \<Longrightarrow> good (setResponseTimer settle confirm pos now T)"
  by (simp add: good_def clock_simps clock_ok_prompt)

lemma good_fires: "good T \<Longrightarrow> good (timer_fires now T)"
  by (simp add: timer_fires_def good_timeout split: option.split)

lemma good_confirm: "good T \<Longrightarrow> good (handleTimeConfirm c now T)"
proof -
  assume T: "good T"
  have "good (on_clock (charge_confirm (getSideTeam (t_room T) s) (elapsedMs now (clock T))) T)" if "s \<le> 1" for s
    by (rule good_on_clock [OF T], rule clock_ok_charge) (use that in \<open>simp_all add: elapsed_nonneg getSideTeam_def\<close>)
  with T show ?thesis
    by (simp add: handleTimeConfirm_def rescheduleTimerAfterConfirm_def Let_def good_prompt split: option.split)
qed

lemma good_settle: "good T \<Longrightarrow> good (settle_answer team r now T)"
  by (auto simp: settle_answer_def intro!: good_on_clock clock_ok_increase clock_ok_clear)

lemma good_answer: "good T \<Longrightarrow> good (handleResponse taken r c now T)"
  by (simp add: handleResponse_def clearResponseRequestState_def Let_def good_ends_duel good_settle split: option.split)

lemma good_request: "good T \<Longrightarrow> good (handleResponseOrRetry m now T)"
  by (simp add: handleResponseOrRetry_def Let_def good_prompt split: core_msg.split option.split)

lemma good_route: "good T \<Longrightarrow> good (routeGameMsg targets m only now T)"
  by (simp add: routeGameMsg_def good_request)

lemma good_recorded [simp]: "good (recorded m T) = good T"
  by (simp add: recorded_def saveMessageToDuelRecord_def)

lemma good_react: "good T \<Longrightarrow> good (react m now T)"
  by (auto simp: react_def good_ends_duel intro!: good_on_clock clock_ok_new_turn split: core_msg.split)

lemma good_advance: "good T \<Longrightarrow> good (handleAdvanceResult targets r now T)"
proof -
  assume T: "good T"
  have "good (disposeWithTimeout now T')" if "good T'" for T'
    using that by (simp add: disposeWithTimeout_def good_on_clock clock_ok_clear)
  with T have "good (handleAdvanceError targets now T)"
    by (simp add: handleAdvanceError_def Let_def saveMessageToDuelRecord_def good_route)
  with T show ?thesis
    by (simp add: handleAdvanceResult_def process_message_def good_route good_react split: advance_result.split)
qed

lemma good_resync: "good T \<Longrightarrow> good (table_resync targets c now T)"
  by (simp add: table_resync_def sendReconnectTimeLimitAndResponseState_def resendResponseRequestToClient_def
      sendPhaseMessage_def Let_def good_prompt split: option.split)

lemma good_step: "table_step now T T' \<Longrightarrow> good T \<Longrightarrow> good T'"
  by (induction rule: table_step.induct)
     (simp_all add: good_advance good_answer good_confirm good_fires good_resync good_ends_duel)

lemma good_start: "good (resetResponseRequestState now T)"
  by (simp add: resetResponseRequestState_def) (simp add: good_def clock_simps clock_ok_reset)

lemma table_run_good: "table_run T \<Longrightarrow> good T"
  by (induction rule: table_run.induct) (auto simp: good_start dest: good_step)

end
