(* ===== verification/DuelProps.thy ===== *)
theory DuelProps
  imports ClockProps "HOL-Library.Sublist"
begin

text \<open>
  Properties of a duel under way: a clock that runs out loses the duel; a request is seen and answered only by
  the player whose turn it is to answer; an answer the engine rejects is taken back; what a reconnecting player
  and the spectators are shown.
\<close>

subsection \<open>Steps that only send\<close>

definition only_sends :: "(string \<times> frame \<Rightarrow> bool) \<Rightarrow> room \<Rightarrow> room \<Rightarrow> bool" where
  "only_sends P R R' \<longleftrightarrow> (\<exists>fs. R' = on_lobby (\<lambda>L. L\<lparr>sent := sent L @ fs\<rparr>) R \<and> (\<forall>x \<in> set fs. P x))"

lemma sends_nothing: "only_sends P R R"
  unfolding only_sends_def by (rule exI [of _ "[]"]) (simp add: on_lobby_def)

lemma sends_trans: "only_sends P R R' \<Longrightarrow> only_sends P R' R'' \<Longrightarrow> only_sends P R R''"
  unfolding only_sends_def
  by (elim exE conjE, rule_tac x = "fs @ fsa" in exI) (auto simp: on_lobby_def)

lemma sends_tell: "P (sock_id (c_socket c), f) \<Longrightarrow> only_sends P R (tell c f R)"
  unfolding only_sends_def
  by (rule exI [of _ "[(sock_id (c_socket c), f)]"]) (simp add: tell_def on_lobby_def send_client_def send_socket_def)

lemma sends_fold:
  "(\<And>x M. x \<in> set xs \<Longrightarrow> only_sends P R M \<Longrightarrow> only_sends P M (g x M)) \<Longrightarrow> only_sends P R (fold g xs R)"
proof (induction xs rule: rev_induct)
  case (snoc x xs)
  then have "only_sends P R (fold g xs R)"
    by simp
  with snoc.prems [of x "fold g xs R"] show ?case
    using sends_trans by simp
qed (simp add: sends_nothing)

lemma tell_all_fold: "tell_all cs f R = fold (\<lambda>c. tell c f) cs R"
proof -
  have "fold (\<lambda>c. tell c f) cs R = on_lobby (fold (\<lambda>c. send_client c f) cs) R"
    by (induction cs arbitrary: R) (simp_all add: tell_def on_lobby_def)
  then show ?thesis
    by (simp add: tell_all_def)
qed

lemma sends_tell_all: "(\<And>c. c \<in> set cs \<Longrightarrow> P (sock_id (c_socket c), f)) \<Longrightarrow> only_sends P R (tell_all cs f R)"
  unfolding tell_all_fold by (rule sends_fold) (rule sends_tell, simp)

text \<open>What sending leaves alone.\<close>

lemma sends_keep:
  assumes "only_sends P R R'"
  shows "players (lob R') = players (lob R)" "getActivePlayer R' s = getActivePlayer R s" "getTeamSide R' t = getTeamSide R t"
    "getSideTeam R' s = getSideTeam R s" "getTeamPlayers t (lob R') = getTeamPlayers t (lob R)" "core R' = core R"
    "phase R' = phase R" "room_match (lob R') = room_match (lob R)" "finalizing (lob R') = finalizing (lob R)"
    "turn R' = turn R"
proof -
  obtain fs where R': "R' = on_lobby (\<lambda>L. L\<lparr>sent := sent L @ fs\<rparr>) R"
    using assms by (auto simp: only_sends_def)
  show k: "players (lob R') = players (lob R)" "getTeamSide R' t = getTeamSide R t"
    "getSideTeam R' s = getSideTeam R s" "getTeamPlayers t (lob R') = getTeamPlayers t (lob R)" "core R' = core R"
    "phase R' = phase R" "room_match (lob R') = room_match (lob R)" "finalizing (lob R') = finalizing (lob R)"
    and t: "turn R' = turn R"
    unfolding R' by (simp_all add: on_lobby_def getTeamSide_def getSideTeam_def getTeamPlayers_def turn_def phase_def)
  have g: "isTag R' = isTag R"
    unfolding R' by (simp add: on_lobby_def isTag_def)
  show "getActivePlayer R' s = getActivePlayer R s"
    by (simp only: getActivePlayer_def k(1,3) t g)
qed

lemma sends_weaken: "only_sends P R R' \<Longrightarrow> (\<And>x. P x \<Longrightarrow> Q x) \<Longrightarrow> only_sends Q R R'"
  by (auto simp: only_sends_def)

lemma sends_fields [simp]: "t_room (T\<lparr>lastRequest := x, isRetrying := b, responseSide := s\<rparr>) = t_room T"
  by simp

text \<open>A prompt sends the time that is left and ends nothing: the timer it might end was stopped just before.\<close>

lemma prompt_sends:
  assumes "\<And>k p n. P (k, TimeLimit p n)"
  shows "only_sends P (t_room T) (t_room (setResponseTimer settle confirm pos now T))"
    and "responseSide (setResponseTimer settle confirm pos now T) = responseSide T"
proof -
  have "only_sends P (t_room M) (t_room (sendTimeLimitMessage pos' only now M))" for M pos' only
    by (simp add: sendTimeLimitMessage_def Let_def clock_simps sends_nothing sends_tell_all assms)
  then show "only_sends P (t_room T) (t_room (setResponseTimer settle confirm pos now T))"
    by (simp add: setResponseTimer_def Let_def clock_simps timeout_without_timer sends_nothing) (metis clock_simps(3))
  show "responseSide (setResponseTimer settle confirm pos now T) = responseSide T"
    by (simp add: setResponseTimer_def Let_def clock_simps timeout_without_timer)
qed

lemma deliver_sends: "only_sends (\<lambda>_. True) R (deliverToTargets targets m only R)"
proof -
  have 1: "only_sends (\<lambda>_. True) M (deliver_one m only c M)" for c M
    by (simp add: deliver_one_def sends_nothing sends_tell)
  have "only_sends (\<lambda>_. True) M (deliver_at m only p M)" for p M
    unfolding deliver_at_def by (simp add: sends_tell_all sends_fold 1)
  then show ?thesis
    unfolding deliverToTargets_def by (rule sends_fold)
qed

lemma route_sends: "only_sends (\<lambda>_. True) (t_room T) (t_room (routeGameMsg targets m only now T))"
proof -
  define M where "M = on_room (deliverToTargets targets m only) T"
  have M: "only_sends (\<lambda>_. True) (t_room T) (t_room M)"
    by (simp add: M_def clock_simps deliver_sends)
  have w: "only_sends (\<lambda>_. True) (t_room M) (t_room (setResponseTimer True True pos now (on_room (sendWaitingToNonOperator side) N)))"
    if "t_room N = t_room M" for pos side N
    by (rule sends_trans [OF _ prompt_sends(1)])
       (simp_all add: clock_simps that sendWaitingToNonOperator_def sends_tell_all)
  have "only_sends (\<lambda>_. True) (t_room M) (t_room (handleResponseOrRetry m now M))"
    by (auto simp: handleResponseOrRetry_def Let_def sends_nothing intro!: w split: core_msg.split option.split)
  with M show ?thesis
    unfolding routeGameMsg_def M_def [symmetric] by (rule sends_trans)
qed

lemma resync_sends: "only_sends (\<lambda>_. True) (t_room T) (t_room (table_resync targets c now T))"
proof -
  have tl: "only_sends (\<lambda>_. True) (t_room M) (t_room (sendTimeLimitMessage pos x now M))" for M pos x
    by (simp add: sendTimeLimitMessage_def Let_def clock_simps sends_nothing sends_tell_all)
  have tell1: "only_sends (\<lambda>_. True) R (tell c' f R)" for c' f R
    by (rule sends_tell) simp
  define T3 where "T3 = on_room (tell c BoardState) (sendPhaseMessage c (on_room (sendTurnMessages c)
      (on_room (\<lambda>R. tell c (GameMsg (StartMsg (getTeamSide R (c_team c))) ObserverView) (tell c DuelStart R)) T)))"
  have "only_sends (\<lambda>_. True) (t_room M) (t_room (sendPhaseMessage c M))" for M
    by (simp add: sendPhaseMessage_def clock_simps sends_nothing tell1 split: option.split)
  moreover have "only_sends (\<lambda>_. True) R (sendTurnMessages c R)" for R
    unfolding sendTurnMessages_def by (rule sends_fold) (rule tell1)
  ultimately have three: "only_sends (\<lambda>_. True) R (t_room (on_room (tell c g) (sendPhaseMessage c (on_room (sendTurnMessages c) N))))"
    if "only_sends (\<lambda>_. True) R (t_room N)" for R N g
    using sends_trans [OF sends_trans [OF that, of "sendTurnMessages c (t_room N)"]] tell1 by (metis on_room_fields(3) sends_trans)
  have 3: "only_sends (\<lambda>_. True) (t_room T) (t_room T3)"
    unfolding T3_def by (rule three) (simp add: clock_simps, rule sends_trans [OF tell1 tell1])
  have rr: "only_sends (\<lambda>_. True) (t_room M) (t_room (resendResponseRequestToClient c now M))" for M
    by (auto simp: resendResponseRequestToClient_def sends_nothing intro!: sends_trans [OF _ prompt_sends(1)] split: option.split)
       (simp add: clock_simps tell1)
  define T4 where "T4 = sendTimeLimitMessage (1 - (case responsePlayer T3 of None \<Rightarrow> c_team c | Some p \<Rightarrow> c_team p)) (Some c) now T3"
  have 4: "only_sends (\<lambda>_. True) (t_room T3) (t_room T4)"
    unfolding T4_def by (rule tl)
  define H where "H = (case findLastHintForClient targets c T4 of None \<Rightarrow> T4
      | Some h \<Rightarrow> on_room (tell c (GameMsg h (PlayerView (getTeamSide (t_room T4) (c_team c))))) T4)"
  have "only_sends (\<lambda>_. True) (t_room T4) (t_room H)"
    by (simp add: H_def clock_simps sends_nothing tell1 split: option.split)
  then have h: "only_sends (\<lambda>_. True) (t_room T4) (t_room (resendResponseRequestToClient c now H))"
    by (rule sends_trans [OF _ rr])
  have w: "only_sends (\<lambda>_. True) (t_room T4) (t_room (sendTimeLimitMessage pos x now (on_room (tell c WaitingMsg) T4)))" for pos x
    by (rule sends_trans [OF _ tl]) (simp add: clock_simps tell1)
  have "only_sends (\<lambda>_. True) (t_room T4) (t_room (sendReconnectTimeLimitAndResponseState targets c now T3))"
    unfolding sendReconnectTimeLimitAndResponseState_def Let_def T4_def [symmetric] H_def [symmetric] using h w by simp
  then show ?thesis
    using sends_trans [OF sends_trans [OF 3 4]] by (simp add: table_resync_def Let_def T3_def)
qed

lemma off_commutes: "(on_lobby f R)\<lparr>core := False\<rparr> = on_lobby f (R\<lparr>core := False\<rparr>)"
  by (cases R) (simp add: on_lobby_def)

lemma error_sends:
  "only_sends (\<lambda>_. True) ((t_room T)\<lparr>core := False\<rparr>) (t_room (handleAdvanceError targets now T))" if "core (t_room T)"
proof -
  define R1 where "R1 = tell_all (clients (lob (t_room T))) (RedChat ''The duel has ended in a draw due to a server error.'') (t_room T)"
  have 1: "only_sends (\<lambda>_. True) (t_room T) R1"
    unfolding R1_def by (rule sends_tell_all) simp
  then have c: "core R1"
    using sends_keep(6) that by blast
  have 2: "only_sends (\<lambda>_. True) ((t_room T)\<lparr>core := False\<rparr>) (R1\<lparr>core := False\<rparr>)"
    using 1 off_commutes by (auto simp: only_sends_def)
  have "t_room (handleAdvanceError targets now T) = deliverToTargets targets draw_by_error None (R1\<lparr>core := False\<rparr>)"
    using c by (simp add: handleAdvanceError_def Let_def routeGameMsg_def handleResponseOrRetry_def draw_by_error_def
        disposeWithTimeout_def saveMessageToDuelRecord_def R1_def [symmetric] on_room_def on_clock_def split: option.split)
  then show ?thesis
    using sends_trans [OF 2 deliver_sends] by simp
qed

lemma settle_keeps: "responseSide (settle_answer t r now T) = responseSide T" "t_room (settle_answer t r now T) = t_room T"
  "responses (settle_answer t r now T) = responses T"
  by (simp_all add: settle_answer_def on_clock_def)

subsection \<open>A duel under way is a run of its room\<close>

lemma room_sends:
  assumes "only_sends P R R'" and "room_run R" and "\<not> finalizing (lob R)"
  shows "room_run R'"
  using room_run.step [OF assms(2,3) room_step.sends] assms(1) by (auto simp: only_sends_def)

text \<open>A reaction of the room to a message that is not a result.\<close>

lemma react_room:
  assumes "under_way T" and "\<not> is_win m"
  shows "t_room (react m now T) = t_room T \<or> room_step (t_room T) (t_room (react m now T)) \<and>
    \<not> finalizing (lob (t_room (react m now T)))"
proof -
  have "finalizing (lob (on_new_turn p R)) = finalizing (lob R)" for p R
    by (rule nf_same) simp
  moreover have "finalizing (lob (on_damage p v R)) = finalizing (lob R)" "finalizing (lob (on_recover p v R)) = finalizing (lob R)"
    "finalizing (lob (on_pay_cost p v R)) = finalizing (lob R)" for p v R
    by (rule nf_same, simp)+
  ultimately show ?thesis
    using assms by (cases m) (simp_all add: react_def clock_simps is_win_def under_way_def room_step.intros)
qed

lemma recorded_room [simp]: "t_room (recorded m T) = t_room T"
  by (simp add: recorded_def saveMessageToDuelRecord_def)

lemma ends_duel_room [simp]: "t_room (ends_duel now f T) = f (t_room T)"
  by (simp add: ends_duel_def Let_def clock_simps)

lemma timeout_room: "t_room (handleResponseTimeout p now T) = t_room T \<or>
    t_room (handleResponseTimeout p now T) = finish_by_timeout (sideMinutes T) (encodable T) p (t_room T)"
  by (simp add: handleResponseTimeout_def Let_def clock_simps)

lemma advance_room:
  assumes "under_way T" and "room_run (t_room T)" and "\<forall>p reason. r = Engine (WinMsg p reason) \<longrightarrow> p \<le> 2"
  shows "room_run (t_room (handleAdvanceResult targets r now T))"
proof (cases "core (t_room T)")
  case True
  have u: "phase (t_room T) = DUELING" "\<not> finalizing (lob (t_room T))"
    using assms(1) by (simp_all add: under_way_def)
  have err: "room_run (t_room (handleAdvanceError targets now T))"
    by (rule room_sends [OF error_sends [OF True]])
       (use u room_run.step [OF assms(2) u(2) room_step.engine_gone] in simp_all)
  have msg: "room_run (t_room (process_message targets m now T))" if "r = Engine m" for m
  proof (cases "is_win m")
    case win: True
    then obtain p reason where m: "m = WinMsg p reason"
      by (cases m) (simp_all add: is_win_def)
    have "room_step (t_room T) (handleWinCondition (sideMinutes T) (encodable T) p reason (t_room T))"
      using assms(3) that m u(1) by (intro room_step.won) simp_all
    then show ?thesis
      using room_run.step [OF assms(2) u(2)]
      by (simp add: process_message_def m is_win_def react_def)
         (simp add: recorded_def saveMessageToDuelRecord_def)
  next
    case False
    have "room_run (t_room (react m now T)) \<and> \<not> finalizing (lob (t_room (react m now T)))"
      using react_room [OF assms(1) False, of now] assms(2) u(2) room_run.step by auto
    then show ?thesis
      using False room_sends [OF route_sends] by (simp add: process_message_def)
  qed
  show ?thesis
    using True err msg assms(2) by (simp add: handleAdvanceResult_def split: advance_result.split)
qed (use assms(2) in \<open>simp add: handleAdvanceResult_def\<close>)

lemma answer_room:
  assumes "under_way T" and "room_run (t_room T)"
  shows "room_run (t_room (handleResponse taken r c now T))"
proof -
  have "t_room (handleResponse taken r c now T) \<in> {t_room T, setDuelFinished (t_room T)}"
    by (simp add: handleResponse_def Let_def clearResponseRequestState_def settle_keeps split: option.split)
  then show ?thesis
    using assms room_run.step [OF assms(2) _ room_step.engine_failed] by (auto simp: under_way_def)
qed

lemma confirm_room: "only_sends (\<lambda>_. True) (t_room T) (t_room (handleTimeConfirm c now T))"
  using prompt_sends(1) [of "\<lambda>_. True" "on_clock f T" for f]
  by (simp add: handleTimeConfirm_def rescheduleTimerAfterConfirm_def Let_def sends_nothing clock_simps split: option.split)

lemma table_step_room:
  assumes "table_step now T T'" and "under_way T" and "room_run (t_room T)"
  shows "room_run (t_room T')"
  using assms
proof (induction rule: table_step.induct)
  case (fires now T)
  then have "t_room (timer_fires now T) = t_room T \<or>
      (\<exists>p. t_room (timer_fires now T) = finish_by_timeout (sideMinutes T) (encodable T) p (t_room T))"
    using timeout_room by (auto simp: timer_fires_def split: option.split)
  then show ?case
    using fires room_run.step [OF fires(2) _ room_step.timeout] by (auto simp: under_way_def)
next
  case (other T f now)
  then show ?case
    using room_run.step by (auto simp: under_way_def)
qed (auto simp: advance_room answer_room under_way_def intro: room_sends [OF resync_sends] room_sends [OF confirm_room])

lemma duels_room: "table_run T \<Longrightarrow> room_run (t_room T)"
proof (induction rule: table_run.induct)
  case (started T now)
  then show ?case
    by (simp add: resetResponseRequestState_def clock_simps)
next
  case (step T now T')
  then show ?case
    using table_step_room by blast
qed

text \<open>C27. What the wrapper of the engine does to a room are steps of the room: in every duel under way - messages
  of the engine, answers, confirmations, the timer, returning players, an engine that fails, and any other step of
  the room in between - the room stays one that the match protocol reaches, so that a duel never leaves the match
  machine and publishes no result the match does not have.\<close>

theorem duels_keep_the_match_protocol:
  assumes "table_run T"
  shows "room_run (t_room T) \<and> life_inv (life_of (t_room T))"
  using duels_room [OF assms] room_run_inv by blast

subsection \<open>The clocks\<close>

text \<open>C26. While a duel is under way, the clock of each team stays between 0 and the host's limit, what a team
  can still spend in the turn (its bank, its compensation and what it may earn back) never exceeds four times the
  limit, a running timer belongs to one of the two teams and fires within the limit, and without a limit no
  timer runs.\<close>

theorem clocks_stay_within_the_limit:
  assumes "table_run T" and "team \<le> 1"
  shows "0 \<le> leftMs (clock T) ! team \<and> leftMs (clock T) ! team \<le> maxTimeMs (time_limit T) \<and>
    0 \<le> compensatorMs (clock T) ! team \<and> 0 \<le> backedMs (clock T) ! team \<and>
    leftMs (clock T) ! team + compensatorMs (clock T) ! team + 2 * backedMs (clock T) ! team \<le> 4 * maxTimeMs (time_limit T) \<and>
    (case timer (clock T) of None \<Rightarrow> runningPos (clock T) = None
     | Some due \<Rightarrow> time_limit T > 0 \<and> (\<exists>p \<le> 1. runningPos (clock T) = Some p) \<and>
         due \<le> startedAtMs (clock T) + maxTimeMs (time_limit T))"
proof -
  have "good T"
    by (rule table_run_good [OF assms(1)])
  then show ?thesis
    using assms(2) by (auto simp: good_def clock_ok_def bank_ok_def timer_ok_def split: option.splits)
qed

subsection \<open>A clock that runs out\<close>

lemma win_ends_the_duel:
  assumes "room_run R" and "\<not> finalizing (lob R)" and "phase R = DUELING"
  shows "\<exists>m. room_match (lob R) = Some m \<and>
    room_match (lob (handleWinCondition mins enc player reason R)) =
      Some (duelWinner (toIngamePosition R player) (turn R) (connections R) m) \<and>
    (phase (handleWinCondition mins enc player reason R) = SIDE_DECKING \<or>
     finalizing (lob (handleWinCondition mins enc player reason R)))"
proof -
  let ?R' = "handleWinCondition mins enc player reason R"
  obtain m where m: "l_match (life_of R) = Some m" and
    l: "life_of ?R' = (let m' = duelWinner (toIngamePosition R player) (turn R) (connections R) m
      in if decided (l_single (life_of R)) m' then publish ((life_of R)\<lparr>l_match := Some m', l_open := False\<rparr>)
         else (life_of R)\<lparr>l_phase := Siding, l_match := Some m', l_open := False\<rparr>)"
    using win_outcome [OF assms(2,3) room_run_inv [OF assms(1)] refl, of player mins enc reason] by (auto simp: Let_def)
  then have "l_match (life_of ?R') = Some (duelWinner (toIngamePosition R player) (turn R) (connections R) m)"
    by (simp add: Let_def publish_def)
  moreover have "l_phase (life_of ?R') = Siding \<or> l_closed (life_of ?R')"
    using l by (simp add: Let_def publish_def)
  then have "phase ?R' = SIDE_DECKING \<or> finalizing (lob ?R')"
    by (cases "phase ?R'") (simp_all add: life_fields)
  ultimately show ?thesis
    using m by (auto simp: life_fields)
qed

lemma ingame_of_side: "t \<le> 1 \<Longrightarrow> toIngamePosition R (getTeamSide R t) = t"
  by (auto simp: toIngamePosition_def getTeamSide_def)

lemma timer_runs_out:
  assumes "table_run T" and "under_way T" and "timer (clock T) = Some due" and "runningPos (clock T) = Some team"
  shows "now < due \<Longrightarrow> timer_fires now T = T"
    and "due \<le> now \<Longrightarrow> \<exists>m. room_match (lob (t_room T)) = Some m \<and>
      room_match (lob (t_room (timer_fires now T))) =
        Some (duelWinner (1 - team) (turn (t_room T)) (connections (t_room T)) m) \<and>
      (phase (t_room (timer_fires now T)) = SIDE_DECKING \<or> finalizing (lob (t_room (timer_fires now T)))) \<and>
      responseSide (timer_fires now T) = None \<and> timer (clock (timer_fires now T)) = None \<and>
      runningPos (clock (timer_fires now T)) = None"
proof -
  show "now < due \<Longrightarrow> timer_fires now T = T"
    using assms(3,4) by (simp add: timer_fires_def)
  have "clock_ok (time_limit T) (clock T)"
    using table_run_good [OF assms(1)] by (simp add: good_def)
  then have team: "team \<le> 1"
    using assms(3,4) by (auto simp: clock_ok_def timer_ok_def)
  have run: "room_run (t_room T)" "\<not> finalizing (lob (t_room T))" "phase (t_room T) = DUELING"
    using duels_room [OF assms(1)] assms(2) by (simp_all add: under_way_def)
  assume due: "due \<le> now"
  define T2 where "T2 = (on_clock (\<lambda>S. (timer_clear False now S)\<lparr>leftMs := (leftMs S)[team := 0]\<rparr>) T)\<lparr>responseSide := None\<rparr>"
  have T2: "t_room T2 = t_room T" "timer (clock T2) = None" "runningPos (clock T2) = None" "responseSide T2 = None"
    by (simp_all add: T2_def clock_simps)
  have f: "timer_fires now T = ends_duel now (finish_by_timeout (sideMinutes T) (encodable T) team) T2"
    using due assms(3,4) by (simp add: timer_fires_def handleResponseTimeout_def T2_def Let_def)
  have r: "t_room (timer_fires now T) = finish_by_timeout (sideMinutes T) (encodable T) team (t_room T)"
    "responseSide (timer_fires now T) = None" "timer (clock (timer_fires now T)) = None"
    "runningPos (clock (timer_fires now T)) = None"
    using T2 by (simp_all add: f ends_duel_def Let_def clock_simps)
  show "\<exists>m. room_match (lob (t_room T)) = Some m \<and>
      room_match (lob (t_room (timer_fires now T))) =
        Some (duelWinner (1 - team) (turn (t_room T)) (connections (t_room T)) m) \<and>
      (phase (t_room (timer_fires now T)) = SIDE_DECKING \<or> finalizing (lob (t_room (timer_fires now T)))) \<and>
      responseSide (timer_fires now T) = None \<and> timer (clock (timer_fires now T)) = None \<and>
      runningPos (clock (timer_fires now T)) = None"
    using win_ends_the_duel [OF run, of "sideMinutes T" "encodable T" "getTeamSide (t_room T) (1 - team)" 3]
      ingame_of_side [of "1 - team" "t_room T"] r team
    by (simp add: finish_by_timeout_def)
qed


subsection \<open>Who is asked\<close>

definition asked :: "room \<Rightarrow> nat \<Rightarrow> core_msg \<Rightarrow> string \<times> frame \<Rightarrow> bool" where
  "asked R side m x \<longleftrightarrow> (\<forall>m' v. snd x = GameMsg m' v \<longrightarrow> m' = m \<and> v = PlayerView side \<and>
     (\<exists>c \<in> set (players (lob R)). fst x = sock_id (c_socket c) \<and> same_client c (getActivePlayer R side)))"

lemma asked_others [simp]: "asked R side m (k, WaitingMsg)" "asked R side m (k, TimeLimit p n)"
  by (simp_all add: asked_def)

lemma side_of_side: "s \<le> 1 \<Longrightarrow> getTeamSide R (getSideTeam R s) = s"
  by (auto simp: getTeamSide_def getSideTeam_def)

lemma deliver_request:
  assumes "is_request m" and "side \<le> 1"
  shows "only_sends (asked R side m) R (deliver_at m None side R)"
proof -
  have "only_sends (asked R side m) M (deliver_one m None c M)"
    if c: "c \<in> set (getTeamPlayers (getSideTeam R side) (lob R))" and M: "only_sends (asked R side m) R M" for c M
  proof -
    have c': "c \<in> set (players (lob R))" "c_team c = getSideTeam R side"
      using c by (auto simp: getTeamPlayers_def)
    have s: "getTeamSide M (c_team c) = side"
      using sends_keep(3) [OF M] side_of_side [OF assms(2)] c'(2) by simp
    show ?thesis
    proof (cases "same_client c (getActivePlayer R side)")
      case True
      then have "asked R side m (sock_id (c_socket c), GameMsg m (view_for M c))"
        using c'(1) s sends_keep(2) [OF M] by (auto simp: asked_def view_for_def)
      then show ?thesis
        using True s sends_keep(2) [OF M] by (simp add: deliver_one_def sends_tell)
    next
      case False
      then show ?thesis
        using s sends_keep(2) [OF M] assms(1) by (simp add: deliver_one_def sends_nothing)
    qed
  qed
  then have "only_sends (asked R side m) R (fold (deliver_one m None) (getTeamPlayers (getSideTeam R side) (lob R)) R)"
    by (rule sends_fold)
  then show ?thesis
    using assms(2) by (simp add: deliver_at_def OBSERVER_def getPlayersAtIngamePosition_def)
qed

lemma route_request:
  assumes "targets (Request i side) = [side]" and "side \<le> 1"
  shows "only_sends (asked (t_room T) side (Request i side)) (t_room T) (t_room (routeGameMsg targets (Request i side) None now T))"
    and "responseSide (routeGameMsg targets (Request i side) None now T) = Some side"
proof -
  let ?m = "Request i side" and ?A = "asked (t_room T) side (Request i side)"
  define R1 where "R1 = deliver_at ?m None side (t_room T)"
  have 1: "only_sends ?A (t_room T) R1"
    unfolding R1_def by (rule deliver_request [OF _ assms(2)]) simp
  have 2: "only_sends ?A R1 (sendWaitingToNonOperator side R1)"
    unfolding sendWaitingToNonOperator_def by (rule sends_tell_all) simp
  define T1 where "T1 = on_room (sendWaitingToNonOperator side) ((on_room (deliverToTargets targets ?m None) T)
    \<lparr>lastRequest := Some ?m, isRetrying := False, responseSide := Some side\<rparr>)"
  have r: "routeGameMsg targets ?m None now T =
      setResponseTimer True True (getSideTeam (t_room (on_room (deliverToTargets targets ?m None) T)) side) now T1"
    by (simp add: routeGameMsg_def handleResponseOrRetry_def Let_def T1_def)
  have T1: "t_room T1 = sendWaitingToNonOperator side R1" "responseSide T1 = Some side"
    using assms(1) by (simp_all add: T1_def clock_simps deliverToTargets_def R1_def)
  show "only_sends ?A (t_room T) (t_room (routeGameMsg targets ?m None now T))"
    unfolding r
    by (rule sends_trans [OF sends_trans [OF 1 2, folded T1(1)] prompt_sends(1)]) simp
  show "responseSide (routeGameMsg targets ?m None now T) = Some side"
    unfolding r prompt_sends(2) [of "\<lambda>_. True", simplified] by (rule T1(2))
qed

lemma asked_and_answering:
  assumes "targets (Request i side) = [side]" and "side \<le> 1"
    and "T' = routeGameMsg targets (Request i side) None now T"
  shows "\<exists>fs. sent (lob (t_room T')) = sent (lob (t_room T)) @ fs \<and>
      (\<forall>k m v. (k, GameMsg m v) \<in> set fs \<longrightarrow> m = Request i side \<and> v = PlayerView side \<and>
        (\<exists>c \<in> set (players (lob (t_room T))). k = sock_id (c_socket c) \<and> same_client c (getActivePlayer (t_room T) side)))"
    and "\<not> same_client c (getActivePlayer (t_room T) side) \<Longrightarrow>
      handleResponse taken response c later T' = T' \<and> handleTimeConfirm c later T' = T'"
proof -
  have r: "only_sends (asked (t_room T) side (Request i side)) (t_room T) (t_room T')" "responseSide T' = Some side"
    using route_request [where targets = targets and i = i and side = side, OF assms(1,2)] assms(3) by simp_all
  then show "\<exists>fs. sent (lob (t_room T')) = sent (lob (t_room T)) @ fs \<and>
      (\<forall>k m v. (k, GameMsg m v) \<in> set fs \<longrightarrow> m = Request i side \<and> v = PlayerView side \<and>
        (\<exists>c \<in> set (players (lob (t_room T))). k = sock_id (c_socket c) \<and> same_client c (getActivePlayer (t_room T) side)))"
    by (force simp: only_sends_def asked_def on_lobby_def)
  assume "\<not> same_client c (getActivePlayer (t_room T) side)"
  then have "map_option c_id (responsePlayer T') \<noteq> Some (c_id c)"
    using sends_keep(2) [OF r(1)] r(2) by (simp add: responsePlayer_def same_client_def)
  then show "handleResponse taken response c later T' = T' \<and> handleTimeConfirm c later T' = T'"
    by (auto simp: handleResponse_def handleTimeConfirm_def split: option.split)
qed


subsection \<open>Answers the engine rejects, and an engine that fails\<close>

lemma answered:
  assumes "responseSide T = Some side" and "same_client c (getActivePlayer (t_room T) side)" and "core (t_room T)"
  shows "responses (handleResponse True r c now T) = responses T @ [r]"
    "responseSide (handleResponse True r c now T) = Some side" "t_room (handleResponse True r c now T) = t_room T"
    "lastRequest (handleResponse True r c now T) = None"
  using assms
  by (simp_all add: handleResponse_def Let_def responsePlayer_def same_client_def clearResponseRequestState_def settle_keeps)

lemma prompt_keeps:
  "responses (setResponseTimer settle confirm pos now T) = responses T"
  "lastRequest (setResponseTimer settle confirm pos now T) = lastRequest T"
  "isRetrying (setResponseTimer settle confirm pos now T) = isRetrying T"
  by (simp_all add: setResponseTimer_def Let_def clock_simps timeout_without_timer sendTimeLimitMessage_def)
     (simp_all add: on_clock_def on_room_def)

lemma retried:
  assumes "responseSide T = Some side"
  shows "responses (routeGameMsg targets Retry None now T) = butlast (responses T)"
    "responseSide (routeGameMsg targets Retry None now T) = Some side"
    "lastRequest (routeGameMsg targets Retry None now T) = lastRequest T"
    "isRetrying (routeGameMsg targets Retry None now T)"
proof -
  define M where "M = on_room (deliverToTargets targets Retry None) T"
  define T1 where "T1 = on_room (sendWaitingToNonOperator side) (M\<lparr>responses := butlast (responses M), isRetrying := True\<rparr>)"
  have M: "responseSide M = Some side" "responses M = responses T" "lastRequest M = lastRequest T"
    using assms by (simp_all add: M_def on_room_def)
  have r: "routeGameMsg targets Retry None now T = setResponseTimer True True (getSideTeam (t_room M) side) now T1"
    using M(1) by (simp add: routeGameMsg_def M_def [symmetric] handleResponseOrRetry_def Let_def T1_def)
  have T1: "responses T1 = butlast (responses T)" "responseSide T1 = Some side" "lastRequest T1 = lastRequest T" "isRetrying T1"
    using M by (simp_all add: T1_def on_room_def)
  show "responses (routeGameMsg targets Retry None now T) = butlast (responses T)"
    "lastRequest (routeGameMsg targets Retry None now T) = lastRequest T"
    "isRetrying (routeGameMsg targets Retry None now T)"
    unfolding r prompt_keeps using T1 by simp_all
  show "responseSide (routeGameMsg targets Retry None now T) = Some side"
    unfolding r prompt_sends(2) [of "\<lambda>_. True", simplified] by (rule T1(2))
qed

text \<open>An answer the engine rejects is taken back: after the answer of the player who was asked and the retry
  message of the engine, the record of answers is the one before, and the same side is asked. While the retry
  lasts, though, no request is on record, so a player who reconnects in it is sent no prompt, and whatever is
  answered earns time back.\<close>

theorem rejected_answer_is_taken_back:
  assumes "responseSide T = Some side" and "same_client c (getActivePlayer (t_room T) side)" and "core (t_room T)"
    and "T' = routeGameMsg targets Retry None later (handleResponse True r c now T)"
  shows "responses T' = responses T \<and> responseSide T' = Some side \<and>
    resendResponseRequestToClient c' again T' = T' \<and> canIncreaseTime (answered_msg T') r'"
proof -
  have "canIncreaseTime 2 r'"
    by (simp add: canIncreaseTime_def MSG_RETRY_def MSG_SELECT_UNSELECT_CARD_def MSG_SELECT_CHAIN_def
        MSG_SELECT_IDLECMD_def MSG_SELECT_BATTLECMD_def)
  then show ?thesis
    using answered [OF assms(1-3), of r now] retried [of "handleResponse True r c now T" side targets later] assms(4)
    by (simp add: resendResponseRequestToClient_def answered_msg_def)
qed


subsection \<open>Playing a duel back\<close>

lemma start_at_views: "is_request (start_at p m) = is_request m" "is_win (start_at p m) = is_win m"
  by (cases m; cases p; simp add: start_at_def is_win_def)+

lemma swap_twice: "length xs = 2 \<or> length xs = 4 \<Longrightarrow> toSwappedPlayers b (toSwappedPlayers b xs) = xs"
proof (elim disjE)
  assume "length xs = 2"
  then obtain a b where "xs = [a, b]"
    by (cases xs; cases "tl xs"; simp)
  then show ?thesis
    by (simp add: toSwappedPlayers_def swapElements_def)
next
  assume "length xs = 4"
  then obtain a b c d where "xs = [a, b, c, d]"
    by (cases xs; cases "tl xs"; cases "tl (tl xs)"; cases "tl (tl (tl xs))"; simp)
  then show ?thesis
    by (simp add: toSwappedPlayers_def swapElements_def numeral_2_eq_2 numeral_3_eq_3)
qed

text \<open>What a spectator who comes late is played back: before the result only messages the engine addressed
  to spectators, no question to a player, in the order of the record; and the result, when there is one, comes
  once and last, as the result the room counted when it is known.\<close>

theorem spectators_see_no_hidden_message:
  assumes "played = toPlayback targets Some False False None D"
  shows "\<exists>shown result. played = shown @ result \<and> subseq shown (rec_messages D) \<and>
    (\<forall>m \<in> set shown. OBSERVER \<in> set (targets m) \<and> \<not> is_request m \<and> \<not> is_win m) \<and>
    length result \<le> 1 \<and> (\<forall>m \<in> set result. is_win m) \<and>
    (\<forall>w reason. rec_win D = Some (w, reason) \<longrightarrow> w \<le> 1 \<longrightarrow> result = [WinMsg (if rec_swapped D then 1 - w else w) reason])"
proof -
  let ?P = "played_back targets False False"
  define result where "result = (case resolveObserverWinMsg D of Some w \<Rightarrow> [w]
      | None \<Rightarrow> (case find is_win (rec_messages D) of None \<Rightarrow> [] | Some w \<Rightarrow> [w]))"
  have "start_at None m = m" for m
    by (simp add: start_at_def)
  then have "List.map_filter (\<lambda>m. if ?P m then Some (start_at None m) else None) ms = filter ?P ms" for ms
    by (induction ms) (simp_all add: List.map_filter_simps)
  then have "played = filter ?P (rec_messages D) @ result"
    by (simp add: assms toPlayback_def result_def)
  moreover have "is_win w" if "resolveObserverWinMsg D = Some w" for w
    using that by (auto simp: resolveObserverWinMsg_def is_win_def split: option.splits if_splits)
  moreover have "is_win w" if "find is_win (rec_messages D) = Some w" for w
    using that by (auto simp: find_Some_iff)
  ultimately have "played = filter ?P (rec_messages D) @ result \<and> length result \<le> 1 \<and> (\<forall>m \<in> set result. is_win m)"
    by (auto simp: result_def split: option.split)
  moreover have "result = [WinMsg (if rec_swapped D then 1 - w else w) reason]"
    if "rec_win D = Some (w, reason)" and "w \<le> 1" for w reason
  proof -
    have "w = 0 \<or> w = 1"
      using that(2) by auto
    then show ?thesis
      using that(1) by (auto simp: result_def resolveObserverWinMsg_def)
  qed
  moreover have "\<forall>m \<in> set (filter ?P (rec_messages D)). OBSERVER \<in> set (targets m) \<and> \<not> is_request m \<and> \<not> is_win m"
    by (simp add: played_back_def)
  moreover note subseq_filter_left [of ?P "rec_messages D"]
  ultimately show ?thesis
    by blast
qed

text \<open>The turn a reconnecting player is shown is played by the team whose turn it is.\<close>

lemma last_upt_mod: "0 < k \<Longrightarrow> last (map (\<lambda>i. i mod 2) [0..<k]) = (k - 1) mod 2" for k :: nat
  by (cases k) simp_all

lemma last_turn_message:
  assumes "turn R = int (Suc n)"
  shows "last (turn_messages R) = n mod 2"
proof -
  have raw: "max 1 (nat (turn R)) = Suc n"
    using assms by simp
  have tag: "last (map (\<lambda>i. i mod 2) [0..<(if Suc n mod 4 = 0 then 4 else Suc n mod 4)]) = n mod 2"
  proof -
    have "((if Suc n mod 4 = 0 then 4 else Suc n mod 4) - 1) mod 2 = n mod 2"
    proof (cases "Suc n mod 4 = 0")
      case True
      then show ?thesis by simp presburger
    next
      case False
      then have "Suc n mod 4 = Suc (n mod 4)"
        by (simp add: mod_Suc split: if_splits)
      then show ?thesis
        by (simp add: mod_mod_cancel)
    qed
    then show ?thesis
      using last_upt_mod [of "if Suc n mod 4 = 0 then 4 else Suc n mod 4"] by simp
  qed
  have "last [0..<(if Suc n mod 2 = 0 then 2 else 1)] = n mod 2"
    by (cases "even n") (simp_all add: mod_Suc upt_rec)
  with tag raw show ?thesis
    by (simp add: turn_messages_def Let_def)
qed

subsection \<open>Witnesses\<close>

text \<open>The duel of the sample room, with a limit of three minutes; the engine asks side 0 for a command, number 11,
  and spectators are addressed by everything but a request.\<close>

definition sample_targets :: "core_msg \<Rightarrow> nat list" where
  "sample_targets m = (case m of Request _ side \<Rightarrow> [side] | _ \<Rightarrow> [0, 1, OBSERVER])"

definition started_room :: room where
  "started_room = duel_started (40, 0) (40, 0) (duel_room 3)"

definition sample_table :: table where
  "sample_table = \<lparr>t_room = started_room, time_limit = 180, sideMinutes = 3, encodable = (\<lambda>_. False),
     clock = \<lparr>leftMs = [], compensatorMs = [], backedMs = [], runningPos = None, startedAtMs = 0, awaitingConfirm = False,
       timer = None\<rparr>,
     responseSide = None, lastRequest = None, isRetrying = False, core_phase = None, deckReversed = False,
     responses = [], messages = []\<rparr>"

definition fresh_table :: table where
  "fresh_table = resetResponseRequestState 1 sample_table"

definition asked_table :: table where
  "asked_table = handleAdvanceResult sample_targets (Engine (Request 11 0)) 1 fresh_table"

lemma started_room_facts: "phase started_room = DUELING" "\<not> finalizing (lob started_room)" "core started_room"
  "map_option c_id (getActivePlayer started_room 0) = Some 0"
proof -
  have "(phase started_room, finalizing (lob started_room), core started_room, map_option c_id (getActivePlayer started_room 0)) =
      (DUELING, False, True, Some 0)"
    by code_simp
  then show "phase started_room = DUELING" "\<not> finalizing (lob started_room)" "core started_room"
    "map_option c_id (getActivePlayer started_room 0) = Some 0"
    by simp_all
qed

lemma asked_table_facts: "timer (clock asked_table) = Some 180001" "runningPos (clock asked_table) = Some 0"
  "phase (t_room asked_table) = DUELING" "\<not> finalizing (lob (t_room asked_table))"
proof -
  have "(timer (clock asked_table), runningPos (clock asked_table), phase (t_room asked_table), finalizing (lob (t_room asked_table))) =
      (Some 180001, Some 0, DUELING, False)"
    by code_simp
  then show "timer (clock asked_table) = Some 180001" "runningPos (clock asked_table) = Some 0"
    "phase (t_room asked_table) = DUELING" "\<not> finalizing (lob (t_room asked_table))"
    by simp_all
qed

lemma sample_duel: "table_run fresh_table" "table_run asked_table" "under_way asked_table"
proof -
  have r: "room_run started_room"
    unfolding started_room_def
    by (rule room_run.step [OF sample_runs(4) sample_phases(8) room_step.engine_started [OF sample_phases(4)]]) simp_all
  have u: "under_way sample_table"
    using started_room_facts by (simp add: under_way_def sample_table_def)
  show f: "table_run fresh_table"
    unfolding fresh_table_def by (rule table_run.started [OF _ u]) (simp add: sample_table_def r)
  have "under_way fresh_table"
    using u by (simp add: fresh_table_def under_way_def resetResponseRequestState_def clock_simps)
  then show "table_run asked_table"
    unfolding asked_table_def by (rule table_run.step [OF f _ table_step.engine]) simp
  show "under_way asked_table"
    using asked_table_facts by (simp add: under_way_def)
qed

lemma duels_keep_the_match_protocol_witness: "life_inv (life_of (t_room asked_table))"
  using duels_keep_the_match_protocol [OF sample_duel(2)] by blast


lemma same_sample: "same_client (sample_captain 0) (getActivePlayer started_room 0)"
  "\<not> same_client (sample_captain 1) (getActivePlayer started_room 0)"
  using started_room_facts(4) by (auto simp: same_client_def sample_captain_def sample_player_def captain_def)


lemma rejected_answer_is_taken_back_witness:
  "responses (routeGameMsg sample_targets Retry None 9 (handleResponse True [1, 0, 0, 0] (sample_captain 0) 5
     (sample_table\<lparr>responseSide := Some 0\<rparr>))) = []"
proof -
  let ?T = "sample_table\<lparr>responseSide := Some 0\<rparr>"
  have t: "responseSide ?T = Some 0" "same_client (sample_captain 0) (getActivePlayer (t_room ?T) 0)" "core (t_room ?T)" "responses ?T = []"
    using same_sample(1) started_room_facts(3) by (simp_all add: sample_table_def)
  show ?thesis
    using rejected_answer_is_taken_back [OF t(1-3) refl, where now = 5 and r = "[1, 0, 0, 0]" and later = 9 and targets = sample_targets] t(4)
    by simp
qed


definition sample_record :: duel_record where
  "sample_record = \<lparr>rec_players = [''Ann'', ''Bob''], rec_swapped = True,
     rec_messages = [StartMsg 0, Request 11 0, NewTurn 0, WinMsg 0 1], rec_win = Some (0, 1)\<rparr>"

lemma spectators_see_no_hidden_message_witness:
  "\<forall>result. toPlayback sample_targets Some False False None sample_record = [StartMsg 0, NewTurn 0] @ result \<longrightarrow> result = [WinMsg 1 1]"
  using spectators_see_no_hidden_message [OF refl, of sample_targets sample_record]
  by (simp add: sample_record_def toPlayback_def played_back_def sample_targets_def is_win_def List.map_filter_def
      resolveObserverWinMsg_def start_at_def)

lemma clocks_stay_within_the_limit_witness: "leftMs (clock asked_table) ! 1 \<le> maxTimeMs (time_limit asked_table)"
  using clocks_stay_within_the_limit [OF sample_duel(2), of 1] by simp

end
