(* ===== verification/ShuffleDecks.thy ===== *)
theory ShuffleDecks
  imports Prelude "HOL-Library.Word"
begin

text \<open>
  The deterministic shuffle of the main decks (\<open>src/ygopro/utils/shuffle-decks-by-seed.ts\<close>): a generator
  of 32-bit draws over 64-bit words, draws below a bound by rejection, and the exchange loop. The code masks
  unbounded integers to 64 bits after every operation that can exceed them; here they are 64-bit words. A
  draw that is always rejected would never end, so a shuffle returns an option.
\<close>

unbundle bit_operations_syntax

subsection \<open>The generator\<close>

definition splitMix64 :: "64 word \<Rightarrow> 64 word" where
  "splitMix64 value =
     (let z0 = value + 0x9e3779b97f4a7c15;
          z1 = (z0 XOR drop_bit 30 z0) * 0xbf58476d1ce4e5b9;
          z2 = (z1 XOR drop_bit 27 z1) * 0x94d049bb133111eb
      in z2 XOR drop_bit 31 z2)"

definition rotl64 :: "64 word \<Rightarrow> nat \<Rightarrow> 64 word" where
  "rotl64 x k = push_bit k x OR drop_bit (64 - k) x"

record rng_state =
  rs0 :: "64 word"
  rs1 :: "64 word"
  rs2 :: "64 word"
  rs3 :: "64 word"

text \<open>A seed number becomes an unsigned 32-bit word; missing numbers are 0.\<close>

definition seed_word :: "int list \<Rightarrow> nat \<Rightarrow> 32 word" where
  "seed_word seed i = (if i < length seed then word_of_int (seed ! i) else 0)"

definition seed_pair :: "int list \<Rightarrow> nat \<Rightarrow> 64 word" where
  "seed_pair seed index = push_bit 32 (ucast (seed_word seed (index * 2 + 1))) OR ucast (seed_word seed (index * 2))"

definition lane :: "int list \<Rightarrow> nat \<Rightarrow> 64 word" where
  "lane seed index = splitMix64 (seed_pair seed index)"

definition createSeededRng :: "int list \<Rightarrow> rng_state" where
  "createSeededRng seed =
     (if lane seed 0 = 0 \<and> lane seed 1 = 0 \<and> lane seed 2 = 0 \<and> lane seed 3 = 0
      then \<lparr>rs0 = 0x9e3779b97f4a7c15, rs1 = 0, rs2 = 0, rs3 = 0\<rparr>
      else \<lparr>rs0 = lane seed 0, rs1 = lane seed 1, rs2 = lane seed 2, rs3 = lane seed 3\<rparr>)"

definition nextU32 :: "rng_state \<Rightarrow> nat \<times> rng_state" where
  "nextU32 S =
     (let result = rotl64 (rs1 S * 5) 7 * 9;
          t = push_bit 17 (rs1 S);
          b2 = rs2 S XOR rs0 S;
          b3 = rs3 S XOR rs1 S;
          b1 = rs1 S XOR b2;
          b0 = rs0 S XOR b3;
          b2' = b2 XOR t;
          b3' = rotl64 b3 45
      in (unat (drop_bit 32 result), \<lparr>rs0 = b0, rs1 = b1, rs2 = b2', rs3 = b3'\<rparr>))"

subsection \<open>Draws and the exchange loop\<close>

definition UINT32_RANGE :: nat where "UINT32_RANGE = 0x100000000"

partial_function (option) draw_below :: "('s \<Rightarrow> nat \<times> 's) \<Rightarrow> nat \<Rightarrow> 's \<Rightarrow> (nat \<times> 's) option" where
  [code]: "draw_below next_u32 bound s =
     (case next_u32 s of (v, s') \<Rightarrow> if v \<ge> bound then draw_below next_u32 bound s' else Some (v, s'))"

definition nextInt :: "('s \<Rightarrow> nat \<times> 's) \<Rightarrow> nat \<Rightarrow> 's \<Rightarrow> (nat \<times> 's) option" where
  "nextInt next_u32 maxExclusive s =
     (if maxExclusive \<le> 1 then Some (0, s)
      else map_option (\<lambda>(v, s'). (v mod maxExclusive, s'))
             (draw_below next_u32 (UINT32_RANGE - UINT32_RANGE mod maxExclusive) s))"

definition exchange :: "nat \<Rightarrow> nat \<Rightarrow> 'a list \<Rightarrow> 'a list" where
  "exchange i j xs = xs[i := xs ! j, j := xs ! i]"

text \<open>\<open>shuffle_from i\<close> is the loop from index \<open>i\<close> down to 1.\<close>

fun shuffle_from :: "('s \<Rightarrow> nat \<times> 's) \<Rightarrow> nat \<Rightarrow> 'a list \<Rightarrow> 's \<Rightarrow> ('a list \<times> 's) option" where
  "shuffle_from next_u32 0 xs s = Some (xs, s)"
| "shuffle_from next_u32 (Suc i) xs s =
     (case nextInt next_u32 (Suc i + 1) s of
        None \<Rightarrow> None
      | Some (j, s') \<Rightarrow> shuffle_from next_u32 i (exchange (Suc i) j xs) s')"

definition shuffleMainDeck :: "('s \<Rightarrow> nat \<times> 's) \<Rightarrow> 'a list \<Rightarrow> 's \<Rightarrow> ('a list \<times> 's) option" where
  "shuffleMainDeck next_u32 xs s = shuffle_from next_u32 (length xs - 1) xs s"

record core_deck =
  main_codes :: "nat list"
  extra_codes :: "nat list"
  side_codes :: "nat list"

fun shuffle_decks :: "('s \<Rightarrow> nat \<times> 's) \<Rightarrow> core_deck list \<Rightarrow> 's \<Rightarrow> core_deck list option" where
  "shuffle_decks next_u32 [] s = Some []"
| "shuffle_decks next_u32 (d # ds) s =
     (case shuffleMainDeck next_u32 (main_codes d) s of
        None \<Rightarrow> None
      | Some (m, s') \<Rightarrow> map_option (\<lambda>ds'. d\<lparr>main_codes := m\<rparr> # ds') (shuffle_decks next_u32 ds s'))"

definition shuffleDecksBySeed :: "core_deck list \<Rightarrow> int list \<Rightarrow> core_deck list option" where
  "shuffleDecksBySeed decks seed = shuffle_decks nextU32 decks (createSeededRng seed)"

subsection \<open>No seed entropy is lost\<close>

text \<open>Each step of the mixing function can be undone.\<close>

definition undo_shift :: "nat \<Rightarrow> 64 word \<Rightarrow> 64 word" where
  "undo_shift k y = y XOR drop_bit k y XOR drop_bit (k + k) y"

lemma undo_shift: "k \<ge> 22 \<Longrightarrow> undo_shift k (w XOR drop_bit k w) = w"
  by (rule bit_word_eqI) (auto simp: undo_shift_def bit_simps dest: bit_imp_le_length)

definition unmix64 :: "64 word \<Rightarrow> 64 word" where
  "unmix64 y =
     undo_shift 30 (undo_shift 27 (undo_shift 31 y * 0x319642b2d24d8ec3) * 0x96de1b173f119089) - 0x9e3779b97f4a7c15"

lemma mult_back: "(w * 0xbf58476d1ce4e5b9) * 0x96de1b173f119089 = w" "(w * 0x94d049bb133111eb) * 0x319642b2d24d8ec3 = w"
  for w :: "64 word"
proof -
  have c: "(0xbf58476d1ce4e5b9 :: 64 word) * 0x96de1b173f119089 = 1" "(0x94d049bb133111eb :: 64 word) * 0x319642b2d24d8ec3 = 1"
    by simp_all
  show "(w * 0xbf58476d1ce4e5b9) * 0x96de1b173f119089 = w" "(w * 0x94d049bb133111eb) * 0x319642b2d24d8ec3 = w"
    by (simp_all only: mult.assoc c mult_1_right)
qed

lemma unmix_splitMix64: "unmix64 (splitMix64 v) = v"
  unfolding unmix64_def splitMix64_def Let_def
  by (simp only: undo_shift [of 31, simplified] undo_shift [of 30, simplified] undo_shift [of 27, simplified] mult_back
      add_diff_cancel_right')

lemma seed_pair_inj: "seed_pair s i = seed_pair t i \<Longrightarrow>
    seed_word s (i * 2) = seed_word t (i * 2) \<and> seed_word s (i * 2 + 1) = seed_word t (i * 2 + 1)"
proof -
  have lo: "seed_word s (i * 2) = ucast (seed_pair s i)" for s
    by (rule bit_word_eqI) (auto simp: seed_pair_def bit_simps dest: bit_imp_le_length)
  have hi: "seed_word s (i * 2 + 1) = ucast (drop_bit 32 (seed_pair s i))" for s
    by (rule bit_word_eqI) (auto simp: seed_pair_def bit_simps dest: bit_imp_le_length)
  show "seed_pair s i = seed_pair t i \<Longrightarrow>
    seed_word s (i * 2) = seed_word t (i * 2) \<and> seed_word s (i * 2 + 1) = seed_word t (i * 2 + 1)"
    using lo [of s] lo [of t] hi [of s] hi [of t] by simp
qed

subsection \<open>The generator never stops\<close>

lemma xor_zero: "x XOR y = 0 \<Longrightarrow> x = y" for x y :: "64 word"
proof (rule bit_word_eqI)
  fix n
  assume "x XOR y = 0"
  then have "\<not> bit (x XOR y) n"
    by simp
  then show "bit x n = bit y n"
    by (simp add: bit_simps)
qed

lemma rotl_zero: "rotl64 x 45 = 0 \<Longrightarrow> x = 0"
proof -
  assume r: "rotl64 x 45 = 0"
  have "\<not> bit x n" for n
  proof (cases "n < 19")
    case True
    then have "bit (rotl64 x 45) (n + 45) = bit x n"
      by (auto simp: rotl64_def bit_simps dest: bit_imp_le_length)
    with r show ?thesis by simp
  next
    case False
    then have "bit x n \<Longrightarrow> bit (rotl64 x 45) (n - 19)"
      by (auto simp: rotl64_def bit_simps dest: bit_imp_le_length)
    with r show ?thesis by auto
  qed
  then show "x = 0"
    by (simp add: bit_eq_iff)
qed

lemma shift_fixpoint: "x XOR push_bit 17 x = 0 \<Longrightarrow> x = 0" for x :: "64 word"
proof -
  assume "x XOR push_bit 17 x = 0"
  then have e: "x = push_bit 17 x"
    by (rule xor_zero)
  have "\<not> bit x n" for n
  proof (induction n rule: less_induct)
    case (less n)
    have "bit x n = bit (push_bit 17 x) n"
      using e by simp
    then show ?case
      using less by (auto simp: bit_simps)
  qed
  then show "x = 0"
    by (simp add: bit_eq_iff)
qed

definition stuck :: "rng_state \<Rightarrow> bool" where
  "stuck S \<longleftrightarrow> rs0 S = 0 \<and> rs1 S = 0 \<and> rs2 S = 0 \<and> rs3 S = 0"

lemma stuck_back: "stuck (snd (nextU32 S)) \<Longrightarrow> stuck S"
proof -
  assume "stuck (snd (nextU32 S))"
  then have z: "rs0 S XOR (rs3 S XOR rs1 S) = 0" "rs1 S XOR (rs2 S XOR rs0 S) = 0"
    "(rs2 S XOR rs0 S) XOR push_bit 17 (rs1 S) = 0" "rotl64 (rs3 S XOR rs1 S) 45 = 0"
    by (simp_all add: stuck_def nextU32_def Let_def)
  have 3: "rs3 S XOR rs1 S = 0"
    by (rule rotl_zero [OF z(4)])
  then have 0: "rs0 S = 0"
    using z(1) by simp
  have 2: "rs1 S = rs2 S"
    using xor_zero [OF z(2)] 0 by simp
  then have "rs1 S XOR push_bit 17 (rs1 S) = 0"
    using z(3) 0 by simp
  then have "rs1 S = 0"
    by (rule shift_fixpoint)
  then show "stuck S"
    using 0 2 3 by (simp add: stuck_def)
qed

lemma seeded_not_stuck: "\<not> stuck (createSeededRng seed)"
  by (auto simp: createSeededRng_def stuck_def)

lemma never_stuck: "\<not> stuck (((\<lambda>S. snd (nextU32 S)) ^^ n) (createSeededRng seed))"
  by (induction n) (auto simp: seeded_not_stuck dest: stuck_back)

text \<open>Seeding loses no entropy but at one point: seeds whose eight words differ give generators in different
  states, unless one of the seeds mixes to the all-zero state the code replaces; and no generator ever reaches the
  all-zero state, where its draws would be constant.\<close>

theorem seeding_keeps_entropy:
  "(createSeededRng s = createSeededRng t \<longrightarrow>
     (\<forall>i < 8. seed_word s i = seed_word t i) \<or> (\<forall>i < 4. lane s i = 0) \<or> (\<forall>i < 4. lane t i = 0)) \<and>
   \<not> stuck (((\<lambda>S. snd (nextU32 S)) ^^ n) (createSeededRng s))"
proof (intro conjI impI)
  assume e: "createSeededRng s = createSeededRng t"
  have all4: "(\<forall>i < 4. P i) \<longleftrightarrow> P 0 \<and> P 1 \<and> P 2 \<and> P 3" for P :: "nat \<Rightarrow> bool"
    by (auto simp: less_Suc_eq numeral_eq_Suc)
  have "\<forall>i < 8. seed_word s i = seed_word t i" if "\<not> (\<forall>i < 4. lane s i = 0)" and "\<not> (\<forall>i < 4. lane t i = 0)"
  proof -
    have "\<forall>i < 4. lane s i = lane t i"
      using that e unfolding all4 by (auto simp: createSeededRng_def split: if_splits)
    then have "\<forall>i < 4. seed_pair s i = seed_pair t i"
      unfolding lane_def by (metis unmix_splitMix64)
    then have w: "seed_word s (i * 2) = seed_word t (i * 2) \<and> seed_word s (i * 2 + 1) = seed_word t (i * 2 + 1)" if "i < 4" for i
      using seed_pair_inj that by blast
    show ?thesis
    proof (intro allI impI)
      fix i :: nat
      assume "i < 8"
      then have "i div 2 < 4" "i = i div 2 * 2 \<or> i = i div 2 * 2 + 1"
        by presburger+
      then show "seed_word s i = seed_word t i"
        using w [of "i div 2"] by metis
    qed
  qed
  then show "(\<forall>i < 8. seed_word s i = seed_word t i) \<or> (\<forall>i < 4. lane s i = 0) \<or> (\<forall>i < 4. lane t i = 0)"
    by blast
qed (rule never_stuck)

text \<open>The one point exists: two different seeds share the replaced state.\<close>

lemma replaced_state_collides:
  fixes z g :: int
  defines "z \<equiv> 0x61c8864680b583eb" and "g \<equiv> 0xcd36da00563c5ef6"
  defines "half \<equiv> \<lambda>v. [v mod 2 ^ 32, v div 2 ^ 32]"
  shows "createSeededRng (half z @ half z @ half z @ half z) = createSeededRng (half g @ half z @ half z @ half z)"
  unfolding z_def g_def half_def by (simp add: createSeededRng_def lane_def seed_pair_def seed_word_def splitMix64_def)

subsection \<open>Draws below a bound\<close>

text \<open>The draws of a generator in order, with the state after each.\<close>

definition nth_draw :: "('s \<Rightarrow> nat \<times> 's) \<Rightarrow> 's \<Rightarrow> nat \<Rightarrow> nat \<times> 's" where
  "nth_draw next_u32 s k = next_u32 (((\<lambda>x. snd (next_u32 x)) ^^ k) s)"

lemma nth_draw_simps: "nth_draw f s 0 = f s" "nth_draw f s (Suc k) = nth_draw f (snd (f s)) k"
  by (simp_all add: nth_draw_def funpow_Suc_right del: funpow.simps(2))

lemma draw_first: "(\<forall>i < k. bound \<le> fst (nth_draw f s i)) \<Longrightarrow> fst (nth_draw f s k) < bound \<Longrightarrow>
    draw_below f bound s = Some (nth_draw f s k)"
proof (induction k arbitrary: s)
  case 0
  then show ?case
    by (subst draw_below.simps) (simp add: nth_draw_simps case_prod_beta)
next
  case (Suc k)
  have "bound \<le> fst (f s)"
    using Suc.prems(1) nth_draw_simps(1) [of f s] by auto
  moreover have "draw_below f bound (snd (f s)) = Some (nth_draw f (snd (f s)) k)"
    using Suc.prems nth_draw_simps(2) [of f s] by (intro Suc.IH) auto
  ultimately show ?case
    by (subst draw_below.simps) (simp add: nth_draw_simps case_prod_beta)
qed

definition accepted :: "('s \<Rightarrow> nat \<times> 's) \<Rightarrow> nat \<Rightarrow> 's \<Rightarrow> nat \<times> 's \<Rightarrow> bool" where
  "accepted f bound s x \<longleftrightarrow> (\<exists>k. (\<forall>i < k. bound \<le> fst (nth_draw f s i)) \<and> fst (nth_draw f s k) < bound \<and> x = nth_draw f s k)"

lemma accepted_later: "bound \<le> fst (f s) \<Longrightarrow> accepted f bound (snd (f s)) x \<Longrightarrow> accepted f bound s x"
  unfolding accepted_def by (metis less_Suc_eq_0_disj nth_draw_simps)

lemma accepted_now: "fst (f s) < bound \<Longrightarrow> accepted f bound s (f s)"
  unfolding accepted_def by (metis not_less_zero nth_draw_simps(1))

lemma draw_returns: "draw_below f bound s = Some x \<Longrightarrow> accepted f bound s x"
proof (rule draw_below.raw_induct [where P = accepted], goal_cases)
  case (1 draw f bound s x)
  show "accepted f bound s x"
  proof (cases "fst (f s) < bound")
    case True
    then have "x = f s"
      using 1(3) by (auto split: prod.splits)
    then show "accepted f bound s x"
      using True accepted_now by metis
  next
    case False
    then have "draw f bound (snd (f s)) = Some x"
      using 1(3) by (auto split: prod.splits)
    then have "accepted f bound (snd (f s)) x"
      by (rule 1(2))
    then show "accepted f bound s x"
      using False accepted_later by (metis not_less)
  qed
qed

text \<open>A draw below a bound is fair: it is the first of the generator's draws below the largest multiple of the
  bound, reduced modulo the bound - and there is a result exactly when there is such a draw - so it is below the
  bound; and of the 32-bit numbers it accepts, the same number reduces to every possible result.\<close>

theorem bounded_draws_are_fair:
  fixes f :: "'s \<Rightarrow> nat \<times> 's"
  assumes "2 \<le> m" and "m \<le> UINT32_RANGE"
  defines "bound \<equiv> UINT32_RANGE div m * m"
  shows "(nextInt f m s = Some (r, s') \<longleftrightarrow>
      (\<exists>k v. (\<forall>i < k. bound \<le> fst (nth_draw f s i)) \<and> nth_draw f s k = (v, s') \<and> v < bound \<and> r = v mod m)) \<and>
    (\<forall>r < m. card {v. v < bound \<and> v mod m = r} = UINT32_RANGE div m)"
proof (intro conjI allI impI)
  have b: "UINT32_RANGE - UINT32_RANGE mod m = bound"
    by (simp add: bound_def minus_mod_eq_div_mult)
  show "nextInt f m s = Some (r, s') \<longleftrightarrow>
      (\<exists>k v. (\<forall>i < k. bound \<le> fst (nth_draw f s i)) \<and> nth_draw f s k = (v, s') \<and> v < bound \<and> r = v mod m)" (is "?L \<longleftrightarrow> ?R")
  proof
    assume ?L
    then obtain v where v: "draw_below f bound s = Some (v, s')" "r = v mod m"
      using assms(1) by (auto simp: nextInt_def b)
    show ?R
      using draw_returns [OF v(1)] v(2) unfolding accepted_def by (metis fst_conv)
  next
    assume ?R
    then obtain k v where k: "\<forall>i < k. bound \<le> fst (nth_draw f s i)" "nth_draw f s k = (v, s')" "v < bound" "r = v mod m"
      by blast
    have "draw_below f bound s = Some (v, s')"
      using draw_first [OF k(1)] k(2,3) by simp
    then show ?L
      using assms(1) k(4) by (simp add: nextInt_def b)
  qed
next
  fix r
  assume r: "r < m"
  have "{v. v < bound \<and> v mod m = r} = (\<lambda>q. q * m + r) ` {..<UINT32_RANGE div m}"
  proof (intro set_eqI iffI)
    fix v
    assume "v \<in> {v. v < bound \<and> v mod m = r}"
    then have "v = v div m * m + r" "v div m < UINT32_RANGE div m"
      using assms(1) by (auto simp: bound_def less_mult_imp_div_less)
    then show "v \<in> (\<lambda>q. q * m + r) ` {..<UINT32_RANGE div m}"
      by blast
  next
    fix v
    assume "v \<in> (\<lambda>q. q * m + r) ` {..<UINT32_RANGE div m}"
    then obtain q where q: "v = q * m + r" "q < UINT32_RANGE div m"
      by blast
    have "v < (q + 1) * m"
      using q(1) r by simp
    also have "\<dots> \<le> bound"
      unfolding bound_def using q(2) by (intro mult_le_mono1) simp
    finally show "v \<in> {v. v < bound \<and> v mod m = r}"
      using q(1) r by simp
  qed
  moreover have "inj_on (\<lambda>q. q * m + r) {..<UINT32_RANGE div m}"
    using assms(1) by (intro inj_onI) simp
  ultimately show "card {v. v < bound \<and> v mod m = r} = UINT32_RANGE div m"
    by (simp add: card_image)
qed

subsection \<open>The exchange loop\<close>

text \<open>The loop driven by the draws themselves, and which draws it can be given.\<close>

fun exchange_loop :: "nat \<Rightarrow> 'a list \<Rightarrow> nat list \<Rightarrow> 'a list" where
  "exchange_loop (Suc i) xs (j # js) = exchange_loop i (exchange (Suc i) j xs) js"
| "exchange_loop i xs js = xs"

fun valid_draws :: "nat \<Rightarrow> nat list \<Rightarrow> bool" where
  "valid_draws 0 js \<longleftrightarrow> js = []"
| "valid_draws (Suc i) js \<longleftrightarrow> (case js of [] \<Rightarrow> False | j # js' \<Rightarrow> j \<le> Suc i \<and> valid_draws i js')"

lemma length_exchange [simp]: "length (exchange i j xs) = length xs"
  by (simp add: exchange_def)

lemma mset_exchange: "i < length xs \<Longrightarrow> j < length xs \<Longrightarrow> mset (exchange i j xs) = mset xs"
  by (simp add: exchange_def mset_swap)

lemma exchange_nth: "i < length xs \<Longrightarrow> j < length xs \<Longrightarrow> exchange i j xs ! i = xs ! j"
  by (cases "i = j") (simp_all add: exchange_def nth_list_update)

lemma exchange_above: "i < k \<Longrightarrow> j < k \<Longrightarrow> drop k (exchange i j xs) = drop k xs"
  by (simp add: exchange_def)

lemma loop_above: "valid_draws i js \<Longrightarrow> drop (Suc i) (exchange_loop i xs js) = drop (Suc i) xs"
proof (induction i arbitrary: xs js)
  case (Suc i)
  then obtain j js' where js: "js = j # js'" "j \<le> Suc i" "valid_draws i js'"
    by (auto split: list.splits)
  have "drop (Suc i) (exchange_loop i (exchange (Suc i) j xs) js') = drop (Suc i) (exchange (Suc i) j xs)"
    by (rule Suc.IH [OF js(3)])
  then have "drop 1 (drop (Suc i) (exchange_loop i (exchange (Suc i) j xs) js')) = drop 1 (drop (Suc i) (exchange (Suc i) j xs))"
    by simp
  then show ?case
    using js exchange_above [of "Suc i" "Suc (Suc i)" j xs] by simp
qed simp

lemma length_loop [simp]: "length (exchange_loop i xs js) = length xs"
  by (induction i xs js rule: exchange_loop.induct) simp_all

lemma mset_loop: "valid_draws i js \<Longrightarrow> i < length xs \<Longrightarrow> mset (exchange_loop i xs js) = mset xs"
proof (induction i arbitrary: xs js)
  case (Suc i)
  then show ?case
    by (auto simp: mset_exchange split: list.splits)
qed simp

lemma nth_drop_eq: "drop k xs = drop k ys \<Longrightarrow> k < length xs \<Longrightarrow> k < length ys \<Longrightarrow> xs ! k = ys ! k"
  by (metis Cons_nth_drop_Suc list.inject)

lemma loop_top:
  assumes "valid_draws i js" and "Suc i < length xs" and "j \<le> Suc i"
  shows "exchange_loop i (exchange (Suc i) j xs) js ! Suc i = xs ! j"
  using nth_drop_eq [OF loop_above [OF assms(1), of "exchange (Suc i) j xs"]] assms exchange_nth [of "Suc i" xs j] by simp

lemma loop_inj:
  "valid_draws i js \<Longrightarrow> valid_draws i js' \<Longrightarrow> i < length xs \<Longrightarrow> distinct xs \<Longrightarrow>
    exchange_loop i xs js = exchange_loop i xs js' \<Longrightarrow> js = js'"
proof (induction i arbitrary: xs js js')
  case (Suc i)
  then obtain j a j' b where js: "js = j # a" "j \<le> Suc i" "valid_draws i a" "js' = j' # b" "j' \<le> Suc i" "valid_draws i b"
    by (auto split: list.splits)
  have "xs ! j = xs ! j'"
    using Suc.prems(5) js loop_top [OF js(3) Suc.prems(3) js(2)] loop_top [OF js(6) Suc.prems(3) js(5)] by simp
  then have "j = j'"
    using Suc.prems(3,4) js(2,5) by (simp add: nth_eq_iff_index_eq)
  moreover have "distinct (exchange (Suc i) j xs)"
    using mset_exchange [of "Suc i" xs j] Suc.prems(3,4) js(2) by (metis le_less_trans mset_eq_imp_distinct_iff)
  ultimately show ?case
    using Suc.IH [of a b "exchange (Suc i) j xs"] Suc.prems js by simp
qed simp

lemma loop_surj:
  "i < length xs \<Longrightarrow> mset ys = mset xs \<Longrightarrow> drop (Suc i) ys = drop (Suc i) xs \<Longrightarrow>
    \<exists>js. valid_draws i js \<and> exchange_loop i xs js = ys"
proof (induction i arbitrary: xs)
  case 0
  then obtain x xs' where xs: "xs = x # xs'"
    by (cases xs) auto
  moreover obtain y ys' where ys: "ys = y # ys'"
    using 0 xs by (cases ys) auto
  ultimately have "ys = xs"
    using 0 by auto
  then show ?case
    by simp
next
  case (Suc i)
  have len: "length ys = length xs"
    using Suc.prems(2) by (rule mset_eq_length)
  have "mset (take (Suc (Suc i)) ys) + mset (drop (Suc (Suc i)) ys) = mset (take (Suc (Suc i)) xs) + mset (drop (Suc (Suc i)) xs)"
    using Suc.prems(2) by (metis append_take_drop_id mset_append)
  then have "mset (take (Suc (Suc i)) ys) = mset (take (Suc (Suc i)) xs)"
    using Suc.prems(3) by simp
  moreover have "ys ! Suc i \<in> set (take (Suc (Suc i)) ys)"
    using Suc.prems(1) len by (auto simp: in_set_conv_nth intro!: exI [of _ "Suc i"])
  ultimately have "ys ! Suc i \<in> set (take (Suc (Suc i)) xs)"
    using mset_eq_setD by blast
  then obtain j where j: "j \<le> Suc i" "xs ! j = ys ! Suc i"
    by (auto simp: in_set_conv_nth less_Suc_eq_le)
  define zs where "zs = exchange (Suc i) j xs"
  have "drop (Suc i) ys = drop (Suc i) zs"
  proof -
    have "drop (Suc (Suc i)) zs = drop (Suc (Suc i)) xs"
      using j(1) unfolding zs_def by (intro exchange_above) simp_all
    then have "drop (Suc (Suc i)) ys = drop (Suc (Suc i)) zs" "ys ! Suc i = zs ! Suc i"
      using Suc.prems(1,3) j exchange_nth [of "Suc i" xs j] by (simp_all add: zs_def)
    then show ?thesis
      using Suc.prems(1) len by (metis Cons_nth_drop_Suc length_exchange zs_def)
  qed
  moreover have "mset ys = mset zs"
    using Suc.prems(1,2) j(1) by (simp add: zs_def mset_exchange)
  ultimately obtain js where "valid_draws i js" "exchange_loop i zs js = ys"
    using Suc.IH [of zs] Suc.prems(1) by (auto simp: zs_def)
  then show ?case
    using j(1) by (intro exI [of _ "j # js"]) (simp add: zs_def)
qed

text \<open>The draws a generator gives the loop.\<close>

inductive gives :: "('s \<Rightarrow> nat \<times> 's) \<Rightarrow> nat \<Rightarrow> 's \<Rightarrow> nat list \<Rightarrow> 's \<Rightarrow> bool" where
  last: "gives f 0 s [] s"
| drawn: "nextInt f (Suc i + 1) s = Some (j, s1) \<Longrightarrow> gives f i s1 js s2 \<Longrightarrow> gives f (Suc i) s (j # js) s2"

inductive_simps gives_simps: "gives f 0 s js s'" "gives f (Suc i) s js s'"

lemma nextInt_less: "nextInt f m s = Some (r, s') \<Longrightarrow> 0 < m \<Longrightarrow> r < m"
  by (auto simp: nextInt_def split: if_splits)

lemma gives_valid: "gives f i s js s' \<Longrightarrow> valid_draws i js"
  by (induction rule: gives.induct) (auto dest: nextInt_less)

lemma shuffle_from_gives:
  "shuffle_from f i xs s = Some (ys, s') \<longleftrightarrow>
    (\<exists>js. gives f i s js s' \<and> valid_draws i js \<and> ys = exchange_loop i xs js)"
proof (induction i arbitrary: xs s)
  case 0
  show ?case
    by (auto simp: gives_simps)
next
  case (Suc i)
  show ?case
  proof (cases "nextInt f (Suc i + 1) s")
    case None
    then show ?thesis
      by (simp add: gives_simps)
  next
    case (Some r)
    obtain j s1 where r: "r = (j, s1)"
      by fastforce
    have j: "j \<le> Suc i"
      using nextInt_less [of f "Suc i + 1" s j s1] Some r by simp
    have g: "gives f (Suc i) s js s' \<longleftrightarrow> (\<exists>js'. js = j # js' \<and> gives f i s1 js' s')" for js
      using Some r by (auto simp: gives_simps)
    have "shuffle_from f (Suc i) xs s = shuffle_from f i (exchange (Suc i) j xs) s1"
      using Some r by simp
    moreover have "(\<exists>js. gives f (Suc i) s js s' \<and> valid_draws (Suc i) js \<and> ys = exchange_loop (Suc i) xs js) \<longleftrightarrow>
        (\<exists>js'. gives f i s1 js' s' \<and> valid_draws i js' \<and> ys = exchange_loop i (exchange (Suc i) j xs) js')"
      unfolding g using j by auto
    ultimately show ?thesis
      using Suc.IH by simp
  qed
qed

text \<open>C36. The shuffle is fair: what a shuffle returns is the exchange loop run on draws each below its bound, and
  for a deck of different cards every arrangement of the deck comes from exactly one such sequence of draws.\<close>

theorem shuffle_is_fair:
  assumes "xs \<noteq> []" and "distinct xs"
  shows "(shuffleMainDeck f xs s = Some (ys, s') \<longleftrightarrow>
      (\<exists>js. gives f (length xs - 1) s js s' \<and> valid_draws (length xs - 1) js \<and> ys = exchange_loop (length xs - 1) xs js)) \<and>
    (\<forall>zs. mset zs = mset xs \<longleftrightarrow> (\<exists>!js. valid_draws (length xs - 1) js \<and> exchange_loop (length xs - 1) xs js = zs))"
proof (intro conjI allI)
  show "shuffleMainDeck f xs s = Some (ys, s') \<longleftrightarrow>
      (\<exists>js. gives f (length xs - 1) s js s' \<and> valid_draws (length xs - 1) js \<and> ys = exchange_loop (length xs - 1) xs js)"
    unfolding shuffleMainDeck_def shuffle_from_gives by (rule refl)
  have i: "length xs - 1 < length xs"
    using assms(1) by simp
  fix zs
  show "mset zs = mset xs \<longleftrightarrow> (\<exists>!js. valid_draws (length xs - 1) js \<and> exchange_loop (length xs - 1) xs js = zs)"
  proof
    assume m: "mset zs = mset xs"
    then have "length zs = length xs"
      by (rule mset_eq_length)
    then have "\<exists>js. valid_draws (length xs - 1) js \<and> exchange_loop (length xs - 1) xs js = zs"
      by (intro loop_surj [OF i m]) simp
    then show "\<exists>!js. valid_draws (length xs - 1) js \<and> exchange_loop (length xs - 1) xs js = zs"
      using loop_inj [OF _ _ i assms(2)] by blast
  next
    assume "\<exists>!js. valid_draws (length xs - 1) js \<and> exchange_loop (length xs - 1) xs js = zs"
    then show "mset zs = mset xs"
      using mset_loop [OF _ i] by blast
  qed
qed

lemma shuffle_mset: "shuffleMainDeck f xs s = Some (ys, s') \<Longrightarrow> mset ys = mset xs"
proof (cases "xs = []")
  case False
  assume "shuffleMainDeck f xs s = Some (ys, s')"
  moreover have "length xs - 1 < length xs"
    using False by simp
  ultimately show ?thesis
    using mset_loop unfolding shuffleMainDeck_def shuffle_from_gives by blast
qed (simp add: shuffleMainDeck_def)

definition same_cards :: "core_deck \<Rightarrow> core_deck \<Rightarrow> bool" where
  "same_cards d d' \<longleftrightarrow> mset (main_codes d') = mset (main_codes d) \<and> extra_codes d' = extra_codes d \<and> side_codes d' = side_codes d"

lemma decks_same: "shuffle_decks f ds s = Some ds' \<Longrightarrow> list_all2 same_cards ds ds'"
  by (induction f ds s arbitrary: ds' rule: shuffle_decks.induct)
    (auto simp: same_cards_def dest: shuffle_mset split: option.splits)

text \<open>Whatever the seed, no card is lost or added, and extra and side decks are as they were.\<close>

theorem shuffling_keeps_the_decks:
  "shuffleDecksBySeed ds seed = Some ds' \<Longrightarrow> list_all2 same_cards ds ds'"
  unfolding shuffleDecksBySeed_def by (rule decks_same)

subsection \<open>Witnesses\<close>

lemma seeding_keeps_entropy_witness: "createSeededRng [1] \<noteq> createSeededRng [2]"
proof -
  have "seed_word [1] 0 \<noteq> seed_word [2] 0" "lane [1] 0 \<noteq> 0" "lane [2] 0 \<noteq> 0"
    by (simp_all add: seed_word_def lane_def seed_pair_def splitMix64_def)
  then show ?thesis
    using seeding_keeps_entropy [of "[1]" "[2]" 0] by force
qed

lemma bounded_draws_are_fair_witness: "card {v. v < UINT32_RANGE div 3 * 3 \<and> v mod 3 = 2} = 0x55555555"
proof -
  have "card {v. v < UINT32_RANGE div 3 * 3 \<and> v mod 3 = 2} = UINT32_RANGE div 3"
    using bounded_draws_are_fair [where m = 3 and f = "\<lambda>s. (s, s)" and s = 0] by (simp add: UINT32_RANGE_def)
  then show ?thesis
    by (simp add: UINT32_RANGE_def)
qed

lemma shuffle_is_fair_witness: "\<exists>!js. valid_draws 2 js \<and> exchange_loop 2 [10, 20, 30] js = [20 :: nat, 30, 10]"
proof -
  have n: "length [10 :: nat, 20, 30] - 1 = 2" "mset [20 :: nat, 30, 10] = mset [10, 20, 30]"
    by simp_all
  have "\<forall>zs. mset zs = mset [10 :: nat, 20, 30] \<longleftrightarrow> (\<exists>!js. valid_draws 2 js \<and> exchange_loop 2 [10, 20, 30] js = zs)"
    by (rule shuffle_is_fair [of "[10 :: nat, 20, 30]" nextU32, unfolded n(1), THEN conjunct2]) simp_all
  then show ?thesis
    using n(2) by blast
qed

end
