(* ===== verification/QueueFacade.thy ===== *)
theory QueueFacade
  imports PoolProps
begin

text \<open>
  The queue of the HTTP clients (\<open>src/ygopro/matchmaking/application/MatchmakingQueue.ts\<close>) over the shared pool:
  a ticket is a record the client polls, a participant whose channel is that record
  (\<open>infrastructure/PollParticipantChannel.ts\<close>) waits in the pool, and socket participants
  (\<open>infrastructure/SocketParticipantChannel.ts\<close>) enter the same pool from their sessions. Records are shared,
  mutable objects: they live in a heap, the list \<open>records_heap\<close> of the pool's world, and \<open>channel\<close> is the address
  of a poll participant's record, or the number of a socket participant's connection. The room creator and the bot
  are parameters acting on the rest of the world.
\<close>

subsection \<open>Records\<close>

datatype entry_state = SearchingEntry | MatchedEntry

record queue_entry =
  qe_ticketId :: string
  qe_userId :: string
  qe_format :: mm_format
  qe_enteredAt :: int
  qe_botFallbackAfterMs :: "int option"
  qe_displayName :: "string option"
  qe_lastPollAt :: int
  qe_state :: entry_state
  qe_matchedAt :: "int option"
  qe_roomPassword :: "string option"
  qe_roomId :: "nat option"
  qe_opponentType :: "opponent_type option"
  qe_opponentName :: "string option"
  qe_rated :: "bool option"

record 'r queue_world =
  records_heap :: "queue_entry list"
  closed_sockets :: "nat list"
  outside :: 'r

definition poll_found :: "int \<Rightarrow> found_notice \<Rightarrow> queue_entry \<Rightarrow> queue_entry" where
  "poll_found now n e = e\<lparr>qe_state := MatchedEntry, qe_matchedAt := Some now, qe_roomId := Some (fn_roomId n),
     qe_roomPassword := Some (fn_roomPassword n), qe_opponentType := Some (fn_opponentType n),
     qe_rated := Some (fn_rated n), qe_opponentName := fn_opponentName n\<rparr>"

text \<open>\<open>channel.found\<close>: a poll channel fills its record, a socket channel only sends a frame.\<close>

definition deliver_found :: "int \<Rightarrow> 'r queue_world delivery" where
  "deliver_found now p n w =
     (if presence p = Poll
      then w\<lparr>records_heap := (records_heap w)[channel p := poll_found now n (records_heap w ! channel p)]\<rparr> else w)"

text \<open>\<open>channel.isAlive\<close>.\<close>

definition channel_alive :: "'r queue_world liveness" where
  "channel_alive w p now =
     (if presence p = Poll then now - qe_lastPollAt (records_heap w ! channel p) \<le> QUEUE_TTL_MS
      else channel p \<notin> set (closed_sockets w))"

definition create_outside :: "(match \<Rightarrow> 'r \<Rightarrow> (nat \<times> string) option \<times> 'r) \<Rightarrow> 'r queue_world room_creator" where
  "create_outside create m w = (case create m (outside w) of (r, x) \<Rightarrow> (r, w\<lparr>outside := x\<rparr>))"

definition spawn_outside :: "(nat \<Rightarrow> mm_format \<Rightarrow> 'r \<Rightarrow> bool \<times> 'r) \<Rightarrow> 'r queue_world bot_spawner" where
  "spawn_outside spawn i f w = (case spawn i f (outside w) of (ok, x) \<Rightarrow> (ok, w\<lparr>outside := x\<rparr>))"

text \<open>The match handler the server injects, and the one of the queue itself.\<close>

definition queue_handle ::
  "(match \<Rightarrow> 'r \<Rightarrow> (nat \<times> string) option \<times> 'r) \<Rightarrow> (nat \<Rightarrow> mm_format \<Rightarrow> 'r \<Rightarrow> bool \<times> 'r) \<Rightarrow> 'r queue_world match_handling" where
  "queue_handle create spawn now = provision_handle (create_outside create) (spawn_outside spawn) (deliver_found now) now"

definition default_handle ::
  "(match \<Rightarrow> 'r \<Rightarrow> (nat \<times> string) option \<times> 'r) \<Rightarrow> (nat \<Rightarrow> mm_format \<Rightarrow> 'r \<Rightarrow> bool \<times> 'r) \<Rightarrow> 'r queue_world match_handling" where
  "default_handle create spawn now = legacy_handle (create_outside create) (spawn_outside spawn) (deliver_found now) now"

subsection \<open>The queue\<close>

record 'r mm_queue =
  q_pool :: "'r queue_world pool"
  records :: "(string, nat) js_map"
  usersInQueue :: "(string, string) js_map"

definition record_at :: "nat \<Rightarrow> 'r mm_queue \<Rightarrow> queue_entry" where
  "record_at a q = records_heap (world (q_pool q)) ! a"

definition on_heap :: "(queue_entry list \<Rightarrow> queue_entry list) \<Rightarrow> 'r queue_world pool \<Rightarrow> 'r queue_world pool" where
  "on_heap f s = s\<lparr>world := (world s)\<lparr>records_heap := f (records_heap (world s))\<rparr>\<rparr>"

definition removeRecord :: "queue_entry \<Rightarrow> 'r mm_queue \<Rightarrow> 'r mm_queue" where
  "removeRecord e q = q\<lparr>records := map_del (qe_ticketId e) (records q),
     usersInQueue := map_del (qe_userId e) (usersInQueue q)\<rparr>"

text \<open>\<open>reconcile\<close> visits the records in the order they entered; deleting the visited one does not disturb the
  iteration.\<close>

definition reconcile_one :: "int \<Rightarrow> nat \<Rightarrow> 'r mm_queue \<Rightarrow> 'r mm_queue" where
  "reconcile_one now a q =
     (let e = record_at a q
      in if qe_state e = SearchingEntry
         then (if \<not> isQueued (qe_ticketId e) (q_pool q) then removeRecord e q else q)
         else if now - qe_lastPollAt e > MATCHED_GRACE_MS then removeRecord e q else q)"

definition reconcile :: "int \<Rightarrow> 'r mm_queue \<Rightarrow> 'r mm_queue" where
  "reconcile now q = fold (reconcile_one now) (map snd (records q)) q"

definition queue_tick :: "pairing \<Rightarrow> 'r queue_world match_handling \<Rightarrow> int \<Rightarrow> 'r mm_queue \<Rightarrow> pool_error + 'r mm_queue" where
  "queue_tick pair handle now q =
     sum_bind (pool_tick channel_alive pair handle now (q_pool q)) (\<lambda>s. Inr (reconcile now (q\<lparr>q_pool := s\<rparr>)))"

record enqueue_input =
  in_ticketId :: string
  in_userId :: string
  in_format :: mm_format
  in_displayName :: "string option"
  in_botFallbackAfterMs :: "int option"

definition new_record :: "int \<Rightarrow> enqueue_input \<Rightarrow> queue_entry" where
  "new_record now i = \<lparr>qe_ticketId = in_ticketId i, qe_userId = in_userId i, qe_format = in_format i, qe_enteredAt = now,
     qe_botFallbackAfterMs = in_botFallbackAfterMs i, qe_displayName = in_displayName i, qe_lastPollAt = now,
     qe_state = SearchingEntry, qe_matchedAt = None, qe_roomPassword = None, qe_roomId = None, qe_opponentType = None,
     qe_opponentName = None, qe_rated = None\<rparr>"

definition poll_participant :: "int \<Rightarrow> nat \<Rightarrow> enqueue_input \<Rightarrow> participant" where
  "poll_participant now a i = \<lparr>part_id = in_ticketId i, user_id = in_userId i, part_format = in_format i,
     part_mode = Ranked, displayName = in_displayName i, enqueuedAt = now,
     botFallbackAfterMs = in_botFallbackAfterMs i, supportsAcceptStep = False, presence = Poll,
     channel = a, admission = None\<rparr>"

definition isUserQueued :: "string \<Rightarrow> 'r mm_queue \<Rightarrow> bool" where
  "isUserQueued u q \<longleftrightarrow> map_get (usersInQueue q) u \<noteq> None"

definition enqueue ::
  "pairing \<Rightarrow> 'r queue_world match_handling \<Rightarrow> int \<Rightarrow> enqueue_input \<Rightarrow> 'r mm_queue \<Rightarrow> pool_error + (nat \<times> 'r mm_queue)" where
  "enqueue pair handle now i q =
     (if isUserQueued (in_userId i) q then Inl (DuplicateQueueEntryError (in_userId i))
      else
        (let a = length (records_heap (world (q_pool q)));
             s = on_heap (\<lambda>es. es @ [new_record now i]) (q_pool q)
         in sum_bind (pool_add now (poll_participant now a i) s)
              (\<lambda>(_, s'). sum_bind (queue_tick pair handle now
                   (q\<lparr>q_pool := s', records := map_put (in_ticketId i) a (records q),
                      usersInQueue := map_put (in_userId i) (in_ticketId i) (usersInQueue q)\<rparr>))
                 (\<lambda>q'. Inr (a, q')))))"

datatype poll_result =
    PollSearching int
  | PollMatched "string option" "opponent_type option" "string option" "bool option"

definition poll :: "int \<Rightarrow> string \<Rightarrow> 'r mm_queue \<Rightarrow> poll_result option \<times> 'r mm_queue" where
  "poll now ticket q =
     (case map_get (records q) ticket of
        None \<Rightarrow> (None, q)
      | Some a \<Rightarrow>
          (let e = (record_at a q)\<lparr>qe_lastPollAt := now\<rparr>;
               q' = q\<lparr>q_pool := on_heap (\<lambda>es. es[a := e]) (q_pool q)\<rparr>
           in (Some (if qe_state e = MatchedEntry
                     then PollMatched (qe_roomPassword e) (qe_opponentType e) (qe_opponentName e) (qe_rated e)
                     else PollSearching (now - qe_enteredAt e)), q')))"

definition cancel :: "int \<Rightarrow> string \<Rightarrow> 'r mm_queue \<Rightarrow> pool_error + (bool \<times> 'r mm_queue)" where
  "cancel now ticket q =
     (case map_get (records q) ticket of
        None \<Rightarrow> Inr (False, q)
      | Some a \<Rightarrow>
          sum_bind (pool_remove now ticket (q_pool q))
            (\<lambda>s. Inr (True, removeRecord (record_at a q) (q\<lparr>q_pool := s\<rparr>))))"

definition abort_one :: "int \<Rightarrow> nat \<Rightarrow> nat \<Rightarrow> nat \<times> 'r mm_queue \<Rightarrow> pool_error + (nat \<times> 'r mm_queue)" where
  "abort_one now roomId a r =
     (case r of (removed, q) \<Rightarrow>
        (let e = record_at a q
         in if qe_roomId e \<noteq> Some roomId then Inr (removed, q)
            else sum_bind (pool_remove now (qe_ticketId e) (q_pool q))
                   (\<lambda>s. Inr (removed + 1, removeRecord e (q\<lparr>q_pool := s\<rparr>)))))"

definition abortRoom :: "int \<Rightarrow> nat \<Rightarrow> 'r mm_queue \<Rightarrow> pool_error + (nat \<times> 'r mm_queue)" where
  "abortRoom now roomId q = fold_e (abort_one now roomId) (map snd (records q)) (0, q)"

definition lookup_ticket :: "string \<Rightarrow> 'r mm_queue \<Rightarrow> queue_entry option" where
  "lookup_ticket ticket q = map_option (\<lambda>a. record_at a q) (map_get (records q) ticket)"

end
