(* ===== verification/PoolWorld.thy ===== *)
theory PoolWorld
  imports PoolProps
begin

text \<open>
  What an operation of the pool does to the world outside: nothing, but for the match handler it calls. The locale
  \<open>world_law\<close> is the handler's side of that contract, a preorder its effects respect; inside it the ticks and the
  answers to proposals respect the preorder too. Then the participants a tick can leave behind: only those that were
  there and alive when it began.
\<close>

lemma fold_e_rel:
  assumes "fold_e f xs s = Inr s'" and "\<And>x s s'. f x s = Inr s' \<Longrightarrow> R s s'"
    and "\<And>s. R s s" and "\<And>s s' s''. R s s' \<Longrightarrow> R s' s'' \<Longrightarrow> R s s''"
  shows "R s s'"
  using assms(1)
proof (induction xs arbitrary: s)
  case Nil
  then show ?case
    using assms(3) by simp
next
  case (Cons x xs)
  then obtain t where "f x s = Inr t" "fold_e f xs t = Inr s'"
    by (auto simp: sum_bind_Inr)
  then show ?case
    using assms(2,4) Cons.IH by blast
qed

lemma fold_e_world:
  assumes "fold_e f xs s = Inr s'" and "\<And>x s s'. f x s = Inr s' \<Longrightarrow> world s' = world s"
  shows "world s' = world s"
  by (rule fold_e_rel [OF assms(1), where R = "\<lambda>s s'. world s' = world s"]) (use assms(2) in auto)

lemma fold_world: "(\<And>x s. world (f x s) = world s) \<Longrightarrow> world (fold f xs s) = world s"
  by (rule fold_keeps)

lemma abandon_with_world:
  assumes "abandon_with f now pm leaving oc s = Inr s'" and f: "\<And>p s b s'. f p s = Inr (b, s') \<Longrightarrow> world s' = world s"
  shows "world s' = world s"
proof -
  let ?g = "\<lambda>p s. sum_bind (f p s) (\<lambda>(_, s'). Inr (emit (SendStatus p (now - enqueuedAt p)) s'))"
  have g: "world t' = world t" if "?g p t = Inr t'" for p t t'
    using that f by (auto simp: sum_bind_Inr)
  obtain s3 where s3: "fold_e ?g (filter (\<lambda>p. p \<notin> set leaving) (participants (pm_match pm))) s3 = Inr s'"
      "world s3 = world s"
    using assms(1) unfolding abandon_with_def Let_def by (auto simp: fold_world)
  have "world s' = world s3"
    by (rule fold_e_world [OF s3(1)]) (rule g)
  then show ?thesis
    using s3(2) by simp
qed

lemma pool_add_fuel_world: "pool_add_fuel k now p s = Inr (b, s') \<Longrightarrow> world s' = world s"
proof (induction k arbitrary: p s b s')
  case (Suc k)
  have "world t = world s" if "abandon_with (pool_add_fuel k now) now pm [q] Replaced s = Inr t" for pm q t
    using abandon_with_world [OF that] Suc.IH by blast
  then show ?case
    using Suc.prems by (auto simp: Let_def sum_bind_Inr split: option.splits if_splits)
qed simp

lemma pool_add_world: "pool_add now p s = Inr (b, s') \<Longrightarrow> world s' = world s"
  unfolding pool_add_def by (rule pool_add_fuel_world)

lemma abandon_world: "abandon now pm leaving oc s = Inr s' \<Longrightarrow> world s' = world s"
  unfolding abandon_def using abandon_with_world pool_add_world by blast

lemma leavePending_world: "leavePending now i oc s = Inr (b, s') \<Longrightarrow> world s' = world s"
  by (auto simp: leavePending_def sum_bind_Inr abandon_world split: option.splits)

lemma removeByIdAndLog_world: "world (snd (removeByIdAndLog now oc i s)) = world s"
  by (simp add: removeByIdAndLog_def split: option.splits)

lemma removed_by_id: "removeByIdAndLog now oc i s = (b, s') \<Longrightarrow> world s' = world s"
  using removeByIdAndLog_world [of now oc i s] by simp

lemma pool_remove_world: "pool_remove now i s = Inr s' \<Longrightarrow> world s' = world s"
  by (auto simp: pool_remove_def sum_bind_Inr leavePending_world removed_by_id split: prod.splits bool.splits)

lemma dequeue_world: "dequeueBySocketId now i s = Inr (b, s') \<Longrightarrow> world s' = world s"
  by (auto simp: dequeueBySocketId_def leavePending_world removed_by_id split: prod.splits bool.splits)

lemma decline_world: "pool_decline now mid pid s = Inr (oc, s') \<Longrightarrow> world s' = world s"
  by (auto simp: pool_decline_def declineAfterRequeue_def Let_def sum_bind_Inr abandon_world leavePending_world removed_by_id
      split: option.splits if_splits prod.splits bool.splits)

lemma sweepDead_world: "pool_inv uuid s \<Longrightarrow> world (sweepDead alive now s) = world s"
  using sweepDead_ok by blast

lemma resolve_one_world: "resolve_one alive now pm s = Inr s' \<Longrightarrow> world s' = world s"
  by (auto simp: resolve_one_def Let_def sum_bind_Inr abandon_world fold_emit_fields split: if_splits)

lemma resolvePending_world: "resolvePending alive now s = Inr s' \<Longrightarrow> world s' = world s"
  unfolding resolvePending_def using fold_e_world resolve_one_world by blast

lemma propose_world: "world (propose now m s) = world s"
proof -
  have "world (if supportsAcceptStep p then emit (SendProposed p i) t else t) = world t" for p i and t :: "'a pool"
    by simp
  then show ?thesis
    unfolding propose_def Let_def by (subst fold_keeps [where g = world]) (auto simp: fold_world)
qed

lemma publish_world: "world (publishStatus now s) = world s"
  unfolding publishStatus_def for_every_def by (rule fold_world) (auto simp: fold_world)

subsection \<open>The handler's side\<close>

locale world_law =
  fixes R :: "'w \<Rightarrow> 'w \<Rightarrow> bool" and handle :: "'w match_handling"
  assumes refl: "R w w" and trans: "R w w' \<Longrightarrow> R w' w'' \<Longrightarrow> R w w''"
    and handled: "handle now m s = Inr s' \<Longrightarrow> R (world s) (world s')"
begin

lemma fold_e_kept:
  assumes "fold_e f xs s = Inr s'" and "\<And>x s s'. f x s = Inr s' \<Longrightarrow> R (world s) (world s')"
  shows "R (world s) (world s')"
  by (rule fold_e_rel [OF assms(1), where R = "\<lambda>s s'. R (world s) (world s')"]) (use assms(2) refl trans in blast)+

lemma call_kept: "call_handler handle now m s = Inr s' \<Longrightarrow> R (world s) (world s')"
  unfolding call_handler_def using handled by fastforce

lemma settle_kept: "settle_match handle now m s = Inr s' \<Longrightarrow> R (world s) (world s')"
  unfolding settle_match_def using call_kept by (fastforce simp: propose_world fold_world refl split: if_splits)

lemma pairAndDispatch_kept: "pairAndDispatch pair handle now s = Inr s' \<Longrightarrow> R (world s) (world s')"
proof -
  have one: "R (world s) (world s')" if "pair_pool pair handle now key s = Inr s'" for key s s'
  proof -
    have "R (world t) (world s')" if "fold_e (settle_match handle now) ms t = Inr s'" for ms t
      using fold_e_kept [OF that] settle_kept by blast
    then show ?thesis
      using that by (fastforce simp: pair_pool_def Let_def refl split: if_splits prod.splits)
  qed
  assume "pairAndDispatch pair handle now s = Inr s'"
  then show ?thesis
    unfolding pairAndDispatch_def using fold_e_kept one by blast
qed

lemma tick_kept:
  assumes "pool_tick alive pair handle now s = Inr s'" and "pool_inv uuid s"
  shows "R (world s) (world s')"
  using assms sweepDead_world [OF assms(2), of alive now] resolvePending_world [of alive now "sweepDead alive now s"]
    pairAndDispatch_kept [of pair now "forgetClosedRequeues now t" for t]
  by (fastforce simp: pool_tick_def sum_bind_Inr publish_world forgetClosedRequeues_def)

lemma accept_kept:
  assumes "pool_accept handle now mid pid s = Inr (oc, s')"
  shows "R (world s) (world s')"
proof -
  have d: "R (world t) (world t')" if "dispatch handle now m t = Inr t'" for m t t'
    using that call_kept unfolding dispatch_def by (fastforce simp: fold_world)
  show ?thesis
    using assms d by (fastforce simp: pool_accept_def Let_def sum_bind_Inr refl split: option.splits if_splits)
qed

end

subsection \<open>Who is left after a tick\<close>

definition all_alive :: "'w liveness \<Rightarrow> 'w \<Rightarrow> int \<Rightarrow> participant list \<Rightarrow> bool" where
  "all_alive alive w now ps \<longleftrightarrow> (\<forall>p \<in> set ps. alive w p now)"

lemma resolve_one_waiting:
  assumes inv: "pool_inv uuid s" and pm: "(k, pm) \<in> set (pending s)" and "resolve_one alive now pm s = Inr s'"
    and "all_alive alive (world s) now (waiting (pool_store s))"
  shows "all_alive alive (world s) now (waiting (pool_store s'))"
proof -
  let ?ps = "participants (pm_match pm)"
  let ?dead = "filter (\<lambda>p. \<not> alive (world s) p now) ?ps"
  let ?late = "filter (\<lambda>p. part_id p \<notin> set (accepted pm)) ?ps"
  have d: "distinct ?ps"
    using parts_distinct [OF inv pm] by blast
  have gone: "\<exists>t. abandon now pm ?dead Expired s = Inr t \<and>
      waiting (pool_store t) = waiting (pool_store s) @ filter (\<lambda>p. p \<notin> set ?dead) ?ps"
    using abandon_ok [OF inv pm, of ?dead now Expired] d by auto
  have late: "\<exists>t. abandon now pm ?late AcceptTimeout s = Inr t \<and>
      waiting (pool_store t) = waiting (pool_store s) @ filter (\<lambda>p. p \<notin> set ?late) ?ps"
    using abandon_ok [OF inv pm, of ?late now AcceptTimeout] d by auto
  show ?thesis
  proof (cases "?dead = []")
    case False
    then show ?thesis
      using assms(3,4) gone by (auto simp: resolve_one_def all_alive_def)
  next
    case True
    then have "\<forall>p \<in> set ?ps. alive (world s) p now"
      by (auto simp: filter_empty_conv)
    then show ?thesis
      using assms(3,4) late True by (auto simp: resolve_one_def Let_def all_alive_def fold_emit_fields split: if_splits)
  qed
qed

lemma resolve_waiting:
  assumes "pool_inv uuid s" and "set es \<subseteq> set (pending s)" and "distinct (map fst es)"
    and "all_alive alive (world s) now (waiting (pool_store s))"
    and "fold_e (resolve_one alive now) (map snd es) s = Inr s'"
  shows "all_alive alive (world s) now (waiting (pool_store s'))"
  using assms
proof (induction es arbitrary: s)
  case (Cons e es)
  obtain k pm where e: "e = (k, pm)"
    by (cases e)
  have mem: "(k, pm) \<in> set (pending s)"
    using Cons.prems(2) e by simp
  obtain s1 where s1: "resolve_one alive now pm s = Inr s1" "good_step uuid {#} s s1" "world s1 = world s"
    "pending s1 = pending s \<or> pending s1 = map_del k (pending s)"
    using resolve_one_ok [OF Cons.prems(1) mem, of alive now] by (auto split: if_splits)
  have inv1: "pool_inv uuid s1"
    using s1(2) by (simp add: good_step_def)
  have sub: "set es \<subseteq> set (pending s1)"
    using Cons.prems(2,3) s1(4) e by (force simp: AList.delete_eq)
  have live: "all_alive alive (world s1) now (waiting (pool_store s1))"
    using resolve_one_waiting [OF Cons.prems(1) mem s1(1) Cons.prems(4)] s1(3) by simp
  have run: "fold_e (resolve_one alive now) (map snd es) s1 = Inr s'"
    using Cons.prems(5) s1(1) e by simp
  show ?case
    using Cons.IH [OF inv1 sub _ live run] Cons.prems(3) s1(3) by simp
qed simp

context ticking
begin

lemma tick_leaves_living:
  assumes inv: "pool_inv uuid s" and "inj uuid" and run: "pool_tick alive pair handle now s = Inr s'"
  shows "settles uuid s s' \<and> all_alive alive (world s) now (everyone s') \<and> set (everyone s') \<subseteq> set (everyone s)"
proof -
  note swept = sweepDead_ok [OF inv, of alive now]
  have inv0: "pool_inv uuid (sweepDead alive now s)"
    using swept by (simp add: good_step_def)
  obtain s1 where s1: "resolvePending alive now (sweepDead alive now s) = Inr s1"
    "good_step uuid {#} (sweepDead alive now s) s1"
    "pending s1 = filter (\<lambda>(k, pm). unresolved alive (world s) now pm) (pending s)"
    using resolvePending_ok [OF inv0, of alive now] swept by auto
  have "all_alive alive (world (sweepDead alive now s)) now (waiting (pool_store s1))"
  proof (rule resolve_waiting [OF inv0 subset_refl])
    show "distinct (map fst (pending (sweepDead alive now s)))"
      using pool_invD(2) [OF inv0] by (simp add: book_ok_def map_ok_def)
    show "fold_e (resolve_one alive now) (map snd (pending (sweepDead alive now s))) (sweepDead alive now s) = Inr s1"
      using s1(1) by (simp add: resolvePending_def)
    show "all_alive alive (world (sweepDead alive now s)) now (waiting (pool_store (sweepDead alive now s)))"
      using swept by (simp add: all_alive_def)
  qed
  moreover have "all_alive alive (world s) now (held_in (pending s1))"
    unfolding s1(3) by (auto simp: all_alive_def held_in_def unresolved_def)
  ultimately have live: "all_alive alive (world s) now (everyone s1)"
    using swept by (auto simp: all_alive_def everyone_def)
  have step: "pool_inv uuid (forgetClosedRequeues now s1)" "everyone (forgetClosedRequeues now s1) = everyone s1"
    using forget_ok s1(2) by (auto simp: good_step_def forgetClosedRequeues_def everyone_def)
  obtain s2 where s2: "pairAndDispatch pair handle now (forgetClosedRequeues now s1) = Inr s2"
    "settles uuid (forgetClosedRequeues now s1) s2"
    using pairAndDispatch_ok [OF step(1) assms(2)] by blast
  have s': "s' = publishStatus now s2"
    using run s1(1) s2(1) by (simp add: pool_tick_def)
  have "settles uuid (forgetClosedRequeues now s1) s'"
    using settles_trans [OF s2(2)] settles_step publish_ok settles_inv [OF s2(2)] s' by blast
  then have "set (everyone s') \<subseteq> set (everyone s1)"
    unfolding settles_def good_step_def using moves_everyone step(2) by fastforce
  moreover have "settles uuid s s'"
    using tick_ok [OF inv assms(2), of alive now] run by auto
  moreover have "set (everyone s') \<subseteq> set (everyone s)"
    using calculation(2) moves_everyone unfolding settles_def good_step_def by fastforce
  ultimately show ?thesis
    using live by (auto simp: all_alive_def)
qed

end

end
