(* ===== verification/QueueLaws.thy ===== *)
theory QueueLaws
  imports QueueFacade PoolWorld
begin

text \<open>
  The books of the queue agree with the pool: \<open>books_ok\<close> says that the two indexes describe the same tickets, one
  per user, each filed under its own id, and that every poll participant the pool holds is on the books. All
  operations of the queue keep it, and so do the operations that reach the pool from sockets.
\<close>

definition ticket_part :: "queue_entry \<Rightarrow> string \<times> string \<times> int" where
  "ticket_part e = (qe_ticketId e, qe_userId e, qe_lastPollAt e)"

text \<open>What a match handler does to the records: it fills some of them, whose ticket, user and last poll stay.\<close>

definition same_tickets :: "'r queue_world \<Rightarrow> 'r queue_world \<Rightarrow> bool" where
  "same_tickets w w' \<longleftrightarrow> map ticket_part (records_heap w') = map ticket_part (records_heap w)"

lemma same_tickets_simps [simp]: "same_tickets w w" "same_tickets w (w\<lparr>outside := x\<rparr>)" "same_tickets w (w\<lparr>closed_sockets := c\<rparr>)"
  by (simp_all add: same_tickets_def)

lemma same_tickets_trans: "same_tickets w w' \<Longrightarrow> same_tickets w' w'' \<Longrightarrow> same_tickets w w''"
  by (simp add: same_tickets_def)

lemma same_deliver: "same_tickets w (deliver_found now p n w)"
proof -
  have "map ticket_part ((records_heap w)[channel p := poll_found now n (records_heap w ! channel p)]) = map ticket_part (records_heap w)"
    by (cases "channel p < length (records_heap w)")
      (simp_all add: map_update ticket_part_def poll_found_def list_update_beyond list_update_same_conv)
  then show ?thesis
    by (simp add: same_tickets_def deliver_found_def)
qed

lemma same_send: "same_tickets (world s) (world (send_found (deliver_found now) p n s))"
  by (simp add: send_found_def same_deliver)

lemma same_create: "same_tickets w (snd (create_outside create m w))"
  by (simp add: create_outside_def case_prod_beta)

lemma same_spawn: "same_tickets w (snd (spawn_outside spawn i f w))"
  by (simp add: spawn_outside_def case_prod_beta)

lemma same_tickets_fold: "(\<And>x s. same_tickets (world s) (world (f x s))) \<Longrightarrow> same_tickets (world s) (world (fold f xs s))"
  by (induction xs arbitrary: s) (auto intro: same_tickets_trans)

lemma re_add_same: "re_add now ps s = Inr s' \<Longrightarrow> world s' = world s"
  unfolding re_add_def by (rule fold_e_world) (auto simp: sum_bind_Inr pool_add_world)

lemma provisionRoom_same: "same_tickets (world s) (world (snd (provisionRoom (create_outside create) (spawn_outside spawn) (deliver_found now) m s)))"
proof -
  obtain ro w where c: "create_outside create m (world s) = (ro, w)" "same_tickets (world s) w"
    using same_create [of "world s" create m] by (cases "create_outside create m (world s)") auto
  show ?thesis
  proof (cases ro)
    case None
    then show ?thesis
      using c by (simp add: provisionRoom_def)
  next
    case (Some room)
    define s1 where "s1 = fold (\<lambda>p. send_found (deliver_found now) p (notice m room (opponentKind m) (rated m)
          (case opponent_of m p of None \<Rightarrow> None | Some q \<Rightarrow> displayName q))) (participants m) (s\<lparr>world := w\<rparr>)"
    define s2 where "s2 = fold (\<lambda>p. case admission p of None \<Rightarrow> id | Some a \<Rightarrow> emit (Admitted p a)) (participants m) s1"
    have "same_tickets w (world s1)"
      unfolding s1_def using same_tickets_fold [of _ "s\<lparr>world := w\<rparr>"] same_send by fastforce
    moreover have "world s2 = world s1"
      unfolding s2_def by (rule fold_world) (simp split: option.splits)
    ultimately have s2: "same_tickets (world s) (world s2)"
      using same_tickets_trans [OF c(2)] by simp
    have "snd (provisionRoom (create_outside create) (spawn_outside spawn) (deliver_found now) m s) =
        (if opponentKind m = Bot then s2\<lparr>world := snd (spawn_outside spawn (fst room) (match_format m) (world s2))\<rparr> else s2)"
      unfolding provisionRoom_def c(1) Some prod.case option.case Let_def s1_def [symmetric] s2_def [symmetric]
      by (simp add: case_prod_beta)
    then show ?thesis
      using s2 same_tickets_trans [OF s2 same_spawn] by simp
  qed
qed

lemma provision_same: "queue_handle create spawn now m s = Inr s' \<Longrightarrow> same_tickets (world s) (world s')"
proof -
  assume h: "queue_handle create spawn now m s = Inr s'"
  show ?thesis
  proof (cases "missing_info m = []")
    case False
    then obtain t where "re_add now (filter (\<lambda>p. p \<notin> set (missing_info m)) (participants m))
        (fold (\<lambda>p. emit (SendClose p MissingPlayerInfo)) (missing_info m) s) = Inr t" "world s' = world t"
      using h by (auto simp: queue_handle_def provision_handle_def rejectMissingPlayerInfo_def Let_def sum_bind_Inr)
    then show ?thesis
      using re_add_same by (fastforce simp: fold_emit_fields)
  next
    case True
    obtain ok t where t: "provisionRoom (create_outside create) (spawn_outside spawn) (deliver_found now) m s = (ok, t)"
      by fastforce
    have "same_tickets (world s) (world t)"
      using provisionRoom_same [of s create spawn now m] t by simp
    moreover have "world s' = world t"
      using h True t re_add_same [of now "participants m" "emit (LogFailure (match_id m)) t"]
      by (cases ok) (auto simp: queue_handle_def provision_handle_def)
    ultimately show ?thesis
      by simp
  qed
qed

lemma human_same: "same_tickets (world s) (world (snd (handleHumanMatch (create_outside create) (deliver_found now) m s)))"
proof -
  have "same_tickets w (world (send_found (deliver_found now) b n (send_found (deliver_found now) a n' (s\<lparr>world := w\<rparr>))))" for a b n n' w
    using same_tickets_trans [OF same_send same_send, of "s\<lparr>world := w\<rparr>"] by simp
  then show ?thesis
    using same_create [of "world s" create m]
    by (auto simp: handleHumanMatch_def intro: same_tickets_trans split: list.splits option.splits prod.splits)
qed

lemma bot_same: "same_tickets (world s) (world (snd (handleBotMatch (create_outside create) (spawn_outside spawn) (deliver_found now) m s)))"
proof (cases "participants m")
  case (Cons p ps)
  obtain ro w where c: "create_outside create m (world s) = (ro, w)" "same_tickets (world s) w"
    using same_create [of "world s" create m] by (cases "create_outside create m (world s)") auto
  have "same_tickets w (snd (spawn_outside spawn i f (world (send_found (deliver_found now) p n (s\<lparr>world := w\<rparr>)))))" for i f n
    using same_tickets_trans [OF same_send same_spawn, of "s\<lparr>world := w\<rparr>"] by simp
  then show ?thesis
    using c same_tickets_trans [OF c(2)] Cons
    by (auto simp: handleBotMatch_def Let_def case_prod_beta split: option.splits)
qed (simp add: handleBotMatch_def)

lemma default_same: "default_handle create spawn now m s = Inr s' \<Longrightarrow> same_tickets (world s) (world s')"
proof -
  assume h: "default_handle create spawn now m s = Inr s'"
  obtain ok t where t: "(if opponentKind m = Bot then handleBotMatch (create_outside create) (spawn_outside spawn) (deliver_found now) m s
      else handleHumanMatch (create_outside create) (deliver_found now) m s) = (ok, t)"
    by fastforce
  have "same_tickets (world s) (world t)"
    using human_same [of s create now m] bot_same [of s create spawn now m] t by (auto split: if_splits)
  moreover have "world s' = world t"
    using h t re_add_same [of now "participants m" t s'] by (cases ok) (auto simp: default_handle_def legacy_handle_def)
  ultimately show ?thesis
    by simp
qed

subsection \<open>Handlers a queue can be given\<close>

locale queue_handler = world_law same_tickets handle + ticking uuid handle "queue_pairing uuid available"
  for uuid :: "nat \<Rightarrow> string" and available :: bool and handle :: "'r queue_world match_handling"

lemma handler_at: "(\<And>now. match_handler uuid (h now)) \<Longrightarrow> match_handler uuid (\<lambda>now. h now now)"
  unfolding match_handler_def by blast

interpretation injected: queue_handler uuid available "queue_handle create spawn" for uuid available create spawn
proof -
  have "match_handler uuid (queue_handle create spawn)"
    unfolding queue_handle_def [abs_def]
    by (rule handler_at [of uuid "\<lambda>now. provision_handle (create_outside create) (spawn_outside spawn) (deliver_found now)"])
      (rule provision_handler)
  then show "queue_handler uuid available (queue_handle create spawn)"
    using queue.pairing_policy_axioms same_tickets_trans provision_same
    by (auto simp: queue_handler_def ticking_def world_law_def)
qed

interpretation built_in: queue_handler uuid available "default_handle create spawn" for uuid available create spawn
proof -
  have "match_handler uuid (default_handle create spawn)"
    unfolding default_handle_def [abs_def]
    by (rule handler_at [of uuid "\<lambda>now. legacy_handle (create_outside create) (spawn_outside spawn) (deliver_found now)"])
      (rule legacy_handler)
  then show "queue_handler uuid available (default_handle create spawn)"
    using queue.pairing_policy_axioms same_tickets_trans default_same
    by (auto simp: queue_handler_def ticking_def world_law_def)
qed

subsection \<open>The books\<close>

definition id_part :: "queue_entry \<Rightarrow> string \<times> string" where
  "id_part e = (qe_ticketId e, qe_userId e)"

definition books :: "queue_entry list \<Rightarrow> (string, nat) js_map \<Rightarrow> (string, string) js_map \<Rightarrow> participant list \<Rightarrow> bool" where
  "books es tickets users ps \<longleftrightarrow>
     map_ok tickets \<and> map_ok users \<and>
     (\<forall>(t, a) \<in> set tickets. a < length es \<and> qe_ticketId (es ! a) = t \<and> map_get users (qe_userId (es ! a)) = Some t) \<and>
     (\<forall>(u, t) \<in> set users. \<exists>a. (t, a) \<in> set tickets \<and> qe_userId (es ! a) = u) \<and>
     (\<forall>p \<in> set ps. if presence p = Poll then (part_id p, channel p) \<in> set tickets \<and> qe_userId (es ! channel p) = user_id p
        else part_id p \<notin> fst ` set tickets)"

definition books_ok :: "'r mm_queue \<Rightarrow> bool" where
  "books_ok q \<longleftrightarrow> books (records_heap (world (q_pool q))) (records q) (usersInQueue q) (everyone (q_pool q))"

definition queue_inv :: "(nat \<Rightarrow> string) \<Rightarrow> 'r mm_queue \<Rightarrow> bool" where
  "queue_inv uuid q \<longleftrightarrow> pool_inv uuid (q_pool q) \<and> books_ok q"

lemma id_part_nth:
  assumes "map id_part es' = map id_part es" and "a < length es"
  shows "qe_ticketId (es' ! a) = qe_ticketId (es ! a)" "qe_userId (es' ! a) = qe_userId (es ! a)"
proof -
  have "length es' = length es"
    using map_eq_imp_length_eq [OF assms(1)] .
  then have "id_part (es' ! a) = id_part (es ! a)"
    using arg_cong [OF assms(1), of "\<lambda>xs. xs ! a"] assms(2) by simp
  then show "qe_ticketId (es' ! a) = qe_ticketId (es ! a)" "qe_userId (es' ! a) = qe_userId (es ! a)"
    by (simp_all add: id_part_def)
qed

lemma booksI:
  assumes "map_ok tickets" "map_ok users"
    and "\<And>t a. (t, a) \<in> set tickets \<Longrightarrow> a < length es \<and> qe_ticketId (es ! a) = t \<and> map_get users (qe_userId (es ! a)) = Some t"
    and "\<And>u t. (u, t) \<in> set users \<Longrightarrow> \<exists>a. (t, a) \<in> set tickets \<and> qe_userId (es ! a) = u"
    and "\<And>p. p \<in> set ps \<Longrightarrow> presence p = Poll \<Longrightarrow> (part_id p, channel p) \<in> set tickets \<and> qe_userId (es ! channel p) = user_id p"
    and "\<And>p. p \<in> set ps \<Longrightarrow> presence p \<noteq> Poll \<Longrightarrow> part_id p \<notin> fst ` set tickets"
  shows "books es tickets users ps"
  using assms unfolding books_def by fastforce

lemma booksD:
  assumes b: "books es tickets users ps"
  shows "map_ok tickets" "map_ok users"
    and "(t, a) \<in> set tickets \<Longrightarrow> a < length es \<and> qe_ticketId (es ! a) = t \<and> map_get users (qe_userId (es ! a)) = Some t"
    and "(u, t) \<in> set users \<Longrightarrow> \<exists>a. (t, a) \<in> set tickets \<and> qe_userId (es ! a) = u"
    and "p \<in> set ps \<Longrightarrow> presence p = Poll \<Longrightarrow> (part_id p, channel p) \<in> set tickets \<and> qe_userId (es ! channel p) = user_id p"
    and "p \<in> set ps \<Longrightarrow> presence p \<noteq> Poll \<Longrightarrow> part_id p \<notin> fst ` set tickets"
proof -
  note parts = b [unfolded books_def]
  show "map_ok tickets" "map_ok users"
    using parts by blast+
  show "a < length es \<and> qe_ticketId (es ! a) = t \<and> map_get users (qe_userId (es ! a)) = Some t" if "(t, a) \<in> set tickets"
    using parts that by blast
  show "\<exists>a. (t, a) \<in> set tickets \<and> qe_userId (es ! a) = u" if "(u, t) \<in> set users"
    using parts that by blast
  show "(part_id p, channel p) \<in> set tickets \<and> qe_userId (es ! channel p) = user_id p" if "p \<in> set ps" "presence p = Poll"
    using parts that by metis
  show "part_id p \<notin> fst ` set tickets" if "p \<in> set ps" "presence p \<noteq> Poll"
    using parts that by metis
qed

lemma books_shrink:
  assumes b: "books es tickets users ps" and ids: "map id_part es' = map id_part es" and sub: "set ps' \<subseteq> set ps"
  shows "books es' tickets users ps'"
proof (rule booksI)
  have len: "length es' = length es"
    using map_eq_imp_length_eq [OF ids] .
  have same: "qe_ticketId (es' ! a) = qe_ticketId (es ! a)" "qe_userId (es' ! a) = qe_userId (es ! a)"
    if "(t, a) \<in> set tickets" for t a
    using id_part_nth [OF ids] booksD(3) [OF b that] by simp_all
  show "map_ok tickets" "map_ok users"
    using booksD(1,2) [OF b] .
  show "a < length es' \<and> qe_ticketId (es' ! a) = t \<and> map_get users (qe_userId (es' ! a)) = Some t" if "(t, a) \<in> set tickets" for t a
    using booksD(3) [OF b that] same [OF that] len by simp
  show "\<exists>a. (t, a) \<in> set tickets \<and> qe_userId (es' ! a) = u" if "(u, t) \<in> set users" for u t
    using booksD(4) [OF b that] same(2) by force
  show "(part_id p, channel p) \<in> set tickets \<and> qe_userId (es' ! channel p) = user_id p"
    if "p \<in> set ps'" "presence p = Poll" for p
    using booksD(5) [OF b subsetD [OF sub that(1)] that(2)] same(2) by force
  show "part_id p \<notin> fst ` set tickets" if "p \<in> set ps'" "presence p \<noteq> Poll" for p
    using booksD(6) [OF b subsetD [OF sub that(1)] that(2)] .
qed

lemma books_new:
  assumes b: "books es tickets users ps" and t: "t \<notin> fst ` set tickets" "t \<notin> part_id ` set ps"
    and u: "map_get users u = None" and e: "qe_ticketId e = t" "qe_userId e = u"
    and p: "presence p = Poll" "part_id p = t" "channel p = length es" "user_id p = u"
  shows "books (es @ [e]) (map_put t (length es) tickets) (map_put u t users) (p # ps)"
proof (rule booksI)
  have put: "map_put t (length es) tickets = tickets @ [(t, length es)]" "map_put u t users = users @ [(u, t)]"
    using t(1) u by (simp_all add: update_fresh map_of_eq_None_iff)
  have known: "a < length es" "(es @ [e]) ! a = es ! a" "qe_userId (es ! a) \<noteq> u" if "(t', a) \<in> set tickets" for t' a
    using booksD(3) [OF b that] u by (auto simp: nth_append)
  show "map_ok (map_put t (length es) tickets)" "map_ok (map_put u t users)"
    using booksD(1,2) [OF b] by simp_all
  show "a < length (es @ [e]) \<and> qe_ticketId ((es @ [e]) ! a) = t' \<and>
      map_get (map_put u t users) (qe_userId ((es @ [e]) ! a)) = Some t'"
    if "(t', a) \<in> set (map_put t (length es) tickets)" for t' a
  proof (cases "(t', a) \<in> set tickets")
    case True
    then show ?thesis
      using booksD(3) [OF b True] known [OF True] by (simp add: AList.update_conv')
  next
    case False
    then have "t' = t" "a = length es"
      using that by (simp_all add: put(1))
    then show ?thesis
      using e by (simp add: AList.update_conv')
  qed
  show "\<exists>a. (t', a) \<in> set (map_put t (length es) tickets) \<and> qe_userId ((es @ [e]) ! a) = u'"
    if "(u', t') \<in> set (map_put u t users)" for u' t'
  proof (cases "(u', t') \<in> set users")
    case True
    then obtain a where "(t', a) \<in> set tickets" "qe_userId (es ! a) = u'"
      using booksD(4) [OF b True] by blast
    then show ?thesis
      using known(2) by (intro exI [of _ a]) (simp add: put(1))
  next
    case False
    then have "u' = u" "t' = t"
      using that by (simp_all add: put(2))
    then show ?thesis
      using e by (intro exI [of _ "length es"]) (simp add: put(1))
  qed
  show "(part_id p', channel p') \<in> set (map_put t (length es) tickets) \<and> qe_userId ((es @ [e]) ! channel p') = user_id p'"
    if "p' \<in> set (p # ps)" "presence p' = Poll" for p'
  proof (cases "p' = p")
    case True
    then show ?thesis
      using p e by (simp add: put(1))
  next
    case False
    then have "(part_id p', channel p') \<in> set tickets \<and> qe_userId (es ! channel p') = user_id p'"
      using booksD(5) [OF b _ that(2)] that(1) by simp
    then show ?thesis
      using known(2) [of "part_id p'" "channel p'"] by (simp add: put(1))
  qed
  show "part_id p' \<notin> fst ` set (map_put t (length es) tickets)" if "p' \<in> set (p # ps)" "presence p' \<noteq> Poll" for p'
  proof -
    have "p' \<in> set ps"
      using that p(1) by auto
    then show ?thesis
      using booksD(6) [OF b _ that(2)] t(2) by (auto simp: put(1))
  qed
qed

lemma books_remove:
  assumes b: "books es tickets users ps" and t: "(t, a) \<in> set tickets"
    and gone: "\<forall>p \<in> set ps. presence p = Poll \<longrightarrow> part_id p \<noteq> t"
  shows "books es (map_del t tickets) (map_del (qe_userId (es ! a)) users) ps"
proof (rule booksI)
  have del: "(k', v) \<in> set (map_del k m) \<longleftrightarrow> (k', v) \<in> set m \<and> k' \<noteq> k" for k k' :: 'k and v :: 'v and m
    by (auto simp: AList.delete_eq)
  have same: "a' = a" if "(t, a') \<in> set tickets" for a'
    using map_ok_mem [OF booksD(1) [OF b] that] map_ok_mem [OF booksD(1) [OF b] t] by simp
  have other: "qe_userId (es ! a') \<noteq> qe_userId (es ! a)" if "(t', a') \<in> set tickets" "t' \<noteq> t" for t' a'
    using booksD(3) [OF b that(1)] booksD(3) [OF b t] that(2) by auto
  show "map_ok (map_del t tickets)" "map_ok (map_del (qe_userId (es ! a)) users)"
    using booksD(1,2) [OF b] by simp_all
  show "a' < length es \<and> qe_ticketId (es ! a') = t' \<and> map_get (map_del (qe_userId (es ! a)) users) (qe_userId (es ! a')) = Some t'"
    if "(t', a') \<in> set (map_del t tickets)" for t' a'
  proof -
    have "(t', a') \<in> set tickets" "t' \<noteq> t"
      using that by (auto simp: AList.delete_eq)
    then show ?thesis
      using booksD(3) [OF b] other by (simp add: AList.delete_conv')
  qed
  show "\<exists>a'. (t', a') \<in> set (map_del t tickets) \<and> qe_userId (es ! a') = u"
    if "(u, t') \<in> set (map_del (qe_userId (es ! a)) users)" for u t'
  proof -
    have u: "(u, t') \<in> set users" "u \<noteq> qe_userId (es ! a)"
      using that by (auto simp: AList.delete_eq)
    then obtain a' where a': "(t', a') \<in> set tickets" "qe_userId (es ! a') = u"
      using booksD(4) [OF b] by blast
    then have "t' \<noteq> t"
      using same u(2) by blast
    then show ?thesis
      using a' by (intro exI [of _ a']) (simp add: AList.delete_eq)
  qed
  show "(part_id p, channel p) \<in> set (map_del t tickets) \<and> qe_userId (es ! channel p) = user_id p"
    if "p \<in> set ps" "presence p = Poll" for p
    using booksD(5) [OF b that] gone that by (auto simp: AList.delete_eq)
  show "part_id p \<notin> fst ` set (map_del t tickets)" if "p \<in> set ps" "presence p \<noteq> Poll" for p
    using booksD(6) [OF b that] by (auto simp: AList.delete_eq)
qed

end
