(* ===== verification/QueueProps.thy ===== *)
theory QueueProps
  imports QueueLaws
begin

text \<open>
  The queue as a state machine: tickets are drawn, polled and cancelled over HTTP, sockets enter, answer and leave
  the shared pool, rooms are aborted, the timer ticks, in any order (\<open>queue_run\<close>). In every reachable state the books
  agree with the pool, every operation succeeds, and a tick drops the tickets nobody polls.
\<close>

definition fresh_ticket :: "string \<Rightarrow> 'r mm_queue \<Rightarrow> bool" where
  "fresh_ticket t q \<longleftrightarrow> t \<notin> fst ` set (records q) \<and> t \<notin> part_id ` set (everyone (q_pool q))"

definition socket_may_enter :: "participant \<Rightarrow> 'r mm_queue \<Rightarrow> bool" where
  "socket_may_enter p q \<longleftrightarrow> presence p = Socket \<and> part_id p \<notin> fst ` set (records q) \<and> id_not_shared p (q_pool q)"

subsection \<open>Steps that keep the books\<close>

lemma same_tickets_ids: "same_tickets w w' \<Longrightarrow> map id_part (records_heap w') = map id_part (records_heap w)"
proof -
  assume "same_tickets w w'"
  then have "map (\<lambda>x. (fst x, fst (snd x))) (map ticket_part (records_heap w')) =
      map (\<lambda>x. (fst x, fst (snd x))) (map ticket_part (records_heap w))"
    unfolding same_tickets_def by (rule arg_cong)
  then show ?thesis
    by (simp add: comp_def ticket_part_def id_part_def [abs_def])
qed

lemma shrink_inv:
  assumes "queue_inv uuid q" and "pool_inv uuid s" and "same_tickets (world (q_pool q)) (world s)"
    and "set (everyone s) \<subseteq> set (everyone (q_pool q))"
  shows "queue_inv uuid (q\<lparr>q_pool := s\<rparr>)"
  using assms books_shrink [OF _ same_tickets_ids [OF assms(3)] assms(4)] by (simp add: queue_inv_def books_ok_def)

lemma settles_sub: "settles uuid s s' \<Longrightarrow> pool_inv uuid s' \<and> set (everyone s') \<subseteq> set (everyone s)"
  unfolding settles_def good_step_def using moves_everyone by fastforce

lemma left_only_sub: "left_only uuid i s s' \<Longrightarrow> pool_inv uuid s' \<and> set (everyone s') = {p \<in> set (everyone s). part_id p \<noteq> i}"
proof -
  assume l: "left_only uuid i s s'"
  then have "set_mset (mset (everyone s')) = set_mset (filter_mset (\<lambda>p. part_id p \<noteq> i) (mset (everyone s)))"
    by (simp add: left_only_def)
  then show ?thesis
    using l by (auto simp: left_only_def good_step_def)
qed

lemma remove_inv:
  assumes inv: "queue_inv uuid q" and t: "(t, a) \<in> set (records q)" and s: "pool_remove now t (q_pool q) = Inr s"
  shows "queue_inv uuid (removeRecord (record_at a q) (q\<lparr>q_pool := s\<rparr>))"
proof -
  have b: "books (records_heap (world (q_pool q))) (records q) (usersInQueue q) (everyone (q_pool q))"
    and p: "pool_inv uuid (q_pool q)"
    using inv by (simp_all add: queue_inv_def books_ok_def)
  have "left_only uuid t (q_pool q) s"
    using remove_ok [OF p, of now t] s by auto
  note left = left_only_sub [OF this]
  have w: "world s = world (q_pool q)"
    by (rule pool_remove_world [OF s])
  have e: "qe_ticketId (record_at a q) = t"
    using booksD(3) [OF b t] by (simp add: record_at_def)
  have "books (records_heap (world s)) (records q) (usersInQueue q) (everyone s)"
    by (rule books_shrink [OF b]) (use left w in auto)
  then have "books (records_heap (world s)) (map_del t (records q)) (map_del (qe_userId (records_heap (world s) ! a)) (usersInQueue q)) (everyone s)"
    by (rule books_remove [OF _ t]) (use left in auto)
  then show ?thesis
    using left e w by (simp add: queue_inv_def books_ok_def removeRecord_def record_at_def)
qed

lemma forget_inv:
  assumes inv: "queue_inv uuid q" and t: "(t, a) \<in> set (records q)"
    and gone: "\<forall>p \<in> set (everyone (q_pool q)). presence p = Poll \<longrightarrow> part_id p \<noteq> t"
  shows "queue_inv uuid (removeRecord (record_at a q) q)"
proof -
  have b: "books (records_heap (world (q_pool q))) (records q) (usersInQueue q) (everyone (q_pool q))"
    using inv by (simp add: queue_inv_def books_ok_def)
  show ?thesis
    using inv booksD(3) [OF b t] books_remove [OF b t gone]
    by (simp add: queue_inv_def books_ok_def removeRecord_def record_at_def)
qed

lemma pool_same:
  assumes "pool_store s' = pool_store s" and "pending s' = pending s" and "drawn s' = drawn s"
  shows "pool_inv uuid s' = pool_inv uuid s" "everyone s' = everyone s"
  using assms by (simp_all add: pool_inv_def everyone_def)

lemma on_heap_pool [simp]:
  "everyone (on_heap f s) = everyone s" "pool_inv uuid (on_heap f s) = pool_inv uuid s"
  "records_heap (world (on_heap f s)) = f (records_heap (world s))"
  "isQueued i (on_heap f s) = isQueued i s"
  using pool_same [of "on_heap f s" s] by (simp_all add: on_heap_def isQueued_def)

lemma poll_inv:
  assumes inv: "queue_inv uuid q"
  shows "queue_inv uuid (snd (poll now t q))"
proof (cases "map_get (records q) t")
  case None
  then show ?thesis
    using inv by (simp add: poll_def)
next
  case (Some a)
  let ?es = "records_heap (world (q_pool q))"
  have "map id_part (?es[a := (?es ! a)\<lparr>qe_lastPollAt := now\<rparr>]) = map id_part ?es"
    by (cases "a < length ?es") (simp_all add: map_update id_part_def list_update_beyond list_update_same_conv)
  then have "books (?es[a := (?es ! a)\<lparr>qe_lastPollAt := now\<rparr>]) (records q) (usersInQueue q) (everyone (q_pool q))"
    using books_shrink inv by (fastforce simp: queue_inv_def books_ok_def)
  then show ?thesis
    using inv Some by (simp add: poll_def Let_def queue_inv_def books_ok_def record_at_def)
qed

lemma cancel_ok:
  assumes inv: "queue_inv uuid q"
  shows "\<exists>b q'. cancel now t q = Inr (b, q') \<and> queue_inv uuid q' \<and> (b \<longleftrightarrow> t \<in> fst ` set (records q)) \<and>
    records q' = map_del t (records q) \<and> (b \<longrightarrow> t \<notin> part_id ` set (everyone (q_pool q')))"
proof (cases "map_get (records q) t")
  case None
  then have t: "t \<notin> fst ` set (records q)"
    by (simp add: map_of_eq_None_iff)
  then show ?thesis
    using inv None by (intro exI [of _ False] exI [of _ q]) (simp add: cancel_def del_unknown)
next
  case (Some a)
  have mem: "(t, a) \<in> set (records q)"
    by (rule map_of_mem [OF Some])
  have p: "pool_inv uuid (q_pool q)"
    using inv by (simp add: queue_inv_def)
  obtain s where s: "pool_remove now t (q_pool q) = Inr s" "left_only uuid t (q_pool q) s"
    using remove_ok [OF p, of now t] by blast
  have e: "qe_ticketId (record_at a q) = t"
    using inv mem booksD(3) unfolding queue_inv_def books_ok_def record_at_def by blast
  have "t \<in> fst ` set (records q)"
    using mem by force
  then show ?thesis
    using Some s remove_inv [OF inv mem s(1)] e left_only_sub [OF s(2)]
    by (auto simp: cancel_def removeRecord_def)
qed

lemma socket_enters:
  assumes inv: "queue_inv uuid q" and p: "socket_may_enter p q" and add: "pool_add now p (q_pool q) = Inr (b, s)"
  shows "queue_inv uuid (q\<lparr>q_pool := s\<rparr>) \<and> set (everyone s) \<subseteq> insert p (set (everyone (q_pool q)))"
proof -
  have pi: "pool_inv uuid (q_pool q)"
    using inv by (simp add: queue_inv_def)
  have "good_step uuid {#p#} (q_pool q) s"
  proof (cases "queued_user (q_pool q) (user_id p)")
    case True
    then show ?thesis
      using pool_add_replaces [OF pi True, of now] p add by (auto simp: socket_may_enter_def)
  next
    case False
    then have "fresh_in p (q_pool q)"
      using p by (force simp: queued_user_def fresh_in_def socket_may_enter_def id_not_shared_def image_iff)
    then show ?thesis
      using pool_add_new [OF pi, of p now] add by simp
  qed
  then have good: "pool_inv uuid s" "set (everyone s) \<subseteq> insert p (set (everyone (q_pool q)))"
    using moves_everyone [of "{#p#}" "q_pool q" s] by (auto simp: good_step_def)
  have b: "books (records_heap (world (q_pool q))) (records q) (usersInQueue q) (everyone (q_pool q))"
    using inv by (simp add: queue_inv_def books_ok_def)
  have "books (records_heap (world (q_pool q))) (records q) (usersInQueue q) (p # everyone (q_pool q))"
    using b p by (auto simp: books_def socket_may_enter_def)
  then have "books (records_heap (world (q_pool q))) (records q) (usersInQueue q) (everyone s)"
    by (rule books_shrink) (use good in auto)
  then show ?thesis
    using good pool_add_world [OF add] by (simp add: queue_inv_def books_ok_def)
qed

subsection \<open>Reconciling\<close>

definition kept_ticket :: "int \<Rightarrow> nat \<Rightarrow> 'r mm_queue \<Rightarrow> bool" where
  "kept_ticket now a q \<longleftrightarrow>
     (if qe_state (record_at a q) = SearchingEntry then isQueued (qe_ticketId (record_at a q)) (q_pool q)
      else now - qe_lastPollAt (record_at a q) \<le> MATCHED_GRACE_MS)"

lemma isQueued_iff: "pool_inv uuid s \<Longrightarrow> isQueued i s \<longleftrightarrow> i \<in> part_id ` set (everyone s)"
  using mem.get_None [of "pool_store s" i] pool_invD(1) [of uuid s]
  by (auto simp: isQueued_def findByParticipantId_def pending_find_None everyone_def)

lemma removeRecord_fields [simp]:
  "q_pool (removeRecord e q) = q_pool q" "records (removeRecord e q) = map_del (qe_ticketId e) (records q)"
  "record_at a (removeRecord e q) = record_at a q"
  by (simp_all add: removeRecord_def record_at_def)

lemma reconcile_one_ok:
  assumes inv: "queue_inv uuid q" and t: "(t, a) \<in> set (records q)"
    and dead: "\<And>p. p \<in> set (everyone (q_pool q)) \<Longrightarrow> presence p = Poll \<Longrightarrow> part_id p = t \<Longrightarrow>
      now - qe_lastPollAt (record_at a q) \<le> MATCHED_GRACE_MS"
  shows "queue_inv uuid (reconcile_one now a q) \<and> q_pool (reconcile_one now a q) = q_pool q \<and>
    records (reconcile_one now a q) = (if kept_ticket now a q then records q else map_del t (records q))"
proof -
  have e: "qe_ticketId (record_at a q) = t"
    using inv t booksD(3) unfolding queue_inv_def books_ok_def record_at_def by blast
  have pi: "pool_inv uuid (q_pool q)"
    using inv by (simp add: queue_inv_def)
  have "queue_inv uuid (removeRecord (record_at a q) q)" if "\<not> kept_ticket now a q"
  proof (rule forget_inv [OF inv t])
    show "\<forall>p \<in> set (everyone (q_pool q)). presence p = Poll \<longrightarrow> part_id p \<noteq> t"
      using that dead isQueued_iff [OF pi, of t] e unfolding kept_ticket_def by (force split: if_splits)
  qed
  then show ?thesis
    using inv e by (auto simp: reconcile_one_def kept_ticket_def Let_def)
qed

lemma reconcile_list:
  assumes "queue_inv uuid q" and "set es \<subseteq> set (records q)" and "distinct (map fst es)"
    and "\<And>p t a. (t, a) \<in> set es \<Longrightarrow> p \<in> set (everyone (q_pool q)) \<Longrightarrow> presence p = Poll \<Longrightarrow> part_id p = t \<Longrightarrow>
      now - qe_lastPollAt (record_at a q) \<le> MATCHED_GRACE_MS"
  shows "queue_inv uuid (fold (reconcile_one now) (map snd es) q) \<and>
    q_pool (fold (reconcile_one now) (map snd es) q) = q_pool q \<and>
    records (fold (reconcile_one now) (map snd es) q) =
      filter (\<lambda>(t, a). t \<in> fst ` set es \<longrightarrow> kept_ticket now a q) (records q)"
  using assms
proof (induction es arbitrary: q)
  case Nil
  then show ?case
    by (simp add: case_prod_beta)
next
  case (Cons x es)
  obtain t a where x: "x = (t, a)"
    by (cases x)
  have mem: "(t, a) \<in> set (records q)"
    using Cons.prems(2) x by simp
  let ?q = "reconcile_one now a q"
  have one: "queue_inv uuid ?q" "q_pool ?q = q_pool q"
    "records ?q = (if kept_ticket now a q then records q else map_del t (records q))"
  proof -
    have "queue_inv uuid ?q \<and> q_pool ?q = q_pool q \<and>
        records ?q = (if kept_ticket now a q then records q else map_del t (records q))"
      by (rule reconcile_one_ok [OF Cons.prems(1) mem]) (rule Cons.prems(4) [of t a], simp_all add: x)
    then show "queue_inv uuid ?q" "q_pool ?q = q_pool q"
      "records ?q = (if kept_ticket now a q then records q else map_del t (records q))"
      by blast+
  qed
  have at: "record_at b ?q = record_at b q" for b
    using one(2) by (simp add: record_at_def)
  have kept: "kept_ticket now b ?q = kept_ticket now b q" for b
    using one(2) at by (simp add: kept_ticket_def)
  have keys: "distinct (map fst (records q))"
    using Cons.prems(1) booksD(1) unfolding queue_inv_def books_ok_def map_ok_def by blast
  have same: "b = a" if "(t, b) \<in> set (records q)" for b
    using eq_key_imp_eq_value [OF keys that mem] .
  have sub: "set es \<subseteq> set (records ?q)"
    using Cons.prems(2,3) one(3) x by (auto simp: AList.delete_eq image_iff)
  have prem: "now - qe_lastPollAt (record_at b ?q) \<le> MATCHED_GRACE_MS"
    if "(t', b) \<in> set es" "p \<in> set (everyone (q_pool ?q))" "presence p = Poll" "part_id p = t'" for p t' b
    using Cons.prems(4) [of t' b p] that one(2) at by simp
  have "distinct (map fst es)"
    using Cons.prems(3) by simp
  from Cons.IH [OF one(1) sub this prem]
  have IH: "queue_inv uuid (fold (reconcile_one now) (map snd es) ?q)"
    "q_pool (fold (reconcile_one now) (map snd es) ?q) = q_pool q"
    "records (fold (reconcile_one now) (map snd es) ?q) =
      filter (\<lambda>(t, a). t \<in> fst ` set es \<longrightarrow> kept_ticket now a q) (records ?q)"
    using one(2) kept by auto
  have "records ?q = filter (\<lambda>(t', b). t' = t \<longrightarrow> kept_ticket now b q) (records q)"
  proof (cases "kept_ticket now a q")
    case True
    then have "filter (\<lambda>(t', b). t' = t \<longrightarrow> kept_ticket now b q) (records q) = records q"
      using same by (auto simp: filter_id_conv)
    then show ?thesis
      using one(3) True by simp
  next
    case False
    have "filter (\<lambda>(t', b). t' = t \<longrightarrow> kept_ticket now b q) (records q) = filter (\<lambda>e. t \<noteq> fst e) (records q)"
      using same False by (intro filter_cong) auto
    then show ?thesis
      using one(3) False by (simp add: AList.delete_eq case_prod_beta')
  qed
  then have "records (fold (reconcile_one now) (map snd es) ?q) =
      filter (\<lambda>(t', b). t' \<in> fst ` set (x # es) \<longrightarrow> kept_ticket now b q) (records q)"
    unfolding IH(3) by (auto simp: x intro!: filter_cong)
  then show ?case
    using IH(1,2) x by simp
qed

lemma reconcile_ok:
  assumes inv: "queue_inv uuid q"
    and "\<And>p a. (part_id p, a) \<in> set (records q) \<Longrightarrow> p \<in> set (everyone (q_pool q)) \<Longrightarrow> presence p = Poll \<Longrightarrow>
      now - qe_lastPollAt (record_at a q) \<le> MATCHED_GRACE_MS"
  shows "queue_inv uuid (reconcile now q) \<and> q_pool (reconcile now q) = q_pool q \<and>
    records (reconcile now q) = filter (\<lambda>(t, a). kept_ticket now a q) (records q)"
proof -
  have "distinct (map fst (records q))"
    using inv booksD(1) unfolding queue_inv_def books_ok_def map_ok_def by blast
  from reconcile_list [OF inv subset_refl this, of now] assms(2)
  have "queue_inv uuid (reconcile now q)" "q_pool (reconcile now q) = q_pool q"
    "records (reconcile now q) = filter (\<lambda>(t, a). t \<in> fst ` set (records q) \<longrightarrow> kept_ticket now a q) (records q)"
    unfolding reconcile_def by blast+
  moreover have "filter (\<lambda>(t, a). t \<in> fst ` set (records q) \<longrightarrow> kept_ticket now a q) (records q) =
      filter (\<lambda>(t, a). kept_ticket now a q) (records q)"
    by (rule filter_cong) force+
  ultimately show ?thesis
    by simp
qed

subsection \<open>Ticks and arrivals\<close>

lemma part_of_nth:
  assumes "same_tickets w w'" and "a < length (records_heap w)"
  shows "qe_lastPollAt (records_heap w' ! a) = qe_lastPollAt (records_heap w ! a)"
proof -
  have "length (records_heap w') = length (records_heap w)"
    using map_eq_imp_length_eq assms(1) unfolding same_tickets_def by blast
  then have "ticket_part (records_heap w' ! a) = ticket_part (records_heap w ! a)"
    using arg_cong [OF assms(1) [unfolded same_tickets_def], of "\<lambda>xs. xs ! a"] assms(2) by simp
  then show ?thesis
    by (simp add: ticket_part_def)
qed

definition polled_in_time :: "int \<Rightarrow> nat \<Rightarrow> 'r mm_queue \<Rightarrow> bool" where
  "polled_in_time now a q \<longleftrightarrow>
     (let e = record_at a q
      in if qe_state e = SearchingEntry
         then isQueued (qe_ticketId e) (q_pool q) \<and> now - qe_lastPollAt e \<le> QUEUE_TTL_MS
         else now - qe_lastPollAt e \<le> MATCHED_GRACE_MS)"

context queue_handler
begin

lemma tick_inv:
  assumes inv: "queue_inv uuid q" and "inj uuid"
  shows "\<exists>q'. queue_tick (queue_pairing uuid available) handle now q = Inr q' \<and> queue_inv uuid q' \<and>
    set (records q') \<subseteq> set (records q) \<and> set (everyone (q_pool q')) \<subseteq> set (everyone (q_pool q)) \<and>
    (\<forall>(t, a) \<in> set (records q'). polled_in_time now a q')"
proof -
  have pi: "pool_inv uuid (q_pool q)"
    using inv by (simp add: queue_inv_def)
  obtain s where s: "pool_tick channel_alive (queue_pairing uuid available) handle now (q_pool q) = Inr s"
    using tick_ok [OF pi assms(2), of channel_alive now] by blast
  have left: "settles uuid (q_pool q) s" "all_alive channel_alive (world (q_pool q)) now (everyone s)"
    "set (everyone s) \<subseteq> set (everyone (q_pool q))"
    using tick_leaves_living [OF pi assms(2) s] by auto
  have w: "same_tickets (world (q_pool q)) (world s)"
    by (rule tick_kept [OF s pi])
  let ?q = "q\<lparr>q_pool := s\<rparr>"
  have inv1: "queue_inv uuid ?q"
    using shrink_inv [OF inv _ w left(3)] settles_sub [OF left(1)] by blast
  have b: "books (records_heap (world s)) (records q) (usersInQueue q) (everyone s)"
    using inv1 by (simp add: queue_inv_def books_ok_def)
  have fresh: "now - qe_lastPollAt (record_at a ?q) \<le> QUEUE_TTL_MS"
    if "(part_id p, a) \<in> set (records q)" "p \<in> set (everyone s)" "presence p = Poll" for p a
  proof -
    have "(part_id p, channel p) \<in> set (records q)"
      using booksD(5) [OF b that(2,3)] by blast
    then have a: "channel p = a"
      using map_ok_mem [OF booksD(1) [OF b] that(1)] map_ok_mem [OF booksD(1) [OF b], of "part_id p" "channel p"] by simp
    have "a < length (records_heap (world s))"
      using booksD(3) [OF b that(1)] by blast
    then have len: "a < length (records_heap (world (q_pool q)))"
      using map_eq_imp_length_eq [of ticket_part "records_heap (world s)" ticket_part "records_heap (world (q_pool q))"] w
      by (simp add: same_tickets_def)
    have "channel_alive (world (q_pool q)) p now"
      using left(2) that(2) by (simp add: all_alive_def)
    then show ?thesis
      using that(3) a part_of_nth [OF w len] by (simp add: channel_alive_def record_at_def)
  qed
  have grace: "QUEUE_TTL_MS \<le> MATCHED_GRACE_MS"
    by (simp add: QUEUE_TTL_MS_def MATCHED_GRACE_MS_def)
  have slow: "now - qe_lastPollAt (record_at a ?q) \<le> MATCHED_GRACE_MS"
    if "(part_id p, a) \<in> set (records ?q)" "p \<in> set (everyone (q_pool ?q))" "presence p = Poll" for p a
    using fresh [of p a] that grace by simp
  note done_tick = reconcile_ok [OF inv1 slow]
  have run: "queue_tick (queue_pairing uuid available) handle now q = Inr (reconcile now ?q)"
    by (simp add: queue_tick_def s)
  have at: "record_at a (reconcile now ?q) = record_at a ?q" for a
    using done_tick by (simp add: record_at_def)
  have "polled_in_time now a (reconcile now ?q)" if "(t, a) \<in> set (records (reconcile now ?q))" for t a
  proof -
    have mem: "(t, a) \<in> set (records q)" and kept: "kept_ticket now a ?q"
      using that done_tick by auto
    have e: "qe_ticketId (record_at a ?q) = t"
      using booksD(3) [OF b mem] by (simp add: record_at_def)
    have "now - qe_lastPollAt (record_at a ?q) \<le> QUEUE_TTL_MS" if "isQueued t s"
    proof -
      note queued = that
      obtain p where p: "p \<in> set (everyone s)" "part_id p = t"
        using queued isQueued_iff [of uuid s t] inv1 by (auto simp: queue_inv_def)
      have "t \<in> fst ` set (records q)"
        using mem by force
      then have "presence p = Poll"
        using booksD(6) [OF b p(1)] p(2) by blast
      then show ?thesis
        using fresh p mem by blast
    qed
    then show ?thesis
      using kept e done_tick at by (auto simp: polled_in_time_def kept_ticket_def Let_def)
  qed
  then show ?thesis
    using run done_tick left(3) by auto
qed

lemma enqueue_ok:
  assumes inv: "queue_inv uuid q" and "inj uuid" and t: "fresh_ticket (in_ticketId i) q"
  shows "(isUserQueued (in_userId i) q \<or> in_userId i \<in> user_id ` set (everyone (q_pool q))) \<and>
      enqueue (queue_pairing uuid available) handle now i q = Inl (DuplicateQueueEntryError (in_userId i)) \<or>
    (\<exists>a q'. enqueue (queue_pairing uuid available) handle now i q = Inr (a, q') \<and> queue_inv uuid q' \<and>
      \<not> isUserQueued (in_userId i) q \<and> in_userId i \<notin> user_id ` set (everyone (q_pool q)) \<and>
      (\<forall>(t, a) \<in> set (records q'). polled_in_time now a q') \<and>
      set (everyone (q_pool q')) \<subseteq> insert (poll_participant now a i) (set (everyone (q_pool q))) \<and>
      fst ` set (records q') \<subseteq> insert (in_ticketId i) (fst ` set (records q)))"
proof (cases "isUserQueued (in_userId i) q")
  case True
  then show ?thesis
    by (simp add: enqueue_def)
next
  case False
  have pi: "pool_inv uuid (q_pool q)"
    using inv by (simp add: queue_inv_def)
  define a where "a = length (records_heap (world (q_pool q)))"
  define p where "p = poll_participant now a i"
  define s where "s = on_heap (\<lambda>es. es @ [new_record now i]) (q_pool q)"
  have s: "pool_inv uuid s" "everyone s = everyone (q_pool q)"
    using pi by (simp_all add: s_def)
  have p: "presence p = Poll" "part_id p = in_ticketId i" "channel p = a" "user_id p = in_userId i"
    by (simp_all add: p_def poll_participant_def)
  show ?thesis
  proof (cases "in_userId i \<in> user_id ` set (everyone (q_pool q))")
    case True
    then have "queued_user s (user_id p)"
      using s(2) p(4) by (simp add: queued_user_def)
    then have "pool_add now p s = Inl (DuplicateQueueEntryError (in_userId i))"
      using pool_add_poll [OF s(1)] p by simp
    then show ?thesis
      using False True by (simp add: enqueue_def Let_def flip: a_def p_def s_def)
  next
    case out: False
    have "fresh_in p s"
      using out t p s(2) by (simp add: fresh_in_def fresh_ticket_def)
    note added = pool_add_new [OF s(1) this, of now]
    let ?q = "q\<lparr>q_pool := enter p s, records := map_put (in_ticketId i) a (records q),
        usersInQueue := map_put (in_userId i) (in_ticketId i) (usersInQueue q)\<rparr>"
    have b: "books (records_heap (world (q_pool q))) (records q) (usersInQueue q) (everyone (q_pool q))"
      using inv by (simp add: queue_inv_def books_ok_def)
    have "books (records_heap (world (q_pool q)) @ [new_record now i]) (map_put (in_ticketId i) (length (records_heap (world (q_pool q)))) (records q))
        (map_put (in_userId i) (in_ticketId i) (usersInQueue q)) (p # everyone (q_pool q))"
      by (rule books_new [OF b]) (use t False p in \<open>auto simp: fresh_ticket_def isUserQueued_def new_record_def a_def\<close>)
    then have "books (records_heap (world (q_pool q)) @ [new_record now i]) (map_put (in_ticketId i) a (records q))
        (map_put (in_userId i) (in_ticketId i) (usersInQueue q)) (p # everyone (q_pool q))"
      by (simp add: a_def)
    moreover have "map id_part (records_heap (world (enter p s))) = map id_part (records_heap (world (q_pool q)) @ [new_record now i])"
      by (simp add: s_def enter_def)
    moreover have "set (everyone (enter p s)) \<subseteq> set (p # everyone (q_pool q))"
      using added moves_everyone [of "{#p#}" s "enter p s"] s(2) by (auto simp: good_step_def)
    ultimately have "books (records_heap (world (enter p s))) (map_put (in_ticketId i) a (records q))
        (map_put (in_userId i) (in_ticketId i) (usersInQueue q)) (everyone (enter p s))"
      by (rule books_shrink)
    then have inv1: "queue_inv uuid ?q"
      using added by (simp add: queue_inv_def books_ok_def good_step_def)
    have sub: "set (everyone (enter p s)) \<subseteq> insert p (set (everyone (q_pool q)))"
      using added moves_everyone [of "{#p#}" s "enter p s"] s(2) by (auto simp: good_step_def)
    obtain q' where q': "queue_tick (queue_pairing uuid available) handle now ?q = Inr q'" "queue_inv uuid q'"
      "set (everyone (q_pool q')) \<subseteq> set (everyone (enter p s))" "\<forall>(t, a) \<in> set (records q'). polled_in_time now a q'"
      "set (records q') \<subseteq> set (map_put (in_ticketId i) a (records q))"
      using tick_inv [OF inv1 assms(2), of now] by auto
    have tickets: "fst ` set (records q') \<subseteq> insert (in_ticketId i) (fst ` set (records q))"
      using image_mono [OF q'(5), of fst] by (simp add: AList.dom_update)
    have "enqueue (queue_pairing uuid available) handle now i q = Inr (a, q')"
      using False added q'(1) by (simp add: enqueue_def Let_def flip: a_def p_def s_def)
    then show ?thesis
      using False out q'(2-4) sub tickets by (auto simp: p_def)
  qed
qed

end

subsection \<open>Aborted rooms\<close>

definition in_room :: "nat \<Rightarrow> 'r mm_queue \<Rightarrow> string \<times> nat \<Rightarrow> bool" where
  "in_room r q x \<longleftrightarrow> qe_roomId (record_at (snd x) q) = Some r"

lemma filter_keys_drop:
  assumes "distinct (map fst m)" and "(t, a) \<in> set m"
  shows "map_del t m = filter (\<lambda>x. x \<noteq> (t, a)) m"
proof -
  have "fst x \<noteq> t \<longleftrightarrow> x \<noteq> (t, a)" if "x \<in> set m" for x
    using eq_key_imp_eq_value [OF assms(1), of t "snd x" a] that assms(2) by (cases x) auto
  then have "filter (\<lambda>x. t \<noteq> fst x) m = filter (\<lambda>x. x \<noteq> (t, a)) m"
    by (intro filter_cong) auto
  then show ?thesis
    by (simp add: AList.delete_eq case_prod_beta')
qed

lemma abort_list:
  assumes "queue_inv uuid q" and "set es \<subseteq> set (records q)" and "distinct es"
  shows "\<exists>q'. fold_e (abort_one now r) (map snd es) (n, q) = Inr (n + length (filter (in_room r q) es), q') \<and>
    queue_inv uuid q' \<and> world (q_pool q') = world (q_pool q) \<and>
    set (records q') = {x \<in> set (records q). \<not> (x \<in> set es \<and> in_room r q x)} \<and>
    set (everyone (q_pool q')) \<subseteq> set (everyone (q_pool q))"
  using assms
proof (induction es arbitrary: q n)
  case Nil
  then show ?case
    by simp
next
  case (Cons x es)
  obtain t a where x: "x = (t, a)"
    by (cases x)
  have mem: "(t, a) \<in> set (records q)"
    using Cons.prems(2) x by simp
  have keys: "distinct (map fst (records q))"
    using Cons.prems(1) booksD(1) unfolding queue_inv_def books_ok_def map_ok_def by blast
  have e: "qe_ticketId (record_at a q) = t"
    using Cons.prems(1) mem booksD(3) unfolding queue_inv_def books_ok_def record_at_def by blast
  have pi: "pool_inv uuid (q_pool q)"
    using Cons.prems(1) by (simp add: queue_inv_def)
  obtain s where s: "pool_remove now t (q_pool q) = Inr s" "left_only uuid t (q_pool q) s"
    using remove_ok [OF pi, of now t] by blast
  define q1 where "q1 = (if in_room r q x then removeRecord (record_at a q) (q\<lparr>q_pool := s\<rparr>) else q)"
  have one: "abort_one now r a (n, q) = Inr (if in_room r q x then n + 1 else n, q1)"
    using s(1) e by (simp add: abort_one_def q1_def in_room_def x Let_def)
  have inv1: "queue_inv uuid q1"
    using remove_inv [OF Cons.prems(1) mem s(1)] Cons.prems(1) by (simp add: q1_def)
  have w: "world (q_pool q1) = world (q_pool q)" "set (everyone (q_pool q1)) \<subseteq> set (everyone (q_pool q))"
    using pool_remove_world [OF s(1)] left_only_sub [OF s(2)] by (auto simp: q1_def)
  have room: "in_room r q1 y = in_room r q y" for y
    using w(1) by (simp add: in_room_def record_at_def)
  have recs: "set (records q1) = {y \<in> set (records q). \<not> (y = x \<and> in_room r q x)}"
    using filter_keys_drop [OF keys mem] e by (auto simp: q1_def x)
  have sub: "set es \<subseteq> set (records q1)"
    using Cons.prems(2,3) recs by auto
  have "distinct es"
    using Cons.prems(3) by simp
  from Cons.IH [OF inv1 sub this, of "if in_room r q x then n + 1 else n"] obtain q' where q':
    "fold_e (abort_one now r) (map snd es) (if in_room r q x then n + 1 else n, q1) =
      Inr ((if in_room r q x then n + 1 else n) + length (filter (in_room r q) es), q')"
    "queue_inv uuid q'" "world (q_pool q') = world (q_pool q)"
    "set (records q') = {y \<in> set (records q1). \<not> (y \<in> set es \<and> in_room r q y)}"
    "set (everyone (q_pool q')) \<subseteq> set (everyone (q_pool q1))"
    using w(1) by (auto simp: room [abs_def])
  have "set (records q') = {y \<in> set (records q). \<not> (y \<in> set (x # es) \<and> in_room r q y)}"
    unfolding q'(4) recs by auto
  moreover have "fold_e (abort_one now r) (map snd (x # es)) (n, q) = Inr (n + length (filter (in_room r q) (x # es)), q')"
    using one q'(1) by (cases "in_room r q x") (simp_all add: x)
  ultimately show ?case
    using q'(2,3,5) w(2) by blast
qed

lemma abort_ok:
  assumes inv: "queue_inv uuid q"
  shows "\<exists>q'. abortRoom now r q = Inr (length (filter (in_room r q) (records q)), q') \<and> queue_inv uuid q' \<and>
    world (q_pool q') = world (q_pool q) \<and> set (records q') = {x \<in> set (records q). \<not> in_room r q x} \<and>
    set (everyone (q_pool q')) \<subseteq> set (everyone (q_pool q))"
proof -
  have "distinct (records q)"
    using inv booksD(1) distinct_map unfolding queue_inv_def books_ok_def map_ok_def by blast
  from abort_list [OF inv subset_refl this, of now r 0] show ?thesis
    by (auto simp: abortRoom_def)
qed

subsection \<open>Runs\<close>

definition empty_queue :: "'r \<Rightarrow> 'r mm_queue" where
  "empty_queue x = \<lparr>q_pool = empty_pool \<lparr>records_heap = [], closed_sockets = [], outside = x\<rparr>, records = [], usersInQueue = []\<rparr>"

inductive queue_run :: "(nat \<Rightarrow> string) \<Rightarrow> bool \<Rightarrow> 'r queue_world match_handling \<Rightarrow> 'r mm_queue \<Rightarrow> bool"
  for uuid available handle where
    begin_run: "queue_run uuid available handle (empty_queue x)"
  | run_enqueue: "queue_run uuid available handle q \<Longrightarrow> fresh_ticket (in_ticketId i) q \<Longrightarrow>
      enqueue (queue_pairing uuid available) handle now i q = Inr (a, q') \<Longrightarrow> queue_run uuid available handle q'"
  | run_poll: "queue_run uuid available handle q \<Longrightarrow> queue_run uuid available handle (snd (poll now t q))"
  | run_cancel: "queue_run uuid available handle q \<Longrightarrow> cancel now t q = Inr (b, q') \<Longrightarrow> queue_run uuid available handle q'"
  | run_abort: "queue_run uuid available handle q \<Longrightarrow> abortRoom now r q = Inr (n, q') \<Longrightarrow> queue_run uuid available handle q'"
  | run_queue_tick: "queue_run uuid available handle q \<Longrightarrow>
      queue_tick (queue_pairing uuid available) handle now q = Inr q' \<Longrightarrow> queue_run uuid available handle q'"
  | run_socket_add: "queue_run uuid available handle q \<Longrightarrow> socket_may_enter p q \<Longrightarrow>
      pool_add now p (q_pool q) = Inr (b, s) \<Longrightarrow> queue_run uuid available handle (q\<lparr>q_pool := s\<rparr>)"
  | run_socket_leave: "queue_run uuid available handle q \<Longrightarrow> dequeueBySocketId now i (q_pool q) = Inr (b, s) \<Longrightarrow>
      queue_run uuid available handle (q\<lparr>q_pool := s\<rparr>)"
  | run_socket_accept: "queue_run uuid available handle q \<Longrightarrow> pool_accept handle now mid i (q_pool q) = Inr (oc, s) \<Longrightarrow>
      queue_run uuid available handle (q\<lparr>q_pool := s\<rparr>)"
  | run_socket_decline: "queue_run uuid available handle q \<Longrightarrow> pool_decline now mid i (q_pool q) = Inr (oc, s) \<Longrightarrow>
      queue_run uuid available handle (q\<lparr>q_pool := s\<rparr>)"
  | run_pool_tick: "queue_run uuid available handle q \<Longrightarrow>
      pool_tick channel_alive (queue_pairing uuid available) handle now (q_pool q) = Inr s \<Longrightarrow>
      queue_run uuid available handle (q\<lparr>q_pool := s\<rparr>)"
  | run_outside: "queue_run uuid available handle q \<Longrightarrow> records_heap w = records_heap (world (q_pool q)) \<Longrightarrow>
      queue_run uuid available handle (q\<lparr>q_pool := (q_pool q)\<lparr>world := w\<rparr>\<rparr>)"

lemma declined_sub:
  assumes "pool_inv uuid s" and "pool_decline now mid i s = Inr (oc, s')"
  shows "pool_inv uuid s' \<and> set (everyone s') \<subseteq> set (everyone s)"
  using decline_ok [OF assms(1), of now mid i] assms(2) left_only_sub [of uuid i s s'] by (auto simp: good_step_def)

context queue_handler
begin

lemma socket_steps_inv:
  assumes inv: "queue_inv uuid q" and "inj uuid"
  shows "dequeueBySocketId now i (q_pool q) = Inr (b, s) \<Longrightarrow> queue_inv uuid (q\<lparr>q_pool := s\<rparr>)"
    and "pool_accept handle now mid i (q_pool q) = Inr (oc, s) \<Longrightarrow> queue_inv uuid (q\<lparr>q_pool := s\<rparr>)"
    and "pool_decline now mid i (q_pool q) = Inr (oc, s) \<Longrightarrow> queue_inv uuid (q\<lparr>q_pool := s\<rparr>)"
    and "pool_tick channel_alive (queue_pairing uuid available) handle now (q_pool q) = Inr s \<Longrightarrow> queue_inv uuid (q\<lparr>q_pool := s\<rparr>)"
proof -
  have pi: "pool_inv uuid (q_pool q)"
    using inv by (simp add: queue_inv_def)
  show "queue_inv uuid (q\<lparr>q_pool := s\<rparr>)" if r: "dequeueBySocketId now i (q_pool q) = Inr (b, s)"
  proof (rule shrink_inv [OF inv])
    have "left_only uuid i (q_pool q) s"
      using dequeue_ok [OF pi, of now i] r by auto
    then show "pool_inv uuid s" "set (everyone s) \<subseteq> set (everyone (q_pool q))"
      using left_only_sub by blast+
    show "same_tickets (world (q_pool q)) (world s)"
      using dequeue_world [OF r] by simp
  qed
  show "queue_inv uuid (q\<lparr>q_pool := s\<rparr>)" if r: "pool_accept handle now mid i (q_pool q) = Inr (oc, s)"
  proof (rule shrink_inv [OF inv])
    have "settles uuid (q_pool q) s"
      using accept_ok [OF pi, of now mid i] r by auto
    then show "pool_inv uuid s" "set (everyone s) \<subseteq> set (everyone (q_pool q))"
      using settles_sub by blast+
    show "same_tickets (world (q_pool q)) (world s)"
      by (rule accept_kept [OF r])
  qed
  show "queue_inv uuid (q\<lparr>q_pool := s\<rparr>)" if r: "pool_decline now mid i (q_pool q) = Inr (oc, s)"
    by (rule shrink_inv [OF inv]) (use declined_sub [OF pi r] decline_world [OF r] in auto)
  show "queue_inv uuid (q\<lparr>q_pool := s\<rparr>)"
    if r: "pool_tick channel_alive (queue_pairing uuid available) handle now (q_pool q) = Inr s"
  proof (rule shrink_inv [OF inv])
    show "pool_inv uuid s" "set (everyone s) \<subseteq> set (everyone (q_pool q))"
      using tick_leaves_living [OF pi assms(2) r] settles_sub by blast+
    show "same_tickets (world (q_pool q)) (world s)"
      by (rule tick_kept [OF r pi])
  qed
qed

lemma queue_run_inv:
  assumes "queue_run uuid available handle q" and uuid: "inj uuid"
  shows "queue_inv uuid q"
  using assms(1)
proof (induction rule: queue_run.induct)
  case (begin_run x)
  show ?case
    using empty_pool_inv by (simp add: queue_inv_def empty_queue_def books_ok_def books_def)
      (simp add: empty_pool_def everyone_def waiting_def empty_store_def)
next
  case (run_enqueue q i now a q')
  then show ?case
    using enqueue_ok [OF _ uuid, of q i now] by auto
next
  case (run_cancel q now t b q')
  then show ?case
    using cancel_ok [of uuid q now t] by auto
next
  case (run_abort q now r n q')
  then show ?case
    using abort_ok [of uuid q now r] by auto
next
  case (run_queue_tick q now q')
  then show ?case
    using tick_inv [OF _ uuid, of q now] by auto
next
  case (run_outside q w)
  then show ?case
    using pool_same [of "(q_pool q)\<lparr>world := w\<rparr>" "q_pool q"] by (simp add: queue_inv_def books_ok_def)
next
  case (run_poll q now t)
  then show ?case
    using poll_inv by blast
next
  case (run_socket_add q p now b s)
  then show ?case
    using socket_enters by blast
next
  case (run_socket_leave q now i b s)
  then show ?case
    using socket_steps_inv(1) [OF _ uuid] by blast
next
  case (run_socket_accept q now mid i oc s)
  then show ?case
    using socket_steps_inv(2) [OF _ uuid] by blast
next
  case (run_socket_decline q now mid i oc s)
  then show ?case
    using socket_steps_inv(3) [OF _ uuid] by blast
next
  case (run_pool_tick q now s)
  then show ?case
    using socket_steps_inv(4) [OF _ uuid] by blast
qed

end

subsection \<open>Properties\<close>

text \<open>C37. One ticket per user, and the books tell the truth: in every reachable state the tickets on the books belong
  to different users, \<open>isUserQueued\<close> says whether a user has one, and every poll participant the pool holds, waiting or
  in a proposed match, is the one of a ticket on the books, with the record it will be told of its match in.\<close>

theorem one_ticket_per_user:
  assumes "queue_run uuid available (queue_handle create spawn) q" and "inj uuid"
  shows "distinct (map (\<lambda>(t, a). qe_userId (record_at a q)) (records q)) \<and>
    (\<forall>u. isUserQueued u q \<longleftrightarrow> (\<exists>(t, a) \<in> set (records q). qe_userId (record_at a q) = u)) \<and>
    (\<forall>p \<in> set (everyone (q_pool q)). presence p = Poll \<longrightarrow>
       map_get (records q) (part_id p) = Some (channel p) \<and> qe_userId (record_at (channel p) q) = user_id p)"
proof -
  have b: "books (records_heap (world (q_pool q))) (records q) (usersInQueue q) (everyone (q_pool q))"
    using injected.queue_run_inv [OF assms] by (simp add: queue_inv_def books_ok_def)
  have keys: "distinct (map fst (records q))"
    using booksD(1) [OF b] by (simp add: map_ok_def)
  have "inj_on (\<lambda>(t, a). qe_userId (record_at a q)) (set (records q))"
  proof (rule inj_onI)
    fix x y
    assume xy: "x \<in> set (records q)" "y \<in> set (records q)"
      "(case x of (t, a) \<Rightarrow> qe_userId (record_at a q)) = (case y of (t, a) \<Rightarrow> qe_userId (record_at a q))"
    obtain t a t' a' where x: "x = (t, a)" and y: "y = (t', a')"
      by (cases x; cases y)
    have "t = t'"
      using booksD(3) [OF b, of t a] booksD(3) [OF b, of t' a'] xy x y by (simp add: record_at_def)
    then show "x = y"
      using eq_key_imp_eq_value [OF keys, of t a a'] xy x y by simp
  qed
  then have "distinct (map (\<lambda>(t, a). qe_userId (record_at a q)) (records q))"
    using keys by (simp add: distinct_map)
  moreover have "isUserQueued u q \<longleftrightarrow> (\<exists>(t, a) \<in> set (records q). qe_userId (record_at a q) = u)" for u
  proof
    assume "isUserQueued u q"
    then obtain t where "(u, t) \<in> set (usersInQueue q)"
      unfolding isUserQueued_def using map_of_mem by fastforce
    then show "\<exists>(t, a) \<in> set (records q). qe_userId (record_at a q) = u"
      using booksD(4) [OF b] by (force simp: record_at_def)
  next
    assume "\<exists>(t, a) \<in> set (records q). qe_userId (record_at a q) = u"
    then obtain t a where "(t, a) \<in> set (records q)" "qe_userId (record_at a q) = u"
      by blast
    then show "isUserQueued u q"
      using booksD(3) [OF b] by (fastforce simp: isUserQueued_def record_at_def)
  qed
  moreover have "map_get (records q) (part_id p) = Some (channel p) \<and> qe_userId (record_at (channel p) q) = user_id p"
    if "p \<in> set (everyone (q_pool q))" "presence p = Poll" for p
    using booksD(5) [OF b that] map_ok_mem [OF booksD(1) [OF b]] by (simp add: record_at_def)
  ultimately show ?thesis
    by blast
qed


text \<open>Entering is refused to exactly the users who are in: for a fresh ticket the queue answers with a duplicate
  error when the user has a ticket on the books or waits in the pool from a socket; otherwise the entry succeeds, the
  tick it triggers included, and the pool holds nobody new but this ticket's participant.\<close>

theorem only_known_users_are_refused:
  assumes "queue_run uuid available (queue_handle create spawn) q" and "inj uuid" and "fresh_ticket (in_ticketId i) q"
  shows "(enqueue (queue_pairing uuid available) (queue_handle create spawn) now i q = Inl (DuplicateQueueEntryError (in_userId i)) \<longleftrightarrow>
      isUserQueued (in_userId i) q \<or> in_userId i \<in> user_id ` set (everyone (q_pool q))) \<and>
    (isUserQueued (in_userId i) q \<or> in_userId i \<in> user_id ` set (everyone (q_pool q)) \<or>
      (\<exists>a q'. enqueue (queue_pairing uuid available) (queue_handle create spawn) now i q = Inr (a, q') \<and>
        set (everyone (q_pool q')) \<subseteq> insert (poll_participant now a i) (set (everyone (q_pool q)))))"
  using injected.enqueue_ok [OF injected.queue_run_inv [OF assms(1,2)] assms(2,3), of available create spawn now] by auto

subsection \<open>Witnesses\<close>

definition full_house :: "match \<Rightarrow> unit \<Rightarrow> (nat \<times> string) option \<times> unit" where
  "full_house m x = (None, x)"

definition idle_bot :: "nat \<Rightarrow> mm_format \<Rightarrow> unit \<Rightarrow> bool \<times> unit" where
  "idle_bot i f x = (True, x)"

definition ana_enters :: "string \<Rightarrow> enqueue_input" where
  "ana_enters t = \<lparr>in_ticketId = t, in_userId = ''ana'', in_format = Edison, in_displayName = None, in_botFallbackAfterMs = None\<rparr>"

definition one_ticket :: "unit mm_queue" where
  "one_ticket = (case enqueue (queue_pairing sample_uuid True) (queue_handle full_house idle_bot) 5 (ana_enters ''t'') (empty_queue ()) of
     Inr (a, q) \<Rightarrow> q | Inl e \<Rightarrow> empty_queue ())"

lemma one_ticket_books: "map fst (records one_ticket) = [''t''] \<and> map part_id (everyone (q_pool one_ticket)) = [''t''] \<and>
    isUserQueued ''ana'' one_ticket"
  by code_simp

lemma one_ticket_run: "queue_run sample_uuid True (queue_handle full_house idle_bot) one_ticket"
proof -
  have "fresh_ticket (in_ticketId (ana_enters ''t'')) (empty_queue ())"
    by (simp add: fresh_ticket_def empty_queue_def empty_pool_def everyone_def waiting_def empty_store_def)
  then show ?thesis
    using run_enqueue [OF begin_run, of "ana_enters ''t''" "()" sample_uuid True "queue_handle full_house idle_bot" 5]
      begin_run [of sample_uuid True "queue_handle full_house idle_bot" "()"]
    by (auto simp: one_ticket_def split: sum.splits)
qed

lemma one_ticket_polls: "map presence (everyone (q_pool one_ticket)) = [Poll]"
  by code_simp

theorem one_ticket_per_user_witness:
  "distinct (map (\<lambda>(t, a). qe_userId (record_at a one_ticket)) (records one_ticket)) \<and>
    (\<exists>t a. (t, a) \<in> set (records one_ticket) \<and> qe_userId (record_at a one_ticket) = ''ana'') \<and>
    (\<exists>p. everyone (q_pool one_ticket) = [p] \<and> map_get (records one_ticket) (part_id p) = Some (channel p) \<and>
       qe_userId (record_at (channel p) one_ticket) = user_id p)"
proof -
  note all = one_ticket_per_user [OF one_ticket_run inj_sample_uuid]
  obtain p where p: "everyone (q_pool one_ticket) = [p]" "presence p = Poll"
    using one_ticket_polls by (auto simp: map_eq_Cons_conv)
  have "\<exists>(t, a) \<in> set (records one_ticket). qe_userId (record_at a one_ticket) = ''ana''"
    using all one_ticket_books by blast
  moreover have "map_get (records one_ticket) (part_id p) = Some (channel p) \<and>
      qe_userId (record_at (channel p) one_ticket) = user_id p"
    using all p by simp
  ultimately show ?thesis
    using all p(1) by blast
qed

text \<open>The ticket was last polled at 5, so at 9000 it is off the books.\<close>

lemma one_ticket_expires:
  "(case queue_tick (queue_pairing sample_uuid True) (queue_handle full_house idle_bot) 9000 one_ticket of
      Inr q \<Rightarrow> records q = [] | Inl e \<Rightarrow> False)"
  by code_simp


theorem only_known_users_are_refused_witness:
  "enqueue (queue_pairing sample_uuid True) (queue_handle full_house idle_bot) 6 (ana_enters ''t2'') one_ticket =
    Inl (DuplicateQueueEntryError ''ana'')"
proof -
  have "''t2'' \<notin> set (map fst (records one_ticket))" "''t2'' \<notin> set (map part_id (everyone (q_pool one_ticket)))"
    using one_ticket_books by simp_all
  then have "fresh_ticket (in_ticketId (ana_enters ''t2'')) one_ticket"
    by (simp add: fresh_ticket_def ana_enters_def)
  from only_known_users_are_refused [OF one_ticket_run inj_sample_uuid this, of 6] show ?thesis
    using one_ticket_books by (simp add: ana_enters_def)
qed

end
