(* ===== verification/Framing.thy ===== *)
theory Framing
  imports Buffers
begin

text \<open>
  Cutting the byte stream of a connection into messages: \<open>MessageProcessor\<close>
  (\<open>src/shared/messages/MessageProcessor.ts\<close>), the emitters that drain it
  (\<open>src/shared/messages/MessageEmitter.ts\<close>, \<open>src/ygopro/SimpleRoomMessageEmitter.ts\<close>,
  \<open>src/edopro/RoomMessageEmitter.ts\<close>) and the length-prefixed text of the EDOPro core
  (\<open>src/edopro/messages/JSONMessageProcessor.ts\<close>). Fields the code leaves undefined before the first
  message are empty here. The length of a message is tested as a signed and read as an unsigned 16-bit number.
\<close>

subsection \<open>Messages with a 16-bit length\<close>

record processor =
  mp_buffer :: buffer
  mp_size :: nat
  mp_command :: nat
  mp_data :: buffer
  mp_raw :: buffer
  mp_previous :: buffer
  mp_previous_raw :: buffer

definition new_processor :: processor where
  "new_processor = \<lparr>mp_buffer = [], mp_size = 0, mp_command = 0, mp_data = [], mp_raw = [], mp_previous = [], mp_previous_raw = []\<rparr>"

definition mp_read :: "buffer \<Rightarrow> processor \<Rightarrow> processor" where
  "mp_read data p = p\<lparr>mp_buffer := mp_buffer p @ data\<rparr>"

definition readInt16LE :: "buffer \<Rightarrow> int" where
  "readInt16LE b = (let v = le_value (take 2 b) in if v \<ge> 2 ^ 15 then int v - 2 ^ 16 else int v)"

definition isMessageReady :: "processor \<Rightarrow> bool" where
  "isMessageReady p \<longleftrightarrow> length (mp_buffer p) \<ge> 2 \<and> int (length (mp_buffer p) - 2) \<ge> readInt16LE (mp_buffer p)"

text \<open>Reading the command byte behind a message of size 0 at the end of the buffer throws: \<open>None\<close>.\<close>

definition process :: "processor \<Rightarrow> processor option" where
  "process p =
     (if \<not> isMessageReady p then Some p
      else
        (let p1 = (if mp_data p = [] then p else p\<lparr>mp_previous := mp_data p, mp_previous_raw := mp_raw p\<rparr>);
             b = mp_buffer p; n = le_value (take 2 b)
         in case readUInt8 2 b of None \<Rightarrow> None
            | Some c \<Rightarrow> Some (p1\<lparr>mp_size := n, mp_command := c, mp_data := subarray 3 (n + 2) b,
                mp_raw := subarray 0 (n + 2) b, mp_buffer := drop (n + 2) b\<rparr>)))"

text \<open>An emitter hands every message to its listeners, one after the other, until no whole message is left.\<close>

record client_message =
  cm_command :: nat
  cm_size :: nat
  cm_data :: buffer
  cm_raw :: buffer

definition payload :: "processor \<Rightarrow> client_message" where
  "payload p = \<lparr>cm_command = mp_command p, cm_size = mp_size p, cm_data = mp_data p, cm_raw = mp_raw p\<rparr>"

lemma process_shorter: "isMessageReady p \<Longrightarrow> process p = Some p' \<Longrightarrow> length (mp_buffer p') < length (mp_buffer p)"
  by (auto simp: process_def isMessageReady_def Let_def split: option.splits)

function processMessage :: "processor \<Rightarrow> (client_message list \<times> processor) option" where
  "processMessage p =
     (if \<not> isMessageReady p then Some ([], p)
      else case process p of None \<Rightarrow> None
           | Some p' \<Rightarrow> map_option (\<lambda>(ms, q). (payload p' # ms, q)) (processMessage p'))"
  by pat_completeness auto

termination processMessage
  by (relation "measure (length \<circ> mp_buffer)") (simp_all add: process_shorter)

declare processMessage.simps [simp del]

definition handleMessage :: "buffer \<Rightarrow> processor \<Rightarrow> (client_message list \<times> processor) option" where
  "handleMessage data p = processMessage (mp_read data p)"

text \<open>The listeners of a connection that has no room yet.\<close>

datatype emitter_event = CreateListener | JoinListener | Emit client_message

definition PLAYER_INFO :: nat where "PLAYER_INFO = 16"
definition CREATE_GAME :: nat where "CREATE_GAME = 17"
definition JOIN_GAME :: nat where "JOIN_GAME = 18"
definition RECONNECT :: nat where "RECONNECT = 0xfd"

definition MATCHMAKING_COMMANDS :: "nat list" where
  "MATCHMAKING_COMMANDS = [0xfb, 0xfa, 0xf9, 0xf5, 0xf4]"

definition emitter_events :: "client_message \<Rightarrow> emitter_event list" where
  "emitter_events m =
     (let c = cm_command m
      in (if c = PLAYER_INFO then [Emit m] else []) @
         (if c = CREATE_GAME then [CreateListener, Emit m] else []) @
         (if c = JOIN_GAME then [JoinListener, Emit m] else []) @
         (if c = RECONNECT then [Emit m] else []) @
         (if c \<in> set MATCHMAKING_COMMANDS then [Emit m] else []))"

subsection \<open>Text with a 32-bit length\<close>

record json_processor =
  js_buffer :: buffer
  js_size :: nat
  js_data :: buffer

definition new_json_processor :: json_processor where
  "new_json_processor = \<lparr>js_buffer = [], js_size = 0, js_data = []\<rparr>"

definition js_read :: "buffer \<Rightarrow> json_processor \<Rightarrow> json_processor" where
  "js_read data p = p\<lparr>js_buffer := js_buffer p @ data\<rparr>"

definition js_isMessageReady :: "json_processor \<Rightarrow> bool" where
  "js_isMessageReady p \<longleftrightarrow>
     (case readUInt32LE 0 (js_buffer p) of None \<Rightarrow> False | Some n \<Rightarrow> length (js_buffer p) \<ge> n + 4)"

definition js_process :: "json_processor \<Rightarrow> json_processor" where
  "js_process p =
     (if \<not> js_isMessageReady p then p
      else (let b = js_buffer p; n = le_value (take 4 b)
            in p\<lparr>js_size := n, js_data := subarray 4 (n + 4) b, js_buffer := drop (n + 4) b\<rparr>))"

definition js_clear :: "json_processor \<Rightarrow> json_processor" where
  "js_clear p = new_json_processor"

text \<open>The reader of the core's output takes at most a batch of messages per tick of the event loop and leaves
  the rest to the next tick.\<close>

definition MAX_MESSAGES_PER_TICK :: nat where "MAX_MESSAGES_PER_TICK = 1000"

fun core_batch :: "nat \<Rightarrow> json_processor \<Rightarrow> buffer list \<times> json_processor" where
  "core_batch 0 p = ([], p)"
| "core_batch (Suc k) p =
     (if \<not> js_isMessageReady p then ([], p)
      else case core_batch k (js_process p) of (ms, q) \<Rightarrow> (js_data (js_process p) # ms, q))"

lemma js_process_shorter: "js_isMessageReady p \<Longrightarrow> length (js_buffer (js_process p)) < length (js_buffer p)"
  by (auto simp: js_process_def js_isMessageReady_def readUInt32LE_def read_uint_le_def Let_def split: if_splits)

lemma core_batch_shorter:
  "length (js_buffer (snd (core_batch k p))) \<le> length (js_buffer p)"
  "js_isMessageReady p \<Longrightarrow> length (js_buffer (snd (core_batch (Suc k) p))) < length (js_buffer p)"
proof -
  show le: "length (js_buffer (snd (core_batch k p))) \<le> length (js_buffer p)" for k p
  proof (induction k p rule: core_batch.induct)
    case (2 k p)
    then show ?case
      using js_process_shorter [of p] by (auto simp: case_prod_beta)
  qed simp
  assume r: "js_isMessageReady p"
  then have "length (js_buffer (snd (core_batch k (js_process p)))) < length (js_buffer p)"
    using le [of k "js_process p"] js_process_shorter [OF r] by simp
  then show "length (js_buffer (snd (core_batch (Suc k) p))) < length (js_buffer p)"
    using r by (simp add: case_prod_beta)
qed

lemma batch_Suc: "MAX_MESSAGES_PER_TICK = Suc 999"
  by (simp add: MAX_MESSAGES_PER_TICK_def)

function core_processMessage :: "json_processor \<Rightarrow> buffer list \<times> json_processor" where
  "core_processMessage p =
     (let r = core_batch MAX_MESSAGES_PER_TICK p
      in if js_isMessageReady p \<and> js_isMessageReady (snd r)
         then (case core_processMessage (snd r) of (ms, q) \<Rightarrow> (fst r @ ms, q))
         else r)"
  by pat_completeness auto

termination core_processMessage
  by (relation "measure (length \<circ> js_buffer)") (simp_all only: batch_Suc in_measure comp_apply core_batch_shorter(2) wf_measure)

declare core_processMessage.simps [simp del]

subsection \<open>What is sent\<close>

text \<open>A frame: its size, which counts the command but not the size itself, the command, the body.\<close>

definition buildFrame :: "nat \<Rightarrow> buffer \<Rightarrow> buffer" where
  "buildFrame opcode body = le_bytes 2 (1 + length body) @ word_of_nat opcode # body"

subsection \<open>Streams cut into chunks\<close>

text \<open>A reader of a byte stream: \<open>idle\<close> says that no whole message has arrived, \<open>step\<close> takes one off.\<close>

inductive drains :: "('p \<Rightarrow> bool) \<Rightarrow> ('p \<Rightarrow> ('m \<times> 'p) option) \<Rightarrow> 'p \<Rightarrow> 'm list \<Rightarrow> 'p \<Rightarrow> bool"
  for idle step where
  rest: "idle p \<Longrightarrow> drains idle step p [] p"
| take_one: "\<not> idle p \<Longrightarrow> step p = Some (m, p') \<Longrightarrow> drains idle step p' ms q \<Longrightarrow> drains idle step p (m # ms) q"

inductive feeds :: "(buffer \<Rightarrow> 'p \<Rightarrow> 'p) \<Rightarrow> ('p \<Rightarrow> bool) \<Rightarrow> ('p \<Rightarrow> ('m \<times> 'p) option) \<Rightarrow> 'p \<Rightarrow> buffer list \<Rightarrow> 'm list \<Rightarrow> 'p \<Rightarrow> bool"
  for read idle step where
  no_chunk: "feeds read idle step p [] [] p"
| chunk: "drains idle step (read c p) ms p' \<Longrightarrow> feeds read idle step p' cs ms' q \<Longrightarrow>
    feeds read idle step p (c # cs) (ms @ ms') q"

locale framing =
  fixes read :: "buffer \<Rightarrow> 'p \<Rightarrow> 'p" and idle :: "'p \<Rightarrow> bool" and step :: "'p \<Rightarrow> ('m \<times> 'p) option"
    and buf :: "'p \<Rightarrow> buffer" and encode :: "'m \<Rightarrow> buffer" and valid :: "'m \<Rightarrow> bool"
  assumes read_buf: "buf (read c p) = buf p @ c"
    and whole: "valid m \<Longrightarrow> buf p = encode m @ b \<Longrightarrow> \<not> idle p \<and> (\<exists>p'. step p = Some (m, p') \<and> buf p' = b)"
    and partial: "valid m \<Longrightarrow> encode m = buf p @ b \<Longrightarrow> b \<noteq> [] \<Longrightarrow> idle p"
    and empty_idle: "buf p = [] \<Longrightarrow> idle p"
begin

definition unfinished :: "buffer \<Rightarrow> bool" where
  "unfinished b \<longleftrightarrow> b = [] \<or> (\<exists>m x. valid m \<and> encode m = b @ x \<and> x \<noteq> [])"

lemma unfinished_idle:
  assumes "unfinished (buf p @ x)"
  shows "idle p"
proof (cases "buf p @ x = []")
  case True
  then show ?thesis
    by (auto intro: empty_idle)
next
  case False
  then obtain m y where "valid m" "encode m = (buf p @ x) @ y" "y \<noteq> []"
    using assms unfolding unfinished_def by blast
  then show ?thesis
    using partial [of m p "x @ y"] by simp
qed

lemma drain:
  assumes "\<forall>m \<in> set ms. valid m" and "unfinished r" and "buf p @ x = concat (map encode ms) @ r"
  shows "\<exists>ms1 ms2 q. ms = ms1 @ ms2 \<and> drains idle step p ms1 q \<and> idle q \<and> buf q @ x = concat (map encode ms2) @ r"
  using assms
proof (induction ms arbitrary: p)
  case Nil
  then have "idle p"
    using unfinished_idle [of p x] by simp
  then show ?case
    using Nil drains.rest by fastforce
next
  case (Cons m ms)
  have v: "valid m"
    using Cons.prems(1) by simp
  show ?case
  proof (cases "length (encode m) \<le> length (buf p)")
    case True
    have "take (length (encode m)) (buf p) = encode m"
      using True arg_cong [OF Cons.prems(3), of "take (length (encode m))"] by simp
    then obtain b where b: "buf p = encode m @ b"
      by (metis append_take_drop_id)
    then have b2: "b @ x = concat (map encode ms) @ r"
      using Cons.prems(3) by simp
    then obtain p' where p': "\<not> idle p" "step p = Some (m, p')" "buf p' = b"
      using whole [OF v b] by blast
    obtain ms1 ms2 q where q: "ms = ms1 @ ms2" "drains idle step p' ms1 q" "idle q" "buf q @ x = concat (map encode ms2) @ r"
      using Cons.IH [of p'] Cons.prems(1,2) b2 p'(3) by auto
    have "drains idle step p (m # ms1) q"
      by (rule drains.take_one [OF p'(1,2) q(2)])
    then show ?thesis
      using q(1,3,4) by (intro exI [of _ "m # ms1"] exI [of _ ms2] exI [of _ q]) simp
  next
    case False
    have "take (length (buf p)) (encode m) = buf p"
      using False arg_cong [OF Cons.prems(3), of "take (length (buf p))"] by simp
    then obtain b where "encode m = buf p @ b" "b \<noteq> []"
      using False by (metis append_Nil2 append_take_drop_id le_refl)
    then have "idle p"
      using partial [OF v] by blast
    then show ?thesis
      using Cons.prems(3) drains.rest [of idle p step] by (intro exI [of _ "[]"] exI [of _ "m # ms"] exI [of _ p]) simp
  qed
qed

lemma feed:
  assumes "\<forall>m \<in> set ms. valid m" and "unfinished r" and "idle p"
    and "buf p @ concat cs = concat (map encode ms) @ r"
  shows "\<exists>q. feeds read idle step p cs ms q \<and> buf q = r"
  using assms
proof (induction cs arbitrary: p ms)
  case Nil
  then show ?case
  proof (cases ms)
    case (Cons m ms')
    then have "\<not> idle p"
      using Nil whole [of m p "concat (map encode ms') @ r"] by simp
    then show ?thesis
      using Nil.prems(3) by blast
  qed (auto intro: feeds.no_chunk)
next
  case (Cons c cs)
  have "buf (read c p) @ concat cs = concat (map encode ms) @ r"
    using Cons.prems(4) by (simp add: read_buf)
  then obtain ms1 ms2 q where q: "ms = ms1 @ ms2" "drains idle step (read c p) ms1 q" "idle q"
    "buf q @ concat cs = concat (map encode ms2) @ r"
    using drain [OF Cons.prems(1,2)] by blast
  then obtain q' where "feeds read idle step q cs ms2 q'" "buf q' = r"
    using Cons.IH [of ms2 q] Cons.prems(1,2) by auto
  then show ?case
    using feeds.chunk [where read = read and c = c and p = p, OF q(2)] q(1) by blast
qed

end

subsection \<open>The two readers\<close>

definition frame_message :: "nat \<Rightarrow> buffer \<Rightarrow> client_message" where
  "frame_message opcode body = \<lparr>cm_command = opcode, cm_size = 1 + length body, cm_data = body, cm_raw = buildFrame opcode body\<rparr>"

definition frame_ok :: "client_message \<Rightarrow> bool" where
  "frame_ok m \<longleftrightarrow> (\<exists>opcode body. opcode < 256 \<and> 1 + length body < 2 ^ 15 \<and> m = frame_message opcode body)"

definition mp_step :: "processor \<Rightarrow> (client_message \<times> processor) option" where
  "mp_step p = map_option (\<lambda>p'. (payload p', p')) (process p)"

lemma take2_frame: "take 2 (buildFrame c body @ b) = le_bytes 2 (1 + length body)"
  by (simp add: buildFrame_def)

lemma signed_small: "le_value (take 2 b) < 2 ^ 15 \<Longrightarrow> readInt16LE b = int (le_value (take 2 b))"
  by (simp add: readInt16LE_def Let_def)

lemma le2: "n < 2 ^ 15 \<Longrightarrow> le_value (le_bytes 2 n) = n"
  by (simp add: le_value_bytes)

lemma length_frame: "length (buildFrame c body) = 3 + length body"
  by (simp add: buildFrame_def)

lemma frame_read:
  assumes "c < 256" and "1 + length body < 2 ^ 15" and "mp_buffer p = buildFrame c body @ b"
  shows "isMessageReady p \<and> (\<exists>p'. mp_step p = Some (frame_message c body, p') \<and> mp_buffer p' = b)"
proof -
  have n: "le_value (take 2 (mp_buffer p)) = 1 + length body"
    by (simp only: assms(3) take2_frame le2 [OF assms(2)])
  then have r: "isMessageReady p"
    using assms signed_small [of "mp_buffer p"] by (simp add: isMessageReady_def length_frame)
  have "readUInt8 2 (mp_buffer p) = Some c"
    using assms(1) by (simp add: assms(3) buildFrame_def readUInt8_def read_uint_le_def unat_of_nat numeral_2_eq_2)
  moreover have "drop (1 + length body + 2) (mp_buffer p) = b"
    using assms(3) by (simp add: length_frame)
  moreover have "subarray 0 (1 + length body + 2) (mp_buffer p) = buildFrame c body"
    using assms(3) by (simp add: subarray_def length_frame)
  moreover have "subarray 3 (1 + length body + 2) (mp_buffer p) = body"
    by (simp add: subarray_def assms(3) buildFrame_def numeral_3_eq_3)
  ultimately show ?thesis
    using r n by (simp add: mp_step_def process_def payload_def frame_message_def)
qed

interpretation frames: framing mp_read "\<lambda>p. \<not> isMessageReady p" mp_step mp_buffer cm_raw frame_ok
proof unfold_locales
  show "mp_buffer (mp_read c p) = mp_buffer p @ c" for c p
    by (simp add: mp_read_def)
  show "\<not> \<not> isMessageReady p \<and> (\<exists>p'. mp_step p = Some (m, p') \<and> mp_buffer p' = b)"
    if "frame_ok m" and "mp_buffer p = cm_raw m @ b" for m p b
    using that frame_read [of _ _ p b] by (auto simp: frame_ok_def frame_message_def)
  show "\<not> isMessageReady p" if "frame_ok m" and "cm_raw m = mp_buffer p @ b" and "b \<noteq> []" for m p b
  proof -
    note sent = that
    obtain c body where m: "c < 256" "1 + length body < 2 ^ 15" "buildFrame c body = mp_buffer p @ b"
      using sent by (auto simp: frame_ok_def frame_message_def)
    have "length (mp_buffer p) < 3 + length body"
      using arg_cong [OF m(3), of length] sent(3) by (cases b) (simp_all add: length_frame)
    moreover have "le_value (take 2 (mp_buffer p)) = 1 + length body" if "2 \<le> length (mp_buffer p)"
    proof -
      have "take 2 (mp_buffer p) = take 2 (buildFrame c body @ [])"
        using that m(3) by simp
      then show ?thesis
        using le2 [OF m(2)] by (simp only: take2_frame)
    qed
    ultimately show ?thesis
      using signed_small [of "mp_buffer p"] m(2) by (auto simp: isMessageReady_def)
  qed
  show "\<not> isMessageReady p" if "mp_buffer p = []" for p
    using that by (simp add: isMessageReady_def)
qed

definition text_frame :: "buffer \<Rightarrow> buffer" where
  "text_frame t = le_bytes 4 (length t) @ t"

definition js_step :: "json_processor \<Rightarrow> (buffer \<times> json_processor) option" where
  "js_step p = Some (js_data (js_process p), js_process p)"

lemma js_ready_frame:
  assumes "length t < 2 ^ 32" and "js_buffer p = text_frame t @ b"
  shows "js_isMessageReady p \<and> js_data (js_process p) = t \<and> js_buffer (js_process p) = b"
proof -
  have t4: "take 4 (js_buffer p) = le_bytes 4 (length t)"
    by (simp add: assms(2) text_frame_def)
  have n: "le_value (take 4 (js_buffer p)) = length t"
    unfolding t4 using assms(1) by (simp add: le_value_bytes)
  have r: "js_isMessageReady p"
    using n by (simp add: js_isMessageReady_def readUInt32LE_def read_uint_le_def assms(2) text_frame_def)
  then show ?thesis
    using n by (simp add: js_process_def Let_def subarray_def assms(2) text_frame_def)
qed

interpretation texts: framing js_read "\<lambda>p. \<not> js_isMessageReady p" js_step js_buffer text_frame "\<lambda>t. length t < 2 ^ 32"
proof unfold_locales
  show "js_buffer (js_read c p) = js_buffer p @ c" for c p
    by (simp add: js_read_def)
  show "\<not> \<not> js_isMessageReady p \<and> (\<exists>p'. js_step p = Some (m, p') \<and> js_buffer p' = b)"
    if "length m < 2 ^ 32" and "js_buffer p = text_frame m @ b" for m p b
    using js_ready_frame [OF that] by (simp add: js_step_def)
  show "\<not> js_isMessageReady p" if "length m < 2 ^ 32" and "text_frame m = js_buffer p @ b" and "b \<noteq> []" for m p b
  proof (cases "4 \<le> length (js_buffer p)")
    case True
    have "take 4 (js_buffer p) = take 4 (text_frame m)"
      using that(2) True by simp
    then have "le_value (take 4 (js_buffer p)) = length m"
      using that(1) by (simp add: text_frame_def le_value_bytes)
    moreover have "length (js_buffer p) < 4 + length m"
      using arg_cong [OF that(2), of length] that(3) by (cases b) (simp_all add: text_frame_def)
    ultimately show ?thesis
      using True by (simp add: js_isMessageReady_def readUInt32LE_def read_uint_le_def)
  qed (simp add: js_isMessageReady_def readUInt32LE_def read_uint_le_def)
  show "\<not> js_isMessageReady p" if "js_buffer p = []" for p
    using that by (simp add: js_isMessageReady_def readUInt32LE_def read_uint_le_def)
qed

text \<open>The recursions of the code drain their reader.\<close>

lemma processMessage_drains:
  "drains (\<lambda>p. \<not> isMessageReady p) mp_step p ms q \<Longrightarrow> processMessage p = Some (ms, q)"
proof (induction rule: drains.induct)
  case (rest p)
  then show ?case
    by (subst processMessage.simps) simp
next
  case (take_one p m p' ms q)
  then show ?case
    by (subst processMessage.simps) (auto simp: mp_step_def)
qed

fun handle_all :: "buffer list \<Rightarrow> processor \<Rightarrow> (client_message list \<times> processor) option" where
  "handle_all [] p = Some ([], p)"
| "handle_all (c # cs) p =
     (case handleMessage c p of None \<Rightarrow> None
      | Some (ms, q) \<Rightarrow> map_option (\<lambda>(ms', q'). (ms @ ms', q')) (handle_all cs q))"

lemma handle_all_feeds:
  "feeds mp_read (\<lambda>p. \<not> isMessageReady p) mp_step p cs ms q \<Longrightarrow> handle_all cs p = Some (ms, q)"
  by (induction rule: feeds.induct) (simp_all add: handleMessage_def processMessage_drains)

text \<open>C34. However a connection cuts the stream, the emitter handles the messages that were sent: for frames of
  the server's own format, with a size below the sign bit, followed by an unfinished frame, and any division of
  these bytes into chunks, the emitters hand out exactly the sent messages in their order, none twice, none early,
  without an error, and keep exactly the unfinished bytes.\<close>

theorem chunks_do_not_matter:
  assumes "\<forall>(c, body) \<in> set sent_frames. c < 256 \<and> 1 + length body < 2 ^ 15"
    and "\<exists>c body x. c < 256 \<and> 1 + length body < 2 ^ 15 \<and> buildFrame c body = tail_bytes @ x \<and> x \<noteq> []"
    and "concat chunks = concat (map (\<lambda>(c, body). buildFrame c body) sent_frames) @ tail_bytes"
  shows "\<exists>q. handle_all chunks new_processor = Some (map (\<lambda>(c, body). frame_message c body) sent_frames, q) \<and> mp_buffer q = tail_bytes"
proof -
  let ?ms = "map (\<lambda>(c, body). frame_message c body) sent_frames"
  have raw: "map cm_raw ?ms = map (\<lambda>(c, body). buildFrame c body) sent_frames"
    by (simp add: frame_message_def case_prod_beta)
  have "\<forall>m \<in> set ?ms. frame_ok m"
    using assms(1) by (fastforce simp: frame_ok_def)
  moreover have "frames.unfinished tail_bytes"
    using assms(2) unfolding frames.unfinished_def frame_ok_def by (metis client_message.select_convs(4) frame_message_def)
  moreover have "mp_buffer new_processor @ concat chunks = concat (map cm_raw ?ms) @ tail_bytes"
    unfolding raw by (simp add: new_processor_def assms(3))
  moreover have "\<not> isMessageReady new_processor"
    by (simp add: isMessageReady_def new_processor_def)
  ultimately show ?thesis
    using frames.feed [of ?ms tail_bytes new_processor chunks] handle_all_feeds by blast
qed

lemma chunks_do_not_matter_witness:
  "\<exists>q. handle_all [[2], [0, 22, 65, 1], [0]] new_processor = Some ([frame_message 22 [65]], q) \<and> mp_buffer q = [1, 0]"
proof -
  have f: "buildFrame 7 [] = [1, 0] @ [7]" "buildFrame 22 [65] = [2, 0, 22, 65]"
    by (simp_all add: buildFrame_def numeral_2_eq_2)
  have "concat [[2], [0, 22, 65, 1], [0]] = concat (map (\<lambda>(c, body). buildFrame c body) [(22, [65])]) @ [1, 0]"
    by (simp add: f(2))
  moreover have "\<exists>c body x. c < 256 \<and> 1 + length body < 2 ^ 15 \<and> buildFrame c body = [1, 0] @ x \<and> x \<noteq> []"
    using f(1) by (intro exI [of _ 7] exI [of _ "[]"] exI [of _ "[7]"]) simp
  ultimately show ?thesis
    using chunks_do_not_matter [of "[(22, [65])]" "[1, 0]" "[[2], [0, 22, 65, 1], [0]]"] by simp
qed

text \<open>Without the bound the chunks do matter: a frame whose size has its top bit set is handed out before it has
  arrived, and a frame of size 0 at the end of the buffer throws.\<close>

lemma large_frame_is_handled_early:
  "handleMessage [0, 128, 22] new_processor =
    Some ([\<lparr>cm_command = 22, cm_size = 32768, cm_data = [], cm_raw = [0, 128, 22]\<rparr>],
          new_processor\<lparr>mp_size := 32768, mp_command := 22, mp_raw := [0, 128, 22]\<rparr>)"
proof -
  let ?p = "mp_read [0, 128, 22] new_processor"
  define q where "q = new_processor\<lparr>mp_size := 32768, mp_command := 22, mp_raw := [0, 128, 22]\<rparr>"
  have "isMessageReady ?p"
    by (simp add: isMessageReady_def mp_read_def new_processor_def readInt16LE_def Let_def)
  moreover have "process ?p = Some q"
    using calculation by (simp add: process_def mp_read_def new_processor_def readUInt8_def read_uint_le_def subarray_def q_def)
  moreover have "processMessage q = Some ([], q)"
    by (subst processMessage.simps) (simp add: isMessageReady_def q_def new_processor_def)
  ultimately show ?thesis
    by (simp add: handleMessage_def processMessage.simps [of ?p] payload_def) (simp add: q_def new_processor_def)
qed

lemma empty_frame_throws: "map_option fst (handleMessage [0, 0] new_processor) = None"
  by code_simp

text \<open>The batches of the core's reader drain it, too.\<close>

lemma batch_drains:
  "drains (\<lambda>p. \<not> js_isMessageReady p) js_step (snd (core_batch k p)) ms q \<Longrightarrow>
    drains (\<lambda>p. \<not> js_isMessageReady p) js_step p (fst (core_batch k p) @ ms) q"
  by (induction k p rule: core_batch.induct) (auto simp: case_prod_beta js_step_def intro: drains.take_one)

lemma core_batch_idle: "\<not> js_isMessageReady p \<Longrightarrow> core_batch k p = ([], p)"
  by (cases k) simp_all

lemma core_processMessage_drains:
  "drains (\<lambda>p. \<not> js_isMessageReady p) js_step p (fst (core_processMessage p)) (snd (core_processMessage p))"
proof (induction p rule: core_processMessage.induct)
  case (1 p)
  define r where "r = core_batch MAX_MESSAGES_PER_TICK p"
  show ?case
  proof (cases "js_isMessageReady p \<and> js_isMessageReady (snd r)")
    case True
    then have "core_processMessage p = (fst r @ fst (core_processMessage (snd r)), snd (core_processMessage (snd r)))"
      by (subst core_processMessage.simps) (simp add: r_def [symmetric] Let_def case_prod_beta)
    then show ?thesis
      using batch_drains [of MAX_MESSAGES_PER_TICK p] 1 [OF r_def True] by (simp add: r_def)
  next
    case False
    then have c: "core_processMessage p = r"
      by (subst core_processMessage.simps) (auto simp: r_def [symmetric] Let_def)
    have "\<not> js_isMessageReady (snd r)"
      using False core_batch_idle [of p MAX_MESSAGES_PER_TICK] by (auto simp: r_def)
    then have "drains (\<lambda>p. \<not> js_isMessageReady p) js_step (snd r) [] (snd r)"
      by (rule drains.rest)
    then show ?thesis
      using batch_drains [of MAX_MESSAGES_PER_TICK p "[]" "snd r"] by (simp add: c r_def)
  qed
qed

lemma core_messages_arrive:
  assumes "\<forall>t \<in> set ts. length t < 2 ^ 32" and "concat chunks = concat (map text_frame ts)"
  shows "\<exists>q. feeds js_read (\<lambda>p. \<not> js_isMessageReady p) js_step new_json_processor chunks ts q \<and> js_buffer q = []"
proof (rule texts.feed [OF assms(1)])
  show "texts.unfinished []"
    unfolding texts.unfinished_def by (rule disjI1) (rule refl)
  show "\<not> js_isMessageReady new_json_processor"
    by (simp add: new_json_processor_def js_isMessageReady_def readUInt32LE_def read_uint_le_def)
  show "js_buffer new_json_processor @ concat chunks = concat (map text_frame ts) @ []"
    by (simp add: new_json_processor_def assms(2))
qed

end
