(* ===== verification/QueueProtocol.thy ===== *)
theory QueueProtocol
  imports Framing MatchHandlers
begin

text \<open>
  The matchmaking messages on the wire (\<open>src/ygopro/matchmaking/protocol/matchmaking-protocol.ts\<close>): the
  parsers of what a client sends and the builders of what it is sent. Text stays the bytes it is sent in; the
  runtime's replacement of malformed UTF-8 is not modelled. A value that does not fit its field makes Node throw:
  \<open>None\<close> where the code builds a frame.
\<close>

subsection \<open>Codes\<close>

definition FORMAT_BY_CODE :: "nat \<Rightarrow> mm_format option" where
  "FORMAT_BY_CODE c = (if c = 0 then Some Tcg else if c = 1 then Some Jtp else if c = 2 then Some Edison else None)"

definition MODE_BY_CODE :: "nat \<Rightarrow> mm_mode option" where
  "MODE_BY_CODE c = (if c = 0 then Some Ranked else None)"

fun STATE_TO_CODE :: "status_state \<Rightarrow> nat" where
  "STATE_TO_CODE Searching = 0"
| "STATE_TO_CODE CancelledState = 1"
| "STATE_TO_CODE Rejected = 2"
| "STATE_TO_CODE ReplacedState = 3"
| "STATE_TO_CODE Authenticated = 4"

text \<open>\<open>None\<close> is the reason of a status that is no rejection.\<close>

fun REASON_TO_CODE :: "rejection_reason option \<Rightarrow> nat" where
  "REASON_TO_CODE None = 0"
| "REASON_TO_CODE (Some InvalidTicket) = 1"
| "REASON_TO_CODE (Some NotAuthenticated) = 2"
| "REASON_TO_CODE (Some AlreadyAuthenticated) = 3"
| "REASON_TO_CODE (Some UnknownFormat) = 4"
| "REASON_TO_CODE (Some UnsupportedMode) = 5"
| "REASON_TO_CODE (Some MalformedFrame) = 6"
| "REASON_TO_CODE (Some RateLimited) = 7"
| "REASON_TO_CODE (Some ReplacedByNewConnection) = 8"
| "REASON_TO_CODE (Some MissingPlayerInfo) = 9"
| "REASON_TO_CODE (Some Banned) = 10"
| "REASON_TO_CODE (Some InternalError) = 11"
| "REASON_TO_CODE (Some CancelTooLate) = 12"
| "REASON_TO_CODE (Some AlreadyQueued) = 13"
| "REASON_TO_CODE (Some VersionMismatch) = 14"
| "REASON_TO_CODE (Some UnknownMatch) = 15"
| "REASON_TO_CODE (Some DeclinedReason) = 16"
| "REASON_TO_CODE (Some AcceptTimeoutReason) = 17"

fun OPPONENT_TYPE_TO_CODE :: "opponent_type \<Rightarrow> nat" where
  "OPPONENT_TYPE_TO_CODE Human = 0"
| "OPPONENT_TYPE_TO_CODE Bot = 1"

definition MAX_TICKET_BYTES :: nat where "MAX_TICKET_BYTES = 64"
definition MAX_OPPONENT_NAME_BYTES :: nat where "MAX_OPPONENT_NAME_BYTES = 32"
definition MAX_MATCH_ID_BYTES :: nat where "MAX_MATCH_ID_BYTES = 64"
definition ENTER_BODY_LENGTH :: nat where "ENTER_BODY_LENGTH = 4"
definition ENTER_BODY_LENGTH_WITH_FALLBACK :: nat where "ENTER_BODY_LENGTH_WITH_FALLBACK = 8"

definition MATCHMAKING_STATUS :: nat where "MATCHMAKING_STATUS = 0xf8"
definition MATCHMAKING_FOUND :: nat where "MATCHMAKING_FOUND = 0xf7"
definition MATCHMAKING_PROPOSED :: nat where "MATCHMAKING_PROPOSED = 0xef"

subsection \<open>What a client sends\<close>

definition u8 :: "nat \<Rightarrow> buffer \<Rightarrow> nat" where
  "u8 i b = unat (b ! i)"

definition parseCtosAuth :: "buffer \<Rightarrow> rejection_reason + buffer" where
  "parseCtosAuth body =
     (if length body < 1 then Inl MalformedFrame
      else let ticketLen = u8 0 body
           in if ticketLen > MAX_TICKET_BYTES \<or> length body \<noteq> 1 + ticketLen then Inl MalformedFrame
              else Inr (subarray 1 (1 + ticketLen) body))"

record ctos_enter =
  ce_format :: mm_format
  ce_mode :: mm_mode
  ce_clientVersion :: nat
  ce_botFallbackAfterMs :: "nat option"
  ce_supportsAcceptStep :: "bool option"

definition parseCtosEnter :: "buffer \<Rightarrow> rejection_reason + ctos_enter" where
  "parseCtosEnter body =
     (let hasAcceptStep = (length body = ENTER_BODY_LENGTH + 1 \<or> length body = ENTER_BODY_LENGTH_WITH_FALLBACK + 1);
          optionsLength = length body - (if hasAcceptStep then 1 else 0)
      in if optionsLength \<noteq> ENTER_BODY_LENGTH \<and> optionsLength \<noteq> ENTER_BODY_LENGTH_WITH_FALLBACK then Inl MalformedFrame
         else case FORMAT_BY_CODE (u8 0 body) of None \<Rightarrow> Inl UnknownFormat
         | Some f \<Rightarrow>
             (case MODE_BY_CODE (u8 1 body) of None \<Rightarrow> Inl UnsupportedMode
              | Some md \<Rightarrow>
                  (let version = le_value (take 2 (drop 2 body));
                       fallback = (if optionsLength = ENTER_BODY_LENGTH_WITH_FALLBACK
                         then Some (le_value (take 4 (drop 4 body))) else None);
                       step = (if hasAcceptStep then Some (u8 optionsLength body) else None)
                   in if (case step of None \<Rightarrow> False | Some s \<Rightarrow> s > 1) then Inl MalformedFrame
                      else Inr \<lparr>ce_format = f, ce_mode = md, ce_clientVersion = version, ce_botFallbackAfterMs = fallback,
                             ce_supportsAcceptStep = map_option (\<lambda>s. s = 1) step\<rparr>)))"

definition parseCtosMatchResponse :: "buffer \<Rightarrow> rejection_reason + buffer" where
  "parseCtosMatchResponse body =
     (if length body < 1 then Inl MalformedFrame
      else let matchIdLen = u8 0 body
           in if matchIdLen = 0 \<or> matchIdLen > MAX_MATCH_ID_BYTES \<or> length body \<noteq> 1 + matchIdLen then Inl MalformedFrame
              else Inr (drop 1 body))"

definition parseCtosCancel :: "buffer \<Rightarrow> rejection_reason + unit" where
  "parseCtosCancel body = (if length body \<noteq> 0 then Inl MalformedFrame else Inr ())"

subsection \<open>What a client is sent\<close>

definition buildStocMatchmakingStatusFrame :: "status_state \<Rightarrow> nat \<Rightarrow> rejection_reason option \<Rightarrow> buffer option" where
  "buildStocMatchmakingStatusFrame state waitedMs reason =
     (if waitedMs < 2 ^ 32
      then Some (buildFrame MATCHMAKING_STATUS
             (word_of_nat (STATE_TO_CODE state) # le_bytes 4 waitedMs @ [word_of_nat (REASON_TO_CODE reason)]))
      else None)"

text \<open>Cutting UTF-8 off before a continuation byte would split a character.\<close>

definition continuation :: "byte \<Rightarrow> bool" where
  "continuation b \<longleftrightarrow> and b 0xc0 = 0x80"

fun cut_back :: "buffer \<Rightarrow> nat \<Rightarrow> nat" where
  "cut_back b 0 = 0"
| "cut_back b (Suc e) = (if continuation (b ! Suc e) then cut_back b e else Suc e)"

definition truncateUtf8 :: "buffer \<Rightarrow> nat \<Rightarrow> buffer" where
  "truncateUtf8 b maxBytes = (if length b \<le> maxBytes then b else take (cut_back b maxBytes) b)"

definition buildStocMatchmakingFoundFrame ::
  "opponent_type \<Rightarrow> bool \<Rightarrow> nat \<Rightarrow> buffer \<Rightarrow> buffer option \<Rightarrow> buffer option" where
  "buildStocMatchmakingFoundFrame opponentType is_rated roomId matchId opponentName =
     (let name = (case opponentName of None \<Rightarrow> [] | Some n \<Rightarrow> truncateUtf8 n MAX_OPPONENT_NAME_BYTES)
      in if roomId < 2 ^ 16
         then Some (buildFrame MATCHMAKING_FOUND
                ([word_of_nat (OPPONENT_TYPE_TO_CODE opponentType), if is_rated then 1 else 0] @ le_bytes 2 roomId @
                 [word_of_nat (length matchId)] @ matchId @ [word_of_nat (length name)] @ name))
         else None)"

definition buildStocMatchmakingProposedFrame :: "buffer \<Rightarrow> nat \<Rightarrow> buffer option" where
  "buildStocMatchmakingProposedFrame matchId acceptWithinMs =
     (if acceptWithinMs < 2 ^ 32
      then Some (buildFrame MATCHMAKING_PROPOSED (word_of_nat (length matchId) # matchId @ le_bytes 4 acceptWithinMs))
      else None)"

subsection \<open>A request to enter the queue\<close>

fun FORMAT_CODE :: "mm_format \<Rightarrow> nat" where
  "FORMAT_CODE Tcg = 0"
| "FORMAT_CODE Jtp = 1"
| "FORMAT_CODE Edison = 2"

definition enter_ok :: "ctos_enter \<Rightarrow> bool" where
  "enter_ok e \<longleftrightarrow> ce_clientVersion e < 2 ^ 16 \<and> (case ce_botFallbackAfterMs e of None \<Rightarrow> True | Some n \<Rightarrow> n < 2 ^ 32)"

definition render_enter :: "ctos_enter \<Rightarrow> buffer" where
  "render_enter e = [word_of_nat (FORMAT_CODE (ce_format e)), 0] @ le_bytes 2 (ce_clientVersion e) @
     (case ce_botFallbackAfterMs e of None \<Rightarrow> [] | Some n \<Rightarrow> le_bytes 4 n) @
     (case ce_supportsAcceptStep e of None \<Rightarrow> [] | Some b \<Rightarrow> [if b then 1 else 0])"

lemma format_code: "FORMAT_BY_CODE (FORMAT_CODE f) = Some f" "FORMAT_CODE f < 3"
  by (cases f; simp add: FORMAT_BY_CODE_def)+

lemma format_by_code: "FORMAT_BY_CODE c = Some f \<longleftrightarrow> c = FORMAT_CODE f"
  by (cases f) (auto simp: FORMAT_BY_CODE_def)

lemma mode_by_code: "MODE_BY_CODE c = Some md \<longleftrightarrow> c = 0"
  by (cases md) (auto simp: MODE_BY_CODE_def)

lemma le_bytes_value: "le_bytes (length b) (le_value b) = b"
proof (induction b)
  case (Cons x b)
  have "unat x < 256"
    using unsigned_less [of x] by simp
  then have "(unat x + 256 * le_value b) div 256 = le_value b"
    by simp
  moreover have "unat (word_of_nat (unat x + 256 * le_value b) :: byte) = unat x"
    unfolding unat_of_nat using \<open>unat x < 256\<close> by simp
  then have "word_of_nat (unat x + 256 * le_value b) = x"
    by (simp add: word_unat_eq_iff)
  ultimately show ?case
    using Cons by simp
qed simp

lemma format_byte: "FORMAT_CODE f mod 256 = FORMAT_CODE f"
  using format_code(2) [of f] by simp

lemma only_mode: "MODE_BY_CODE 0 = Some md"
  by (simp add: mode_by_code)

lemma render_parses: "enter_ok e \<Longrightarrow> parseCtosEnter (render_enter e) = Inr e"
proof (cases e)
  case (fields f md v fb st)
  assume ok: "enter_ok e"
  show ?thesis
    using ok fields
    by (cases fb; cases st)
      (simp_all add: parseCtosEnter_def render_enter_def enter_ok_def ENTER_BODY_LENGTH_def ENTER_BODY_LENGTH_WITH_FALLBACK_def
        u8_def format_code format_byte unat_of_nat only_mode [of md] le_value_bytes nth_append Let_def)
qed

lemma first_two:
  assumes "2 \<le> length body"
  shows "take 2 body = [body ! 0, body ! 1]"
proof -
  obtain x y zs where "body = x # y # zs"
    using assms by (metis Suc_le_length_iff numeral_2_eq_2)
  then show ?thesis
    by simp
qed

lemma le_bytes_taken: "k \<le> length b \<Longrightarrow> le_bytes k (le_value (take k b)) = take k b"
  using le_bytes_value [of "take k b"] by (simp add: min_absorb2)

lemma flag_byte: "u8 n body \<le> 1 \<Longrightarrow> body ! n = (if u8 n body = 1 then 1 else 0)"
  by (auto simp: u8_def word_unat_eq_iff le_Suc_eq)

lemma step_byte:
  assumes "length body = n + (if step then 1 else 0)" and "step \<Longrightarrow> u8 n body \<le> 1"
  shows "drop n body = (if step then [if u8 n body = 1 then 1 else 0] else [])"
proof (cases step)
  case True
  then have "drop n body = [body ! n]"
    using assms(1) Cons_nth_drop_Suc [of n body] by simp
  then show ?thesis
    using True assms(2) flag_byte [of n body] by simp
qed (use assms in simp)

lemma enter_parts:
  assumes "n = 4 \<or> n = (8::nat)"
  shows "body = take 2 body @ take 2 (drop 2 body) @ (if n = 8 then take 4 (drop 4 body) else []) @ drop n body"
proof -
  have "body = take 2 body @ take 2 (drop 2 body) @ drop 4 body"
    using append_take_drop_id [of 2 body] append_take_drop_id [of 2 "drop 2 body"] by simp
  moreover have "drop 4 body = take 4 (drop 4 body) @ drop 8 body"
    using append_take_drop_id [of 4 "drop 4 body"] by simp
  ultimately show ?thesis
    using assms by (auto simp del: append_take_drop_id)
qed

text \<open>C35. The server reads exactly the requests to enter the queue there are: a body is read as a request when, and
  only when, it is the rendering of that request in the documented layout - format and mode by their codes, the
  version in two bytes, the delay before a bot game in four bytes when it is there, and the last byte for the accept
  step when it is there - so every request reaches the queue as it was meant and no two bodies mean the same.\<close>

theorem enter_requests_are_read_exactly:
  "parseCtosEnter body = Inr e \<longleftrightarrow> enter_ok e \<and> body = render_enter e"
proof
  assume r: "parseCtosEnter body = Inr e"
  define step where "step = (length body = 5 \<or> length body = 9)"
  define n where "n = length body - (if step then 1 else 0)"
  have len: "n = 4 \<or> n = 8" "length body = n + (if step then 1 else 0)"
    using r by (auto simp: parseCtosEnter_def ENTER_BODY_LENGTH_def ENTER_BODY_LENGTH_WITH_FALLBACK_def step_def n_def Let_def
        split: if_splits)
  obtain f md where f: "FORMAT_BY_CODE (u8 0 body) = Some f" "MODE_BY_CODE (u8 1 body) = Some md"
    using r by (auto simp: parseCtosEnter_def Let_def split: if_splits option.splits)
  have e: "e = \<lparr>ce_format = f, ce_mode = md, ce_clientVersion = le_value (take 2 (drop 2 body)),
      ce_botFallbackAfterMs = (if n = 8 then Some (le_value (take 4 (drop 4 body))) else None),
      ce_supportsAcceptStep = (if step then Some (u8 n body = 1) else None)\<rparr>" "step \<Longrightarrow> u8 n body \<le> 1"
    using r f by (auto simp: parseCtosEnter_def ENTER_BODY_LENGTH_def ENTER_BODY_LENGTH_WITH_FALLBACK_def step_def n_def Let_def
        split: if_splits)
  have "FORMAT_CODE f = unat (body ! 0)"
    using f(1) by (simp add: format_by_code u8_def)
  then have b0: "word_of_nat (FORMAT_CODE f) = body ! 0"
    by simp
  have b1: "body ! 1 = 0"
    using f(2) by (simp add: mode_by_code u8_def unat_eq_zero)
  have long: "4 \<le> length body" "n = 8 \<Longrightarrow> 8 \<le> length body"
    using len by auto
  have bytes: "take 2 body = [body ! 0, body ! 1]"
      "le_bytes 2 (le_value (take 2 (drop 2 body))) = take 2 (drop 2 body)"
      "n = 8 \<Longrightarrow> le_bytes 4 (le_value (take 4 (drop 4 body))) = take 4 (drop 4 body)"
      "drop n body = (if step then [if u8 n body = 1 then 1 else 0] else [])"
    using first_two [of body] le_bytes_taken [of 2 "drop 2 body"] le_bytes_taken [of 4 "drop 4 body"] long
      step_byte [of body n step] len(2) e(2) by simp_all
  have "body = take 2 body @ take 2 (drop 2 body) @ (if n = 8 then take 4 (drop 4 body) else []) @ drop n body"
    by (rule enter_parts [OF len(1)])
  then have "body = render_enter e"
    unfolding e(1) render_enter_def using b0 b1 bytes by (auto split: if_splits)
  moreover have "enter_ok e"
    unfolding e(1) enter_ok_def
    using le_value_less [of "take 2 (drop 2 body)"] le_value_less [of "take 4 (drop 4 body)"] len
    by (auto simp: min_def split: if_splits)
  ultimately show "enter_ok e \<and> body = render_enter e"
    by blast
qed (use render_parses in auto)

subsection \<open>Names on the wire\<close>

text \<open>A character is a byte that is no continuation, followed by continuations.\<close>

definition utf8_char :: "buffer \<Rightarrow> bool" where
  "utf8_char c \<longleftrightarrow> (\<exists>b bs. c = b # bs \<and> \<not> continuation b \<and> (\<forall>x \<in> set bs. continuation x))"

lemma cut_back_le: "cut_back b e \<le> e"
  by (induction b e rule: cut_back.induct) (auto intro: le_SucI)

lemma cut_back_stops: "cut_back b e = 0 \<or> \<not> continuation (b ! cut_back b e)"
  by (induction b e rule: cut_back.induct) auto

lemma cut_back_over: "cut_back b e < i \<Longrightarrow> i \<le> e \<Longrightarrow> continuation (b ! i)"
  by (induction b e rule: cut_back.induct) (auto simp: le_Suc_eq split: if_splits)

text \<open>Every position of a text lies in one of its characters.\<close>

lemma char_at:
  "\<forall>c \<in> set cs. utf8_char c \<Longrightarrow> i < length (concat cs) \<Longrightarrow>
    \<exists>k < length cs. length (concat (take k cs)) \<le> i \<and> i < length (concat (take (Suc k) cs)) \<and>
      (\<forall>j \<le> i. length (concat (take k cs)) < j \<longrightarrow> continuation (concat cs ! j)) \<and>
      \<not> continuation (concat cs ! length (concat (take k cs)))"
proof (induction cs arbitrary: i)
  case (Cons c cs)
  obtain b bs where c: "c = b # bs" "\<not> continuation b" "\<forall>x \<in> set bs. continuation x"
    using Cons.prems(1) by (auto simp: utf8_char_def)
  show ?case
  proof (cases "i < length c")
    case True
    have "continuation (concat (c # cs) ! j)" if "0 < j" "j \<le> i" for j
      using that True c(1,3) by (cases j) (auto simp: nth_append)
    then show ?thesis
      using True c(1,2) by (intro exI [of _ 0]) auto
  next
    case False
    then have "i - length c < length (concat cs)"
      using Cons.prems(2) by auto
    then obtain k where k: "k < length cs" "length (concat (take k cs)) \<le> i - length c" "i - length c < length (concat (take (Suc k) cs))"
      "\<forall>j \<le> i - length c. length (concat (take k cs)) < j \<longrightarrow> continuation (concat cs ! j)"
      "\<not> continuation (concat cs ! length (concat (take k cs)))"
      using Cons.IH [of "i - length c"] Cons.prems(1) by auto
    have "continuation (concat (c # cs) ! j)" if "j \<le> i" "length c + length (concat (take k cs)) < j" for j
      using k(4) [rule_format, of "j - length c"] that by (simp add: nth_append)
    then show ?thesis
      using False k by (intro exI [of _ "Suc k"]) (auto simp: nth_append)
  qed
qed simp

text \<open>Names are cut between characters: for a text of whole characters, what is sent are its first characters,
  as many as fit into the limit, so no character is cut in two and none is left out without need.\<close>

theorem names_are_cut_between_characters:
  assumes "\<forall>c \<in> set cs. utf8_char c"
  shows "\<exists>k. truncateUtf8 (concat cs) n = concat (take k cs) \<and> length (concat (take k cs)) \<le> n \<and>
    (k = length cs \<or> k < length cs \<and> n < length (concat (take (Suc k) cs)))"
proof (cases "length (concat cs) \<le> n")
  case True
  then show ?thesis
    by (intro exI [of _ "length cs"]) (simp add: truncateUtf8_def)
next
  case False
  then obtain k where k: "k < length cs" "length (concat (take k cs)) \<le> n" "n < length (concat (take (Suc k) cs))"
    "\<forall>j \<le> n. length (concat (take k cs)) < j \<longrightarrow> continuation (concat cs ! j)"
    "\<not> continuation (concat cs ! length (concat (take k cs)))"
    using char_at [OF assms, of n] by auto
  have "cut_back (concat cs) n = length (concat (take k cs))"
  proof (rule antisym)
    show "cut_back (concat cs) n \<le> length (concat (take k cs))"
      using k(4) cut_back_le [of "concat cs" n] cut_back_stops [of "concat cs" n] by (metis not_le le0)
    show "length (concat (take k cs)) \<le> cut_back (concat cs) n"
      using k(2,5) cut_back_over [of "concat cs" n "length (concat (take k cs))"] by (metis not_le)
  qed
  moreover have "take (length (concat (take k cs))) (concat cs) = concat (take k cs)"
    by (metis append_eq_conv_conj append_take_drop_id concat_append)
  ultimately have "truncateUtf8 (concat cs) n = concat (take k cs)"
    using False by (simp add: truncateUtf8_def)
  with k show ?thesis
    by blast
qed

end
