(* ===== verification/MatchSessions.thy ===== *)
theory MatchSessions
  imports QueueProps QueueProtocol
begin

text \<open>
  The matchmaking side of a socket connection: its \<open>Session\<close> (\<open>src/ygopro/matchmaking/domain/Session.ts\<close>), the
  handler of its opcodes (\<open>application/MatchmakingConnectionHandler.ts\<close>) and the use cases behind it
  (\<open>AuthenticateMatchmakingSession.ts\<close>, \<open>EnterMatchmaking.ts\<close>, \<open>CancelMatchmaking.ts\<close>,
  \<open>RespondToMatchProposal.ts\<close>, \<open>MatchmakingDisconnectListener.ts\<close>), over the queue and its pool. A connection has a
  number, its channel, and a socket id. Authentication waits on Redis and the user database: it is a step that
  begins it and, later, a step that ends it with what these services answered; between the two anything may happen.
  What a connection is sent outside the pool is recorded in \<open>sent\<close>.
\<close>

datatype queue_state = IdleState | QueuedState | MatchedState

record session =
  socket_id :: string
  resolvedUserId :: "string option"
  queueState :: queue_state
  authenticated :: bool
  resolvedDisplayName :: "string option"
  capturedPlayerInfoBody :: "buffer option"

datatype session_event = StatusSent status_state int "rejection_reason option" | ClosedWith status_state rejection_reason

record 'r mm_server =
  mm_queue :: "'r mm_queue"
  sessions :: "(nat, session) js_map"
  sent :: "(nat \<times> session_event) list"

datatype session_error = AlreadyAuthenticatedError | PoolError pool_error

definition new_session :: "string \<Rightarrow> session" where
  "new_session i = \<lparr>socket_id = i, resolvedUserId = None, queueState = IdleState, authenticated = False,
     resolvedDisplayName = None, capturedPlayerInfoBody = None\<rparr>"

definition put_session :: "nat \<Rightarrow> session \<Rightarrow> 'r mm_server \<Rightarrow> 'r mm_server" where
  "put_session c ss S = S\<lparr>sessions := map_put c ss (sessions S)\<rparr>"

definition send_status :: "nat \<Rightarrow> status_state \<Rightarrow> rejection_reason option \<Rightarrow> 'r mm_server \<Rightarrow> 'r mm_server" where
  "send_status c st r S = S\<lparr>sent := sent S @ [(c, StatusSent st 0 r)]\<rparr>"

definition reject :: "nat \<Rightarrow> rejection_reason \<Rightarrow> 'r mm_server \<Rightarrow> 'r mm_server" where
  "reject c r = send_status c Rejected (Some r)"

text \<open>\<open>SocketParticipantChannel.close\<close>: a last status, then the socket is closed.\<close>

definition close_channel :: "nat \<Rightarrow> rejection_reason \<Rightarrow> 'r mm_server \<Rightarrow> 'r mm_server" where
  "close_channel c r S =
     (let q = mm_queue S; s = q_pool q;
          st = (if r = ReplacedByNewConnection then ReplacedState else Rejected)
      in S\<lparr>sent := sent S @ [(c, ClosedWith st r)],
           mm_queue := q\<lparr>q_pool := s\<lparr>world := (world s)\<lparr>closed_sockets := c # closed_sockets (world s)\<rparr>\<rparr>\<rparr>\<rparr>)"

definition with_pool :: "'r queue_world pool \<Rightarrow> 'r mm_server \<Rightarrow> 'r mm_server" where
  "with_pool s S = S\<lparr>mm_queue := (mm_queue S)\<lparr>q_pool := s\<rparr>\<rparr>"

definition the_pool :: "'r mm_server \<Rightarrow> 'r queue_world pool" where
  "the_pool S = q_pool (mm_queue S)"

definition on_pool_error :: "pool_error + 'a \<Rightarrow> session_error + 'a" where
  "on_pool_error r = map_sum PoolError id r"

subsection \<open>Authentication\<close>

text \<open>A counter per address and window; the first hit arms its expiry.\<close>

definition isRateLimited :: "nat \<Rightarrow> nat \<Rightarrow> bool \<times> nat \<times> bool" where
  "isRateLimited max_hits hits = (let attempts = hits + 1 in (attempts > max_hits, attempts, attempts = 1))"

definition isAuthRateLimited :: "bool \<Rightarrow> bool \<Rightarrow> string option \<Rightarrow> (unit + bool) \<Rightarrow> bool" where
  "isAuthRateLimited enabled redis remoteAddress store =
     (if \<not> enabled \<or> \<not> redis \<or> remoteAddress = None \<or> remoteAddress = Some '''' then False
      else case store of Inl _ \<Rightarrow> False | Inr b \<Rightarrow> b)"

text \<open>\<open>UserProfileDisplayNameResolver\<close>; a failed lookup counts as no name.\<close>

definition resolve_name :: "string option \<Rightarrow> string option" where
  "resolve_name username = (case username of None \<Rightarrow> None | Some u \<Rightarrow> if js_trim u = '''' then None else Some (js_trim u))"

definition resolveDisplayName :: "unit + string option \<Rightarrow> string option" where
  "resolveDisplayName looked_up = (case looked_up of Inl _ \<Rightarrow> None | Inr u \<Rightarrow> resolve_name u)"

datatype auth_outcome = AuthRateLimited | AuthInvalidTicket | AuthBanned | AuthAccepted string "string option"

definition auth_outcome_of :: "bool \<Rightarrow> string option \<Rightarrow> (string \<Rightarrow> bool) \<Rightarrow> (string \<Rightarrow> unit + string option) \<Rightarrow> auth_outcome" where
  "auth_outcome_of limited consumed is_banned username =
     (if limited then AuthRateLimited
      else case consumed of
        None \<Rightarrow> AuthInvalidTicket
      | Some u \<Rightarrow> if u = '''' then AuthInvalidTicket else if is_banned u then AuthBanned
                 else AuthAccepted u (resolveDisplayName (username u)))"

text \<open>The frame is checked at once; \<open>True\<close> says that the authentication goes on in the background.\<close>

definition onAuth :: "buffer \<Rightarrow> nat \<Rightarrow> 'r mm_server \<Rightarrow> bool \<times> 'r mm_server" where
  "onAuth body c S =
     (case map_get (sessions S) c of
        None \<Rightarrow> (False, S)
      | Some ss \<Rightarrow>
          (case parseCtosAuth body of
             Inl r \<Rightarrow> (False, reject c r S)
           | Inr ticket \<Rightarrow> if authenticated ss then (False, reject c AlreadyAuthenticated S) else (True, S)))"

definition authenticate :: "string \<Rightarrow> string option \<Rightarrow> session \<Rightarrow> session option" where
  "authenticate u name ss =
     (if authenticated ss then None
      else Some (ss\<lparr>resolvedUserId := Some u, resolvedDisplayName := name, authenticated := True\<rparr>))"

definition auth_ends :: "auth_outcome \<Rightarrow> nat \<Rightarrow> 'r mm_server \<Rightarrow> session_error + 'r mm_server" where
  "auth_ends oc c S =
     (case map_get (sessions S) c of
        None \<Rightarrow> Inr S
      | Some ss \<Rightarrow>
          (case oc of
             AuthRateLimited \<Rightarrow> Inr (close_channel c RateLimited S)
           | AuthInvalidTicket \<Rightarrow> Inr (close_channel c InvalidTicket S)
           | AuthBanned \<Rightarrow> Inr (close_channel c Banned S)
           | AuthAccepted u name \<Rightarrow>
               (case authenticate u name ss of
                  None \<Rightarrow> Inl AlreadyAuthenticatedError
                | Some ss' \<Rightarrow> Inr (send_status c Authenticated None (put_session c ss' S)))))"

subsection \<open>The other opcodes\<close>

definition onPlayerInfo :: "buffer \<Rightarrow> nat \<Rightarrow> 'r mm_server \<Rightarrow> 'r mm_server" where
  "onPlayerInfo body c S =
     (case map_get (sessions S) c of
        None \<Rightarrow> S
      | Some ss \<Rightarrow> put_session c (ss\<lparr>capturedPlayerInfoBody := Some body\<rparr>) S)"

definition socket_participant :: "int \<Rightarrow> nat \<Rightarrow> session \<Rightarrow> ctos_enter \<Rightarrow> participant" where
  "socket_participant now c ss e = \<lparr>part_id = socket_id ss, user_id = (case resolvedUserId ss of None \<Rightarrow> '''' | Some u \<Rightarrow> u),
     part_format = ce_format e, part_mode = ce_mode e, displayName = resolvedDisplayName ss, enqueuedAt = now,
     botFallbackAfterMs = map_option int (ce_botFallbackAfterMs e), supportsAcceptStep = (ce_supportsAcceptStep e = Some True),
     presence = Socket, channel = c, admission = Some c\<rparr>"

definition EnterMatchmaking_execute ::
  "nat \<Rightarrow> pairing \<Rightarrow> 'r queue_world match_handling \<Rightarrow> int \<Rightarrow> ctos_enter \<Rightarrow> nat \<Rightarrow> session \<Rightarrow> 'r mm_server \<Rightarrow> session_error + 'r mm_server" where
  "EnterMatchmaking_execute version pair handle now e c ss S =
     (if \<not> authenticated ss then Inr (reject c NotAuthenticated S)
      else if capturedPlayerInfoBody ss = None then Inr (reject c MissingPlayerInfo S)
      else if ce_clientVersion e \<noteq> version then Inr (close_channel c VersionMismatch S)
      else if queueState ss = QueuedState then Inr (reject c AlreadyQueued S)
      else
        sum_bind (on_pool_error (pool_add now (socket_participant now c ss e) (the_pool S)))
          (\<lambda>(_, s). sum_bind
             (on_pool_error (pool_tick channel_alive pair handle now s))
             (\<lambda>s'. Inr (with_pool s' (send_status c Searching None (put_session c (ss\<lparr>queueState := QueuedState\<rparr>) S))))))"

definition onEnter ::
  "nat \<Rightarrow> pairing \<Rightarrow> 'r queue_world match_handling \<Rightarrow> int \<Rightarrow> buffer \<Rightarrow> nat \<Rightarrow> 'r mm_server \<Rightarrow> session_error + 'r mm_server" where
  "onEnter version pair handle now body c S =
     (case map_get (sessions S) c of
        None \<Rightarrow> Inr S
      | Some ss \<Rightarrow>
          (case parseCtosEnter body of
             Inl r \<Rightarrow> Inr (reject c r S)
           | Inr e \<Rightarrow> EnterMatchmaking_execute version pair handle now e c ss S))"

definition CancelMatchmaking_execute :: "int \<Rightarrow> nat \<Rightarrow> session \<Rightarrow> 'r mm_server \<Rightarrow> session_error + 'r mm_server" where
  "CancelMatchmaking_execute now c ss S =
     (if queueState ss = MatchedState then Inr (reject c CancelTooLate S)
      else if queueState ss = QueuedState
      then sum_bind (on_pool_error (dequeueBySocketId now (socket_id ss) (the_pool S)))
             (\<lambda>(_, s). Inr (send_status c CancelledState None
                 (put_session c (ss\<lparr>queueState := IdleState\<rparr>) (with_pool s S))))
      else Inr (send_status c CancelledState None S))"

definition onCancel :: "int \<Rightarrow> buffer \<Rightarrow> nat \<Rightarrow> 'r mm_server \<Rightarrow> session_error + 'r mm_server" where
  "onCancel now body c S =
     (case map_get (sessions S) c of
        None \<Rightarrow> Inr S
      | Some ss \<Rightarrow>
          (case parseCtosCancel body of
             Inl r \<Rightarrow> Inr (reject c r S)
           | Inr _ \<Rightarrow> CancelMatchmaking_execute now c ss S))"

text \<open>Accepting and declining a proposal. \<open>name\<close> decodes the bytes of a match id.\<close>

definition RespondToMatchProposal_execute ::
  "'r queue_world match_handling \<Rightarrow> bool \<Rightarrow> int \<Rightarrow> string \<Rightarrow> nat \<Rightarrow> session \<Rightarrow> 'r mm_server \<Rightarrow> session_error + 'r mm_server" where
  "RespondToMatchProposal_execute handle accepts now mid c ss S =
     sum_bind
       (on_pool_error (if accepts then pool_accept handle now mid (socket_id ss) (the_pool S)
                       else pool_decline now mid (socket_id ss) (the_pool S)))
       (\<lambda>(oc, s). Inr (if oc = UnknownMatchOutcome then reject c UnknownMatch (with_pool s S) else with_pool s S))"

definition respondToProposal ::
  "(buffer \<Rightarrow> string) \<Rightarrow> 'r queue_world match_handling \<Rightarrow> bool \<Rightarrow> int \<Rightarrow> buffer \<Rightarrow> nat \<Rightarrow> 'r mm_server \<Rightarrow> session_error + 'r mm_server" where
  "respondToProposal decode handle accepts now body c S =
     (case map_get (sessions S) c of
        None \<Rightarrow> Inr S
      | Some ss \<Rightarrow>
          (case parseCtosMatchResponse body of
             Inl r \<Rightarrow> Inr (reject c r S)
           | Inr mid \<Rightarrow> RespondToMatchProposal_execute handle accepts now (decode mid) c ss S))"

text \<open>A closed socket leaves the queue (\<open>MatchmakingDisconnectListener\<close>); its session goes with it.\<close>

definition onSocketClosed :: "int \<Rightarrow> nat \<Rightarrow> 'r mm_server \<Rightarrow> session_error + 'r mm_server" where
  "onSocketClosed now c S =
     (case map_get (sessions S) c of
        None \<Rightarrow> Inr S
      | Some ss \<Rightarrow>
          sum_bind (on_pool_error (dequeueBySocketId now (socket_id ss) (the_pool S)))
            (\<lambda>(_, s). Inr (with_pool (s\<lparr>world := (world s)\<lparr>closed_sockets := c # closed_sockets (world s)\<rparr>\<rparr>)
                (S\<lparr>sessions := map_del c (sessions S)\<rparr>))))"

definition connect :: "string \<Rightarrow> nat \<Rightarrow> 'r mm_server \<Rightarrow> 'r mm_server" where
  "connect i c S = put_session c (new_session i) S"

end
