(* ===== verification/SessionProps.thy ===== *)
theory SessionProps
  imports MatchSessions
begin

text \<open>
  Sessions, HTTP clients and the pool together (\<open>server_run\<close>): connections come, authenticate, enter, answer, cancel
  and close, clients of the HTTP queue draw and poll tickets, in any order. In every reachable state the pool holds a
  socket participant only for a session that authenticated as that user and is marked as queued.
\<close>

definition sessions_ok :: "(nat, session) js_map \<Rightarrow> (string, nat) js_map \<Rightarrow> participant list \<Rightarrow> bool" where
  "sessions_ok ses tickets ps \<longleftrightarrow>
     (\<forall>c c' ss ss'. map_get ses c = Some ss \<and> map_get ses c' = Some ss' \<and> socket_id ss = socket_id ss' \<longrightarrow> c = c') \<and>
     (\<forall>c ss. map_get ses c = Some ss \<longrightarrow>
        socket_id ss \<notin> fst ` set tickets \<and> (authenticated ss \<longleftrightarrow> resolvedUserId ss \<noteq> None) \<and> queueState ss \<noteq> MatchedState \<and>
        (queueState ss = QueuedState \<longrightarrow> authenticated ss \<and> capturedPlayerInfoBody ss \<noteq> None)) \<and>
     (\<forall>p \<in> set ps. presence p = Socket \<longrightarrow>
        (\<exists>ss. map_get ses (channel p) = Some ss \<and> socket_id ss = part_id p \<and> resolvedUserId ss = Some (user_id p) \<and>
           queueState ss = QueuedState))"

definition server_inv :: "(nat \<Rightarrow> string) \<Rightarrow> 'r mm_server \<Rightarrow> bool" where
  "server_inv uuid S \<longleftrightarrow> queue_inv uuid (mm_queue S) \<and>
     sessions_ok (sessions S) (records (mm_queue S)) (everyone (the_pool S))"

lemma sessions_okI:
  assumes "\<And>c c' ss ss'. map_get ses c = Some ss \<Longrightarrow> map_get ses c' = Some ss' \<Longrightarrow> socket_id ss = socket_id ss' \<Longrightarrow> c = c'"
    and "\<And>c ss. map_get ses c = Some ss \<Longrightarrow> socket_id ss \<notin> fst ` set tickets \<and> (authenticated ss \<longleftrightarrow> resolvedUserId ss \<noteq> None) \<and>
        queueState ss \<noteq> MatchedState \<and> (queueState ss = QueuedState \<longrightarrow> authenticated ss \<and> capturedPlayerInfoBody ss \<noteq> None)"
    and "\<And>p. p \<in> set ps \<Longrightarrow> presence p = Socket \<Longrightarrow> \<exists>ss. map_get ses (channel p) = Some ss \<and> socket_id ss = part_id p \<and>
        resolvedUserId ss = Some (user_id p) \<and> queueState ss = QueuedState"
  shows "sessions_ok ses tickets ps"
  using assms unfolding sessions_ok_def by blast

lemma sessions_okD:
  assumes "sessions_ok ses tickets ps"
  shows "map_get ses c = Some ss \<Longrightarrow> map_get ses c' = Some ss' \<Longrightarrow> socket_id ss = socket_id ss' \<Longrightarrow> c = c'"
    and "map_get ses c = Some ss \<Longrightarrow> socket_id ss \<notin> fst ` set tickets \<and> (authenticated ss \<longleftrightarrow> resolvedUserId ss \<noteq> None) \<and>
        queueState ss \<noteq> MatchedState \<and> (queueState ss = QueuedState \<longrightarrow> authenticated ss \<and> capturedPlayerInfoBody ss \<noteq> None)"
    and "p \<in> set ps \<Longrightarrow> presence p = Socket \<Longrightarrow> \<exists>ss. map_get ses (channel p) = Some ss \<and> socket_id ss = part_id p \<and>
        resolvedUserId ss = Some (user_id p) \<and> queueState ss = QueuedState"
  using assms unfolding sessions_ok_def by blast+

lemma sessions_shrink:
  assumes "sessions_ok ses tickets ps" and "fst ` set tickets' \<subseteq> fst ` set tickets"
    and "\<And>p. p \<in> set ps' \<Longrightarrow> presence p = Socket \<Longrightarrow> p \<in> set ps"
  shows "sessions_ok ses tickets' ps'"
proof (rule sessions_okI)
  show "c = c'" if "map_get ses c = Some ss" "map_get ses c' = Some ss'" "socket_id ss = socket_id ss'" for c c' ss ss'
    using sessions_okD(1) [OF assms(1) that] .
  show "socket_id ss \<notin> fst ` set tickets' \<and> (authenticated ss \<longleftrightarrow> resolvedUserId ss \<noteq> None) \<and>
      queueState ss \<noteq> MatchedState \<and> (queueState ss = QueuedState \<longrightarrow> authenticated ss \<and> capturedPlayerInfoBody ss \<noteq> None)"
    if "map_get ses c = Some ss" for c ss
    using sessions_okD(2) [OF assms(1) that] assms(2) by blast
  show "\<exists>ss. map_get ses (channel p) = Some ss \<and> socket_id ss = part_id p \<and> resolvedUserId ss = Some (user_id p) \<and>
      queueState ss = QueuedState" if "p \<in> set ps'" "presence p = Socket" for p
    using sessions_okD(3) [OF assms(1) assms(3) [OF that] that(2)] .
qed

text \<open>Writing back a session that keeps its socket and user.\<close>

lemma sessions_put:
  assumes ok: "sessions_ok ses tickets ps" and "map_get ses c = Some ss" and "socket_id ss' = socket_id ss"
    and "authenticated ss' \<longleftrightarrow> resolvedUserId ss' \<noteq> None" and "queueState ss' \<noteq> MatchedState"
    and "queueState ss' = QueuedState \<Longrightarrow> authenticated ss' \<and> capturedPlayerInfoBody ss' \<noteq> None"
    and "\<And>p. p \<in> set ps \<Longrightarrow> presence p = Socket \<Longrightarrow> part_id p = socket_id ss \<Longrightarrow>
      resolvedUserId ss' = Some (user_id p) \<and> queueState ss' = QueuedState"
  shows "sessions_ok (map_put c ss' ses) tickets ps"
proof (rule sessions_okI)
  have look: "map_get (map_put c ss' ses) c' = (if c' = c then Some ss' else map_get ses c')" for c'
    by (simp add: AList.update_conv')
  show "c1 = c2" if "map_get (map_put c ss' ses) c1 = Some s1" "map_get (map_put c ss' ses) c2 = Some s2" "socket_id s1 = socket_id s2"
    for c1 c2 s1 s2
    using that sessions_okD(1) [OF ok, of c1 _ c2] sessions_okD(1) [OF ok assms(2), of c1] sessions_okD(1) [OF ok assms(2), of c2] assms(3)
    unfolding look by (auto split: if_splits)
  show "socket_id s1 \<notin> fst ` set tickets \<and> (authenticated s1 \<longleftrightarrow> resolvedUserId s1 \<noteq> None) \<and>
      queueState s1 \<noteq> MatchedState \<and> (queueState s1 = QueuedState \<longrightarrow> authenticated s1 \<and> capturedPlayerInfoBody s1 \<noteq> None)"
    if "map_get (map_put c ss' ses) c1 = Some s1" for c1 s1
    using that sessions_okD(2) [OF ok, of c1 s1] sessions_okD(2) [OF ok assms(2)] assms(3-6) unfolding look
    by (auto split: if_splits)
  show "\<exists>s1. map_get (map_put c ss' ses) (channel p) = Some s1 \<and> socket_id s1 = part_id p \<and> resolvedUserId s1 = Some (user_id p) \<and>
      queueState s1 = QueuedState" if "p \<in> set ps" "presence p = Socket" for p
    using sessions_okD(3) [OF ok that] assms(2,3) assms(7) [OF that] unfolding look by auto
qed

lemma world_server:
  assumes "server_inv uuid S" and "records_heap w = records_heap (world (the_pool S))"
  shows "server_inv uuid (with_pool ((the_pool S)\<lparr>world := w\<rparr>) S)"
  using assms pool_same [of "(the_pool S)\<lparr>world := w\<rparr>" "the_pool S"]
  by (simp add: server_inv_def with_pool_def the_pool_def queue_inv_def books_ok_def)

lemma send_inv [simp]: "server_inv uuid (send_status c st r S) = server_inv uuid S"
  by (simp add: send_status_def server_inv_def the_pool_def)

lemma reject_inv [simp]: "server_inv uuid (reject c r S) = server_inv uuid S"
  by (simp add: reject_def)

lemma close_inv: "server_inv uuid S \<Longrightarrow> server_inv uuid (close_channel c r S)"
  using world_server [of uuid S "(world (the_pool S))\<lparr>closed_sockets := c # closed_sockets (world (the_pool S))\<rparr>"]
  by (simp add: close_channel_def server_inv_def with_pool_def the_pool_def Let_def)

text \<open>A pool step that brings in nobody.\<close>

lemma pool_step_inv:
  assumes "server_inv uuid S" and "queue_inv uuid ((mm_queue S)\<lparr>q_pool := s\<rparr>)"
    and "set (everyone s) \<subseteq> set (everyone (the_pool S))"
  shows "server_inv uuid (with_pool s S)"
  using assms sessions_shrink [of "sessions S" "records (mm_queue S)" "everyone (the_pool S)" "records (mm_queue S)" "everyone s"]
  by (auto simp: server_inv_def with_pool_def the_pool_def)

lemma with_pool_fields [simp]:
  "the_pool (with_pool s S) = s" "sessions (with_pool s S) = sessions S" "records (mm_queue (with_pool s S)) = records (mm_queue S)"
  "mm_queue (with_pool s S) = (mm_queue S)\<lparr>q_pool := s\<rparr>" "sent (with_pool s S) = sent S"
  by (simp_all add: with_pool_def the_pool_def)

lemma other_fields [simp]:
  "mm_queue (put_session c ss S) = mm_queue S" "sessions (put_session c ss S) = map_put c ss (sessions S)"
  "mm_queue (send_status c st r S) = mm_queue S" "sessions (send_status c st r S) = sessions S"
  "the_pool (put_session c ss S) = the_pool S" "the_pool (send_status c st r S) = the_pool S"
  "sent (put_session c ss S) = sent S" "sent (send_status c st r S) = sent S @ [(c, StatusSent st 0 r)]"
  by (simp_all add: put_session_def send_status_def the_pool_def)

lemma on_pool_error_simps [simp]: "on_pool_error (Inr x) = Inr x" "on_pool_error (Inl e) = Inl (PoolError e)"
  by (simp_all add: on_pool_error_def)

lemma put_inv:
  assumes inv: "server_inv uuid S" and c: "map_get (sessions S) c = Some ss" and i: "socket_id ss' = socket_id ss"
    and "authenticated ss' \<longleftrightarrow> resolvedUserId ss' \<noteq> None" and "queueState ss' \<noteq> MatchedState"
    and "queueState ss' = QueuedState \<Longrightarrow> authenticated ss' \<and> capturedPlayerInfoBody ss' \<noteq> None"
    and "\<And>p. p \<in> set (everyone (the_pool S)) \<Longrightarrow> presence p = Socket \<Longrightarrow> part_id p = socket_id ss \<Longrightarrow>
      resolvedUserId ss' = Some (user_id p) \<and> queueState ss' = QueuedState"
  shows "server_inv uuid (put_session c ss' S)"
proof -
  have ok: "sessions_ok (sessions S) (records (mm_queue S)) (everyone (the_pool S))"
    using inv by (simp add: server_inv_def)
  have "sessions_ok (map_put c ss' (sessions S)) (records (mm_queue S)) (everyone (the_pool S))"
    by (rule sessions_put [OF ok c i assms(4-7)])
  then show ?thesis
    using inv by (simp add: server_inv_def)
qed

lemma own_participant:
  assumes ok: "sessions_ok ses tickets ps" and c: "map_get ses c = Some ss"
    and p: "p \<in> set ps" "presence p = Socket" "part_id p = socket_id ss"
  shows "channel p = c \<and> resolvedUserId ss = Some (user_id p) \<and> queueState ss = QueuedState"
proof -
  obtain s1 where s1: "map_get ses (channel p) = Some s1" "socket_id s1 = part_id p" "resolvedUserId s1 = Some (user_id p)"
      "queueState s1 = QueuedState"
    using sessions_okD(3) [OF ok p(1,2)] by blast
  have "channel p = c"
    by (rule sessions_okD(1) [OF ok s1(1) c]) (simp add: s1(2) p(3))
  then show ?thesis
    using s1 c by simp
qed

lemma player_info_inv: "server_inv uuid S \<Longrightarrow> server_inv uuid (onPlayerInfo body c S)"
proof (cases "map_get (sessions S) c")
  case (Some ss)
  assume inv: "server_inv uuid S"
  then have ok: "sessions_ok (sessions S) (records (mm_queue S)) (everyone (the_pool S))"
    by (simp add: server_inv_def)
  note data = sessions_okD(2) [OF ok Some]
  have "server_inv uuid (put_session c (ss\<lparr>capturedPlayerInfoBody := Some body\<rparr>) S)"
  proof (rule put_inv [OF inv Some])
    show "resolvedUserId (ss\<lparr>capturedPlayerInfoBody := Some body\<rparr>) = Some (user_id p) \<and>
        queueState (ss\<lparr>capturedPlayerInfoBody := Some body\<rparr>) = QueuedState"
      if "p \<in> set (everyone (the_pool S))" "presence p = Socket" "part_id p = socket_id ss" for p
      using own_participant [OF ok Some that] by simp
  qed (use data in auto)
  then show ?thesis
    by (simp add: onPlayerInfo_def Some)
qed (simp add: onPlayerInfo_def)

lemma auth_begins_inv: "server_inv uuid S \<Longrightarrow> server_inv uuid (snd (onAuth body c S))"
  by (simp add: onAuth_def split: option.split sum.split)

lemma auth_ends_ok:
  assumes inv: "server_inv uuid S"
  shows "(\<exists>S'. auth_ends oc c S = Inr S' \<and> server_inv uuid S') \<or>
    auth_ends oc c S = Inl AlreadyAuthenticatedError \<and>
      (\<exists>u n ss. oc = AuthAccepted u n \<and> map_get (sessions S) c = Some ss \<and> authenticated ss)"
proof (cases "map_get (sessions S) c")
  case None
  then show ?thesis
    using inv by (simp add: auth_ends_def)
next
  case (Some ss)
  have ok: "sessions_ok (sessions S) (records (mm_queue S)) (everyone (the_pool S))"
    using inv by (simp add: server_inv_def)
  show ?thesis
  proof (cases oc)
    case (AuthAccepted u n)
    show ?thesis
    proof (cases "authenticated ss")
      case True
      then show ?thesis
        using AuthAccepted Some by (simp add: auth_ends_def authenticate_def)
    next
      case False
      have "server_inv uuid (put_session c (ss\<lparr>resolvedUserId := Some u, resolvedDisplayName := n, authenticated := True\<rparr>) S)"
        by (rule put_inv [OF inv Some]) (use False sessions_okD(2) [OF ok Some] own_participant [OF ok Some] in auto)
      then show ?thesis
        using AuthAccepted Some False by (simp add: auth_ends_def authenticate_def)
    qed
  qed (use Some close_inv [OF inv] in \<open>simp_all add: auth_ends_def\<close>)
qed

lemma not_tickets:
  assumes inv: "server_inv uuid S" and c: "map_get (sessions S) c = Some ss"
    and p: "p \<in> set (everyone (the_pool S))" "part_id p = socket_id ss"
  shows "presence p = Socket \<and> channel p = c \<and> resolvedUserId ss = Some (user_id p)"
proof -
  have ok: "sessions_ok (sessions S) (records (mm_queue S)) (everyone (the_pool S))"
    and b: "books (records_heap (world (the_pool S))) (records (mm_queue S)) (usersInQueue (mm_queue S)) (everyone (the_pool S))"
    using inv by (simp_all add: server_inv_def queue_inv_def books_ok_def the_pool_def)
  have "presence p \<noteq> Poll"
  proof
    assume "presence p = Poll"
    then have "part_id p \<in> fst ` set (records (mm_queue S))"
      using booksD(5) [OF b p(1)] by force
    then show False
      using sessions_okD(2) [OF ok c] p(2) by simp
  qed
  then have "presence p = Socket"
    by (cases "presence p") auto
  then show ?thesis
    using own_participant [OF ok c p(1) _ p(2)] by blast
qed

context queue_handler
begin

lemma server_enter_ok:
  assumes inv: "server_inv uuid S" and uuid: "inj uuid"
  shows "\<exists>S'. onEnter version (queue_pairing uuid available) handle now body c S = Inr S' \<and> server_inv uuid S'"
proof (cases "map_get (sessions S) c")
  case None
  then show ?thesis
    using inv by (simp add: onEnter_def)
next
  case (Some ss)
  have ok: "sessions_ok (sessions S) (records (mm_queue S)) (everyone (the_pool S))"
    and qi: "queue_inv uuid (mm_queue S)"
    using inv by (simp_all add: server_inv_def)
  have pi: "pool_inv uuid (the_pool S)"
    using qi by (simp add: queue_inv_def the_pool_def)
  show ?thesis
  proof (cases "parseCtosEnter body")
    case (Inl r)
    then show ?thesis
      using Some inv by (simp add: onEnter_def)
  next
    case (Inr e)
    let ?S1 = "put_session c (ss\<lparr>queueState := QueuedState\<rparr>) S"
    define p where "p = socket_participant now c ss e"
    have p: "presence p = Socket" "part_id p = socket_id ss" "channel p = c"
      by (simp_all add: p_def socket_participant_def)
    show ?thesis
    proof (cases "authenticated ss \<and> capturedPlayerInfoBody ss \<noteq> None \<and> ce_clientVersion e = version \<and> queueState ss \<noteq> QueuedState")
      case False
      then show ?thesis
        using Some Inr inv close_inv [OF inv] by (auto simp: onEnter_def EnterMatchmaking_execute_def)
    next
      case True
      then obtain u where u: "resolvedUserId ss = Some u" "user_id p = u"
        using sessions_okD(2) [OF ok Some] by (auto simp: p_def socket_participant_def)
      have enters: "socket_may_enter p (mm_queue S)"
        using sessions_okD(2) [OF ok Some] not_tickets [OF inv Some] p u
        by (auto simp: socket_may_enter_def id_not_shared_def the_pool_def)
      obtain b s where s: "pool_add now p (the_pool S) = Inr (b, s)"
      proof (cases "queued_user (the_pool S) (user_id p)")
        case True
        then show thesis
          using pool_add_replaces [OF pi True p(1), of now] enters that by (auto simp: socket_may_enter_def the_pool_def)
      next
        case False
        then have "fresh_in p (the_pool S)"
          using enters by (force simp: queued_user_def fresh_in_def socket_may_enter_def id_not_shared_def the_pool_def image_iff)
        then show thesis
          using pool_add_new [OF pi, of p now] that by blast
      qed
      have added: "queue_inv uuid ((mm_queue S)\<lparr>q_pool := s\<rparr>)" "set (everyone s) \<subseteq> insert p (set (everyone (the_pool S)))"
        using socket_enters [OF qi enters] s by (auto simp: the_pool_def)
      then have ps: "pool_inv uuid s"
        by (simp add: queue_inv_def)
      obtain s' where s': "pool_tick channel_alive (queue_pairing uuid available) handle now s = Inr s'"
        using tick_ok [OF ps uuid, of channel_alive now] by blast
      have sub: "set (everyone s') \<subseteq> set (everyone s)"
        using tick_leaves_living [OF ps uuid s'] by blast
      have q': "queue_inv uuid ((mm_queue S)\<lparr>q_pool := s'\<rparr>)"
        using socket_steps_inv(4) [OF added(1) uuid, of now s'] s' by simp
      have "sessions_ok (sessions ?S1) (records (mm_queue S)) (p # everyone (the_pool S))"
      proof (rule sessions_okI)
        have put: "sessions_ok (map_put c (ss\<lparr>queueState := QueuedState\<rparr>) (sessions S)) (records (mm_queue S)) (everyone (the_pool S))"
          by (rule sessions_put [OF ok Some])
            (use True sessions_okD(2) [OF ok Some] own_participant [OF ok Some] in auto)
        show "c1 = c2" if "map_get (sessions ?S1) c1 = Some s1" "map_get (sessions ?S1) c2 = Some s2" "socket_id s1 = socket_id s2"
          for c1 c2 s1 s2
          using sessions_okD(1) [OF put] that by simp
        show "socket_id s1 \<notin> fst ` set (records (mm_queue S)) \<and> (authenticated s1 \<longleftrightarrow> resolvedUserId s1 \<noteq> None) \<and>
            queueState s1 \<noteq> MatchedState \<and> (queueState s1 = QueuedState \<longrightarrow> authenticated s1 \<and> capturedPlayerInfoBody s1 \<noteq> None)"
          if "map_get (sessions ?S1) c1 = Some s1" for c1 s1
          using sessions_okD(2) [OF put, of c1 s1] that unfolding other_fields by blast
        show "\<exists>s1. map_get (sessions ?S1) (channel p') = Some s1 \<and> socket_id s1 = part_id p' \<and>
            resolvedUserId s1 = Some (user_id p') \<and> queueState s1 = QueuedState"
          if "p' \<in> set (p # everyone (the_pool S))" "presence p' = Socket" for p'
        proof (cases "p' = p")
          case True
          then show ?thesis
            using p u by (simp add: AList.update_conv')
        next
          case False
          then show ?thesis
            using sessions_okD(3) [OF put, of p'] that by simp
        qed
      qed
      then have "sessions_ok (sessions ?S1) (records (mm_queue S)) (everyone s')"
        by (rule sessions_shrink) (use sub added(2) in auto)
      then have "server_inv uuid (with_pool s' (send_status c Searching None ?S1))"
        using q' by (simp add: server_inv_def)
      then show ?thesis
        using True Some Inr s s' by (auto simp: onEnter_def EnterMatchmaking_execute_def simp flip: p_def)
    qed
  qed
qed

lemma server_respond_ok:
  assumes inv: "server_inv uuid S" and uuid: "inj uuid"
  shows "\<exists>S'. respondToProposal decode handle accepts now body c S = Inr S' \<and> server_inv uuid S'"
proof (cases "map_get (sessions S) c")
  case None
  then show ?thesis
    using inv by (simp add: respondToProposal_def)
next
  case (Some ss)
  have qi: "queue_inv uuid (mm_queue S)"
    using inv by (simp add: server_inv_def)
  have pi: "pool_inv uuid (the_pool S)"
    using qi by (simp add: queue_inv_def the_pool_def)
  show ?thesis
  proof (cases "parseCtosMatchResponse body")
    case (Inl r)
    then show ?thesis
      using Some inv by (simp add: respondToProposal_def)
  next
    case (Inr mid)
    let ?r = "if accepts then pool_accept handle now (decode mid) (socket_id ss) (the_pool S)
        else pool_decline now (decode mid) (socket_id ss) (the_pool S)"
    obtain oc s where s: "?r = Inr (oc, s)"
      using accept_ok [OF pi, of now "decode mid" "socket_id ss"] decline_ok [OF pi, of now "decode mid" "socket_id ss"] by fastforce
    have "queue_inv uuid ((mm_queue S)\<lparr>q_pool := s\<rparr>)"
      using s socket_steps_inv(2,3) [OF qi uuid] by (auto simp: the_pool_def split: if_splits)
    moreover have "set (everyone s) \<subseteq> set (everyone (the_pool S))"
    proof (cases accepts)
      case True
      then have "settles uuid (the_pool S) s"
        using accept_ok [OF pi, of now "decode mid" "socket_id ss"] s by auto
      then show ?thesis
        using settles_sub by blast
    next
      case False
      then show ?thesis
        using declined_sub [OF pi, of now "decode mid" "socket_id ss" oc s] s by simp
    qed
    ultimately have "server_inv uuid (with_pool s S)"
      by (rule pool_step_inv [OF inv])
    then show ?thesis
      using Some Inr s by (simp add: respondToProposal_def RespondToMatchProposal_execute_def del: with_pool_fields)
  qed
qed

end

lemma dequeued:
  assumes inv: "server_inv uuid S" and c: "map_get (sessions S) c = Some ss"
  shows "\<exists>b s. dequeueBySocketId now (socket_id ss) (the_pool S) = Inr (b, s) \<and> server_inv uuid (with_pool s S) \<and>
    set (everyone s) = {p \<in> set (everyone (the_pool S)). part_id p \<noteq> socket_id ss}"
proof -
  have qi: "queue_inv uuid (mm_queue S)"
    using inv by (simp add: server_inv_def)
  have pi: "pool_inv uuid (the_pool S)"
    using qi by (simp add: queue_inv_def the_pool_def)
  obtain b s where s: "dequeueBySocketId now (socket_id ss) (the_pool S) = Inr (b, s)" "left_only uuid (socket_id ss) (the_pool S) s"
    using dequeue_ok [OF pi, of now "socket_id ss"] by blast
  note left = left_only_sub [OF s(2)]
  have "queue_inv uuid ((mm_queue S)\<lparr>q_pool := s\<rparr>)"
    by (rule shrink_inv [OF qi]) (use left dequeue_world [OF s(1)] in \<open>auto simp: the_pool_def\<close>)
  then have "server_inv uuid (with_pool s S)"
    by (rule pool_step_inv [OF inv]) (use left in auto)
  then show ?thesis
    using s(1) left by blast
qed

lemma cancel_session_ok:
  assumes inv: "server_inv uuid S"
  shows "\<exists>S'. onCancel now body c S = Inr S' \<and> server_inv uuid S' \<and>
    (\<forall>ss. map_get (sessions S) c = Some ss \<longrightarrow> body = [] \<longrightarrow>
       sent S' = sent S @ [(c, StatusSent CancelledState 0 None)] \<and> socket_id ss \<notin> part_id ` set (everyone (the_pool S')) \<and>
       map_get (sessions S') c = Some (ss\<lparr>queueState := IdleState\<rparr>))"
proof (cases "map_get (sessions S) c")
  case None
  then show ?thesis
    using inv by (simp add: onCancel_def)
next
  case (Some ss)
  have ok: "sessions_ok (sessions S) (records (mm_queue S)) (everyone (the_pool S))"
    using inv by (simp add: server_inv_def)
  have no: "queueState ss \<noteq> MatchedState"
    using sessions_okD(2) [OF ok Some] by blast
  show ?thesis
  proof (cases "body = []")
    case False
    then show ?thesis
      using Some inv by (simp add: onCancel_def parseCtosCancel_def)
  next
    case True
    show ?thesis
    proof (cases "queueState ss = QueuedState")
      case queued: True
      obtain b s where s: "dequeueBySocketId now (socket_id ss) (the_pool S) = Inr (b, s)" "server_inv uuid (with_pool s S)"
        "set (everyone s) = {p \<in> set (everyone (the_pool S)). part_id p \<noteq> socket_id ss}"
        using dequeued [OF inv Some] by blast
      have "server_inv uuid (put_session c (ss\<lparr>queueState := IdleState\<rparr>) (with_pool s S))"
        by (rule put_inv [OF s(2)]) (use Some s(3) sessions_okD(2) [OF ok Some] in auto)
      then show ?thesis
        using s(1,3) Some True queued
        by (auto simp: onCancel_def parseCtosCancel_def CancelMatchmaking_execute_def AList.update_conv')
    next
      case False
      then have idle: "queueState ss = IdleState"
        using no by (cases "queueState ss") auto
      have "socket_id ss \<notin> part_id ` set (everyone (the_pool S))"
      proof
        assume "socket_id ss \<in> part_id ` set (everyone (the_pool S))"
        then obtain p where p: "p \<in> set (everyone (the_pool S))" "part_id p = socket_id ss"
          by auto
        then have "presence p = Socket"
          using not_tickets [OF inv Some] by blast
        then show False
          using own_participant [OF ok Some p(1) _ p(2)] idle by simp
      qed
      moreover have "ss\<lparr>queueState := IdleState\<rparr> = ss"
        using idle by simp
      ultimately show ?thesis
        using Some True inv idle by (simp add: onCancel_def parseCtosCancel_def CancelMatchmaking_execute_def)
    qed
  qed
qed

lemma closed_ok:
  assumes inv: "server_inv uuid S"
  shows "\<exists>S'. onSocketClosed now c S = Inr S' \<and> server_inv uuid S'"
proof (cases "map_get (sessions S) c")
  case None
  then show ?thesis
    using inv by (simp add: onSocketClosed_def)
next
  case (Some ss)
  obtain b s where s: "dequeueBySocketId now (socket_id ss) (the_pool S) = Inr (b, s)" "server_inv uuid (with_pool s S)"
    "set (everyone s) = {p \<in> set (everyone (the_pool S)). part_id p \<noteq> socket_id ss}"
    using dequeued [OF inv Some] by blast
  define s1 where "s1 = s\<lparr>world := (world s)\<lparr>closed_sockets := c # closed_sockets (world s)\<rparr>\<rparr>"
  have one: "server_inv uuid (with_pool s1 S)"
    using world_server [OF s(2), of "(world s)\<lparr>closed_sockets := c # closed_sockets (world s)\<rparr>"]
    by (simp add: s1_def with_pool_def the_pool_def)
  then have ok: "sessions_ok (sessions S) (records (mm_queue S)) (everyone s1)"
    by (simp add: server_inv_def)
  have "sessions_ok (map_del c (sessions S)) (records (mm_queue S)) (everyone s1)"
  proof (rule sessions_okI)
    have look: "map_get (map_del c (sessions S)) c1 = Some s2 \<longleftrightarrow> c1 \<noteq> c \<and> map_get (sessions S) c1 = Some s2" for c1 s2
      by (simp add: AList.delete_conv')
    show "c1 = c2" if "map_get (map_del c (sessions S)) c1 = Some x" "map_get (map_del c (sessions S)) c2 = Some y"
        "socket_id x = socket_id y" for c1 c2 x y
      using that sessions_okD(1) [OF ok] unfolding look by blast
    show "socket_id x \<notin> fst ` set (records (mm_queue S)) \<and> (authenticated x \<longleftrightarrow> resolvedUserId x \<noteq> None) \<and>
        queueState x \<noteq> MatchedState \<and> (queueState x = QueuedState \<longrightarrow> authenticated x \<and> capturedPlayerInfoBody x \<noteq> None)"
      if "map_get (map_del c (sessions S)) c1 = Some x" for c1 x
      using that sessions_okD(2) [OF ok] unfolding look by blast
    show "\<exists>x. map_get (map_del c (sessions S)) (channel p) = Some x \<and> socket_id x = part_id p \<and>
        resolvedUserId x = Some (user_id p) \<and> queueState x = QueuedState" if "p \<in> set (everyone s1)" "presence p = Socket" for p
    proof -
      note mem = that
      obtain x where x: "map_get (sessions S) (channel p) = Some x" "socket_id x = part_id p" "resolvedUserId x = Some (user_id p)"
          "queueState x = QueuedState"
        using sessions_okD(3) [OF ok mem] by blast
      have "everyone s1 = everyone s"
        using pool_same(2) [of s1 s] by (simp add: s1_def)
      then have "part_id p \<noteq> socket_id ss"
        using s(3) mem(1) by auto
      then have "channel p \<noteq> c"
        using x(1,2) Some by auto
      then show ?thesis
        using x unfolding look by blast
    qed
  qed
  then have "server_inv uuid (with_pool s1 (S\<lparr>sessions := map_del c (sessions S)\<rparr>))"
    using one by (simp add: server_inv_def the_pool_def)
  then show ?thesis
    using s(1) Some by (simp add: onSocketClosed_def s1_def)
qed

definition fresh_socket :: "string \<Rightarrow> nat \<Rightarrow> 'r mm_server \<Rightarrow> bool" where
  "fresh_socket i c S \<longleftrightarrow> map_get (sessions S) c = None \<and> i \<notin> (socket_id \<circ> snd) ` set (sessions S) \<and>
     i \<notin> fst ` set (records (mm_queue S))"

lemma connect_inv:
  assumes inv: "server_inv uuid S" and f: "fresh_socket i c S"
  shows "server_inv uuid (connect i c S)"
proof -
  have ok: "sessions_ok (sessions S) (records (mm_queue S)) (everyone (the_pool S))"
    using inv by (simp add: server_inv_def)
  have other: "socket_id x \<noteq> i" if "map_get (sessions S) c1 = Some x" for c1 x
    using map_of_mem [OF that] f by (force simp: fresh_socket_def)
  have look: "map_get (map_put c (new_session i) (sessions S)) c' = (if c' = c then Some (new_session i) else map_get (sessions S) c')" for c'
    by (simp add: AList.update_conv')
  have "sessions_ok (map_put c (new_session i) (sessions S)) (records (mm_queue S)) (everyone (the_pool S))"
  proof (rule sessions_okI)
    show "c1 = c2" if "map_get (map_put c (new_session i) (sessions S)) c1 = Some x"
        "map_get (map_put c (new_session i) (sessions S)) c2 = Some y" "socket_id x = socket_id y" for c1 c2 x y
      using that other [of c1 x] other [of c2 y] sessions_okD(1) [OF ok, of c1 x c2 y] unfolding look
      by (auto simp: new_session_def split: if_splits)
    show "socket_id x \<notin> fst ` set (records (mm_queue S)) \<and> (authenticated x \<longleftrightarrow> resolvedUserId x \<noteq> None) \<and>
        queueState x \<noteq> MatchedState \<and> (queueState x = QueuedState \<longrightarrow> authenticated x \<and> capturedPlayerInfoBody x \<noteq> None)"
      if "map_get (map_put c (new_session i) (sessions S)) c1 = Some x" for c1 x
    proof (cases "c1 = c")
      case True
      then have "x = new_session i"
        using that by (simp add: look)
      then show ?thesis
        using f by (simp add: new_session_def fresh_socket_def)
    next
      case False
      then show ?thesis
        using that sessions_okD(2) [OF ok, of c1 x] unfolding look by auto
    qed
    show "\<exists>x. map_get (map_put c (new_session i) (sessions S)) (channel p) = Some x \<and> socket_id x = part_id p \<and>
        resolvedUserId x = Some (user_id p) \<and> queueState x = QueuedState"
      if "p \<in> set (everyone (the_pool S))" "presence p = Socket" for p
      using sessions_okD(3) [OF ok that] f unfolding look by (auto simp: fresh_socket_def)
  qed
  then show ?thesis
    using inv by (simp add: connect_def server_inv_def)
qed

subsection \<open>Runs\<close>

text \<open>What happens to the queue from outside the sessions: HTTP clients, the timer, aborted rooms.\<close>

inductive http_step :: "(nat \<Rightarrow> string) \<Rightarrow> bool \<Rightarrow> 'r queue_world match_handling \<Rightarrow> string set \<Rightarrow> 'r mm_queue \<Rightarrow> 'r mm_queue \<Rightarrow> bool"
  for uuid available handle ids where
    http_enqueue: "fresh_ticket (in_ticketId i) q \<Longrightarrow> in_ticketId i \<notin> ids \<Longrightarrow>
      enqueue (queue_pairing uuid available) handle now i q = Inr (a, q') \<Longrightarrow> http_step uuid available handle ids q q'"
  | http_poll: "http_step uuid available handle ids q (snd (poll now t q))"
  | http_cancel: "cancel now t q = Inr (b, q') \<Longrightarrow> http_step uuid available handle ids q q'"
  | http_abort: "abortRoom now r q = Inr (n, q') \<Longrightarrow> http_step uuid available handle ids q q'"
  | http_tick: "queue_tick (queue_pairing uuid available) handle now q = Inr q' \<Longrightarrow> http_step uuid available handle ids q q'"
  | http_outside: "records_heap w = records_heap (world (q_pool q)) \<Longrightarrow>
      http_step uuid available handle ids q (q\<lparr>q_pool := (q_pool q)\<lparr>world := w\<rparr>\<rparr>)"

definition empty_server :: "'r \<Rightarrow> 'r mm_server" where
  "empty_server x = \<lparr>mm_queue = empty_queue x, sessions = [], sent = []\<rparr>"

definition socket_ids :: "'r mm_server \<Rightarrow> string set" where
  "socket_ids S = (socket_id \<circ> snd) ` set (sessions S)"

inductive server_run ::
  "nat \<Rightarrow> (buffer \<Rightarrow> string) \<Rightarrow> (nat \<Rightarrow> string) \<Rightarrow> bool \<Rightarrow> 'r queue_world match_handling \<Rightarrow> 'r mm_server \<Rightarrow> bool"
  for version decode uuid available handle where
    server_begins: "server_run version decode uuid available handle (empty_server x)"
  | server_connect: "server_run version decode uuid available handle S \<Longrightarrow> fresh_socket i c S \<Longrightarrow>
      server_run version decode uuid available handle (connect i c S)"
  | server_info: "server_run version decode uuid available handle S \<Longrightarrow>
      server_run version decode uuid available handle (onPlayerInfo body c S)"
  | server_auth: "server_run version decode uuid available handle S \<Longrightarrow>
      server_run version decode uuid available handle (snd (onAuth body c S))"
  | server_auth_ends: "server_run version decode uuid available handle S \<Longrightarrow> auth_ends oc c S = Inr S' \<Longrightarrow>
      server_run version decode uuid available handle S'"
  | server_enter: "server_run version decode uuid available handle S \<Longrightarrow>
      onEnter version (queue_pairing uuid available) handle now body c S = Inr S' \<Longrightarrow>
      server_run version decode uuid available handle S'"
  | server_cancel: "server_run version decode uuid available handle S \<Longrightarrow> onCancel now body c S = Inr S' \<Longrightarrow>
      server_run version decode uuid available handle S'"
  | server_respond: "server_run version decode uuid available handle S \<Longrightarrow>
      respondToProposal decode handle accepts now body c S = Inr S' \<Longrightarrow> server_run version decode uuid available handle S'"
  | server_closed: "server_run version decode uuid available handle S \<Longrightarrow> onSocketClosed now c S = Inr S' \<Longrightarrow>
      server_run version decode uuid available handle S'"
  | server_http: "server_run version decode uuid available handle S \<Longrightarrow>
      http_step uuid available handle (socket_ids S) (mm_queue S) q' \<Longrightarrow>
      server_run version decode uuid available handle (S\<lparr>mm_queue := q'\<rparr>)"

lemma queue_move_inv:
  assumes inv: "server_inv uuid S" and q: "queue_inv uuid q'"
    and t: "fst ` set (records q') \<subseteq> fst ` set (records (mm_queue S)) \<union> T" and T: "T \<inter> socket_ids S = {}"
    and p: "\<And>p. p \<in> set (everyone (q_pool q')) \<Longrightarrow> presence p = Socket \<Longrightarrow> p \<in> set (everyone (the_pool S))"
  shows "server_inv uuid (S\<lparr>mm_queue := q'\<rparr>)"
proof -
  have ok: "sessions_ok (sessions S) (records (mm_queue S)) (everyone (the_pool S))"
    using inv by (simp add: server_inv_def)
  have "sessions_ok (sessions S) (records q') (everyone (q_pool q'))"
  proof (rule sessions_okI)
    show "c = c'" if "map_get (sessions S) c = Some ss" "map_get (sessions S) c' = Some ss'" "socket_id ss = socket_id ss'"
      for c c' ss ss'
      using sessions_okD(1) [OF ok that] .
    show "socket_id ss \<notin> fst ` set (records q') \<and> (authenticated ss \<longleftrightarrow> resolvedUserId ss \<noteq> None) \<and>
        queueState ss \<noteq> MatchedState \<and> (queueState ss = QueuedState \<longrightarrow> authenticated ss \<and> capturedPlayerInfoBody ss \<noteq> None)"
      if "map_get (sessions S) c = Some ss" for c ss
    proof -
      have "socket_id ss \<in> socket_ids S"
        using map_of_mem [OF that] unfolding socket_ids_def by force
      then have "socket_id ss \<notin> T"
        using T by blast
      then show ?thesis
        using sessions_okD(2) [OF ok that] t by blast
    qed
    show "\<exists>ss. map_get (sessions S) (channel p) = Some ss \<and> socket_id ss = part_id p \<and> resolvedUserId ss = Some (user_id p) \<and>
        queueState ss = QueuedState" if "p \<in> set (everyone (q_pool q'))" "presence p = Socket" for p
      using sessions_okD(3) [OF ok p [OF that] that(2)] .
  qed
  then show ?thesis
    using q by (simp add: server_inv_def the_pool_def)
qed

context queue_handler
begin

lemma http_inv:
  assumes inv: "server_inv uuid S" and uuid: "inj uuid" and st: "http_step uuid available handle (socket_ids S) (mm_queue S) q'"
  shows "server_inv uuid (S\<lparr>mm_queue := q'\<rparr>)"
proof -
  have qi: "queue_inv uuid (mm_queue S)"
    using inv by (simp add: server_inv_def)
  from st show ?thesis
  proof cases
    case (http_enqueue i now a)
    have e: "queue_inv uuid q'" "set (everyone (q_pool q')) \<subseteq> insert (poll_participant now a i) (set (everyone (q_pool (mm_queue S))))"
      "fst ` set (records q') \<subseteq> insert (in_ticketId i) (fst ` set (records (mm_queue S)))"
      using enqueue_ok [OF qi uuid http_enqueue(1), of now] http_enqueue(3) by auto
    show ?thesis
      by (rule queue_move_inv [OF inv e(1), of "{in_ticketId i}"])
        (use e http_enqueue(2) in \<open>auto simp: the_pool_def poll_participant_def\<close>)
  next
    case (http_poll now t)
    have "fst ` set (records q') = fst ` set (records (mm_queue S))" "everyone (q_pool q') = everyone (the_pool S)"
      by (simp_all add: http_poll poll_def Let_def the_pool_def split: option.splits)
    then show ?thesis
      by (intro queue_move_inv [OF inv, of q' "{}"]) (use poll_inv [OF qi, of now t] http_poll in auto)
  next
    case (http_cancel now t b)
    have q: "queue_inv uuid q'" "records q' = map_del t (records (mm_queue S))"
      using cancel_ok [OF qi, of now t] http_cancel by auto
    have "set (everyone (q_pool q')) \<subseteq> set (everyone (the_pool S))"
    proof (cases "map_get (records (mm_queue S)) t")
      case None
      then show ?thesis
        using http_cancel by (simp add: cancel_def the_pool_def)
    next
      case (Some a)
      then obtain s where s: "pool_remove now t (the_pool S) = Inr s" "q_pool q' = s"
        using http_cancel by (auto simp: cancel_def sum_bind_Inr the_pool_def)
      have "pool_inv uuid (the_pool S)"
        using qi by (simp add: queue_inv_def the_pool_def)
      then have "left_only uuid t (the_pool S) s"
        using remove_ok [of uuid "the_pool S" now t] s(1) by auto
      then show ?thesis
        using left_only_sub s(2) by blast
    qed
    then show ?thesis
      by (intro queue_move_inv [OF inv q(1), of "{}"]) (use q(2) in \<open>auto simp: AList.delete_eq\<close>)
  next
    case (http_abort now r n)
    have "queue_inv uuid q'" "set (records q') \<subseteq> set (records (mm_queue S))" "set (everyone (q_pool q')) \<subseteq> set (everyone (the_pool S))"
      using abort_ok [OF qi, of now r] http_abort by (auto simp: the_pool_def)
    then show ?thesis
      by (intro queue_move_inv [OF inv, of q' "{}"]) auto
  next
    case (http_tick now)
    have "queue_inv uuid q'" "set (records q') \<subseteq> set (records (mm_queue S))" "set (everyone (q_pool q')) \<subseteq> set (everyone (the_pool S))"
      using tick_inv [OF qi uuid, of now] http_tick by (auto simp: the_pool_def)
    then show ?thesis
      by (intro queue_move_inv [OF inv, of q' "{}"]) auto
  next
    case (http_outside w)
    then show ?thesis
      using world_server [OF inv, of w] by (simp add: with_pool_def the_pool_def)
  qed
qed

lemma server_run_inv:
  assumes "server_run version decode uuid available handle S" and uuid: "inj uuid"
  shows "server_inv uuid S"
  using assms(1)
proof (induction rule: server_run.induct)
  case (server_begins x)
  have "queue_inv uuid (empty_queue x)"
    by (rule queue_run_inv [OF begin_run uuid])
  then show ?case
    by (simp add: server_inv_def empty_server_def sessions_ok_def the_pool_def)
      (simp add: empty_queue_def empty_pool_def everyone_def waiting_def empty_store_def)
next
  case (server_connect S i c)
  then show ?case
    using connect_inv by blast
next
  case (server_info S body c)
  then show ?case
    using player_info_inv by blast
next
  case (server_auth S body c)
  then show ?case
    using auth_begins_inv by blast
next
  case (server_auth_ends S oc c S')
  then show ?case
    using auth_ends_ok [of uuid S oc c] by auto
next
  case (server_enter S now body c S')
  then show ?case
    using server_enter_ok [OF _ uuid, of S version now body c] by auto
next
  case (server_cancel S now body c S')
  then show ?case
    using cancel_session_ok [of uuid S now body c] by auto
next
  case (server_respond S accepts now body c S')
  then show ?case
    using server_respond_ok [OF _ uuid, of S decode accepts now body c] by auto
next
  case (server_closed S now c S')
  then show ?case
    using closed_ok [of uuid S now c] by auto
next
  case (server_http S q')
  then show ?case
    using http_inv [OF _ uuid] by blast
qed

end

subsection \<open>Properties\<close>

text \<open>C39. Nobody waits in the pool without having shown who they are: in every reachable state each socket participant,
  waiting or in a proposed match, belongs to a live session with the participant's socket id, which authenticated as
  the participant's user, has sent its player info, and is marked as queued.\<close>

theorem only_authenticated_sessions_are_queued:
  assumes "server_run version decode uuid available (queue_handle create spawn) S" and "inj uuid"
    and "p \<in> set (everyone (the_pool S))" and "presence p = Socket"
  shows "\<exists>ss. map_get (sessions S) (channel p) = Some ss \<and> socket_id ss = part_id p \<and> authenticated ss \<and>
    resolvedUserId ss = Some (user_id p) \<and> capturedPlayerInfoBody ss \<noteq> None \<and> queueState ss = QueuedState"
proof -
  have ok: "sessions_ok (sessions S) (records (mm_queue S)) (everyone (the_pool S))"
    using injected.server_run_inv [OF assms(1,2)] by (simp add: server_inv_def)
  obtain ss where ss: "map_get (sessions S) (channel p) = Some ss" "socket_id ss = part_id p"
      "resolvedUserId ss = Some (user_id p)" "queueState ss = QueuedState"
    using sessions_okD(3) [OF ok assms(3,4)] by blast
  then show ?thesis
    using sessions_okD(2) [OF ok ss(1)] by blast
qed

text \<open>Cancelling always works, and is never too late: in every reachable state an empty \<open>CANCEL\<close> of a live session
  is answered with \<open>cancelled\<close>, and afterwards the session is idle and the pool, pending matches included, holds no
  participant of it.\<close>

theorem cancelling_always_works:
  assumes "server_run version decode uuid available (queue_handle create spawn) S" and "inj uuid"
    and "map_get (sessions S) c = Some ss"
  shows "\<exists>S'. onCancel now [] c S = Inr S' \<and> sent S' = sent S @ [(c, StatusSent CancelledState 0 None)] \<and>
    map_get (sessions S') c = Some (ss\<lparr>queueState := IdleState\<rparr>) \<and> socket_id ss \<notin> part_id ` set (everyone (the_pool S'))"
  using cancel_session_ok [OF injected.server_run_inv [OF assms(1,2)], of now "[]" c] assms(3) by blast


text \<open>Two \<open>AUTH\<close> frames sent before the first is answered both pass the check.\<close>

lemma pipelined_authentication_throws:
  assumes "map_get (sessions S) c = Some ss" and "\<not> authenticated ss" and "parseCtosAuth body = Inr t" and "parseCtosAuth body' = Inr t'"
  shows "onAuth body c S = (True, S) \<and> onAuth body' c S = (True, S) \<and>
    (\<exists>S'. auth_ends (AuthAccepted u n) c S = Inr S' \<and> auth_ends (AuthAccepted u n') c S' = Inl AlreadyAuthenticatedError)"
  using assms by (simp add: onAuth_def auth_ends_def authenticate_def AList.update_conv')

subsection \<open>Witnesses\<close>

definition no_names :: "buffer \<Rightarrow> string" where
  "no_names b = ''''"

definition ana_connected :: "unit mm_server" where
  "ana_connected = onPlayerInfo [65] 3 (connect ''s'' 3 (empty_server ()))"

definition ana_known :: "unit mm_server" where
  "ana_known = (case auth_ends (AuthAccepted ''ana'' None) 3 ana_connected of Inr S \<Rightarrow> S | Inl e \<Rightarrow> ana_connected)"

definition ana_waits :: "unit mm_server" where
  "ana_waits = (case onEnter 5 (queue_pairing sample_uuid True) (queue_handle full_house idle_bot) 7 [2, 0, 5, 0] 3 ana_known of
     Inr S \<Rightarrow> S | Inl e \<Rightarrow> ana_known)"

lemma ana_waits_run: "server_run 5 no_names sample_uuid True (queue_handle full_house idle_bot) ana_waits"
proof -
  let ?run = "server_run 5 no_names sample_uuid True (queue_handle full_house idle_bot)"
  have "fresh_socket ''s'' 3 (empty_server ())"
    by (simp add: fresh_socket_def empty_server_def empty_queue_def)
  then have one: "?run ana_connected"
    unfolding ana_connected_def by (intro server_info server_connect server_begins)
  have two: "?run ana_known"
    using one server_auth_ends [OF one] by (simp add: ana_known_def split: sum.split)
  show ?thesis
    using two server_enter [OF two] by (simp add: ana_waits_def split: sum.split)
qed

lemma ana_waits_pool: "map part_id (everyone (the_pool ana_waits)) = [''s''] \<and> map presence (everyone (the_pool ana_waits)) = [Socket] \<and>
    map channel (everyone (the_pool ana_waits)) = [3] \<and> map_option socket_id (map_get (sessions ana_waits) 3) = Some ''s''"
  by code_simp

theorem only_authenticated_sessions_are_queued_witness:
  "\<exists>p ss. p \<in> set (everyone (the_pool ana_waits)) \<and> map_get (sessions ana_waits) (channel p) = Some ss \<and>
    authenticated ss \<and> resolvedUserId ss = Some (user_id p)"
proof -
  obtain p where p: "everyone (the_pool ana_waits) = [p]"
    using ana_waits_pool by (auto simp: map_eq_Cons_conv)
  then have "p \<in> set (everyone (the_pool ana_waits))" "presence p = Socket"
    using ana_waits_pool by simp_all
  with only_authenticated_sessions_are_queued [OF ana_waits_run inj_sample_uuid this] show ?thesis
    by blast
qed

theorem cancelling_always_works_witness:
  "\<exists>S'. onCancel 9 [] 3 ana_waits = Inr S' \<and> sent S' = sent ana_waits @ [(3, StatusSent CancelledState 0 None)] \<and>
    ''s'' \<notin> part_id ` set (everyone (the_pool S'))"
proof -
  obtain ss where ss: "map_get (sessions ana_waits) 3 = Some ss" "socket_id ss = ''s''"
    using ana_waits_pool by auto
  show ?thesis
    using cancelling_always_works [OF ana_waits_run inj_sample_uuid ss(1), of 9] ss(2) by auto
qed


end
