(* ===== verification/Spec2Isabelle.thy ===== *)
theory Spec2Isabelle
  imports MatchScore DeckBuild PoolProps LobbyProps RulesProps RatingsProps RankGroups LedgerProps SeatReturn DuelProps ShuffleDecks SessionProps
begin

text \<open>
  A verification library for Evolution Server, a duel server written in TypeScript (\<open>src/src\<close>). Players connect over
  TCP or WebSocket, meet in a lobby, in the ranked queue, or by a reservation made over HTTP, play matches of up to
  several duels on a third-party engine, and their results feed ratings and ladders.

  \<^bold>\<open>How the parts interact.\<close> A byte stream is cut into messages. A room is created from the options in its name and a
  ban list. Joiners are admitted by the league of the room or by its reservation, seated, and have their decks
  validated. When everyone is ready the match starts and passes through rock-paper-scissors, the choice of turn, the
  duel, and side decking, until it is decided, abandoned or awarded. Its published result is rated and credited. The
  queue pairs players, proposes matches and hands them to a handler that creates the room.

  \<^bold>\<open>Theories and sources\<close> (paths under \<open>src/src\<close>).
  \<^item> \<open>Prelude\<close>, \<open>Buffers\<close>, \<open>JsStrings\<close>: insertion-ordered maps and sets, steps that throw as sums, Node buffers as byte
    lists, JavaScript string operations on ASCII strings.
  \<^item> \<open>Framing\<close>: \<open>shared/messages/MessageProcessor.ts\<close> and its emitters, \<open>edopro/messages/JSONMessageProcessor.ts\<close>. The
    locale \<open>framing\<close> is proved once for any reader of a stream and interpreted on both: chunks do not matter.
  \<^item> \<open>BanLists\<close>, \<open>Decks\<close>, \<open>DeckBuild\<close>, \<open>ShuffleDecks\<close>: ban lists, their hashes and lookups, the chains of deck
    validation against a declarative legality, reading and side decking of decks, the seeded shuffle.
  \<^item> \<open>Rules\<close>, \<open>RulesProps\<close>: \<open>ygopro/room/domain/RuleMappings.ts\<close> and the creation of a room from its name.
  \<^item> \<open>Admission\<close>, \<open>Reserved\<close>, \<open>Seats\<close>, \<open>Lobby\<close>, \<open>LobbyLaws\<close>, \<open>LobbyProps\<close>: leagues and credentials, reservations and
    their sessions, the seats of a room, and the waiting state with its handlers; reachable lobbies by rule induction.
  \<^item> \<open>MatchScore\<close>, \<open>MatchLife\<close>, \<open>Phases\<close>, \<open>Dueling\<close>, \<open>PhaseLaws\<close>, \<open>PhaseProps\<close>, \<open>AfterDuel\<close>, \<open>SeatReturn\<close>: the score; the
    abstract machine of a match; every handler of the states after the lobby; the refinement of the machine by the
    rooms, and what follows from it for results, abandoned matches and reconnecting players.
  \<^item> \<open>CoreMessages\<close>, \<open>DuelClock\<close>, \<open>DuelCore\<close>, \<open>ClockProps\<close>, \<open>DuelProps\<close>: the clock of a duel and what the server does with
    the messages of the engine (\<open>ygopro/ocgcore-worker/ocgcore.ts\<close>, \<open>YGOProDuelingState.ts\<close>).
  \<^item> \<open>Pairing\<close>, \<open>PoolStore\<close>, \<open>Pool\<close>, \<open>PoolLaws\<close>, \<open>PoolOps\<close>, \<open>PoolTick\<close>, \<open>MatchHandlers\<close>, \<open>PoolProps\<close>, \<open>PoolWorld\<close>: the
    pairing policies, the store behind its port, the pool with its proposals, and the match handlers; the locales
    \<open>pool_store\<close>, \<open>pairing_policy\<close>, \<open>match_handler\<close>, \<open>ticking\<close> and \<open>world_law\<close> are the ports between them, each
    interpreted on the code's own implementations.
  \<^item> \<open>QueueProtocol\<close>, \<open>QueueFacade\<close>, \<open>QueueLaws\<close>, \<open>QueueProps\<close>, \<open>MatchSessions\<close>, \<open>SessionProps\<close>: the matchmaking messages,
    the queue of the HTTP clients (\<open>MatchmakingQueue.ts\<close>) and the sessions of the sockets over one pool.
  \<^item> \<open>Ratings\<close>, \<open>RatingsProps\<close>, \<open>RankGroups\<close>, \<open>Ledger\<close>, \<open>LedgerProps\<close>: Elo ratings and their replay, group ladders,
    the points ledger and its rebuilding from stored matches.

  \<^bold>\<open>State and operations.\<close> A class is a record, a handler one definition that returns the updated record, with every
  early return as a branch; a \<open>throw\<close> is \<open>None\<close> or \<open>Inl\<close>. Shared mutable objects are addresses into a list (the poll
  records of the queue). An async handler that awaits is split into the steps before and after it, so that other steps
  can come between; what runs under a mutex or synchronously is one step. Clock readings are arguments. Reachable
  states are inductive predicates with one clause per event, and invariants are proved by rule induction.

  \<^bold>\<open>What the lemmas show.\<close> \<open>*Laws\<close> and \<open>*Ops\<close> theories show that each operation keeps its invariant and what it changes;
  \<open>*Props\<close> theories state the properties of the component over its reachable states, each with a witness on a concrete
  state. The numbered texts are the properties of the manifest.

  \<^bold>\<open>Bounds and fuel.\<close> Two functions of the pool call each other: \<open>pool_add\<close> runs on one more unit of fuel than there are
  pending matches, and \<open>pool_add_fuel_enough\<close> shows that it never runs out, because an abandoned match leaves the book
  first. The bounded draw of the shuffle may loop for ever in principle and is a partial function whose result is
  characterised exactly. All other recursions have termination proofs. Words are 64 and 32 bits wide where the
  generator and the hashes wrap, sizes of messages 16 bits.

  \<^bold>\<open>Not modelled.\<close> The engine itself, its workers and the field queries it answers; the rooms of the other client
  (\<open>edopro/room\<close>), whose state machine has the same phases with its own core process; card and script resources, SQLite,
  PostgreSQL and Redis (their answers are parameters); HTTP and socket wiring, plugin events, logging, replay export and
  operator scripts. Frames sent to YGOPro clients are values, not bytes, but for the framing and matchmaking messages.
  The Elo formula is over real numbers where the code has doubles. Dashes in chat texts are written \<open>-\<close>. The file system
  and third-party parsers of ban lists and decks are parameters.
\<close>

end
